(* ===== verification/Prelude.thy ===== *)
theory Prelude
  imports
    Main
    "HOL-Library.Word"
    "HOL-Library.Char_ord"
    "HOL-Library.List_Lexorder"
    "HOL-Library.Product_Lexorder"
    "HOL-Library.Sublist"
    "HOL-Library.Multiset"
begin

unbundle bit_operations_syntax

text \<open>
  Shared vocabulary of the development: the machine integers of the Rust sources, Rust
  \<^verbatim>\<open>str\<close> operations on byte strings, results (\<open>'e + 'a\<close> with \<open>Inl\<close> the error), and the
  ordered maps that stand for \<^verbatim>\<open>BTreeMap\<close>.  A Rust \<^verbatim>\<open>String\<close> is the list of its UTF-8
  bytes (\<open>string\<close>, one \<open>char\<close> per byte), so \<open>length\<close> is Rust's \<^verbatim>\<open>len()\<close> and the order on
  strings is Rust's bytewise lexicographic order.
\<close>

section \<open>Machine integers and bytes\<close>

type_synonym u8 = "8 word"
type_synonym u16 = "16 word"
type_synonym u32 = "32 word"
type_synonym u64 = "64 word"
type_synonym bytes = "u8 list"

named_theorems str_simps \<open>characteristic equations of the string operations\<close>
named_theorems bt_simps \<open>equations of the ordered-map operations\<close>
named_theorems wire_simps \<open>lengths and shapes of wire encodings\<close>

text \<open>\<^verbatim>\<open>str::as_bytes\<close>.\<close>

definition str_bytes :: "string \<Rightarrow> bytes" where
  "str_bytes s = map of_char s"

text \<open>\<^verbatim>\<open>to_be_bytes\<close> of an unsigned integer that fits \<open>k\<close> bytes.\<close>

fun be_bytes :: "nat \<Rightarrow> nat \<Rightarrow> bytes" where
  "be_bytes 0 n = []"
| "be_bytes (Suc k) n = be_bytes k (n div 256) @ [word_of_nat (n mod 256)]"

text \<open>\<^verbatim>\<open>from_be_bytes\<close>.\<close>

definition from_be_bytes :: "bytes \<Rightarrow> nat" where
  "from_be_bytes bs = foldl (\<lambda>acc b. acc * 256 + unat b) 0 bs"

section \<open>Strings\<close>

definition starts_with :: "string \<Rightarrow> string \<Rightarrow> bool" where
  "starts_with s p \<longleftrightarrow> prefix p s"

definition ends_with :: "string \<Rightarrow> string \<Rightarrow> bool" where
  "ends_with s p \<longleftrightarrow> suffix p s"

definition strip_prefix :: "string \<Rightarrow> string \<Rightarrow> string option" where
  "strip_prefix p s = (if prefix p s then Some (drop (length p) s) else None)"

definition strip_suffix :: "string \<Rightarrow> string \<Rightarrow> string option" where
  "strip_suffix p s = (if suffix p s then Some (take (length s - length p) s) else None)"

text \<open>\<^verbatim>\<open>s.find(c)\<close> together with the slices before and after the hit.\<close>

fun split_once :: "char \<Rightarrow> string \<Rightarrow> (string \<times> string) option" where
  "split_once c [] = None"
| "split_once c (x # xs) =
     (if x = c then Some ([], xs)
      else map_option (\<lambda>(a, b). (x # a, b)) (split_once c xs))"

text \<open>\<^verbatim>\<open>s.contains(sub)\<close> for a string pattern.\<close>

fun str_contains :: "string \<Rightarrow> string \<Rightarrow> bool" where
  "str_contains sub [] \<longleftrightarrow> sub = []"
| "str_contains sub (x # xs) \<longleftrightarrow> prefix sub (x # xs) \<or> str_contains sub xs"

text \<open>\<^verbatim>\<open>s.split(c)\<close>: the pieces between the separators, always at least one.\<close>

fun str_split :: "char \<Rightarrow> string \<Rightarrow> string list" where
  "str_split c [] = [[]]"
| "str_split c (x # xs) =
     (if x = c then [] # str_split c xs
      else (case str_split c xs of [] \<Rightarrow> [[x]] | y # ys \<Rightarrow> (x # y) # ys))"

lemma strip_prefix_Some [str_simps]: "strip_prefix p s = Some r \<longleftrightarrow> s = p @ r"
  by (auto simp: strip_prefix_def prefix_def)

lemma strip_prefix_None [str_simps]: "strip_prefix p s = None \<longleftrightarrow> \<not> prefix p s"
  by (auto simp: strip_prefix_def)

lemma strip_prefix_append [simp]: "strip_prefix p (p @ r) = Some r"
  by (simp add: strip_prefix_Some)

lemma strip_suffix_Some [str_simps]: "strip_suffix p s = Some r \<longleftrightarrow> s = r @ p"
  by (auto simp: strip_suffix_def suffix_def)

lemma strip_suffix_None [str_simps]: "strip_suffix p s = None \<longleftrightarrow> \<not> suffix p s"
  by (auto simp: strip_suffix_def)

lemma split_once_Some [str_simps]:
  "split_once c s = Some (a, b) \<longleftrightarrow> s = a @ c # b \<and> c \<notin> set a"
proof (induction s arbitrary: a)
  case Nil
  then show ?case by simp
next
  case (Cons x xs)
  show ?case
  proof (cases a)
    case Nil
    then show ?thesis by auto
  next
    case (Cons y ys)
    with Cons.IH [of ys] show ?thesis by auto
  qed
qed

lemma split_once_None [str_simps]: "split_once c s = None \<longleftrightarrow> c \<notin> set s"
  by (induction s) auto

lemma split_once_append [simp]: "c \<notin> set a \<Longrightarrow> split_once c (a @ c # b) = Some (a, b)"
  by (simp add: split_once_Some)

lemma split_unique:
  "(c::char) \<notin> set a \<Longrightarrow> c \<notin> set a' \<Longrightarrow> a @ c # b = a' @ c # b' \<longleftrightarrow> a = a' \<and> b = b'"
  by (metis option.inject prod.inject split_once_append)

lemma str_contains_iff [str_simps]: "str_contains sub s \<longleftrightarrow> (\<exists>a b. s = a @ sub @ b)"
proof (induction s)
  case Nil
  then show ?case by auto
next
  case (Cons x xs)
  show ?case
  proof
    assume "str_contains sub (x # xs)"
    then consider (here) "prefix sub (x # xs)" | (later) "str_contains sub xs" by auto
    then show "\<exists>a b. x # xs = a @ sub @ b"
    proof cases
      case here
      then obtain b where "x # xs = [] @ sub @ b" by (auto simp: prefix_def)
      then show ?thesis by blast
    next
      case later
      then obtain a b where "xs = a @ sub @ b" using Cons.IH by auto
      then have "x # xs = (x # a) @ sub @ b" by simp
      then show ?thesis by blast
    qed
  next
    assume "\<exists>a b. x # xs = a @ sub @ b"
    then obtain a b where e: "x # xs = a @ sub @ b" by blast
    show "str_contains sub (x # xs)"
    proof (cases a)
      case Nil
      with e have "prefix sub (x # xs)" by (auto simp: prefix_def)
      then show ?thesis by simp
    next
      case (Cons y ys)
      with e have "xs = ys @ sub @ b" by simp
      then show ?thesis using Cons.IH by auto
    qed
  qed
qed

lemma unat_of_char [simp]: "unat (of_char c :: u8) = of_char c"
proof -
  have "unat (of_nat (of_char c) :: u8) = of_char c"
    by (simp only: unat_of_nat) simp
  then show ?thesis by (simp add: of_nat_of_char)
qed

lemma of_char_byte_inject [simp]: "(of_char c :: u8) = of_char d \<longleftrightarrow> c = d"
proof
  assume "(of_char c :: u8) = of_char d"
  then have "unat (of_char c :: u8) = unat (of_char d :: u8)" by simp
  then show "c = d" by simp
qed simp

lemma str_bytes_inject [simp]: "str_bytes s = str_bytes t \<longleftrightarrow> s = t"
  by (auto simp: str_bytes_def inj_map_eq_map inj_def)

lemma length_str_bytes [simp]: "length (str_bytes s) = length s"
  by (simp add: str_bytes_def)

lemma length_be_bytes [simp]: "length (be_bytes k n) = k"
  by (induction k arbitrary: n) auto

lemma be_bytes_numeral:
  "be_bytes (numeral k) n = be_bytes (pred_numeral k) (n div 256) @ [word_of_nat (n mod 256)]"
  by (simp only: numeral_eq_Suc [of k] be_bytes.simps)

lemma from_be_bytes_snoc: "from_be_bytes (bs @ [b]) = from_be_bytes bs * 256 + unat b"
  by (simp add: from_be_bytes_def)

lemma from_be_bytes_be_bytes: "n < 256 ^ k \<Longrightarrow> from_be_bytes (be_bytes k n) = n"
proof (induction k arbitrary: n)
  case 0
  then show ?case by (simp add: from_be_bytes_def)
next
  case (Suc k)
  then have "n div 256 < 256 ^ k" by (simp add: less_mult_imp_div_less mult.commute)
  with Suc.IH show ?case by (simp add: from_be_bytes_snoc unat_of_nat)
qed

lemma be_bytes_inject:
  "m < 256 ^ k \<Longrightarrow> n < 256 ^ k \<Longrightarrow> be_bytes k m = be_bytes k n \<longleftrightarrow> m = n"
  by (metis from_be_bytes_be_bytes)

lemma from_be_bytes_bound: "from_be_bytes bs < 256 ^ length bs"
proof (induction bs rule: rev_induct)
  case Nil
  then show ?case by (simp add: from_be_bytes_def)
next
  case (snoc b bs)
  have "unat b < 256" using unsigned_less [of b] by simp
  with snoc show ?case by (simp add: from_be_bytes_snoc)
qed

section \<open>Results\<close>

text \<open>The early returns of Rust: \<open>and_then\<close> is the operator \<^verbatim>\<open>?\<close>, \<open>ensure\<close> a guard, \<open>ok_or\<close> and
  \<open>map_err\<close> the conversions of the same names.\<close>

definition and_then :: "'e + 'a \<Rightarrow> ('a \<Rightarrow> 'e + 'b) \<Rightarrow> 'e + 'b" where
  "and_then r k = (case r of Inl e \<Rightarrow> Inl e | Inr a \<Rightarrow> k a)"

definition ensure :: "bool \<Rightarrow> 'e \<Rightarrow> 'e + unit" where
  "ensure ok e = (if ok then Inr () else Inl e)"

definition ok_or :: "'a option \<Rightarrow> 'e \<Rightarrow> 'e + 'a" where
  "ok_or x e = (case x of None \<Rightarrow> Inl e | Some a \<Rightarrow> Inr a)"

definition map_err :: "('d \<Rightarrow> 'e) \<Rightarrow> 'd + 'a \<Rightarrow> 'e + 'a" where
  "map_err f r = (case r of Inl d \<Rightarrow> Inl (f d) | Inr a \<Rightarrow> Inr a)"

lemma result_simps [simp]:
  "and_then r k = Inr b \<longleftrightarrow> (\<exists>a. r = Inr a \<and> k a = Inr b)"
  "ensure ok e = Inr u \<longleftrightarrow> ok"
  "ok_or x e = Inr a \<longleftrightarrow> x = Some a"
  "map_err f s = Inr a' \<longleftrightarrow> s = Inr a'"
  by (simp_all add: and_then_def ensure_def ok_or_def map_err_def split: sum.splits option.splits)

lemma result_eval [simp]:
  "and_then (Inl e) k = Inl e" "and_then (Inr a) k = k a" "ensure True e = Inr ()" "ensure False e = Inl e"
  "ok_or None e = Inl e" "ok_or (Some a) e = Inr a" "map_err f (Inl d) = Inl (f d)" "map_err f (Inr a) = Inr a"
  by (simp_all add: and_then_def ensure_def ok_or_def map_err_def)

text \<open>A loop over a list that stops at the first error.\<close>

fun for_each :: "('a \<Rightarrow> 'e + unit) \<Rightarrow> 'a list \<Rightarrow> 'e + unit" where
  "for_each f [] = Inr ()"
| "for_each f (x # xs) = and_then (f x) (\<lambda>_. for_each f xs)"

lemma for_each_Inr [simp]: "for_each f xs = Inr u \<longleftrightarrow> (\<forall>x \<in> set xs. f x = Inr ())"
  by (induction xs) auto

section \<open>Ordered maps\<close>

text \<open>
  A \<^verbatim>\<open>BTreeMap\<close> is the association list of its entries in key order; \<open>bt_wf\<close> is its
  representation invariant, \<open>map_of\<close> its lookup, and iteration is the list itself.
\<close>

type_synonym ('k, 'v) btree = "('k \<times> 'v) list"

definition bt_wf :: "('k::linorder, 'v) btree \<Rightarrow> bool" where
  "bt_wf m \<longleftrightarrow> sorted_wrt (<) (map fst m)"

fun bt_insert :: "'k::linorder \<Rightarrow> 'v \<Rightarrow> ('k, 'v) btree \<Rightarrow> ('k, 'v) btree" where
  "bt_insert k v [] = [(k, v)]"
| "bt_insert k v ((k', v') # m) =
     (if k < k' then (k, v) # (k', v') # m
      else if k = k' then (k, v) # m
      else (k', v') # bt_insert k v m)"

fun bt_remove :: "'k::linorder \<Rightarrow> ('k, 'v) btree \<Rightarrow> ('k, 'v) btree" where
  "bt_remove k [] = []"
| "bt_remove k ((k', v') # m) = (if k = k' then m else (k', v') # bt_remove k m)"

lemma bt_wf_Nil [simp]: "bt_wf []"
  by (simp add: bt_wf_def)

lemma bt_wf_Cons: "bt_wf ((k, v) # m) \<longleftrightarrow> (\<forall>k' \<in> fst ` set m. k < k') \<and> bt_wf m"
  by (auto simp: bt_wf_def)

lemma bt_wf_distinct: "bt_wf m \<Longrightarrow> distinct (map fst m)"
  by (simp add: bt_wf_def strict_sorted_iff)

lemma keys_bt_insert [bt_simps]: "fst ` set (bt_insert k v m) = insert k (fst ` set m)"
proof (induction m)
  case (Cons e m)
  then show ?case by (cases e) auto
qed simp

lemma bt_wf_insert [simp]: "bt_wf m \<Longrightarrow> bt_wf (bt_insert k v m)"
proof (induction m)
  case Nil
  then show ?case by (simp add: bt_wf_def)
next
  case (Cons e m)
  obtain k' v' where e: "e = (k', v')" by (cases e)
  from Cons have wf: "bt_wf m" and lo: "\<forall>x \<in> fst ` set m. k' < x" and
    ih: "bt_wf (bt_insert k v m)"
    by (simp_all add: e bt_wf_Cons)
  consider (less) "k < k'" | (eq) "k = k'" | (gt) "k' < k" by fastforce
  then show ?case
  proof cases
    case less
    with lo have "\<forall>x \<in> fst ` set m. k < x" by force
    with less lo wf show ?thesis by (simp add: e bt_wf_Cons)
  next
    case eq
    with lo wf show ?thesis by (simp add: e bt_wf_Cons)
  next
    case gt
    then have "\<forall>x \<in> fst ` set (bt_insert k v m). k' < x"
      using lo by (simp add: keys_bt_insert)
    moreover have "bt_insert k v (e # m) = e # bt_insert k v m"
      using gt by (auto simp: e)
    ultimately show ?thesis using ih by (simp add: e bt_wf_Cons)
  qed
qed

lemma bt_get_insert [bt_simps]:
  "bt_wf m \<Longrightarrow> map_of (bt_insert k v m) = (map_of m)(k \<mapsto> v)"
proof (induction m)
  case Nil
  then show ?case by (simp add: fun_eq_iff)
next
  case (Cons e m)
  obtain k' v' where e: "e = (k', v')" by (cases e)
  have "k < k' \<Longrightarrow> map_of m k = None"
    using Cons.prems e by (force simp: bt_wf_Cons map_of_eq_None_iff)
  with Cons e show ?case by (auto simp: bt_wf_Cons fun_eq_iff)
qed

lemma set_bt_remove_subset: "set (bt_remove k m) \<subseteq> set m"
  by (induction k m rule: bt_remove.induct) auto

lemma bt_wf_remove [simp]: "bt_wf m \<Longrightarrow> bt_wf (bt_remove k m)"
proof (induction m)
  case (Cons e m)
  then show ?case
    using set_bt_remove_subset [of k m] by (cases e) (auto simp: bt_wf_Cons)
qed simp

lemma bt_get_remove [bt_simps]:
  "bt_wf m \<Longrightarrow> map_of (bt_remove k m) = (map_of m)(k := None)"
proof (induction m)
  case Nil
  then show ?case by (simp add: fun_eq_iff)
next
  case (Cons e m)
  obtain k' v' where e: "e = (k', v')" by (cases e)
  have "map_of m k' = None"
    using Cons.prems e by (force simp: bt_wf_Cons map_of_eq_None_iff)
  with Cons e show ?case by (auto simp: bt_wf_Cons fun_eq_iff)
qed

lemma bt_ext: "bt_wf m \<Longrightarrow> bt_wf m' \<Longrightarrow> map_of m = map_of m' \<Longrightarrow> m = m'"
proof -
  assume wf: "bt_wf m" "bt_wf m'" and eq: "map_of m = map_of m'"
  have d: "distinct (map fst m)" "distinct (map fst m')"
    using wf by (simp_all add: bt_wf_distinct)
  have st: "set m = set m'"
    using map_of_inject_set [OF d] eq by simp
  have "inj_on fst (set m \<union> set m')"
    using d(1) st by (simp add: distinct_map)
  moreover have "sorted (map fst m)" "sorted (map fst m')"
    using wf by (simp_all add: bt_wf_def strict_sorted_iff)
  ultimately show "m = m'"
    using d st by (intro map_sorted_distinct_set_unique [of fst]) auto
qed

lemma bt_insert_commute:
  "bt_wf m \<Longrightarrow> k \<noteq> k' \<Longrightarrow>
   bt_insert k v (bt_insert k' v' m) = bt_insert k' v' (bt_insert k v m)"
  by (rule bt_ext) (auto simp: bt_simps fun_upd_twist)

text \<open>The interface the components rely on: finite maps with an ordered iteration.\<close>

locale ordered_map =
  fixes empty :: "'m"
    and insert_op :: "'k \<Rightarrow> 'v \<Rightarrow> 'm \<Rightarrow> 'm"
    and remove_op :: "'k \<Rightarrow> 'm \<Rightarrow> 'm"
    and get :: "'m \<Rightarrow> 'k \<Rightarrow> 'v option"
    and wf :: "'m \<Rightarrow> bool"
  assumes wf_empty: "wf empty"
    and wf_insert: "wf m \<Longrightarrow> wf (insert_op k v m)"
    and wf_remove: "wf m \<Longrightarrow> wf (remove_op k m)"
    and get_empty: "get empty = Map.empty"
    and get_insert: "wf m \<Longrightarrow> get (insert_op k v m) = (get m)(k \<mapsto> v)"
    and get_remove: "wf m \<Longrightarrow> get (remove_op k m) = (get m)(k := None)"
    and extensional: "wf m \<Longrightarrow> wf m' \<Longrightarrow> get m = get m' \<Longrightarrow> m = m'"
begin

text \<open>Folding entries into a map: the last entry of a key wins.\<close>

lemma fold_insert_wf: "wf m \<Longrightarrow> wf (fold (\<lambda>(k, v). insert_op k v) kvs m)"
  by (induction kvs arbitrary: m) (auto simp: wf_insert split: prod.splits)

lemma fold_insert_get:
  "wf m \<Longrightarrow> get (fold (\<lambda>(k, v). insert_op k v) kvs m) = get m ++ map_of (rev kvs)"
proof (induction kvs arbitrary: m)
  case Nil
  then show ?case by simp
next
  case (Cons e kvs)
  then show ?case
    by (cases e) (auto simp: wf_insert get_insert fun_eq_iff map_add_def split: option.splits)
qed

lemma insert_idem: "wf m \<Longrightarrow> insert_op k v (insert_op k w m) = insert_op k v m"
  by (rule extensional) (simp_all add: wf_insert get_insert)

lemma remove_absent: "wf m \<Longrightarrow> get m k = None \<Longrightarrow> remove_op k m = m"
  by (rule extensional) (auto simp: wf_remove get_remove fun_upd_idem)

lemma remove_insert_fresh:
  "wf m \<Longrightarrow> get m k = None \<Longrightarrow> remove_op k (insert_op k v m) = m"
  by (rule extensional) (auto simp: wf_remove wf_insert get_remove get_insert fun_upd_idem)

end

interpretation bt: ordered_map "[]" bt_insert bt_remove map_of bt_wf
  by unfold_locales (auto simp: bt_simps intro: bt_ext)

end
