(* ===== verification/Ecf.thy ===== *)
theory Ecf
  imports Prelude
begin

text \<open>
  The Entity Canonical Form encoder (\<^verbatim>\<open>core/ecf/src/encoder.rs\<close>) and the value helpers
  (\<^verbatim>\<open>core/ecf/src/value.rs\<close>).  The functions that append to an output buffer return the
  bytes they append.  Floats are IEEE 754 bit patterns (\<^verbatim>\<open>f64::to_bits\<close>); the few float
  operations the encoder uses (comparison, \<^verbatim>\<open>as f32\<close>, \<^verbatim>\<open>as f64\<close>, scaling by a power of two)
  are written out on them.  The main results: encodings are self-delimiting, two values
  have the same encoding exactly when their canonical forms agree, and the map encoding
  does not depend on the order of the entries.
\<close>

section \<open>Values\<close>

datatype Value =
    VNull
  | VBool bool
  | VInteger int
  | VFloat u64
  | VBytes bytes
  | VText string
  | VArray "Value list"
  | VMap "(Value \<times> Value) list"
  | VTag u64 Value

text \<open>\<^verbatim>\<open>u64::try_from\<close> and \<^verbatim>\<open>i64::try_from\<close> of a CBOR integer.\<close>

definition try_u64 :: "int \<Rightarrow> u64 option" where
  "try_u64 i = (if 0 \<le> i \<and> i < 2 ^ 64 then Some (word_of_int i) else None)"

definition try_i64 :: "int \<Rightarrow> int option" where
  "try_i64 i = (if - (2 ^ 63) \<le> i \<and> i < 2 ^ 63 then Some i else None)"

definition text_val :: "string \<Rightarrow> Value" where
  "text_val s = VText s"

text \<open>\<open>integer n\<close> takes an \<^verbatim>\<open>i64\<close>: \<open>as_i64\<close> is the cast \<^verbatim>\<open>as i64\<close> at its call sites.\<close>

definition as_i64 :: "int \<Rightarrow> int" where
  "as_i64 n = sint (word_of_int n :: u64)"

definition integer :: "int \<Rightarrow> Value" where
  "integer n = VInteger n"

definition uinteger :: "u64 \<Rightarrow> Value" where
  "uinteger n = VInteger (uint n)"

definition bool_val :: "bool \<Rightarrow> Value" where
  "bool_val b = VBool b"

fun map_get :: "(Value \<times> Value) list \<Rightarrow> string \<Rightarrow> Value option" where
  "map_get [] key = None"
| "map_get ((k, v) # rest) key =
     (case k of VText s \<Rightarrow> if s = key then Some v else map_get rest key
      | _ \<Rightarrow> map_get rest key)"

definition value_get :: "Value \<Rightarrow> string \<Rightarrow> Value option" where
  "value_get self key = (case self of VMap m \<Rightarrow> map_get m key | _ \<Rightarrow> None)"

definition as_str :: "Value \<Rightarrow> string option" where
  "as_str self = (case self of VText s \<Rightarrow> Some s | _ \<Rightarrow> None)"

definition as_u64 :: "Value \<Rightarrow> u64 option" where
  "as_u64 self = (case self of VInteger i \<Rightarrow> try_u64 i | _ \<Rightarrow> None)"

definition value_as_i64 :: "Value \<Rightarrow> int option" where
  "value_as_i64 self = (case self of VInteger i \<Rightarrow> try_i64 i | _ \<Rightarrow> None)"

definition as_bool_val :: "Value \<Rightarrow> bool option" where
  "as_bool_val self = (case self of VBool b \<Rightarrow> Some b | _ \<Rightarrow> None)"

definition as_array :: "Value \<Rightarrow> Value list option" where
  "as_array self = (case self of VArray a \<Rightarrow> Some a | _ \<Rightarrow> None)"

definition as_bytes :: "Value \<Rightarrow> bytes option" where
  "as_bytes self = (case self of VBytes b \<Rightarrow> Some b | _ \<Rightarrow> None)"

definition as_map :: "Value \<Rightarrow> (Value \<times> Value) list option" where
  "as_map self = (case self of VMap m \<Rightarrow> Some m | _ \<Rightarrow> None)"

definition as_integer :: "Value \<Rightarrow> int option" where
  "as_integer self = (case self of VInteger i \<Rightarrow> Some i | _ \<Rightarrow> None)"

definition is_null :: "Value \<Rightarrow> bool" where
  "is_null self \<longleftrightarrow> self = VNull"

definition default_map :: Value where
  "default_map = VMap []"

definition map_from_iter :: "(string \<times> Value) list \<Rightarrow> Value" where
  "map_from_iter kvs = VMap (map (\<lambda>(k, v). (VText k, v)) kvs)"

definition map_insert :: "Value \<Rightarrow> string \<Rightarrow> Value \<Rightarrow> Value" where
  "map_insert m key v =
     (case m of
        VMap es \<Rightarrow> VMap (filter (\<lambda>(k, _). k \<noteq> VText key) es @ [(VText key, v)])
      | _ \<Rightarrow> m)"

section \<open>IEEE 754 bit patterns\<close>

definition f64_sign_negative :: "u64 \<Rightarrow> bool" where
  "f64_sign_negative f \<longleftrightarrow> drop_bit 63 f = 1"

definition f64_is_zero :: "u64 \<Rightarrow> bool" where
  "f64_is_zero f \<longleftrightarrow> f = 0 \<or> f = 0x8000000000000000"

definition f64_is_infinite :: "u64 \<Rightarrow> bool" where
  "f64_is_infinite f \<longleftrightarrow> f = 0x7FF0000000000000 \<or> f = 0xFFF0000000000000"

definition f64_is_nan :: "u64 \<Rightarrow> bool" where
  "f64_is_nan f \<longleftrightarrow> drop_bit 52 f AND 0x7FF = 0x7FF \<and> f AND 0xFFFFFFFFFFFFF \<noteq> 0"

text \<open>The float comparison \<^verbatim>\<open>==\<close>.\<close>

definition f64_eq :: "u64 \<Rightarrow> u64 \<Rightarrow> bool" where
  "f64_eq a b \<longleftrightarrow> \<not> f64_is_nan a \<and> \<not> f64_is_nan b \<and>
     (a = b \<or> f64_is_zero a \<and> f64_is_zero b)"

fun log2_floor :: "nat \<Rightarrow> nat" where
  "log2_floor n = (if n \<le> 1 then 0 else Suc (log2_floor (n div 2)))"

declare log2_floor.simps [simp del]

text \<open>The bits of \<open>m * 2 ^ s\<close> for \<open>0 < m\<close> in the normal range of \<^verbatim>\<open>f64\<close>.\<close>

definition f64_scaled :: "nat \<Rightarrow> int \<Rightarrow> u64" where
  "f64_scaled m s =
     (let k = log2_floor m
      in word_of_nat (nat (1023 + s + int k) * 2 ^ 52 + (m - 2 ^ k) * 2 ^ (52 - k)))"

text \<open>Round to nearest, ties to even, of \<open>m / 2 ^ s\<close>.\<close>

definition round_half_even :: "nat \<Rightarrow> nat \<Rightarrow> nat" where
  "round_half_even m s =
     (let q = m div 2 ^ s; r = m mod 2 ^ s
      in if 2 * r > 2 ^ s \<or> 2 * r = 2 ^ s \<and> odd q then Suc q else q)"

text \<open>The cast \<^verbatim>\<open>f as f32\<close>, to the bits of the result.\<close>

definition f64_to_f32 :: "u64 \<Rightarrow> u32" where
  "f64_to_f32 f =
     (let sign = (if f64_sign_negative f then 2 ^ 31 else 0);
          e = unat (drop_bit 52 f AND 0x7FF);
          frac = unat (f AND 0xFFFFFFFFFFFFF);
          mag =
            (if e = 0x7FF then (if frac = 0 then 0x7F800000 else 0x7FC00000)
             else
               let m = (if e = 0 then frac else frac + 2 ^ 52);
                   e' = int (if e = 0 then 1 else e) - 1023 + 127
               in if e' \<ge> 255 then 0x7F800000
                  else if e' \<ge> 1 then nat e' * 2 ^ 23 + round_half_even m 29 - 2 ^ 23
                  else round_half_even m (nat (30 - e')))
      in word_of_nat (sign + mag))"

text \<open>The cast \<^verbatim>\<open>single as f64\<close>.\<close>

definition f32_to_f64 :: "u32 \<Rightarrow> u64" where
  "f32_to_f64 s =
     (let sign = (if drop_bit 31 s = 1 then 0x8000000000000000 else 0) :: u64;
          e = unat (drop_bit 23 s AND 0xFF);
          frac = unat (s AND 0x7FFFFF)
      in if e = 255 then sign OR 0x7FF0000000000000 OR word_of_nat (frac * 2 ^ 29)
         else if e = 0 then (if frac = 0 then sign else sign OR f64_scaled frac (-149))
         else sign OR word_of_nat ((e + 896) * 2 ^ 52 + frac * 2 ^ 29))"

definition f64_to_f16 :: "u64 \<Rightarrow> u16" where
  "f64_to_f16 bits =
     (let sign = ucast (drop_bit 63 bits AND 1) :: u16;
          e = uint (drop_bit 52 bits AND 0x7FF);
          frac = bits AND 0xFFFFFFFFFFFFF
      in if e = 0x7FF
         then (if frac = 0 then push_bit 15 sign OR 0x7C00 else push_bit 15 sign OR 0x7E00)
         else
           let new_exp = e - 1023 + 15
           in if new_exp \<ge> 31 then push_bit 15 sign OR 0x7C00
              else if new_exp \<le> 0
              then (if new_exp < -10 then push_bit 15 sign
                    else push_bit 15 sign OR
                      ucast (drop_bit (nat (1 - new_exp + 42)) (frac OR 0x10000000000000)))
              else push_bit 15 sign OR push_bit 10 (word_of_int new_exp) OR
                     ucast (drop_bit 42 frac))"

definition f16_to_f64 :: "u16 \<Rightarrow> u64" where
  "f16_to_f64 bits =
     (let sign = drop_bit 15 bits AND 1;
          e = drop_bit 10 bits AND 0x1F;
          frac = bits AND 0x3FF
      in if e = 0
         then (if frac = 0 then (if sign = 1 then 0x8000000000000000 else 0)
               else let v = f64_scaled (unat frac) (-24)
                    in if sign = 1 then v OR 0x8000000000000000 else v)
         else if e = 31
         then (if frac = 0
               then (if sign = 1 then 0xFFF0000000000000 else 0x7FF0000000000000)
               else 0x7FF8000000000000)
         else
           let exp64 = uint e - 15 + 1023;
               frac64 = push_bit 42 (ucast frac) :: u64
           in push_bit 63 (ucast sign) OR push_bit 52 (word_of_int exp64) OR frac64)"

definition try_encode_half :: "u64 \<Rightarrow> u16 option" where
  "try_encode_half f =
     (if f64_is_zero f then Some (if f64_sign_negative f then 0x8000 else 0)
      else if f64_is_nan f then Some 0x7E00
      else if f64_is_infinite f then Some (if \<not> f64_sign_negative f then 0x7C00 else 0xFC00)
      else
        let half = f64_to_f16 f
        in if f64_eq (f16_to_f64 half) f then Some half else None)"

section \<open>The encoder\<close>

definition MAJOR_UNSIGNED :: u8 where "MAJOR_UNSIGNED = push_bit 5 0"
definition MAJOR_NEGATIVE :: u8 where "MAJOR_NEGATIVE = push_bit 5 1"
definition MAJOR_BYTES :: u8 where "MAJOR_BYTES = push_bit 5 2"
definition MAJOR_TEXT :: u8 where "MAJOR_TEXT = push_bit 5 3"
definition MAJOR_ARRAY :: u8 where "MAJOR_ARRAY = push_bit 5 4"
definition MAJOR_MAP :: u8 where "MAJOR_MAP = push_bit 5 5"
definition MAJOR_SIMPLE :: u8 where "MAJOR_SIMPLE = push_bit 5 7"

definition SIMPLE_FALSE :: u8 where "SIMPLE_FALSE = MAJOR_SIMPLE OR 20"
definition SIMPLE_TRUE :: u8 where "SIMPLE_TRUE = MAJOR_SIMPLE OR 21"
definition SIMPLE_NULL :: u8 where "SIMPLE_NULL = MAJOR_SIMPLE OR 22"
definition FLOAT_HALF :: u8 where "FLOAT_HALF = MAJOR_SIMPLE OR 25"
definition FLOAT_SINGLE :: u8 where "FLOAT_SINGLE = MAJOR_SIMPLE OR 26"
definition FLOAT_DOUBLE :: u8 where "FLOAT_DOUBLE = MAJOR_SIMPLE OR 27"

definition encode_head :: "u8 \<Rightarrow> u64 \<Rightarrow> bytes" where
  "encode_head major v =
     (if v < 24 then [major OR ucast v]
      else if v \<le> 0xFF then [major OR 24, ucast v]
      else if v \<le> 0xFFFF then (major OR 25) # be_bytes 2 (unat (ucast v :: u16))
      else if v \<le> 0xFFFFFFFF then (major OR 26) # be_bytes 4 (unat (ucast v :: u32))
      else (major OR 27) # be_bytes 8 (unat v))"

definition encode_integer :: "int \<Rightarrow> bytes" where
  "encode_integer i =
     (case try_u64 i of
        Some u \<Rightarrow> encode_head MAJOR_UNSIGNED u
      | None \<Rightarrow>
          (case try_i64 i of
             Some n \<Rightarrow>
               if n \<ge> 0 then encode_head MAJOR_UNSIGNED (word_of_int n)
               else encode_head MAJOR_NEGATIVE (word_of_int (-1 - n))
           | None \<Rightarrow>
               if i \<ge> 0 then encode_head MAJOR_UNSIGNED (word_of_int i)
               else encode_head MAJOR_NEGATIVE (word_of_int (-1 - i))))"

definition encode_float :: "u64 \<Rightarrow> bytes" where
  "encode_float f =
     (case try_encode_half f of
        Some half_bits \<Rightarrow> FLOAT_HALF # be_bytes 2 (unat half_bits)
      | None \<Rightarrow>
          let single = f64_to_f32 f
          in if f64_eq (f32_to_f64 single) f then FLOAT_SINGLE # be_bytes 4 (unat single)
             else FLOAT_DOUBLE # be_bytes 8 (unat f))"

definition encode_cbor_text :: "string \<Rightarrow> bytes" where
  "encode_cbor_text s =
     encode_head MAJOR_TEXT (word_of_nat (length (str_bytes s))) @ str_bytes s"

definition encode_cbor_bstr :: "bytes \<Rightarrow> bytes" where
  "encode_cbor_bstr bs = encode_head MAJOR_BYTES (word_of_nat (length bs)) @ bs"

definition encode_cbor_uint :: "u64 \<Rightarrow> bytes" where
  "encode_cbor_uint v = encode_head MAJOR_UNSIGNED v"

text \<open>
  The entry order of \<^verbatim>\<open>encode_map\<close>: encoded key length first, then the key bytes.  The
  Rust code sorts pairs of encoded key and value and encodes the values afterwards; since
  the comparison only reads the key, encoding the values first gives the same bytes.
\<close>

definition entry_key :: "bytes \<times> bytes \<Rightarrow> nat \<times> bytes" where
  "entry_key e = (length (fst e), fst e)"

definition encode_entries :: "(bytes \<times> bytes) list \<Rightarrow> bytes" where
  "encode_entries es = concat (map (\<lambda>(k, v). k @ v) (sort_key entry_key es))"

lemma size_VArray_elem [termination_simp]: "x \<in> set arr \<Longrightarrow> size x < Suc (size_list size arr)"
  for x :: Value
  by (induction arr) auto

lemma size_VMap_entry:
  "e \<in> set m \<Longrightarrow> size (fst e) + size (snd e) < Suc (size_list (size_prod size size) m)"
  for m :: "(Value \<times> Value) list"
  by (induction m) auto

lemma size_VMap_elem [termination_simp]:
  assumes "e \<in> set (m :: (Value \<times> Value) list)"
  shows "size (fst e) < Suc (size_list (size_prod size size) m)"
    and "size (snd e) < Suc (size_list (size_prod size size) m)"
  using size_VMap_entry [OF assms] by simp_all

fun encode_value :: "Value \<Rightarrow> bytes" where
  "encode_value VNull = [SIMPLE_NULL]"
| "encode_value (VBool b) = [if b then SIMPLE_TRUE else SIMPLE_FALSE]"
| "encode_value (VInteger i) = encode_integer i"
| "encode_value (VFloat f) = encode_float f"
| "encode_value (VBytes b) = encode_cbor_bstr b"
| "encode_value (VText s) = encode_cbor_text s"
| "encode_value (VArray arr) =
     encode_head MAJOR_ARRAY (word_of_nat (length arr)) @ concat (map encode_value arr)"
| "encode_value (VMap m) =
     encode_head MAJOR_MAP (word_of_nat (length m)) @
     encode_entries (map (\<lambda>e. (encode_value (fst e), encode_value (snd e))) m)"
| "encode_value (VTag t inner) = encode_value inner"

definition to_ecf :: "Value \<Rightarrow> bytes" where
  "to_ecf v = encode_value v"

definition ecf_for_hash :: "string \<Rightarrow> bytes \<Rightarrow> bytes" where
  "ecf_for_hash entity_type data =
     [MAJOR_MAP OR 2] @ encode_cbor_text ''data'' @ data @
     encode_cbor_text ''type'' @ encode_cbor_text entity_type"

definition ecf_for_hash_value :: "string \<Rightarrow> Value \<Rightarrow> bytes" where
  "ecf_for_hash_value entity_type data = ecf_for_hash entity_type (to_ecf data)"

lemma major_values:
  "MAJOR_UNSIGNED = 0" "MAJOR_NEGATIVE = 32" "MAJOR_BYTES = 64" "MAJOR_TEXT = 96"
  "MAJOR_ARRAY = 128" "MAJOR_MAP = 160" "MAJOR_SIMPLE = 224"
  by (simp_all add: MAJOR_UNSIGNED_def MAJOR_NEGATIVE_def MAJOR_BYTES_def MAJOR_TEXT_def
      MAJOR_ARRAY_def MAJOR_MAP_def MAJOR_SIMPLE_def)

lemma simple_values:
  "SIMPLE_FALSE = 244" "SIMPLE_TRUE = 245" "SIMPLE_NULL = 246"
  "FLOAT_HALF = 249" "FLOAT_SINGLE = 250" "FLOAT_DOUBLE = 251"
  by (simp_all add: SIMPLE_FALSE_def SIMPLE_TRUE_def SIMPLE_NULL_def FLOAT_HALF_def
      FLOAT_SINGLE_def FLOAT_DOUBLE_def major_values)

section \<open>Self-delimiting encodings\<close>

definition majors :: "u8 set" where
  "majors = {MAJOR_UNSIGNED, MAJOR_NEGATIVE, MAJOR_BYTES, MAJOR_TEXT, MAJOR_ARRAY, MAJOR_MAP}"

definition head_info :: "u64 \<Rightarrow> u8" where
  "head_info v = (if v < 24 then ucast v else if v \<le> 0xFF then 24 else if v \<le> 0xFFFF then 25
     else if v \<le> 0xFFFFFFFF then 26 else 27)"

definition head_tail :: "u64 \<Rightarrow> bytes" where
  "head_tail v = (if v < 24 then [] else if v \<le> 0xFF then be_bytes 1 (unat v)
     else if v \<le> 0xFFFF then be_bytes 2 (unat v)
     else if v \<le> 0xFFFFFFFF then be_bytes 4 (unat v) else be_bytes 8 (unat v))"

lemma unat_ucast_small:
  "unat (v :: u64) < 2 ^ LENGTH('b::len) \<Longrightarrow> unat (ucast v :: 'b word) = unat v"
  by (simp add: unsigned_ucast_eq take_bit_nat_eq_self)

lemma encode_head_alt: "encode_head M v = (M OR head_info v) # head_tail v"
proof -
  have "v \<le> 0xFF \<Longrightarrow> unat v < 2 ^ 8"
    by (simp add: word_le_nat_alt)
  moreover have "v \<le> 0xFFFF \<Longrightarrow> unat (ucast v :: u16) = unat v"
    by (rule unat_ucast_small) (simp add: word_le_nat_alt)
  moreover have "v \<le> 0xFFFFFFFF \<Longrightarrow> unat (ucast v :: u32) = unat v"
    by (rule unat_ucast_small) (simp add: word_le_nat_alt)
  moreover have "(word_of_nat (unat v) :: u8) = ucast v"
    by simp
  ultimately show ?thesis
    by (simp add: encode_head_def head_info_def head_tail_def)
qed

lemma head_info_and: "head_info v AND 31 = head_info v"
proof -
  have "head_info v < 2 ^ 5"
  proof (cases "v < 24")
    case True
    then have "unat (ucast v :: u8) = unat v" 
      by (intro unat_ucast_small) (simp add: word_less_nat_alt)
    with True show ?thesis by (simp add: head_info_def word_less_nat_alt)
  next
    case False
    then show ?thesis by (simp add: head_info_def)
  qed
  then have "take_bit 5 (head_info v) = head_info v"
    by (simp add: less_mask_eq take_bit_eq_mask)
  then show ?thesis by (simp add: take_bit_eq_mask mask_eq_exp_minus_1)
qed

lemma major_or_inject:
  assumes "M \<in> majors" "N \<in> majors" "M OR head_info a = N OR head_info b"
  shows "M = N" "head_info a = head_info b"
proof -
  have z: "head_info v AND 224 = 0" for v
  proof -
    have "head_info v AND 224 = (head_info v AND 31) AND 224" by (simp add: head_info_and)
    also have "\<dots> = head_info v AND (31 AND 224)" by (simp only: and.assoc)
    finally show ?thesis by simp
  qed
  have m: "K AND 224 = K" "K AND 31 = 0" if "K \<in> majors" for K
    using that by (auto simp: majors_def major_values)
  from assms(3) have "(M OR head_info a) AND 224 = (N OR head_info b) AND 224" by simp
  then show "M = N" using assms(1,2) by (simp add: bit.conj_disj_distrib2 z m)
  from assms(3) have "(M OR head_info a) AND 31 = (N OR head_info b) AND 31" by simp
  then show "head_info a = head_info b"
    using assms(1,2) by (simp add: bit.conj_disj_distrib2 head_info_and m)
qed

lemma head_info_small: "unat (head_info v) < 24 \<longleftrightarrow> v < 24"
proof (cases "v < 24")
  case True
  then have "unat (ucast v :: u8) = unat v"
    by (intro unat_ucast_small) (simp add: word_less_nat_alt)
  with True show ?thesis by (simp add: head_info_def word_less_nat_alt)
next
  case False
  then show ?thesis by (simp add: head_info_def)
qed

lemma head_tail_inject:
  assumes info: "head_info a = head_info b" and tail: "head_tail a @ xs = head_tail b @ ys"
  shows "a = b \<and> xs = ys"
proof (cases "a < 24")
  case True
  with info have b: "b < 24" by (metis head_info_small)
  have "unat (ucast v :: u8) = unat v" if "v < 24" for v :: u64
    using that by (intro unat_ucast_small) (simp add: word_less_nat_alt)
  with True b info have "unat a = unat b" by (metis head_info_def)
  then have "a = b" by (rule word_unat_eq_iff [THEN iffD2])
  with True b tail show ?thesis by (simp add: head_tail_def)
next
  case False
  with info have b: "\<not> b < 24" by (metis head_info_small)
  have inj: "k > 0 \<Longrightarrow> unat a < 256 ^ k \<Longrightarrow> unat b < 256 ^ k \<Longrightarrow>
      be_bytes k (unat a) @ xs = be_bytes k (unat b) @ ys \<Longrightarrow> a = b \<and> xs = ys" for k
    by (simp add: be_bytes_inject word_unat_eq_iff)
  consider "a \<le> 0xFF" "b \<le> 0xFF"
    | "\<not> a \<le> 0xFF" "\<not> b \<le> 0xFF" "a \<le> 0xFFFF" "b \<le> 0xFFFF"
    | "\<not> a \<le> 0xFFFF" "\<not> b \<le> 0xFFFF" "a \<le> 0xFFFFFFFF" "b \<le> 0xFFFFFFFF"
    | "\<not> a \<le> 0xFFFFFFFF" "\<not> b \<le> 0xFFFFFFFF"
    using False b info by (auto simp: head_info_def split: if_splits)
  then show ?thesis
  proof cases
    case 1
    with False b tail show ?thesis
      by (intro inj [of 1]) (simp_all add: head_tail_def word_le_nat_alt)
  next
    case 2
    with False b tail show ?thesis
      by (intro inj [of 2]) (simp_all add: head_tail_def word_le_nat_alt)
  next
    case 3
    then have "\<not> a \<le> 0xFF" "\<not> b \<le> 0xFF" by (simp_all add: word_le_nat_alt)
    with 3 False b tail show ?thesis
      by (intro inj [of 4]) (simp_all add: head_tail_def word_le_nat_alt)
  next
    case 4
    then have "\<not> a \<le> 0xFF" "\<not> b \<le> 0xFF" "\<not> a \<le> 0xFFFF" "\<not> b \<le> 0xFFFF"
      by (simp_all add: word_le_nat_alt)
    moreover have "unat a < 256 ^ 8" "unat b < 256 ^ 8"
      using unsigned_less [of a] unsigned_less [of b] by simp_all
    ultimately show ?thesis using 4 False b tail
      by (intro inj [of 8]) (simp_all add: head_tail_def)
  qed
qed

lemma encode_head_inject:
  assumes "M \<in> majors" "N \<in> majors" "encode_head M a @ xs = encode_head N b @ ys"
  shows "M = N \<and> a = b \<and> xs = ys"
proof -
  from assms(3) have e: "M OR head_info a = N OR head_info b" "head_tail a @ xs = head_tail b @ ys"
    by (simp_all add: encode_head_alt)
  from major_or_inject [OF assms(1,2) e(1)] e(2) head_tail_inject show ?thesis by blast
qed


lemma encode_integer_head:
  "encode_integer i = (if 0 \<le> i then encode_head MAJOR_UNSIGNED (word_of_int i)
     else encode_head MAJOR_NEGATIVE (word_of_int (-1 - i)))"
  by (auto simp: encode_integer_def try_u64_def try_i64_def)

definition canon_float :: "u64 \<Rightarrow> u64" where
  "canon_float f = (if f64_is_nan f then 0x7FF8000000000000 else f)"

lemma half_specials:
  "f16_to_f64 0 = 0" "f16_to_f64 0x8000 = 0x8000000000000000"
  "f16_to_f64 0x7E00 = 0x7FF8000000000000"
  "f16_to_f64 0x7C00 = 0x7FF0000000000000" "f16_to_f64 0xFC00 = 0xFFF0000000000000"
  "f64_is_nan 0x7FF8000000000000"
  by (simp_all add: f16_to_f64_def f64_is_nan_def)

lemma zero_inf_sign:
  "f64_sign_negative 0x8000000000000000" "\<not> f64_sign_negative 0"
  "f64_sign_negative 0xFFF0000000000000" "\<not> f64_sign_negative 0x7FF0000000000000"
  by (simp_all add: f64_sign_negative_def)

lemma try_encode_half_canon:
  assumes "try_encode_half f = Some h"
  shows "canon_float f = canon_float (f16_to_f64 h)"
proof -
  consider "f64_is_zero f" | "\<not> f64_is_zero f" "f64_is_nan f"
    | "\<not> f64_is_zero f" "\<not> f64_is_nan f" "f64_is_infinite f"
    | "\<not> f64_is_zero f" "\<not> f64_is_nan f" "\<not> f64_is_infinite f" by blast
  then show ?thesis
  proof cases
    case 1
    with assms show ?thesis
      by (auto simp: try_encode_half_def f64_is_zero_def half_specials zero_inf_sign)
  next
    case 2
    with assms have "h = 0x7E00" by (simp add: try_encode_half_def)
    with 2 show ?thesis by (simp add: canon_float_def half_specials)
  next
    case 3
    with assms show ?thesis
      by (auto simp: try_encode_half_def f64_is_infinite_def half_specials zero_inf_sign)
  next
    case 4
    with assms have "f64_eq (f16_to_f64 h) f"
      by (auto simp: try_encode_half_def Let_def split: if_splits)
    with 4 show ?thesis by (auto simp: f64_eq_def)
  qed
qed

lemma encode_float_inject:
  assumes eq: "encode_float f @ xs = encode_float g @ ys"
  shows "canon_float f = canon_float g \<and> xs = ys"
proof -
  have half: "canon_float f = canon_float g \<and> xs = ys"
    if f: "try_encode_half f = Some h" for h
  proof -
    obtain h' where g: "try_encode_half g = Some h'"
      using eq f by (cases "try_encode_half g")
        (auto simp: encode_float_def Let_def simple_values split: if_splits)
    have "unat k < 256 ^ 2" for k :: u16 using unsigned_less [of k] by simp
    with eq f g have "h = h'" "xs = ys"
      by (simp_all add: encode_float_def be_bytes_inject word_unat_eq_iff)
    with f g show ?thesis using try_encode_half_canon by metis
  qed
  show ?thesis
  proof (cases "try_encode_half f")
    case (Some h)
    then show ?thesis by (rule half)
  next
    case None
    then have g: "try_encode_half g = None"
      using eq by (cases "try_encode_half g")
        (auto simp: encode_float_def Let_def simple_values split: if_splits)
    have b: "unat k < 256 ^ 4" "unat l < 256 ^ 8" for k :: u32 and l :: u64
      using unsigned_less [of k] unsigned_less [of l] by simp_all
    have nz: "\<not> f64_is_zero f" "\<not> f64_is_zero g"
      using None g by (auto simp: try_encode_half_def split: if_splits)
    show ?thesis
    proof (cases "f64_eq (f32_to_f64 (f64_to_f32 f)) f")
      case True
      then have t: "f64_eq (f32_to_f64 (f64_to_f32 g)) g"
        using eq None g
        by (auto simp: encode_float_def Let_def simple_values split: if_splits)
      with True None g eq b have "f64_to_f32 f = f64_to_f32 g" "xs = ys"
        by (simp_all add: encode_float_def be_bytes_inject word_unat_eq_iff)
      with True t nz show ?thesis by (auto simp: f64_eq_def)
    next
      case False
      then have "\<not> f64_eq (f32_to_f64 (f64_to_f32 g)) g"
        using eq None g
        by (auto simp: encode_float_def Let_def simple_values split: if_splits)
      with False None g eq b have "f = g \<and> xs = ys"
        by (simp add: encode_float_def be_bytes_inject word_unat_eq_iff)
      then show ?thesis by simp
    qed
  qed
qed

text \<open>
  Canonical values: no tags, canonical NaN, map entries in encoding order.  \<open>canon\<close> maps
  every value to the canonical value with the same encoding.
\<close>

definition key_order :: "Value \<times> Value \<Rightarrow> nat \<times> bytes" where
  "key_order e = (length (encode_value (fst e)), encode_value (fst e))"

fun canon :: "Value \<Rightarrow> Value" where
  "canon (VFloat f) = VFloat (canon_float f)"
| "canon (VArray arr) = VArray (map canon arr)"
| "canon (VMap m) = VMap (sort_key key_order (map (\<lambda>e. (canon (fst e), canon (snd e))) m))"
| "canon (VTag t inner) = canon inner"
| "canon v = v"

fun is_canon :: "Value \<Rightarrow> bool" where
  "is_canon (VFloat f) \<longleftrightarrow> canon_float f = f"
| "is_canon (VArray arr) \<longleftrightarrow> (\<forall>v \<in> set arr. is_canon v)"
| "is_canon (VMap m) \<longleftrightarrow>
     sorted (map key_order m) \<and> (\<forall>e \<in> set m. is_canon (fst e) \<and> is_canon (snd e))"
| "is_canon (VTag t inner) \<longleftrightarrow> False"
| "is_canon v \<longleftrightarrow> True"

text \<open>Values a Rust program can hold: \<^verbatim>\<open>Integer\<close> is a 65-bit range, lengths are \<^verbatim>\<open>usize\<close>.\<close>

fun ecf_wf :: "Value \<Rightarrow> bool" where
  "ecf_wf (VInteger i) \<longleftrightarrow> - (2 ^ 64) \<le> i \<and> i < 2 ^ 64"
| "ecf_wf (VBytes b) \<longleftrightarrow> length b < 2 ^ 64"
| "ecf_wf (VText s) \<longleftrightarrow> length s < 2 ^ 64"
| "ecf_wf (VArray arr) \<longleftrightarrow> length arr < 2 ^ 64 \<and> (\<forall>v \<in> set arr. ecf_wf v)"
| "ecf_wf (VMap m) \<longleftrightarrow>
     length m < 2 ^ 64 \<and> (\<forall>e \<in> set m. ecf_wf (fst e) \<and> ecf_wf (snd e))"
| "ecf_wf (VTag t inner) \<longleftrightarrow> ecf_wf inner"
| "ecf_wf v \<longleftrightarrow> True"

lemma concat_map_inject:
  assumes "length vs = length ws"
    and "\<And>v w xs ys. v \<in> set vs \<Longrightarrow> w \<in> set ws \<Longrightarrow> enc v @ xs = enc w @ ys \<Longrightarrow> v = w \<and> xs = ys"
    and "concat (map enc vs) @ xs = concat (map enc ws) @ ys"
  shows "vs = ws \<and> xs = ys"
  using assms
proof (induction vs ws rule: list_induct2)
  case Nil
  then show ?case by simp
next
  case (Cons v vs w ws)
  from Cons.prems(2) have "enc v @ (concat (map enc vs) @ xs) = enc w @ (concat (map enc ws) @ ys)"
    by simp
  from Cons.prems(1) [OF _ _ this] have
    e: "v = w" "concat (map enc vs) @ xs = concat (map enc ws) @ ys" by simp_all
  have "vs = ws \<and> xs = ys"
    by (rule Cons.IH [OF _ e(2)]) (rule Cons.prems(1); simp)
  with e show ?case by simp
qed

lemma encode_entries_sorted:
  "sorted (map key_order m) \<Longrightarrow>
   encode_entries (map (\<lambda>e. (encode_value (fst e), encode_value (snd e))) m) =
   concat (map (\<lambda>e. encode_value (fst e) @ encode_value (snd e)) m)"
proof -
  assume "sorted (map key_order m)"
  then have "sorted (map entry_key (map (\<lambda>e. (encode_value (fst e), encode_value (snd e))) m))"
    by (simp add: entry_key_def key_order_def [abs_def] comp_def)
  then show ?thesis
    by (simp add: encode_entries_def sort_key_id_if_sorted comp_def)
qed

fun major_of :: "Value \<Rightarrow> u8" where
  "major_of (VInteger i) = (if 0 \<le> i then MAJOR_UNSIGNED else MAJOR_NEGATIVE)"
| "major_of (VBytes b) = MAJOR_BYTES"
| "major_of (VText s) = MAJOR_TEXT"
| "major_of (VArray a) = MAJOR_ARRAY"
| "major_of (VMap m) = MAJOR_MAP"
| "major_of (VTag t v) = major_of v"
| "major_of v = MAJOR_SIMPLE"

lemma hd_encode_head: "M \<in> majors \<Longrightarrow> hd (encode_head M a @ xs) AND 224 = M"
proof -
  assume M: "M \<in> majors"
  have "head_info a AND 224 = (head_info a AND 31) AND 224" by (simp add: head_info_and)
  also have "\<dots> = head_info a AND (31 AND 224)" by (simp only: and.assoc)
  finally have "head_info a AND 224 = 0" by simp
  moreover have "M AND 224 = M" using M by (auto simp: majors_def major_values)
  ultimately show ?thesis by (simp add: encode_head_alt bit.conj_disj_distrib2)
qed

lemma encode_head_not_Nil [simp]: "encode_head M a \<noteq> []"
  by (simp add: encode_head_alt)

lemma hd_encode_value: "encode_value v \<noteq> [] \<and> hd (encode_value v) AND 224 = major_of v"
proof (induction v rule: encode_value.induct)
  case (4 f)
  then show ?case
    by (auto simp: encode_float_def Let_def simple_values major_values split: option.split)
next
  case (3 i)
  then show ?case
    using hd_encode_head [of MAJOR_UNSIGNED _ "[]"] hd_encode_head [of MAJOR_NEGATIVE _ "[]"]
    by (simp add: encode_integer_head majors_def)
qed (simp_all add: hd_encode_head encode_cbor_bstr_def encode_cbor_text_def
      simple_values major_values majors_def del: hd_append hd_append2)


lemma major_of_eq: "encode_value v @ xs = encode_value w @ ys \<Longrightarrow> major_of w = major_of v"
  using hd_encode_value [of v] hd_encode_value [of w] by (metis hd_append2)

lemma length_word_inject:
  "m < 2 ^ 64 \<Longrightarrow> n < 2 ^ 64 \<Longrightarrow> (word_of_nat m :: u64) = word_of_nat n \<longleftrightarrow> m = n"
  by (simp add: of_nat_inverse word_of_nat_eq_iff take_bit_nat_eq_self)

text \<open>A head that carries a length fixes the length, so the payload starts at the same byte.\<close>

lemma encode_len_inject:
  assumes "encode_head M (word_of_nat m) @ p = encode_head M (word_of_nat n) @ q"
    and "M \<in> majors" "m < 2 ^ 64" "n < 2 ^ 64"
  shows "m = n \<and> p = q"
  using encode_head_inject [OF assms(2,2,1)] length_word_inject [OF assms(3,4)] by blast

lemma encode_bstr_inject:
  "encode_cbor_bstr b @ xs = encode_cbor_bstr b' @ ys \<Longrightarrow>
   length b < 2 ^ 64 \<Longrightarrow> length b' < 2 ^ 64 \<Longrightarrow> b = b' \<and> xs = ys"
  using encode_len_inject [of MAJOR_BYTES "length b" "b @ xs" "length b'" "b' @ ys"]
  by (auto simp: encode_cbor_bstr_def majors_def)

lemma encode_text_inject:
  "encode_cbor_text s @ xs = encode_cbor_text s' @ ys \<Longrightarrow>
   length s < 2 ^ 64 \<Longrightarrow> length s' < 2 ^ 64 \<Longrightarrow> s = s' \<and> xs = ys"
  using encode_len_inject [of MAJOR_TEXT "length s" "str_bytes s @ xs" "length s'" "str_bytes s' @ ys"]
  by (auto simp: encode_cbor_text_def majors_def)

lemma int_word_inject:
  "0 \<le> i \<Longrightarrow> i < 2 ^ 64 \<Longrightarrow> 0 \<le> j \<Longrightarrow> j < 2 ^ 64 \<Longrightarrow>
   (word_of_int i :: u64) = word_of_int j \<longleftrightarrow> i = j"
  by (simp add: word_of_int_eq_iff take_bit_int_eq_self)

lemma encode_integer_inject:
  assumes eq: "encode_integer i @ xs = encode_integer j @ ys"
    and r: "- (2 ^ 64) \<le> i" "i < 2 ^ 64" "- (2 ^ 64) \<le> j" "j < 2 ^ 64"
  shows "i = j \<and> xs = ys"
proof -
  have "MAJOR_UNSIGNED \<in> majors" "MAJOR_NEGATIVE \<in> majors" "MAJOR_UNSIGNED \<noteq> MAJOR_NEGATIVE"
    by (simp_all add: majors_def major_values)
  with eq consider "0 \<le> i" "0 \<le> j" "(word_of_int i :: u64) = word_of_int j" "xs = ys"
    | "i < 0" "j < 0" "(word_of_int (-1 - i) :: u64) = word_of_int (-1 - j)" "xs = ys"
    by (auto simp del: of_int_diff simp: encode_integer_head not_le
        dest!: encode_head_inject [rotated 2] split: if_splits)
  then show ?thesis
  proof cases
    case 1
    then show ?thesis using r int_word_inject [of i j] by simp
  next
    case 2
    then show ?thesis using r int_word_inject [of "-1 - i" "-1 - j"] by simp
  qed
qed

text \<open>Which values can share a first byte: the same constructor, or one of the simple values.\<close>

lemma simple_shape:
  "major_of w = MAJOR_SIMPLE \<Longrightarrow> is_canon w \<Longrightarrow>
   w = VNull \<or> (\<exists>b. w = VBool b) \<or> (\<exists>g. w = VFloat g)"
  by (cases w) (auto simp: major_values split: if_splits)

lemma simple_inject:
  assumes "major_of v = MAJOR_SIMPLE" "is_canon v" "is_canon w"
    and eq: "encode_value v @ xs = encode_value w @ ys"
  shows "v = w \<and> xs = ys"
proof -
  have w: "major_of w = MAJOR_SIMPLE" using major_of_eq [OF eq] assms(1) by simp
  have fl': "encode_float f @ xs \<noteq> b # ys" if "b \<in> {244, 245, 246}" for f b xs ys
    using that by (auto simp: encode_float_def Let_def simple_values split: option.splits)
  consider f where "v = VFloat f" | "v = VNull" | b where "v = VBool b"
    using simple_shape [OF assms(1,2)] by blast
  then show ?thesis
  proof cases
    case 1
    then obtain g where g: "w = VFloat g"
      using eq simple_shape [OF w assms(3)] fl' [of 244 f xs ys] fl' [of 245 f xs ys] fl' [of 246 f xs ys]
      by (auto simp: simple_values split: if_splits)
    then show ?thesis using eq 1 encode_float_inject [of f xs g ys] assms(2,3) by simp
  next
    case 2
    then have "w \<noteq> VFloat g" for g using eq fl' [of 246 g ys xs] by (auto simp: simple_values)
    with 2 show ?thesis
      using eq simple_shape [OF w assms(3)] by (auto simp: simple_values split: if_splits)
  next
    case (3 b)
    then have "w \<noteq> VFloat g" for g
      using eq fl' [of 244 g ys xs] fl' [of 245 g ys xs] by (cases b) (auto simp: simple_values)
    with 3 show ?thesis
      using eq simple_shape [OF w assms(3)] by (auto simp: simple_values split: if_splits)
  qed
qed

lemma array_inject:
  assumes eq: "encode_value (VArray arr) @ xs = encode_value (VArray arr') @ ys"
    and wf: "ecf_wf (VArray arr)" "ecf_wf (VArray arr')"
    and IH: "\<And>v w xs ys. v \<in> set arr \<Longrightarrow> w \<in> set arr' \<Longrightarrow>
      encode_value v @ xs = encode_value w @ ys \<Longrightarrow> v = w \<and> xs = ys"
  shows "arr = arr' \<and> xs = ys"
proof -
  have "length arr = length arr' \<and>
      concat (map encode_value arr) @ xs = concat (map encode_value arr') @ ys"
    using eq wf by (intro encode_len_inject [of MAJOR_ARRAY]) (simp_all add: majors_def)
  then show ?thesis using IH by (intro concat_map_inject [where enc = encode_value]) auto
qed

lemma map_inject:
  assumes eq: "encode_value (VMap m) @ xs = encode_value (VMap m') @ ys"
    and wf: "ecf_wf (VMap m)" "ecf_wf (VMap m')" and c: "is_canon (VMap m)" "is_canon (VMap m')"
    and IH: "\<And>e e' xs ys. e \<in> set m \<Longrightarrow> e' \<in> set m' \<Longrightarrow>
      encode_value (fst e) @ encode_value (snd e) @ xs =
      encode_value (fst e') @ encode_value (snd e') @ ys \<Longrightarrow> e = e' \<and> xs = ys"
  shows "m = m' \<and> xs = ys"
proof -
  let ?enc = "\<lambda>e. encode_value (fst e) @ encode_value (snd e)"
  have "length m = length m' \<and> concat (map ?enc m) @ xs = concat (map ?enc m') @ ys"
    using eq wf c
    by (intro encode_len_inject [of MAJOR_MAP]) (simp_all add: majors_def encode_entries_sorted)
  then show ?thesis using IH by (intro concat_map_inject [where enc = ?enc]) auto
qed

text \<open>Canonical values: the encoding determines the value and where it ends.\<close>

lemma encode_canon_inject:
  assumes "is_canon v" "is_canon w" "ecf_wf v" "ecf_wf w"
    and "encode_value v @ xs = encode_value w @ ys"
  shows "v = w \<and> xs = ys"
  using assms
proof (induction v arbitrary: w xs ys rule: encode_value.induct)
  case (7 arr)
  from major_of_eq [OF 7(6)] obtain arr' where w: "w = VArray arr'"
    using 7(3) by (cases w) (auto simp: major_values split: if_splits)
  have "arr = arr' \<and> xs = ys"
    by (rule array_inject) (use 7 w in auto)
  with w show ?case by simp
next
  case (8 m)
  from major_of_eq [OF 8(7)] obtain m' where w: "w = VMap m'"
    using 8(4) by (cases w) (auto simp: major_values split: if_splits)
  have "m = m' \<and> xs = ys"
  proof (rule map_inject)
    fix e e' xs ys
    assume e: "e \<in> set m" "e' \<in> set m'" and eq: "encode_value (fst e) @ encode_value (snd e) @ xs =
      encode_value (fst e') @ encode_value (snd e') @ ys"
    have "fst e = fst e' \<and> encode_value (snd e) @ xs = encode_value (snd e') @ ys"
      by (rule 8(1) [OF e(1)]) (use e eq 8(3-6) w in auto)
    moreover from this have "snd e = snd e' \<and> xs = ys"
      by (intro 8(2) [OF e(1)]) (use e 8(3-6) w in auto)
    ultimately show "e = e' \<and> xs = ys" by (simp add: prod_eq_iff)
  qed (use 8(3-7) w in auto)
  with w show ?case by simp
next
  case (3 i)
  from major_of_eq [OF 3(5)] obtain j where "w = VInteger j"
    using 3(2) by (cases w) (auto simp: major_values split: if_splits)
  with 3 encode_integer_inject [of i xs j ys] show ?case by simp
next
  case (5 b)
  from major_of_eq [OF 5(5)] obtain b' where "w = VBytes b'"
    using 5(2) by (cases w) (auto simp: major_values split: if_splits)
  with 5 encode_bstr_inject [of b xs b' ys] show ?case by simp
next
  case (6 s)
  from major_of_eq [OF 6(5)] obtain s' where "w = VText s'"
    using 6(2) by (cases w) (auto simp: major_values split: if_splits)
  with 6 encode_text_inject [of s xs s' ys] show ?case by simp
next
  case 1
  then show ?case by (intro simple_inject) simp_all
next
  case (2 b)
  then show ?case by (intro simple_inject) simp_all
next
  case (4 f)
  then show ?case by (intro simple_inject) simp_all
next
  case (9 t inner)
  then show ?case by simp
qed

lemma sort_key_map: "sort_key f (map g xs) = map g (sort_key (f \<circ> g) xs)"
proof (induction xs)
  case (Cons x xs)
  have "insort_key f (g x) (map g ys) = map g (insort_key (f \<circ> g) x ys)" for ys
    by (induction ys) auto
  with Cons show ?case by (simp add: comp_def)
qed simp

lemma encode_float_canon: "encode_float (canon_float f) = encode_float f"
proof (cases "f64_is_nan f")
  case True
  have "try_encode_half g = Some 0x7E00" if "f64_is_nan g" for g
    using that by (auto simp: try_encode_half_def f64_is_zero_def f64_is_nan_def)
  with True show ?thesis by (simp add: encode_float_def canon_float_def half_specials)
next
  case False
  then show ?thesis by (simp add: canon_float_def)
qed

lemma encode_value_canon: "encode_value (canon v) = encode_value v"
proof (induction v rule: canon.induct)
  case (1 f)
  then show ?case by (simp add: encode_float_canon)
next
  case (2 arr)
  then have "map (encode_value \<circ> canon) arr = map encode_value arr" by simp
  then show ?case by (simp del: map_eq_conv)
next
  case (3 m)
  let ?f = "\<lambda>e. (encode_value (fst e), encode_value (snd e))"
  let ?M = "map (\<lambda>e. (canon (fst e), canon (snd e))) m"
  have k: "entry_key \<circ> ?f = key_order"
    by (simp add: fun_eq_iff entry_key_def key_order_def)
  have "map ?f (sort_key key_order ?M) = sort_key entry_key (map ?f ?M)"
    by (simp only: sort_key_map k)
  also have "map ?f ?M = map ?f m" using 3 by simp
  finally have "encode_entries (map ?f (sort_key key_order ?M)) = encode_entries (map ?f m)"
    by (simp only: encode_entries_def sort_key_id_if_sorted [OF sorted_sort_key])
  then show ?case by simp
qed simp_all

lemma is_canon_canon: "is_canon (canon v)"
  by (induction v rule: canon.induct) (auto simp: canon_float_def half_specials)

lemma ecf_wf_canon: "ecf_wf (canon v) = ecf_wf v"
  by (induction v rule: canon.induct) auto

lemma to_ecf_inject_stream:
  assumes "ecf_wf v" "ecf_wf w" "to_ecf v @ xs = to_ecf w @ ys"
  shows "canon v = canon w \<and> xs = ys"
proof (rule encode_canon_inject)
  show "encode_value (canon v) @ xs = encode_value (canon w) @ ys"
    using assms(3) by (simp add: to_ecf_def encode_value_canon)
qed (simp_all add: assms is_canon_canon ecf_wf_canon)

section \<open>Properties\<close>

text \<open>
  ECF encodings are self-delimiting and canonical: if the encodings of two values agree
  on the bytes of a stream, the values have the same canonical form (equal up to tags, the
  NaN payload and the order of map entries) and the streams continue at the same byte.
\<close>

theorem to_ecf_prefix_free:
  assumes "ecf_wf v" "ecf_wf w" "to_ecf v @ xs = to_ecf w @ ys"
  shows "canon v = canon w \<and> xs = ys"
  using assms by (rule to_ecf_inject_stream)

theorem to_ecf_prefix_free_witness:
  "canon (VMap [(VText ''b'', VNull), (VText ''a'', VInteger 7)]) =
   canon (VMap [(VText ''a'', VTag 3 (VInteger 7)), (VText ''b'', VNull)]) \<and> [1] = [1::u8]"
  by (rule to_ecf_prefix_free [where xs = "[1]" and ys = "[1]"])
    (simp_all add: to_ecf_def encode_cbor_text_def encode_entries_def entry_key_def
      encode_integer_head encode_head_alt head_info_def head_tail_def str_bytes_def major_values)

text \<open>
  C29. Canonicalisation is exactly what the encoding forgets: \<open>to_ecf\<close> gives two values the
  same bytes if and only if their canonical forms are equal.
\<close>

theorem to_ecf_eq_iff_canon:
  assumes "ecf_wf v" "ecf_wf w"
  shows "to_ecf v = to_ecf w \<longleftrightarrow> canon v = canon w"
  using encode_canon_inject [of "canon v" "canon w" "[]" "[]"] assms
  by (metis append_Nil2 ecf_wf_canon encode_value_canon is_canon_canon to_ecf_def)

theorem to_ecf_eq_iff_canon_witness:
  "to_ecf (VText ''a'') = to_ecf (VTag 1 (VText ''a'')) \<longleftrightarrow>
   canon (VText ''a'') = canon (VTag 1 (VText ''a''))"
  by (rule to_ecf_eq_iff_canon) simp_all

text \<open>
  Map encoding is independent of insertion order: two maps with the same entries, whose
  keys have pairwise different encodings, have the same encoding.
\<close>

theorem to_ecf_map_order:
  assumes "mset m = mset m'" "distinct (map (to_ecf \<circ> fst) m)"
  shows "to_ecf (VMap m) = to_ecf (VMap m')"
proof -
  let ?f = "\<lambda>e. (encode_value (fst e), encode_value (snd e))"
  have ms: "mset (map ?f m) = mset (map ?f m')" using assms(1) by simp
  have "inj_on (entry_key \<circ> ?f) (set m)"
    using assms(2) by (auto simp: distinct_map inj_on_def to_ecf_def entry_key_def)
  then have "inj_on entry_key (set (map ?f m))" by (auto simp: inj_on_def)
  then have "sort_key entry_key (map ?f m) = sort_key entry_key (map ?f m')"
    by (intro sort_key_inj_key_eq) (simp_all only: ms mset_sort sorted_sort_key)
  moreover have "length m = length m'" using assms(1) by (rule mset_eq_length)
  ultimately show ?thesis by (simp add: to_ecf_def encode_entries_def)
qed

theorem to_ecf_map_order_witness:
  "to_ecf (VMap [(VText ''b'', VNull), (VText ''a'', VInteger 7)]) =
   to_ecf (VMap [(VText ''a'', VInteger 7), (VText ''b'', VNull)])"
  by (rule to_ecf_map_order)
    (simp_all add: to_ecf_def encode_cbor_text_def encode_head_alt str_bytes_def)

text \<open>
  The hash preimage \<open>ecf_for_hash\<close> assembled by hand is the ECF encoding of the two-entry
  map of the entity, whatever order the entries are written in.
\<close>

theorem ecf_for_hash_value_is_ecf:
  "ecf_for_hash_value t d =
   to_ecf (VMap [(text_val ''type'', text_val t), (text_val ''data'', d)])"
  by (simp add: ecf_for_hash_value_def ecf_for_hash_def to_ecf_def text_val_def encode_entries_def
      entry_key_def encode_cbor_text_def encode_head_alt head_info_def head_tail_def str_bytes_def
      major_values)

text \<open>
  The hash preimage determines the entity: for data that is itself an ECF encoding, equal
  preimages come from equal types and from data values with the same canonical form.
\<close>

theorem ecf_for_hash_inject:
  assumes "ecf_for_hash t (to_ecf d) = ecf_for_hash t' (to_ecf d')"
    and "ecf_wf d" "ecf_wf d'" "length t < 2 ^ 64" "length t' < 2 ^ 64"
  shows "t = t' \<and> canon d = canon d'"
proof -
  let ?ty = "encode_cbor_text ''type''"
  have "to_ecf d @ ?ty @ encode_cbor_text t = to_ecf d' @ ?ty @ encode_cbor_text t'"
    using assms(1) by (simp add: ecf_for_hash_def)
  from to_ecf_inject_stream [OF assms(2,3) this]
  have c: "canon d = canon d'" and "encode_cbor_text t @ [] = encode_cbor_text t' @ []"
    by simp_all
  from encode_text_inject [OF this(2) assms(4,5)] c show ?thesis by simp
qed

theorem ecf_for_hash_inject_witness:
  "''x'' = ''x'' \<and> canon (VTag 9 VNull) = canon VNull"
  by (rule ecf_for_hash_inject) (simp_all add: to_ecf_def)

text \<open>
  Raw data that is not one encoded item makes the preimage ambiguous: two different
  entities, with different types and different data bytes, have the same hash preimage, so no
  digest can tell them apart.
\<close>

theorem ecf_for_hash_ambiguous:
  "\<exists>t d t' d'. t \<noteq> t' \<and> d \<noteq> d' \<and> d \<noteq> [] \<and> d' \<noteq> [] \<and> ecf_for_hash t d = ecf_for_hash t' d'"
proof -
  let ?t = "''dtypeaz''"
  let ?d' = "246 # encode_cbor_text ''type'' @ [103 :: u8]"
  have "ecf_for_hash ?t [246] = ecf_for_hash ''z'' ?d'"
    by (simp add: ecf_for_hash_def encode_cbor_text_def encode_head_alt head_info_def head_tail_def
        str_bytes_def major_values)
  then show ?thesis by (intro exI [of _ ?t] exI [of _ "[246]"] exI [of _ "''z''"] exI [of _ ?d']) simp
qed

text \<open>
  Float encoding loses nothing: whichever width the encoder picks, widening the emitted
  bits back to a double gives the bits of the input, except that every NaN is one NaN.
\<close>

theorem encode_float_lossless:
  "\<not> f64_is_nan f \<Longrightarrow>
   (\<exists>h. encode_float f = FLOAT_HALF # be_bytes 2 (unat h) \<and> f16_to_f64 h = f) \<or>
   (\<exists>s. encode_float f = FLOAT_SINGLE # be_bytes 4 (unat s) \<and> f32_to_f64 s = f) \<or>
   encode_float f = FLOAT_DOUBLE # be_bytes 8 (unat f)"
proof -
  assume nn: "\<not> f64_is_nan f"
  show ?thesis
  proof (cases "try_encode_half f")
    case (Some h)
    then have "canon_float f = canon_float (f16_to_f64 h)" by (rule try_encode_half_canon)
    with nn have "f16_to_f64 h = f" by (auto simp: canon_float_def half_specials split: if_splits)
    with Some show ?thesis by (auto simp: encode_float_def)
  next
    case None
    then have "\<not> f64_is_zero f" by (auto simp: try_encode_half_def)
    then have "f64_eq (f32_to_f64 (f64_to_f32 f)) f \<Longrightarrow> f32_to_f64 (f64_to_f32 f) = f"
      by (auto simp: f64_eq_def)
    with None show ?thesis by (auto simp: encode_float_def Let_def)
  qed
qed

theorem encode_float_lossless_witness:
  "(\<exists>h. encode_float 0x3FF8000000000000 = FLOAT_HALF # be_bytes 2 (unat h) \<and>
      f16_to_f64 h = 0x3FF8000000000000) \<or>
   (\<exists>s. encode_float 0x3FF8000000000000 = FLOAT_SINGLE # be_bytes 4 (unat s) \<and>
      f32_to_f64 s = 0x3FF8000000000000) \<or>
   encode_float 0x3FF8000000000000 = FLOAT_DOUBLE # be_bytes 8 (unat (0x3FF8000000000000 :: u64))"
  by (rule encode_float_lossless) (simp add: f64_is_nan_def)

text \<open>The shortest width is found on typical values: 1.5, 65504, 1/2^24, 0.1, 3.4028234663852886e38.\<close>

lemma encode_float_examples:
  "encode_float 0x3FF8000000000000 = [249, 0x3E, 0x00]"
  "encode_float 0x40EFFC0000000000 = [249, 0x7B, 0xFF]"
  "encode_float 0x3E70000000000000 = [249, 0x00, 0x01]"
  "encode_float 0x3FB999999999999A = [251, 0x3F, 0xB9, 0x99, 0x99, 0x99, 0x99, 0x99, 0x9A]"
  "encode_float 0x47EFFFFFE0000000 = [250, 0x7F, 0x7F, 0xFF, 0xFF]"
  by (simp_all add: encode_float_def try_encode_half_def f64_is_zero_def f64_is_nan_def
      f64_is_infinite_def f64_to_f16_def f16_to_f64_def f64_eq_def f64_scaled_def log2_floor.simps
      f64_to_f32_def f32_to_f64_def round_half_even_def f64_sign_negative_def simple_values be_bytes_numeral)

section \<open>Decoders\<close>

text \<open>What the code relies on of the decoder \<^verbatim>\<open>ciborium::from_reader\<close>: it reads back what the encoder wrote,
  as the canonical value.\<close>

definition dec_ok :: "(bytes \<Rightarrow> Value option) \<Rightarrow> bool" where
  "dec_ok dec \<longleftrightarrow> (\<forall>v. ecf_wf v \<longrightarrow> dec (to_ecf v) = Some (canon v))"

text \<open>A decoder that inverts the encoder exists because the encoding is injective up to canonical
  form.\<close>

definition some_decoder :: "bytes \<Rightarrow> Value option" where
  "some_decoder b = (if \<exists>v. ecf_wf v \<and> to_ecf v = b then Some (canon (SOME v. ecf_wf v \<and> to_ecf v = b)) else None)"

lemma some_decoder_ok: "dec_ok some_decoder"
  unfolding dec_ok_def
proof (intro allI impI)
  fix v assume v: "ecf_wf v"
  let ?w = "SOME w. ecf_wf w \<and> to_ecf w = to_ecf v"
  have w: "ecf_wf ?w" "to_ecf ?w = to_ecf v" using someI[of "\<lambda>w. ecf_wf w \<and> to_ecf w = to_ecf v" v] v by auto
  then have "canon ?w = canon v" using to_ecf_inject_stream[OF w(1) v, of "[]" "[]"] by simp
  then show "some_decoder (to_ecf v) = Some (canon v)" using v by (auto simp: some_decoder_def)
qed

end
