(* ===== verification/Content_Hash.thy ===== *)
theory Content_Hash
  imports Ecf
begin

text \<open>
  Content hashes (\<^verbatim>\<open>core/hash/src/lib.rs\<close>).  \<open>hash\<close> is the logical value of the Rust
  struct: the format code and the digest bytes; \<open>hash_struct\<close> is the struct itself, a
  length byte and a zero-padded 64-byte buffer, and the refinement lemmas show that its
  constructor, equality and order are those of \<open>hash\<close>.  SHA-256 and SHA-384 come from the
  \<^verbatim>\<open>sha2\<close> crate and are the parameter \<open>digests\<close>; \<open>digests_ok\<close> is its documented output
  length.  Error texts keep the constant part of the Rust message; \<open>Panic\<close> stands for a
  slice panic.
\<close>

section \<open>Formats and the hash type\<close>

record digests =
  sha256 :: "bytes \<Rightarrow> bytes"
  sha384 :: "bytes \<Rightarrow> bytes"

definition HASH_ALGORITHM_SHA256 :: u8 where "HASH_ALGORITHM_SHA256 = 0x00"
definition HASH_ALGORITHM_SHA384 :: u8 where "HASH_ALGORITHM_SHA384 = 0x01"
definition HASH_ALGORITHM_RESERVED_FF :: u8 where "HASH_ALGORITHM_RESERVED_FF = 0xFF"
definition SHA256_DIGEST_LEN :: nat where "SHA256_DIGEST_LEN = 32"
definition SHA384_DIGEST_LEN :: nat where "SHA384_DIGEST_LEN = 48"
definition HASH_MAX_DIGEST_LEN :: nat where "HASH_MAX_DIGEST_LEN = 64"

definition digests_ok :: "digests \<Rightarrow> bool" where
  "digests_ok D \<longleftrightarrow> (\<forall>x. length (sha256 D x) = SHA256_DIGEST_LEN \<and>
                        length (sha384 D x) = SHA384_DIGEST_LEN)"

definition digest_len_for_format :: "u8 \<Rightarrow> nat option" where
  "digest_len_for_format code =
     (if code = HASH_ALGORITHM_SHA256 then Some SHA256_DIGEST_LEN
      else if code = HASH_ALGORITHM_SHA384 then Some SHA384_DIGEST_LEN
      else None)"

definition format_code_for_string :: "string \<Rightarrow> u8 option" where
  "format_code_for_string s =
     (if s = ''ecfv1-sha256'' then Some HASH_ALGORITHM_SHA256
      else if s = ''ecfv1-sha384'' then Some HASH_ALGORITHM_SHA384
      else None)"

definition format_string_for_code :: "u8 \<Rightarrow> string option" where
  "format_string_for_code code =
     (if code = HASH_ALGORITHM_SHA256 then Some ''ecfv1-sha256''
      else if code = HASH_ALGORITHM_SHA384 then Some ''ecfv1-sha384''
      else None)"

datatype hash = Hash (algorithm: u8) (digest: bytes)

datatype HashError =
    InvalidLength nat nat
  | UnsupportedAlgorithm u8
  | ReservedFormat u8
  | HashMismatch hash hash
  | InvalidFormat string
  | Panic string

definition Hash_new :: "u8 \<Rightarrow> bytes \<Rightarrow> hash" where
  "Hash_new alg d = Hash alg (take HASH_MAX_DIGEST_LEN d)"

definition is_supported_format :: "hash \<Rightarrow> bool" where
  "is_supported_format h \<longleftrightarrow> digest_len_for_format (algorithm h) \<noteq> None"

text \<open>The hashes every constructor but \<open>Hash_new\<close> yields: an allocated format and its length.\<close>

definition hash_ok :: "hash \<Rightarrow> bool" where
  "hash_ok h \<longleftrightarrow> digest_len_for_format (algorithm h) = Some (length (digest h))"

instantiation hash :: linorder
begin

definition less_eq_hash :: "hash \<Rightarrow> hash \<Rightarrow> bool" where
  "less_eq_hash a b \<longleftrightarrow> (algorithm a, digest a) \<le> (algorithm b, digest b)"

definition less_hash :: "hash \<Rightarrow> hash \<Rightarrow> bool" where
  "less_hash a b \<longleftrightarrow> (algorithm a, digest a) < (algorithm b, digest b)"

instance
proof
  fix x y z :: hash
  show "x < y \<longleftrightarrow> x \<le> y \<and> \<not> y \<le> x"
    by (auto simp: less_eq_hash_def less_hash_def)
  show "x \<le> x" by (simp add: less_eq_hash_def)
  show "x \<le> y \<Longrightarrow> y \<le> z \<Longrightarrow> x \<le> z"
    unfolding less_eq_hash_def by (rule order_trans)
  show "x \<le> y \<Longrightarrow> y \<le> x \<Longrightarrow> x = y"
    unfolding less_eq_hash_def by (drule (1) order_antisym) (simp add: hash.expand)
  show "x \<le> y \<or> y \<le> x"
    unfolding less_eq_hash_def by (rule linear)
qed

end

section \<open>The struct behind the hash type\<close>

record hash_struct =
  hs_algorithm :: u8
  hs_len :: u8
  hs_buf :: bytes

definition hs_new :: "u8 \<Rightarrow> bytes \<Rightarrow> hash_struct" where
  "hs_new alg d =
     (let len = min (length d) HASH_MAX_DIGEST_LEN
      in \<lparr>hs_algorithm = alg, hs_len = word_of_nat len,
          hs_buf = take len d @ replicate (HASH_MAX_DIGEST_LEN - len) 0\<rparr>)"

definition hs_digest :: "hash_struct \<Rightarrow> bytes" where
  "hs_digest h = take (unat (hs_len h)) (hs_buf h)"

definition hs_eq :: "hash_struct \<Rightarrow> hash_struct \<Rightarrow> bool" where
  "hs_eq a b \<longleftrightarrow> hs_algorithm a = hs_algorithm b \<and> hs_digest a = hs_digest b"

datatype ordering = Less | Equal | Greater

definition cmp :: "'a::linorder \<Rightarrow> 'a \<Rightarrow> ordering" where
  "cmp a b = (if a < b then Less else if a = b then Equal else Greater)"

definition hs_cmp :: "hash_struct \<Rightarrow> hash_struct \<Rightarrow> ordering" where
  "hs_cmp a b =
     (case cmp (hs_algorithm a) (hs_algorithm b) of
        Equal \<Rightarrow> cmp (hs_digest a) (hs_digest b)
      | other \<Rightarrow> other)"

definition hs_abs :: "hash_struct \<Rightarrow> hash" where
  "hs_abs h = Hash (hs_algorithm h) (hs_digest h)"

section \<open>Computing and validating\<close>

definition hash_compute :: "digests \<Rightarrow> string \<Rightarrow> bytes \<Rightarrow> hash" where
  "hash_compute D entity_type data =
     Hash_new HASH_ALGORITHM_SHA256 (sha256 D (ecf_for_hash entity_type data))"

definition compute_format :: "digests \<Rightarrow> string \<Rightarrow> bytes \<Rightarrow> u8 \<Rightarrow> HashError + hash" where
  "compute_format D entity_type data format_code =
     (let ecf_bytes = ecf_for_hash entity_type data
      in if format_code = HASH_ALGORITHM_SHA256
         then Inr (Hash_new format_code (sha256 D ecf_bytes))
         else if format_code = HASH_ALGORITHM_SHA384
         then Inr (Hash_new format_code (sha384 D ecf_bytes))
         else Inl (UnsupportedAlgorithm format_code))"

definition hash_validate :: "digests \<Rightarrow> string \<Rightarrow> bytes \<Rightarrow> hash \<Rightarrow> HashError + unit" where
  "hash_validate D entity_type data claimed =
     (case compute_format D entity_type data (algorithm claimed) of
        Inl e \<Rightarrow> Inl e
      | Inr actual \<Rightarrow>
          if actual \<noteq> claimed then Inl (HashMismatch claimed actual) else Inr ())"

section \<open>Wire form\<close>

function push_varint_u32 :: "u32 \<Rightarrow> bytes" where
  "push_varint_u32 v =
     (if v \<ge> 0x80 then (ucast v OR 0x80) # push_varint_u32 (drop_bit 7 v) else [ucast v])"
  by pat_completeness auto
termination
proof (relation "measure unat")
  fix v :: u32
  assume "0x80 \<le> v"
  then have "unat v div 128 < unat v" by (simp add: word_le_nat_alt)
  then show "(drop_bit 7 v, v) \<in> measure unat"
    by (simp add: drop_bit_eq_div unat_div)
qed simp

declare push_varint_u32.simps [simp del]

fun read_varint_loop :: "bytes \<Rightarrow> u32 \<Rightarrow> nat \<Rightarrow> nat \<Rightarrow> HashError + (u32 \<times> nat)" where
  "read_varint_loop [] v shift consumed = Inl (InvalidFormat ''truncated varint'')"
| "read_varint_loop (b # bs) v shift consumed =
     (let consumed' = Suc consumed
      in if 28 \<le> shift \<and> b AND 0x80 \<noteq> 0 then Inl (InvalidFormat ''varint exceeds u32'')
         else
           let v' = v OR push_bit shift (ucast (b AND 0x7F))
           in if b AND 0x80 = 0 then Inr (v', consumed')
              else if 5 \<le> consumed' then Inl (InvalidFormat ''varint exceeds 5 bytes'')
              else read_varint_loop bs v' (shift + 7) consumed')"

definition read_varint_u32 :: "bytes \<Rightarrow> HashError + (u32 \<times> nat)" where
  "read_varint_u32 bs = read_varint_loop bs 0 0 0"

definition from_bytes :: "bytes \<Rightarrow> HashError + hash" where
  "from_bytes bs =
     (case read_varint_u32 bs of
        Inl e \<Rightarrow> Inl e
      | Inr (format_value, consumed) \<Rightarrow>
          if format_value = ucast HASH_ALGORITHM_RESERVED_FF
          then Inl (ReservedFormat HASH_ALGORITHM_RESERVED_FF)
          else if format_value > 0xFF then Inl (UnsupportedAlgorithm 0xFE)
          else
            let alg = ucast format_value
            in case digest_len_for_format alg of
                 None \<Rightarrow> Inl (UnsupportedAlgorithm alg)
               | Some expected \<Rightarrow>
                   let total = consumed + expected
                   in if length bs \<noteq> total then Inl (InvalidLength total (length bs))
                      else Inr (Hash_new alg (take expected (drop consumed bs))))"

definition to_bytes :: "hash \<Rightarrow> bytes" where
  "to_bytes h = push_varint_u32 (ucast (algorithm h)) @ digest h"

definition to_cbor :: "hash \<Rightarrow> bytes" where
  "to_cbor h =
     (let wire = to_bytes h
      in (if length wire < 24 then [0x40 OR word_of_nat (length wire)]
          else [0x58, word_of_nat (length wire)]) @ wire)"

definition from_cbor :: "bytes \<Rightarrow> HashError + hash" where
  "from_cbor cbor =
     (let content = (\<lambda>off len.
            if length cbor \<noteq> off + len then Inl (InvalidLength (off + len) (length cbor))
            else from_bytes (drop off cbor))
      in case cbor of
           [] \<Rightarrow> Inl (InvalidFormat ''empty CBOR for hash'')
         | b # rest \<Rightarrow>
             if b = 0x58
             then (case rest of
                     [] \<Rightarrow> Inl (InvalidFormat ''CBOR too short for hash'')
                   | l # _ \<Rightarrow> content 2 (unat l))
             else if 0x40 \<le> b \<and> b \<le> 0x57 then content 1 (unat (b - 0x40))
             else Inl (InvalidFormat ''expected CBOR bstr header''))"

section \<open>Text forms\<close>

definition hex_digit :: "nat \<Rightarrow> char" where
  "hex_digit n = ''0123456789abcdef'' ! (n mod 16)"

definition hex_str :: "bytes \<Rightarrow> string" where
  "hex_str bs = concat (map (\<lambda>b. [hex_digit (unat b div 16), hex_digit (unat b mod 16)]) bs)"

definition to_hex :: "hash \<Rightarrow> string" where
  "to_hex h = hex_str (to_bytes h)"

definition hash_display :: "hash \<Rightarrow> string" where
  "hash_display h =
     (case format_string_for_code (algorithm h) of
        Some tag \<Rightarrow> tag | None \<Rightarrow> ''ecfv1-unknown'') @ '':'' @ hex_str (digest h)"

text \<open>\<^verbatim>\<open>char::to_digit(16)\<close> and \<^verbatim>\<open>u8::from_str_radix\<close> on a two-byte slice (a leading \<open>+\<close> is a sign).\<close>

definition to_digit16 :: "char \<Rightarrow> nat option" where
  "to_digit16 c =
     (let n = of_char c :: nat
      in if 48 \<le> n \<and> n \<le> 57 then Some (n - 48)
         else if 97 \<le> n \<and> n \<le> 102 then Some (n - 87)
         else if 65 \<le> n \<and> n \<le> 70 then Some (n - 55)
         else None)"

definition from_str_radix16 :: "char \<Rightarrow> char \<Rightarrow> u8 option" where
  "from_str_radix16 a b =
     (if a = CHR ''+'' then map_option word_of_nat (to_digit16 b)
      else case to_digit16 a of
             None \<Rightarrow> None
           | Some h \<Rightarrow> map_option (\<lambda>l. word_of_nat (16 * h + l)) (to_digit16 b))"

text \<open>A UTF-8 continuation byte: a slice that starts or ends before one panics.\<close>

definition is_continuation :: "char \<Rightarrow> bool" where
  "is_continuation c \<longleftrightarrow> (128 \<le> (of_char c :: nat) \<and> (of_char c :: nat) < 192)"

fun parse_hex_pairs :: "string \<Rightarrow> HashError + bytes" where
  "parse_hex_pairs (a # b # rest) =
     (if is_continuation a \<or> (rest \<noteq> [] \<and> is_continuation (hd rest))
      then Inl (Panic ''byte index is not a char boundary'')
      else case from_str_radix16 a b of
             None \<Rightarrow> Inl (InvalidFormat ''invalid hex at position'')
           | Some v \<Rightarrow>
               (case parse_hex_pairs rest of Inl e \<Rightarrow> Inl e | Inr vs \<Rightarrow> Inr (v # vs)))"
| "parse_hex_pairs _ = Inr []"

definition from_display :: "string \<Rightarrow> HashError + hash" where
  "from_display s =
     (case split_once CHR '':'' s of
        None \<Rightarrow> Inl (InvalidFormat ''expected <format>:<hex>'')
      | Some (tag, hex) \<Rightarrow>
          (case format_code_for_string tag of
             None \<Rightarrow> Inl (InvalidFormat ''unknown format tag'')
           | Some alg \<Rightarrow>
               (case digest_len_for_format alg of
                  None \<Rightarrow> Inl (UnsupportedAlgorithm alg)
                | Some expected \<Rightarrow>
                    if length hex \<noteq> expected * 2
                    then Inl (InvalidFormat ''wrong number of hex chars'')
                    else (case parse_hex_pairs hex of
                            Inl e \<Rightarrow> Inl e
                          | Inr d \<Rightarrow> Inr (Hash_new alg d)))))"

definition hash_zero :: hash where
  "hash_zero = Hash_new HASH_ALGORITHM_SHA256 (replicate SHA256_DIGEST_LEN 0)"

definition is_zero :: "hash \<Rightarrow> bool" where
  "is_zero h \<longleftrightarrow> algorithm h = HASH_ALGORITHM_SHA256 \<and> (\<forall>b \<in> set (digest h). b = 0)"

definition invariant_signature_path :: "string \<Rightarrow> hash \<Rightarrow> string" where
  "invariant_signature_path signer_peer_id target =
     ''/'' @ signer_peer_id @ ''/system/signature/'' @ to_hex target"

lemmas format_defs = HASH_ALGORITHM_SHA256_def HASH_ALGORITHM_SHA384_def
  HASH_ALGORITHM_RESERVED_FF_def SHA256_DIGEST_LEN_def SHA384_DIGEST_LEN_def
  HASH_MAX_DIGEST_LEN_def

lemma hash_ok_cases:
  assumes "hash_ok h"
  obtains (sha256) d where "h = Hash 0 d" "length d = 32"
    | (sha384) d where "h = Hash 1 d" "length d = 48"
  using assms by (cases h) (auto simp: hash_ok_def digest_len_for_format_def format_defs split: if_splits)

lemma varint_small: "v < 0x80 \<Longrightarrow> push_varint_u32 v = [ucast v]"
  by (auto simp: push_varint_u32.simps [of v])

lemma to_bytes_ok: "hash_ok h \<Longrightarrow> to_bytes h = algorithm h # digest h"
  by (erule hash_ok_cases) (simp_all add: to_bytes_def varint_small)

lemma from_to_bytes: "hash_ok h \<Longrightarrow> from_bytes (to_bytes h) = Inr h"
  by (erule hash_ok_cases)
    (simp_all add: to_bytes_def varint_small from_bytes_def read_varint_u32_def
      digest_len_for_format_def format_defs Hash_new_def)

lemma length_to_bytes [wire_simps]: "hash_ok h \<Longrightarrow> length (to_bytes h) = Suc (length (digest h))"
  by (simp add: to_bytes_ok)

lemma length_to_bytes_small: "hash_ok h \<Longrightarrow> length (to_bytes h) < 18446744073709551616"
  using length_to_bytes [of h] by (auto simp: hash_ok_def digest_len_for_format_def format_defs split: if_splits)

lemma from_to_cbor: "hash_ok h \<Longrightarrow> from_cbor (to_cbor h) = Inr h"
proof -
  assume h: "hash_ok h"
  then have "length (to_bytes h) = 33 \<or> length (to_bytes h) = 49"
    using length_to_bytes [OF h] by (cases rule: hash_ok_cases) simp_all
  with from_to_bytes [OF h] show ?thesis
    by (auto simp: to_cbor_def from_cbor_def)
qed

lemma hex_digit_digit: "n < 16 \<Longrightarrow> to_digit16 (hex_digit n) = Some n"
proof -
  assume "n < 16"
  then have "n \<in> {0, 1, 2, 3, 4, 5, 6, 7, 8, 9, 10, 11, 12, 13, 14, 15}"
    by (simp only: insert_iff empty_iff) presburger
  then show ?thesis by (elim insertE) (simp_all add: hex_digit_def to_digit16_def)
qed


lemma parse_hex_str: "parse_hex_pairs (hex_str bs) = Inr bs"
proof (induction bs)
  case Nil
  then show ?case by (simp add: hex_str_def)
next
  case (Cons b bs)
  have lt: "unat b < 256" using unsigned_less [of b] by simp
  let ?h = "hex_digit (unat b div 16)" and ?l = "hex_digit (unat b mod 16)"
  have digit: "\<not> is_continuation c \<and> c \<noteq> CHR ''+''" if "to_digit16 c = Some n" for c n
    using that by (auto simp: to_digit16_def is_continuation_def Let_def split: if_splits)
  have h: "to_digit16 ?h = Some (unat b div 16)" and l: "to_digit16 ?l = Some (unat b mod 16)"
    using lt by (intro hex_digit_digit; simp)+
  have "(word_of_nat (16 * (unat b div 16) + unat b mod 16) :: u8) = b"
    by (simp only: mult_div_mod_eq) simp
  then have "from_str_radix16 ?h ?l = Some b"
    using digit [OF h] by (simp add: from_str_radix16_def h l del: of_nat_add of_nat_mult)
  moreover have "\<not> is_continuation (hd (hex_str bs))" if "hex_str bs \<noteq> []"
  proof -
    from that obtain c cs where bs: "bs = c # cs" by (cases bs) (auto simp: hex_str_def)
    have "unat c < 256" using unsigned_less [of c] by simp
    then have "to_digit16 (hex_digit (unat c div 16)) = Some (unat c div 16)"
      by (intro hex_digit_digit) simp
    then show ?thesis using digit by (auto simp: bs hex_str_def)
  qed
  ultimately show ?case using Cons digit [OF h] by (auto simp: hex_str_def)
qed

lemma length_hex_str [wire_simps]: "length (hex_str bs) = 2 * length bs"
  by (induction bs) (simp_all add: hex_str_def)

lemma from_display_display: "hash_ok h \<Longrightarrow> from_display (hash_display h) = Inr h"
  by (erule hash_ok_cases)
    (simp_all add: from_display_def hash_display_def format_string_for_code_def
      format_code_for_string_def digest_len_for_format_def format_defs parse_hex_str length_hex_str
      Hash_new_def)

lemma varint_split:
  "(a OR push_bit s (v AND 0x7F)) OR push_bit (s + 7) (drop_bit 7 v) = a OR push_bit s (v :: u32)"
proof -
  have m: "v AND 0x7F = take_bit 7 v" by (simp add: take_bit_eq_mask mask_eq_exp_minus_1)
  have "push_bit s (take_bit 7 v) OR push_bit (s + 7) (drop_bit 7 v) = push_bit s v"
  proof (rule bit_word_eqI)
    fix n
    assume "n < LENGTH(32)"
    moreover have "s \<le> n \<Longrightarrow> \<not> n - s < 7 \<Longrightarrow> 7 + (n - (s + 7)) = n - s" by simp
    ultimately show "bit (push_bit s (take_bit 7 v) OR push_bit (s + 7) (drop_bit 7 v)) n =
        bit (push_bit s v) n"
      by (cases "n - s < 7") (auto simp: bit_simps)
  qed
  then show ?thesis by (simp add: m or.assoc)
qed

lemma read_varint_loop_push:
  assumes "unat v * 2 ^ s < 2 ^ 32" "s = 7 * c" "c \<le> 4"
  shows "read_varint_loop (push_varint_u32 v @ rest) a s c =
         Inr (a OR push_bit s v, c + length (push_varint_u32 v))"
  using assms
proof (induction v arbitrary: a s c rule: push_varint_u32.induct)
  case (1 v)
  show ?case
  proof (cases "v \<ge> 0x80")
    case False
    then have lt: "v < 2 ^ 7" by simp
    have "take_bit 7 v = v" using lt by (simp add: take_bit_eq_mask less_mask_eq)
    then have bv: "bit v n \<Longrightarrow> n < 7" for n by (metis bit_take_bit_iff)
    have "(ucast v :: u8) AND mask 7 = ucast v"
      by (rule bit_word_eqI) (auto simp: bit_simps dest: bv)
    then have "(ucast v :: u8) AND 127 = ucast v" by (simp add: mask_eq_exp_minus_1)
    then have "(ucast v :: u8) AND 0x80 = (ucast v AND 127) AND 0x80" by simp
    also have "\<dots> = ucast v AND (127 AND 0x80)" by (simp only: and.assoc)
    finally have b1: "(ucast v :: u8) AND 0x80 = 0" by simp
    have "(ucast ((ucast v :: u8) AND mask 7) :: u32) = v"
      by (rule bit_word_eqI) (auto simp: bit_simps dest: bv)
    then have "(ucast ((ucast v :: u8) AND 0x7F) :: u32) = v"
      by (simp add: mask_eq_exp_minus_1)
    with b1 False show ?thesis by (simp add: varint_small)
  next
    case True
    let ?b = "ucast v OR 0x80 :: u8"
    have v: "128 \<le> unat v" using True by (simp add: word_le_nat_alt)
    have s: "s \<le> 21"
    proof (rule ccontr)
      assume "\<not> s \<le> 21"
      then have "28 \<le> s" using "1.prems"(2) by simp
      then have "(2::nat) ^ 28 \<le> 2 ^ s" by (rule power_increasing) simp
      then have "128 * 2 ^ 28 \<le> unat v * 2 ^ s" using v by (intro mult_le_mono) simp_all
      with "1.prems"(1) show False by simp
    qed
    with "1.prems"(2) have c: "c \<le> 3" by simp
    have b: "?b AND 0x80 \<noteq> 0"
    proof
      assume "?b AND 0x80 = 0"
      then have "bit (?b AND push_bit 7 1) 7 = bit (0 :: u8) 7" by simp
      then show False by (simp add: bit_simps)
    qed
    have "?b AND 0x7F = ucast v AND 0x7F" by (simp add: bit.conj_disj_distrib2)
    moreover have "(ucast ((ucast v :: u8) AND mask 7) :: u32) = v AND mask 7"
      by (rule bit_word_eqI) (auto simp: bit_simps)
    ultimately have b7: "(ucast (?b AND 0x7F) :: u32) = v AND 0x7F"
      by (simp add: mask_eq_exp_minus_1)
    have "unat (drop_bit 7 v) * 2 ^ (s + 7) \<le> unat v * 2 ^ s"
      by (simp add: drop_bit_eq_div unat_div power_add)
    with "1.prems" c have "read_varint_loop (push_varint_u32 (drop_bit 7 v) @ rest)
        (a OR push_bit s (v AND 0x7F)) (s + 7) (Suc c) =
      Inr ((a OR push_bit s (v AND 0x7F)) OR push_bit (s + 7) (drop_bit 7 v),
           Suc c + length (push_varint_u32 (drop_bit 7 v)))"
      by (intro "1.IH" [OF True]) simp_all
    then show ?thesis
      using True s c b by (simp add: push_varint_u32.simps [of v] b7 varint_split del: push_bit_and)
  qed
qed

lemma read_push_varint:
  "read_varint_u32 (push_varint_u32 v @ rest) = Inr (v, length (push_varint_u32 v))"
  using read_varint_loop_push [of v 0 0 rest 0] unsigned_less [of v]
  by (simp add: read_varint_u32_def)


lemma read_varint_loop_bound:
  "read_varint_loop bs v s c = Inr (w, n) \<Longrightarrow> c \<le> 4 \<Longrightarrow> c < n \<and> n \<le> 5 \<and> n \<le> c + length bs"
proof (induction bs v s c rule: read_varint_loop.induct)
  case (2 b bs v s c)
  then show ?case by (fastforce simp: Let_def split: if_splits)
qed simp

lemma compute_format_ok:
  "digests_ok D \<Longrightarrow> compute_format D t d code = Inr h \<Longrightarrow> hash_ok h \<and> algorithm h = code"
  by (auto simp: compute_format_def digests_ok_def hash_ok_def digest_len_for_format_def Hash_new_def
      format_defs Let_def split: if_splits)

lemma hs_digest_new: "hs_digest (hs_new a d) = take 64 d"
proof -
  have "unat (word_of_nat (min (length d) 64) :: u8) = min (length d) 64"
    by (simp add: unat_of_nat min_def)
  then show ?thesis by (cases "length d \<le> 64") (simp_all add: hs_digest_def hs_new_def format_defs Let_def)
qed

section \<open>Properties\<close>

text \<open>
  Every content hash of an allocated format survives each of its three external forms: the
  wire bytes, the CBOR byte string and the display string decode back to the same hash.
\<close>

theorem hash_roundtrip:
  "hash_ok h \<Longrightarrow> from_bytes (to_bytes h) = Inr h \<and> from_cbor (to_cbor h) = Inr h \<and>
   from_display (hash_display h) = Inr h"
  using from_to_bytes from_to_cbor from_display_display by blast

theorem hash_roundtrip_witness:
  "from_bytes (to_bytes (Hash 1 (replicate 48 7))) = Inr (Hash 1 (replicate 48 7)) \<and>
   from_cbor (to_cbor (Hash 1 (replicate 48 7))) = Inr (Hash 1 (replicate 48 7)) \<and>
   from_display (hash_display (Hash 1 (replicate 48 7))) = Inr (Hash 1 (replicate 48 7))"
  by (rule hash_roundtrip) (simp add: hash_ok_def digest_len_for_format_def format_defs)

text \<open>
  What \<open>from_bytes\<close> accepts: an allocated format code, exactly that format's digest length,
  and the digest is the tail of the input after at most five varint bytes.
\<close>

theorem from_bytes_sound:
  assumes "from_bytes bs = Inr h"
  shows "hash_ok h \<and> (\<exists>pre. bs = pre @ digest h \<and> 1 \<le> length pre \<and> length pre \<le> 5)"
proof -
  obtain v c where r: "read_varint_u32 bs = Inr (v, c)"
    using assms by (auto simp: from_bytes_def split: sum.splits)
  have c: "1 \<le> c \<and> c \<le> 5 \<and> c \<le> length bs"
    using read_varint_loop_bound [of bs 0 0 0 v c] r by (simp add: read_varint_u32_def)
  from assms r have ok: "hash_ok h" and l: "length bs = c + length (digest h)"
    and d: "digest h = drop c bs"
    by (auto simp: from_bytes_def Let_def Hash_new_def hash_ok_def digest_len_for_format_def format_defs
        split: if_splits)
  have "bs = take c bs @ digest h" using d by simp
  with ok c show ?thesis by (intro conjI exI [of _ "take c bs"]) simp_all
qed

theorem from_bytes_sound_witness:
  "hash_ok hash_zero \<and> (\<exists>pre. 0 # replicate 32 0 = pre @ digest hash_zero \<and>
     1 \<le> length pre \<and> length pre \<le> 5)"
  by (rule from_bytes_sound)
    (simp add: from_bytes_def read_varint_u32_def digest_len_for_format_def format_defs hash_zero_def)

text \<open>
  The varint guard does not stop a five-byte varint whose last byte carries bits beyond
  32: the LEB128 encoding of 2^32 reads as format code 0, so a non-canonical wire string is
  accepted as a SHA-256 hash.
\<close>

theorem varint_overflow_accepted:
  "read_varint_u32 [0x80, 0x80, 0x80, 0x80, 0x10] = Inr (0, 5) \<and>
   from_bytes ([0x80, 0x80, 0x80, 0x80, 0x10] @ replicate 32 0) = Inr hash_zero"
  by (simp add: from_bytes_def read_varint_u32_def digest_len_for_format_def format_defs hash_zero_def)

text \<open>
  Validation on receipt accepts exactly the hash that recomputation under the claimed
  format gives, and never accepts a hash of an unallocated format.
\<close>

theorem hash_validate_iff:
  "hash_validate D t d claimed = Inr () \<longleftrightarrow>
   compute_format D t d (algorithm claimed) = Inr claimed \<and> is_supported_format claimed"
  by (auto simp: hash_validate_def compute_format_def is_supported_format_def digest_len_for_format_def
      Let_def split: sum.splits)

text \<open>
  The struct with its padded buffer implements the logical hash: construction, equality and
  the total order all factor through the abstraction.
\<close>

theorem hash_struct_refines:
  "hs_abs (hs_new a d) = Hash_new a d \<and>
   (hs_eq x y \<longleftrightarrow> hs_abs x = hs_abs y) \<and>
   hs_cmp x y = cmp (hs_abs x) (hs_abs y)"
proof -
  have "hs_algorithm (hs_new a d) = a" by (simp add: hs_new_def Let_def)
  then have "hs_abs (hs_new a d) = Hash_new a d"
    by (simp add: hs_abs_def hs_digest_new Hash_new_def format_defs)
  moreover have "hs_cmp x y = cmp (hs_abs x) (hs_abs y)"
    by (auto simp: hs_abs_def hs_cmp_def cmp_def less_hash_def)
  ultimately show ?thesis by (simp add: hs_abs_def hs_eq_def)
qed

end
