(* ===== verification/Entity_Uri.thy ===== *)
theory Entity_Uri
  imports Prelude
begin

text \<open>
  Entity URIs and tree paths (\<^verbatim>\<open>EntityUri\<close>, \<^verbatim>\<open>is_safe_path_segment\<close> and
  \<^verbatim>\<open>sanitize_path_segment\<close> of \<^verbatim>\<open>core/entity/src/lib.rs\<close>) and the admission of a handler URI
  by the dispatcher (\<^verbatim>\<open>core/peer/src/connection.rs\<close>).  \<^verbatim>\<open>Result<(), String>\<close> is \<open>string + unit\<close>;
  messages keep their constant part.
\<close>

definition URI_SCHEME :: string where "URI_SCHEME = ''entity://''"
definition NEVER_MATCH :: string where "NEVER_MATCH = ''/never-match''"

record entity_uri =
  uri_peer_id :: string
  uri_path :: string

definition uri_parse :: "string \<Rightarrow> string + entity_uri" where
  "uri_parse s =
     (case strip_prefix URI_SCHEME s of
        None \<Rightarrow> Inl ''expected entity:// prefix''
      | Some rest \<Rightarrow>
          (case split_once CHR ''/'' rest of
             Some (peer, path) \<Rightarrow> Inr \<lparr>uri_peer_id = peer, uri_path = path\<rparr>
           | None \<Rightarrow> Inr \<lparr>uri_peer_id = rest, uri_path = []\<rparr>))"

definition uri_display :: "entity_uri \<Rightarrow> string" where
  "uri_display u =
     (if uri_path u = [] then URI_SCHEME @ uri_peer_id u
      else URI_SCHEME @ uri_peer_id u @ ''/'' @ uri_path u)"

definition normalize_path :: "string \<Rightarrow> string" where
  "normalize_path uri =
     (case strip_prefix URI_SCHEME uri of
        Some rest \<Rightarrow> (case split_once CHR ''/'' rest of Some (_, path) \<Rightarrow> path | None \<Rightarrow> [])
      | None \<Rightarrow> uri)"

definition extract_handler_path :: "string \<Rightarrow> string" where
  "extract_handler_path uri = normalize_path uri"

definition BASE58 :: string where
  "BASE58 = ''123456789ABCDEFGHJKLMNPQRSTUVWXYZabcdefghijkmnopqrstuvwxyz''"

definition is_peer_id :: "string \<Rightarrow> bool" where
  "is_peer_id segment \<longleftrightarrow> length segment = 46 \<and> list_all (\<lambda>b. b \<in> set BASE58) segment"

definition first_segment :: "string \<Rightarrow> string" where
  "first_segment rest = (case split_once CHR ''/'' rest of Some (a, _) \<Rightarrow> a | None \<Rightarrow> rest)"

definition extract_peer :: "string \<Rightarrow> string \<Rightarrow> string" where
  "extract_peer uri local_peer_id =
     (let rest = (case strip_prefix URI_SCHEME uri of
                    Some rest \<Rightarrow> rest
                  | None \<Rightarrow> (case strip_prefix ''/'' uri of Some r \<Rightarrow> r | None \<Rightarrow> uri));
          first = first_segment rest
      in if is_peer_id first then first else local_peer_id)"

text \<open>The slash-collapsing loop of \<^verbatim>\<open>clean_path\<close>; the flag is \<^verbatim>\<open>prev_slash\<close>.\<close>

fun collapse_slashes :: "bool \<Rightarrow> string \<Rightarrow> string" where
  "collapse_slashes prev_slash [] = []"
| "collapse_slashes prev_slash (ch # cs) =
     (if ch = CHR ''/''
      then (if prev_slash then collapse_slashes True cs else CHR ''/'' # collapse_slashes True cs)
      else ch # collapse_slashes False cs)"

function clean_path :: "string \<Rightarrow> string" where
  "clean_path input =
     (case strip_prefix URI_SCHEME input of
        Some rest \<Rightarrow> URI_SCHEME @ clean_path rest
      | None \<Rightarrow> if input = [] then [] else collapse_slashes False input)"
  by pat_completeness auto
termination
  by (relation "measure length") (auto simp: strip_prefix_Some URI_SCHEME_def)

declare clean_path.simps [simp del]

definition qualify_path :: "string \<Rightarrow> string \<Rightarrow> string" where
  "qualify_path path local_peer_id =
     (case strip_prefix URI_SCHEME path of
        Some rest \<Rightarrow> clean_path (''/'' @ rest)
      | None \<Rightarrow>
          if starts_with path ''./'' \<or> starts_with path ''../'' then NEVER_MATCH
          else if starts_with path ''*/'' then NEVER_MATCH
          else if starts_with path ''/'' then clean_path path
          else if path = ''*'' then ''/'' @ local_peer_id @ ''/*''
          else if is_peer_id (first_segment path) then ''/'' @ path
          else ''/'' @ local_peer_id @ ''/'' @ path)"

definition strip_peer_prefix :: "string \<Rightarrow> string" where
  "strip_peer_prefix path =
     (let p = (case strip_prefix ''/'' path of Some r \<Rightarrow> r | None \<Rightarrow> path)
      in case split_once CHR ''/'' p of
           Some (a, b) \<Rightarrow>
             if is_peer_id a then b else if is_peer_id p then [] else path
         | None \<Rightarrow> if is_peer_id p then [] else path)"

definition is_absolute :: "string \<Rightarrow> bool" where
  "is_absolute path \<longleftrightarrow> starts_with path ''/''"

definition validate_path_input :: "string \<Rightarrow> string + unit" where
  "validate_path_input path =
     (if starts_with path ''./'' \<or> path = ''.'' then Inl ''reserved: directory-relative path ./''
      else if starts_with path ''../'' \<or> path = ''..'' then Inl ''reserved: directory-relative path ../''
      else
        let check_part = (case strip_prefix URI_SCHEME path of Some r \<Rightarrow> r | None \<Rightarrow> path)
        in if str_contains ''//'' check_part then Inl ''invalid: path contains empty segment (//)''
           else Inr ())"

definition validate_absolute_path :: "string \<Rightarrow> string + unit" where
  "validate_absolute_path path =
     (if \<not> starts_with path ''/'' then Inl ''path is not absolute (no leading /)''
      else if str_contains ''//'' path then Inl ''path contains empty segment (//)''
      else if \<not> is_peer_id (first_segment (tl path)) then Inl ''first segment is not a valid peer_id''
      else Inr ())"

definition is_reserved_path_word :: "string \<Rightarrow> bool" where
  "is_reserved_path_word segment \<longleftrightarrow> segment = ''content'' \<or> segment = ''manifest''"

definition is_safe_path_segment :: "string \<Rightarrow> bool" where
  "is_safe_path_segment s =
     (if s = [] \<or> s = ''.'' \<or> s = ''..'' then False
      else if CHR ''/'' \<in> set s then False
      else \<not> list_ex (\<lambda>b. (of_char b :: nat) < 0x20 \<or> (of_char b :: nat) = 0x7F) s)"

definition SENTINEL_UNSPECIFIED_ERROR :: string where
  "SENTINEL_UNSPECIFIED_ERROR = ''unspecified_error''"
definition SENTINEL_UNSPECIFIED_CHAIN_ID :: string where
  "SENTINEL_UNSPECIFIED_CHAIN_ID = ''unspecified_chain_id''"
definition SENTINEL_UNSPECIFIED_STEP_INDEX :: string where
  "SENTINEL_UNSPECIFIED_STEP_INDEX = ''unspecified_step_index''"

definition sanitize_path_segment :: "string \<Rightarrow> string \<Rightarrow> string" where
  "sanitize_path_segment s sentinel = (if is_safe_path_segment s then s else sentinel)"

text \<open>
  The admission of an inbound EXECUTE's handler URI: the foreign-address gate, the check of
  the bare path, qualification, and the check of the absolute path.  The result is the error
  code of the response or the handler path that is resolved next.
\<close>

definition admit_handler_uri :: "string \<Rightarrow> string \<Rightarrow> string + string" where
  "admit_handler_uri uri local_pid =
     (if extract_peer uri local_pid \<noteq> local_pid then Inl ''invalid_request''
      else
        let bare_path = extract_handler_path uri
        in case validate_path_input bare_path of
             Inl _ \<Rightarrow> Inl ''invalid_path''
           | Inr _ \<Rightarrow>
               let handler_path = qualify_path bare_path local_pid
               in case validate_absolute_path handler_path of
                    Inl _ \<Rightarrow> Inl ''invalid_path''
                  | Inr _ \<Rightarrow> Inr handler_path)"

section \<open>Lemmas\<close>

lemma BASE58_no_slash: "CHR ''/'' \<notin> set BASE58"
  by (simp add: BASE58_def)

lemma peer_id_no_slash: "is_peer_id p \<Longrightarrow> CHR ''/'' \<notin> set p"
  using BASE58_no_slash by (auto simp: is_peer_id_def list_all_iff)

lemma peer_id_not_Nil: "is_peer_id p \<Longrightarrow> p \<noteq> []"
  by (auto simp: is_peer_id_def)

lemma first_segment_append [simp]: "CHR ''/'' \<notin> set a \<Longrightarrow> first_segment (a @ CHR ''/'' # b) = a"
  by (simp add: first_segment_def)

lemma first_segment_no_slash: "CHR ''/'' \<notin> set (first_segment s)"
  by (auto simp: first_segment_def str_simps split: option.splits)

lemma first_segment_split:
  "s = first_segment s \<or> (\<exists>r. s = first_segment s @ CHR ''/'' # r)"
  by (auto simp: first_segment_def str_simps split: option.splits)

text \<open>The empty-segment test in terms of the collapsing loop: without \<open>//\<close> nothing changes.\<close>

lemma contains_dslash_Cons:
  "str_contains ''//'' (c # cs) \<longleftrightarrow>
     (c = CHR ''/'' \<and> (\<exists>ds. cs = CHR ''/'' # ds)) \<or> str_contains ''//'' cs"
  by (cases cs) auto

lemma collapse_id: "\<not> str_contains ''//'' (if b then CHR ''/'' # s else s) \<Longrightarrow> collapse_slashes b s = s"
proof (induction b s rule: collapse_slashes.induct)
  case (2 b ch cs)
  then show ?case by (auto simp: contains_dslash_Cons split: if_splits)
qed simp

lemma collapse_no_dslash:
  "\<not> str_contains ''//'' (if b then CHR ''/'' # collapse_slashes b s else collapse_slashes b s)"
proof (induction b s rule: collapse_slashes.induct)
  case (1 b)
  then show ?case by auto
next
  case (2 b ch cs)
  then show ?case by (auto simp: contains_dslash_Cons)
qed

lemma clean_path_no_scheme:
  "strip_prefix URI_SCHEME s = None \<Longrightarrow> clean_path s = collapse_slashes False s"
  by (simp add: clean_path.simps)

lemma clean_path_abs: "clean_path (CHR ''/'' # s) = collapse_slashes False (CHR ''/'' # s)"
  by (rule clean_path_no_scheme) (simp add: str_simps URI_SCHEME_def)

lemma validate_absolute_pathD:
  assumes "validate_absolute_path p = Inr ()"
  obtains peer where "is_peer_id peer" "first_segment (tl p) = peer" "p = CHR ''/'' # tl p"
    "\<not> str_contains ''//'' p"
  using assms
  by (auto simp: validate_absolute_path_def starts_with_def prefix_def split: if_splits)

lemma prefix_scheme_slash [simp]: "strip_prefix URI_SCHEME (CHR ''/'' # s) = None"
  by (simp add: str_simps URI_SCHEME_def)

lemma strip_slash [simp]: "strip_prefix ''/'' (CHR ''/'' # s) = Some s"
  by (simp add: str_simps)

lemma clean_path_id: "\<not> str_contains ''//'' (CHR ''/'' # s) \<Longrightarrow> clean_path (CHR ''/'' # s) = CHR ''/'' # s"
  using collapse_id [of False "CHR ''/'' # s"] by (simp add: clean_path_abs)

lemma clean_path_no_dslash: "\<not> str_contains ''//'' (clean_path (CHR ''/'' # s))"
  using collapse_no_dslash [of False "CHR ''/'' # s"] by (simp add: clean_path_abs)

lemma qualify_absolute: "qualify_path (CHR ''/'' # s) l = clean_path (CHR ''/'' # s)"
  by (simp add: qualify_path_def starts_with_def)

lemma qualify_clean:
  "\<not> str_contains ''//'' (CHR ''/'' # s) \<Longrightarrow> qualify_path (CHR ''/'' # s) l = CHR ''/'' # s"
  by (simp add: qualify_absolute clean_path_id)

lemma no_dslash_append:
  "CHR ''/'' \<notin> set p \<Longrightarrow> p \<noteq> [] \<Longrightarrow>
   str_contains ''//'' (p @ s) \<longleftrightarrow> str_contains ''//'' s"
proof (induction p)
  case (Cons c p)
  then show ?case by (cases p) (auto simp: contains_dslash_Cons)
qed simp

lemma dslash_segment:
  "CHR ''/'' \<notin> set p \<Longrightarrow> p \<noteq> [] \<Longrightarrow>
   str_contains ''//'' (CHR ''/'' # p @ s) \<longleftrightarrow> str_contains ''//'' s"
  using no_dslash_append [of p s] by (cases p) (simp_all add: contains_dslash_Cons)

lemma extract_peer_absolute:
  "extract_peer (CHR ''/'' # s) l = (if is_peer_id (first_segment s) then first_segment s else l)"
  by (simp add: extract_peer_def Let_def)

lemma extract_peer_bare:
  assumes "strip_prefix URI_SCHEME s = None" "\<not> prefix ''/'' s"
  shows "extract_peer s l = (if is_peer_id (first_segment s) then first_segment s else l)"
proof -
  have "strip_prefix ''/'' s = None" using assms(2) by (simp add: strip_prefix_None)
  then show ?thesis using assms(1) by (simp add: extract_peer_def Let_def)
qed

lemma qualify_bare:
  assumes "strip_prefix URI_SCHEME s = None" "\<not> prefix ''/'' s" "qualify_path s l \<noteq> NEVER_MATCH"
  shows "qualify_path s l =
    (if s \<noteq> ''*'' \<and> is_peer_id (first_segment s) then CHR ''/'' # s else CHR ''/'' # l @ CHR ''/'' # s)"
  using assms by (auto simp: qualify_path_def starts_with_def split: if_splits)

lemma validate_path_input_ok:
  "validate_path_input p = Inr () \<Longrightarrow> strip_prefix URI_SCHEME p = None \<Longrightarrow> \<not> str_contains ''//'' p"
  by (simp add: validate_path_input_def Let_def split: if_splits)

lemma NEVER_MATCH_invalid: "validate_absolute_path NEVER_MATCH \<noteq> Inr ()"
  by (simp add: NEVER_MATCH_def validate_absolute_path_def is_peer_id_def first_segment_def)

lemma qualify_path_shape: "\<exists>s. qualify_path p l = CHR ''/'' # s"
proof -
  have "\<exists>s. clean_path (CHR ''/'' # x) = CHR ''/'' # s" for x by (simp add: clean_path_abs)
  then show ?thesis
    by (auto simp: qualify_path_def starts_with_def prefix_def NEVER_MATCH_def split: option.splits)
qed

lemma is_safe_path_segment_iff:
  "is_safe_path_segment t \<longleftrightarrow>
     t \<notin> {[], ''.'', ''..''} \<and> CHR ''/'' \<notin> set t \<and>
     (\<forall>b. b \<in> set t \<longrightarrow> (of_char b :: nat) \<noteq> 127 \<and> 32 \<le> (of_char b :: nat))"
proof -
  have "\<not> list_ex (\<lambda>b. (of_char b :: nat) < 0x20 \<or> (of_char b :: nat) = 0x7F) t \<longleftrightarrow>
      (\<forall>b. b \<in> set t \<longrightarrow> (of_char b :: nat) \<noteq> 127 \<and> 32 \<le> (of_char b :: nat))"
    by (auto simp: list_ex_iff not_less)
  then show ?thesis unfolding is_safe_path_segment_def by (simp only: if_split) blast
qed

section \<open>Properties\<close>

text \<open>Parsing inverts printing for every URI whose authority has no slash, and a string
  that parses is the printed form of its result, up to one trailing slash after a bare
  authority (which printing drops).\<close>

theorem uri_parse_display:
  "(CHR ''/'' \<notin> set (uri_peer_id u) \<longrightarrow> uri_parse (uri_display u) = Inr u) \<and>
   (uri_parse s = Inr u \<longrightarrow>
      CHR ''/'' \<notin> set (uri_peer_id u) \<and>
      (s = uri_display u \<or> uri_path u = [] \<and> s = uri_display u @ ''/''))"
proof (intro conjI impI)
  assume "CHR ''/'' \<notin> set (uri_peer_id u)"
  then show "uri_parse (uri_display u) = Inr u"
    by (cases u) (auto simp: uri_parse_def uri_display_def split_once_None split: option.splits
        dest: iffD1 [OF split_once_Some])
next
  assume "uri_parse s = Inr u"
  then show "CHR ''/'' \<notin> set (uri_peer_id u)"
    by (auto simp: uri_parse_def str_simps split: option.splits)
next
  assume "uri_parse s = Inr u"
  then show "s = uri_display u \<or> uri_path u = [] \<and> s = uri_display u @ ''/''"
    by (auto simp: uri_parse_def uri_display_def str_simps split: option.splits)
qed

theorem uri_parse_display_witness:
  "uri_parse (uri_display \<lparr>uri_peer_id = ''p'', uri_path = ''a/b''\<rparr>) =
     Inr \<lparr>uri_peer_id = ''p'', uri_path = ''a/b''\<rparr>"
  using uri_parse_display [of "\<lparr>uri_peer_id = ''p'', uri_path = ''a/b''\<rparr>"] by simp

text \<open>Qualification is idempotent on every path the input check accepts, for a local id
  that is a peer id; its result then never has an empty segment.  (The check is needed: on
  \<open>a//b\<close>, which it rejects, the first qualification keeps the double slash and the second
  collapses it.)\<close>

theorem qualify_path_idempotent:
  assumes "is_peer_id l" "validate_path_input p = Inr ()"
  shows "qualify_path (qualify_path p l) l = qualify_path p l \<and>
         \<not> str_contains ''//'' (qualify_path p l) \<and>
         qualify_path (qualify_path ''a//b'' l) l \<noteq> qualify_path ''a//b'' l"
proof -
  note l = peer_id_no_slash [OF assms(1)] peer_id_not_Nil [OF assms(1)]
  have nd: "\<not> str_contains ''//'' (qualify_path p l)"
  proof (cases "strip_prefix URI_SCHEME p")
    case (Some r)
    then show ?thesis using clean_path_no_dslash [of r] by (simp add: qualify_path_def)
  next
    case None
    note np = validate_path_input_ok [OF assms(2) None]
    show ?thesis
    proof (cases "prefix ''/'' p")
      case True
      then obtain s where "p = CHR ''/'' # s" by (auto simp: prefix_def)
      with np show ?thesis by (simp add: qualify_clean)
    next
      case False
      have never: "\<not> str_contains ''//'' NEVER_MATCH" by (simp add: NEVER_MATCH_def)
      have "\<not> str_contains ''//'' (CHR ''/'' # p)"
        using np False by (auto simp: contains_dslash_Cons)
      moreover have "\<not> str_contains ''//'' (CHR ''/'' # l @ CHR ''/'' # p)"
        using calculation l by (simp add: dslash_segment del: str_contains.simps)
      ultimately show ?thesis
        using qualify_bare [OF None False, of l] never by (cases "qualify_path p l = NEVER_MATCH") auto
    qed
  qed
  obtain s where s: "qualify_path p l = CHR ''/'' # s" using qualify_path_shape by blast
  have "qualify_path ''a//b'' l = CHR ''/'' # l @ ''/a//b''"
    by (simp add: qualify_path_def strip_prefix_def URI_SCHEME_def starts_with_def is_peer_id_def
        first_segment_def)
  moreover have "str_contains ''//'' (CHR ''/'' # l @ ''/a//b'')" using l by (subst dslash_segment) simp_all
  ultimately show ?thesis
    using nd s qualify_clean clean_path_no_dslash by (metis qualify_absolute)
qed

theorem qualify_path_idempotent_witness:
  "qualify_path (qualify_path ''system/tree'' (replicate 46 CHR ''A'')) (replicate 46 CHR ''A'') =
     qualify_path ''system/tree'' (replicate 46 CHR ''A'')"
proof -
  have "is_peer_id (replicate 46 CHR ''A'')" by (simp add: is_peer_id_def list_all_iff BASE58_def)
  moreover have "validate_path_input ''system/tree'' = Inr ()"
    by (simp add: validate_path_input_def starts_with_def strip_prefix_def URI_SCHEME_def)
  ultimately show ?thesis using qualify_path_idempotent by blast
qed

text \<open>An accepted absolute path is a fixed point of cleaning and of qualification under any
  local id, \<open>extract_peer\<close> reads its first segment, and stripping the peer prefix leaves the
  rest: the path is the slash, the peer id, and (unless empty) a slash and the stripped path.\<close>

theorem validated_absolute_path:
  assumes "validate_absolute_path p = Inr ()"
  shows "clean_path p = p \<and> qualify_path p l = p \<and> is_peer_id (extract_peer p l) \<and>
     (p = ''/'' @ extract_peer p l @ ''/'' @ strip_peer_prefix p \<or>
      p = ''/'' @ extract_peer p l \<and> strip_peer_prefix p = [])"
proof -
  from assms obtain peer where peer: "is_peer_id peer" "first_segment (tl p) = peer"
    and p: "p = CHR ''/'' # tl p" and nd: "\<not> str_contains ''//'' p"
    by (rule validate_absolute_pathD)
  have fixed: "clean_path p = p" "qualify_path p l = p"
    using nd by (metis p clean_path_id, metis p qualify_clean)
  have ex: "extract_peer p l = peer"
    using peer by (metis p extract_peer_absolute)
  note ns = peer_id_no_slash [OF peer(1)]
  from first_segment_split [of "tl p"] consider (bare) "p = CHR ''/'' # peer"
    | (rest) r where "p = CHR ''/'' # peer @ CHR ''/'' # r"
    using peer(2) p by metis
  then have "p = ''/'' @ peer @ ''/'' @ strip_peer_prefix p \<or> p = ''/'' @ peer \<and> strip_peer_prefix p = []"
  proof cases
    case bare
    have "split_once CHR ''/'' peer = None" using ns by (simp add: split_once_None)
    then show ?thesis using bare peer(1) by (simp add: strip_peer_prefix_def)
  next
    case (rest r)
    then show ?thesis using ns peer(1) by (simp add: strip_peer_prefix_def)
  qed
  then show ?thesis using fixed ex peer(1) by simp
qed

theorem validated_absolute_path_witness:
  "qualify_path (''/'' @ replicate 46 CHR ''A'' @ ''/x'') ''other'' = ''/'' @ replicate 46 CHR ''A'' @ ''/x''"
proof -
  have "is_peer_id (replicate 46 CHR ''A'')" by (simp add: is_peer_id_def list_all_iff BASE58_def)
  then have "validate_absolute_path (''/'' @ replicate 46 CHR ''A'' @ ''/x'') = Inr ()"
    by (simp add: validate_absolute_path_def starts_with_def dslash_segment peer_id_no_slash peer_id_not_Nil
        del: str_contains.simps) (simp add: is_peer_id_def)
  then show ?thesis using validated_absolute_path by blast
qed

text \<open>A segment built from external text is always one safe path segment: not empty, not
  \<open>.\<close> or \<open>..\<close>, with no slash and no ASCII control byte, for each of the three sentinels; and a
  safe text is kept as it is.\<close>

theorem sanitize_path_segment_safe:
  "sentinel \<in> {SENTINEL_UNSPECIFIED_ERROR, SENTINEL_UNSPECIFIED_CHAIN_ID, SENTINEL_UNSPECIFIED_STEP_INDEX} \<Longrightarrow>
   (let t = sanitize_path_segment s sentinel in
      t \<notin> {[], ''.'', ''..''} \<and> CHR ''/'' \<notin> set t \<and>
      (\<forall>b. b \<in> set t \<longrightarrow> (of_char b :: nat) \<noteq> 127 \<and> 32 \<le> (of_char b :: nat)) \<and>
      (is_safe_path_segment s \<longrightarrow> t = s) \<and> sanitize_path_segment t sentinel = t)"
proof -
  assume s: "sentinel \<in> {SENTINEL_UNSPECIFIED_ERROR, SENTINEL_UNSPECIFIED_CHAIN_ID, SENTINEL_UNSPECIFIED_STEP_INDEX}"
  then have "is_safe_path_segment sentinel"
    by (auto simp: is_safe_path_segment_def SENTINEL_UNSPECIFIED_ERROR_def
        SENTINEL_UNSPECIFIED_CHAIN_ID_def SENTINEL_UNSPECIFIED_STEP_INDEX_def of_char_Char)
  then have safe: "is_safe_path_segment (sanitize_path_segment s sentinel)"
    by (simp add: sanitize_path_segment_def)
  moreover have "is_safe_path_segment t \<Longrightarrow> sanitize_path_segment t sentinel = t" for t
    by (simp add: sanitize_path_segment_def)
  ultimately show ?thesis unfolding Let_def using is_safe_path_segment_iff by blast
qed

theorem sanitize_path_segment_safe_witness:
  "sanitize_path_segment ''a/b'' SENTINEL_UNSPECIFIED_ERROR \<notin> {[], ''.'', ''..''}"
  using sanitize_path_segment_safe [of SENTINEL_UNSPECIFIED_ERROR "''a/b''"] by (simp add: Let_def)

text \<open>The admission gate confines a handler path that is not given as an \<open>entity://\<close> URI to
  the local namespace: an admitted path is a valid absolute path whose first segment is the
  local peer.\<close>

theorem admit_handler_uri_local:
  assumes l: "is_peer_id l" and ns: "\<not> starts_with uri URI_SCHEME"
    and adm: "admit_handler_uri uri l = Inr h"
  shows "validate_absolute_path h = Inr () \<and> extract_peer h l = l \<and> first_segment (tl h) = l"
proof -
  have ns': "strip_prefix URI_SCHEME uri = None" using ns by (simp add: strip_prefix_None starts_with_def)
  then have bare: "extract_handler_path uri = uri"
    by (simp add: extract_handler_path_def normalize_path_def)
  from adm have gate: "extract_peer uri l = l" and h: "h = qualify_path uri l"
    and v: "validate_path_input uri = Inr ()" and va: "validate_absolute_path h = Inr ()"
    by (auto simp: admit_handler_uri_def bare Let_def split: if_splits sum.splits)
  note nd = validate_path_input_ok [OF v ns'] and lns = peer_id_no_slash [OF l]
  from va obtain peer where peer: "is_peer_id peer" "first_segment (tl h) = peer" "h = CHR ''/'' # tl h"
    by (rule validate_absolute_pathD)
  have "first_segment (tl h) = l"
  proof (cases "prefix ''/'' uri")
    case True
    then obtain s where s: "uri = CHR ''/'' # s" by (auto simp: prefix_def)
    with nd h have "h = CHR ''/'' # s" by (simp add: qualify_clean)
    with gate s peer show ?thesis by (simp add: extract_peer_absolute split: if_splits)
  next
    case False
    have "h \<noteq> NEVER_MATCH" using va NEVER_MATCH_invalid by blast
    with qualify_bare [OF ns' False, of l] h
    consider "is_peer_id (first_segment uri)" "h = CHR ''/'' # uri" | "h = CHR ''/'' # l @ CHR ''/'' # uri"
      by (auto split: if_splits)
    then show ?thesis
      using gate lns by cases (auto simp: extract_peer_bare [OF ns' False] split: if_splits)
  qed
  moreover from this have "extract_peer h l = l" using peer by (metis extract_peer_absolute l)
  ultimately show ?thesis using va by simp
qed

theorem admit_handler_uri_local_witness:
  "first_segment (tl (''/'' @ replicate 46 CHR ''A'' @ ''/x'')) = replicate 46 CHR ''A''"
proof -
  have l: "is_peer_id (replicate 46 CHR ''A'')" by (simp add: is_peer_id_def list_all_iff BASE58_def)
  have "admit_handler_uri ''x'' (replicate 46 CHR ''A'') = Inr (''/'' @ replicate 46 CHR ''A'' @ ''/x'')"
    by code_simp
  moreover have "\<not> starts_with ''x'' URI_SCHEME" by (simp add: starts_with_def URI_SCHEME_def)
  ultimately show ?thesis using admit_handler_uri_local [OF l] by blast
qed

text \<open>The gate reads the authority of an \<open>entity://\<close> URI but the path is qualified on its
  own: with an empty authority, a foreign absolute path behind it is admitted, and the handler
  path lies in the foreign peer's namespace.\<close>

theorem admit_handler_uri_foreign:
  assumes l: "is_peer_id l" and f: "is_peer_id f"
  shows "admit_handler_uri (URI_SCHEME @ ''//'' @ f @ ''/x'') l = Inr (''/'' @ f @ ''/x'')"
proof -
  note fs = peer_id_no_slash [OF f] peer_id_not_Nil [OF f]
  let ?p = "CHR ''/'' # f @ ''/x''"
  have "extract_peer (URI_SCHEME @ ''//'' @ f @ ''/x'') l = l"
    by (simp add: extract_peer_def first_segment_def is_peer_id_def)
  moreover have "extract_handler_path (URI_SCHEME @ ''//'' @ f @ ''/x'') = ?p"
    by (simp add: extract_handler_path_def normalize_path_def)
  moreover have nd: "\<not> str_contains ''//'' ?p" using fs by (subst dslash_segment) simp_all
  moreover have "validate_path_input ?p = Inr ()"
    using nd by (simp add: validate_path_input_def starts_with_def del: str_contains.simps)
  moreover have "qualify_path ?p l = ?p" using nd by (rule qualify_clean)
  moreover have "validate_absolute_path ?p = Inr ()"
    using nd f fs by (simp add: validate_absolute_path_def starts_with_def del: str_contains.simps)
  ultimately show ?thesis by (simp add: admit_handler_uri_def)
qed

theorem admit_handler_uri_foreign_witness:
  "admit_handler_uri (URI_SCHEME @ ''//'' @ replicate 46 CHR ''B'' @ ''/x'') (replicate 46 CHR ''A'') =
     Inr (''/'' @ replicate 46 CHR ''B'' @ ''/x'')"
  by (rule admit_handler_uri_foreign) (simp_all add: is_peer_id_def list_all_iff BASE58_def)

end
