(* ===== verification/Entity_Model.thy ===== *)
theory Entity_Model
  imports Content_Hash
begin

text \<open>
  Entities and envelopes (\<^verbatim>\<open>core/entity/src/lib.rs\<close>).  The process-wide home format that
  \<^verbatim>\<open>Entity::new\<close> reads is the parameter \<open>home\<close>; the CBOR decoder of the \<^verbatim>\<open>ciborium\<close> crate is
  the parameter \<open>dec\<close>.  The included map is an ordered map from hashes, in \<^verbatim>\<open>BTreeMap\<close> order.
\<close>

section \<open>Data and operations\<close>

definition TYPE_SIGNATURE :: string where "TYPE_SIGNATURE = ''system/signature''"
definition TYPE_PEER :: string where "TYPE_PEER = ''system/peer''"
definition TYPE_DELETION_MARKER :: string where "TYPE_DELETION_MARKER = ''system/deletion-marker''"

datatype EntityError =
    InvalidType string
  | EntityHashMismatch hash hash
  | MissingField string
  | InvalidUri string

record entity =
  entity_type :: string
  data :: bytes
  content_hash :: hash

text \<open>The constant part of a hash error's message.\<close>

definition hash_error_text :: "HashError \<Rightarrow> string" where
  "hash_error_text e =
     (case e of InvalidLength _ _ \<Rightarrow> ''invalid length'' | UnsupportedAlgorithm _ \<Rightarrow> ''unsupported algorithm''
      | ReservedFormat _ \<Rightarrow> ''reserved format'' | HashMismatch _ _ \<Rightarrow> ''hash mismatch''
      | InvalidFormat s \<Rightarrow> s | Panic s \<Rightarrow> s)"

definition new_with_format :: "digests \<Rightarrow> string \<Rightarrow> bytes \<Rightarrow> u8 \<Rightarrow> EntityError + entity" where
  "new_with_format D t d format_code =
     (if t = [] then Inl (InvalidType ''entity type cannot be empty'')
      else if d = [] then Inl (MissingField ''data'')
      else if t = TYPE_PEER \<and> format_code \<noteq> HASH_ALGORITHM_SHA256
      then Inl (InvalidType ''pinned to the ECFv1-SHA-256 floor'')
      else case compute_format D t d format_code of
             Inl e \<Rightarrow> Inl (InvalidType (hash_error_text e))
           | Inr h \<Rightarrow> Inr \<lparr>entity_type = t, data = d, content_hash = h\<rparr>)"

definition entity_new :: "digests \<Rightarrow> u8 \<Rightarrow> string \<Rightarrow> bytes \<Rightarrow> EntityError + entity" where
  "entity_new D home t d = new_with_format D t d home"

definition entity_validate :: "digests \<Rightarrow> entity \<Rightarrow> EntityError + unit" where
  "entity_validate D e =
     (case hash_validate D (entity_type e) (data e) (content_hash e) of
        Inr u \<Rightarrow> Inr u
      | Inl (HashMismatch expected actual) \<Rightarrow> Inl (EntityHashMismatch expected actual)
      | Inl other \<Rightarrow> Inl (InvalidType (hash_error_text other)))"

definition entity_eq :: "entity \<Rightarrow> entity \<Rightarrow> bool" where
  "entity_eq a b \<longleftrightarrow> content_hash a = content_hash b"

definition canonical_deletion_marker_entity :: "digests \<Rightarrow> u8 \<Rightarrow> EntityError + entity" where
  "canonical_deletion_marker_entity D home = entity_new D home TYPE_DELETION_MARKER [0xa0]"

record envelope =
  root :: entity
  included :: "(hash, entity) btree"

definition envelope_new :: "entity \<Rightarrow> envelope" where
  "envelope_new r = \<lparr>root = r, included = []\<rparr>"

definition with_included :: "entity \<Rightarrow> (hash, entity) btree \<Rightarrow> envelope" where
  "with_included r inc = \<lparr>root = r, included = inc\<rparr>"

definition include_key :: "digests \<Rightarrow> entity \<Rightarrow> hash" where
  "include_key D e =
     (case compute_format D (entity_type e) (data e) (algorithm (content_hash e)) of
        Inr k \<Rightarrow> k | Inl _ \<Rightarrow> content_hash e)"

definition env_include :: "digests \<Rightarrow> entity \<Rightarrow> envelope \<Rightarrow> envelope" where
  "env_include D e env = env\<lparr>included := bt_insert (include_key D e) e (included env)\<rparr>"

definition find_included :: "envelope \<Rightarrow> hash \<Rightarrow> entity option" where
  "find_included env h = map_of (included env) h"

text \<open>The field loop of \<^verbatim>\<open>decode_sig_target_signer\<close>: a later field overwrites an earlier one,
  also with \<open>None\<close>.\<close>

definition field_hash :: "Value \<Rightarrow> hash option" where
  "field_hash v =
     (case as_bytes v of None \<Rightarrow> None
      | Some b \<Rightarrow> (case from_bytes b of Inr h \<Rightarrow> Some h | Inl _ \<Rightarrow> None))"

fun sig_fields :: "(Value \<times> Value) list \<Rightarrow> hash option \<Rightarrow> hash option \<Rightarrow> hash option \<times> hash option" where
  "sig_fields [] target signer = (target, signer)"
| "sig_fields ((k, v) # entries) target signer =
     (if as_str k = Some ''target'' then sig_fields entries (field_hash v) signer
      else if as_str k = Some ''signer'' then sig_fields entries target (field_hash v)
      else sig_fields entries target signer)"

definition decode_sig_target_signer :: "(bytes \<Rightarrow> Value option) \<Rightarrow> bytes \<Rightarrow> (hash \<times> hash) option" where
  "decode_sig_target_signer dec d =
     (case dec d of None \<Rightarrow> None
      | Some value \<Rightarrow>
          (case as_map value of None \<Rightarrow> None
           | Some entries \<Rightarrow>
               (case sig_fields entries None None of
                  (Some target, Some signer) \<Rightarrow> Some (target, signer)
                | _ \<Rightarrow> None)))"

fun find_signature_for_target :: "(bytes \<Rightarrow> Value option) \<Rightarrow> entity list \<Rightarrow> hash \<Rightarrow> entity option" where
  "find_signature_for_target dec [] target = None"
| "find_signature_for_target dec (e # es) target =
     (if entity_type e = TYPE_SIGNATURE \<and>
         (case decode_sig_target_signer dec (data e) of Some (t, _) \<Rightarrow> t = target | None \<Rightarrow> False)
      then Some e else find_signature_for_target dec es target)"

fun find_signature_by_signer ::
    "(bytes \<Rightarrow> Value option) \<Rightarrow> entity list \<Rightarrow> hash \<Rightarrow> hash \<Rightarrow> entity option" where
  "find_signature_by_signer dec [] target signer = None"
| "find_signature_by_signer dec (e # es) target signer =
     (if entity_type e = TYPE_SIGNATURE \<and>
         (case decode_sig_target_signer dec (data e) of
            Some (t, s) \<Rightarrow> t = target \<and> s = signer | None \<Rightarrow> False)
      then Some e else find_signature_by_signer dec es target signer)"

definition find_signature_for :: "(bytes \<Rightarrow> Value option) \<Rightarrow> envelope \<Rightarrow> hash \<Rightarrow> entity option" where
  "find_signature_for dec env target = find_signature_for_target dec (map snd (included env)) target"

fun validate_entities :: "digests \<Rightarrow> entity list \<Rightarrow> EntityError + unit" where
  "validate_entities D [] = Inr ()"
| "validate_entities D (e # es) =
     (case entity_validate D e of Inl err \<Rightarrow> Inl err | Inr _ \<Rightarrow> validate_entities D es)"

definition validate_all :: "digests \<Rightarrow> envelope \<Rightarrow> EntityError + unit" where
  "validate_all D env =
     (case entity_validate D (root env) of
        Inl err \<Rightarrow> Inl err
      | Inr _ \<Rightarrow> validate_entities D (map snd (included env)))"

section \<open>Lemmas\<close>

lemma entity_validate_iff:
  "entity_validate D e = Inr () \<longleftrightarrow>
     compute_format D (entity_type e) (data e) (algorithm (content_hash e)) = Inr (content_hash e)"
  by (auto simp: entity_validate_def hash_validate_def split: sum.splits HashError.splits if_splits)

lemma include_key_validated: "entity_validate D e = Inr () \<Longrightarrow> include_key D e = content_hash e"
  by (simp add: entity_validate_iff include_key_def)

lemma validate_entities_iff:
  "validate_entities D es = Inr () \<longleftrightarrow> (\<forall>e \<in> set es. entity_validate D e = Inr ())"
  by (induction es) (auto split: sum.splits)

lemma find_signature_by_signer_Some:
  "find_signature_by_signer dec es t s = Some e \<Longrightarrow>
     e \<in> set es \<and> entity_type e = TYPE_SIGNATURE \<and> decode_sig_target_signer dec (data e) = Some (t, s)"
  by (induction es) (auto split: if_splits option.splits)

lemma find_signature_by_signer_None:
  "find_signature_by_signer dec es t s = None \<longleftrightarrow>
     (\<forall>e \<in> set es. entity_type e = TYPE_SIGNATURE \<longrightarrow> decode_sig_target_signer dec (data e) \<noteq> Some (t, s))"
  by (induction es) (auto split: option.splits)

text \<open>The keying invariant of an envelope, and the envelopes built by the operations.\<close>

definition content_addressed :: "digests \<Rightarrow> envelope \<Rightarrow> bool" where
  "content_addressed D env \<longleftrightarrow>
     bt_wf (included env) \<and> (\<forall>(k, e) \<in> set (included env). k = include_key D e)"

lemma set_bt_insert: "set (bt_insert k v m) \<subseteq> insert (k, v) (set m)"
  by (induction k v m rule: bt_insert.induct) auto

lemma content_addressed_new [simp]: "content_addressed D (envelope_new r)"
  by (simp add: content_addressed_def envelope_new_def)

lemma content_addressed_include:
  "content_addressed D env \<Longrightarrow> content_addressed D (env_include D e env)"
  using set_bt_insert [of "include_key D e" e "included env"]
  by (auto simp: content_addressed_def env_include_def)

lemma content_addressed_fold: "content_addressed D env \<Longrightarrow> content_addressed D (fold (env_include D) es env)"
  by (induction es arbitrary: env) (auto simp: content_addressed_include)

lemma included_fold_subset:
  "snd ` set (included (fold (env_include D) es env)) \<subseteq> snd ` set (included env) \<union> set es"
proof (induction es arbitrary: env)
  case (Cons x xs)
  have "snd ` set (included (env_include D x env)) \<subseteq> insert x (snd ` set (included env))"
    using set_bt_insert [of "include_key D x" x "included env"] by (force simp: env_include_def)
  with Cons [of "env_include D x env"] show ?case by (simp add: image_subset_iff subset_iff) blast
qed simp

section \<open>Properties\<close>

text \<open>The constructor succeeds exactly on a non-empty type and non-empty data under an
  allocated format, with the identity entity pinned to SHA-256; the entity it returns has the
  given type, data and format, and validates.\<close>

theorem new_with_format_correct:
  "(case new_with_format D t d f of
      Inr e \<Rightarrow> t \<noteq> [] \<and> d \<noteq> [] \<and> entity_type e = t \<and> data e = d \<and> algorithm (content_hash e) = f \<and>
         \<not> (t = TYPE_PEER \<and> f \<noteq> HASH_ALGORITHM_SHA256) \<and> entity_validate D e = Inr ()
    | Inl _ \<Rightarrow> t = [] \<or> d = [] \<or> digest_len_for_format f = None \<or>
         t = TYPE_PEER \<and> f = HASH_ALGORITHM_SHA384)"
  by (auto simp: new_with_format_def entity_validate_iff compute_format_def digest_len_for_format_def
      Hash_new_def Let_def split: sum.splits if_splits)

text \<open>An envelope built by \<open>envelope_new\<close> and any sequence of \<open>env_include\<close> is keyed by
  recomputed content, whatever hashes the entities are stamped with: when the whole envelope
  validates, every key is its entity's own content hash, so a lookup by hash returns an entity
  that has that hash.\<close>

theorem envelope_content_addressed:
  assumes "env = fold (env_include D) es (envelope_new r)" "validate_all D env = Inr ()"
    "find_included env h = Some e"
  shows "content_hash e = h \<and> e \<in> set es \<and>
     compute_format D (entity_type e) (data e) (algorithm h) = Inr h"
proof -
  have ca: "content_addressed D env" using assms(1) by (simp add: content_addressed_fold)
  have mem: "(h, e) \<in> set (included env)" using assms(3) by (simp add: find_included_def map_of_SomeD)
  have "snd ` set (included env) \<subseteq> set es"
    using included_fold_subset [of D es "envelope_new r"] assms(1) by (simp add: envelope_new_def)
  then have e: "e \<in> set es" using mem by force
  have "\<forall>x \<in> set (map snd (included env)). entity_validate D x = Inr ()"
    using assms(2) by (simp add: validate_all_def validate_entities_iff split: sum.splits)
  then have v: "entity_validate D e = Inr ()" using mem by force
  have "h = content_hash e"
    using ca mem include_key_validated [OF v] by (auto simp: content_addressed_def)
  with v e show ?thesis by (simp add: entity_validate_iff)
qed

theorem envelope_content_addressed_witness:
  "let D = \<lparr>sha256 = (\<lambda>_. replicate 32 0), sha384 = (\<lambda>_. replicate 48 0)\<rparr>;
       e = \<lparr>entity_type = ''t'', data = [0xa0], content_hash = hash_zero\<rparr>
   in content_hash e = hash_zero \<and> e \<in> set [e] \<and>
      compute_format D (entity_type e) (data e) (algorithm hash_zero) = Inr hash_zero"
proof -
  let ?D = "\<lparr>sha256 = (\<lambda>_. replicate 32 (0::u8)), sha384 = (\<lambda>_. replicate 48 (0::u8))\<rparr>"
  let ?e = "\<lparr>entity_type = ''t'', data = [0xa0], content_hash = hash_zero\<rparr>"
  let ?env = "fold (env_include ?D) [?e] (envelope_new ?e)"
  have v: "compute_format ?D ''t'' [0xa0] (algorithm hash_zero) = Inr hash_zero"
    by (simp add: compute_format_def hash_zero_def Hash_new_def format_defs)
  have inc: "included ?env = [(hash_zero, ?e)]"
    by (simp add: env_include_def envelope_new_def include_key_def v)
  have "root ?env = ?e" by (simp add: env_include_def envelope_new_def)
  moreover have ok: "entity_validate ?D ?e = Inr ()" by (simp add: entity_validate_iff v)
  ultimately have "validate_all ?D ?env = Inr ()"
    unfolding validate_all_def inc by (simp only: ok) (simp add: ok)
  moreover have "find_included ?env hash_zero = Some ?e" unfolding find_included_def inc by simp
  ultimately show ?thesis unfolding Let_def by (rule envelope_content_addressed [OF refl])
qed

text \<open>The signature search by signer returns the first matching entity exactly when some
  entity of the signature type decodes to the given target and signer: no other entity is ever
  returned, and a present signature is never missed.\<close>

theorem find_signature_by_signer_correct:
  "(case find_signature_by_signer dec es t s of
      Some e \<Rightarrow> \<exists>pre post. es = pre @ e # post \<and> entity_type e = TYPE_SIGNATURE \<and>
         decode_sig_target_signer dec (data e) = Some (t, s) \<and>
         find_signature_by_signer dec pre t s = None
    | None \<Rightarrow> \<not> (\<exists>e \<in> set es. entity_type e = TYPE_SIGNATURE \<and>
         decode_sig_target_signer dec (data e) = Some (t, s)))"
proof (cases "find_signature_by_signer dec es t s")
  case None
  moreover from this have "\<not> (\<exists>e \<in> set es. entity_type e = TYPE_SIGNATURE \<and>
      decode_sig_target_signer dec (data e) = Some (t, s))"
    unfolding find_signature_by_signer_None by blast
  ultimately show ?thesis by simp
next
  case (Some e)
  have "find_signature_by_signer dec es t s = Some e \<Longrightarrow> \<exists>pre post. es = pre @ e # post \<and>
      find_signature_by_signer dec pre t s = None"
  proof (induction es)
    case (Cons x xs)
    show ?case
    proof (cases "find_signature_by_signer dec [x] t s")
      case None
      then have "find_signature_by_signer dec xs t s = Some e" using Cons.prems by (simp split: if_splits)
      then obtain pre post where "xs = pre @ e # post" "find_signature_by_signer dec pre t s = None"
        using Cons.IH by blast
      then show ?thesis using None by (intro exI [of _ "x # pre"] exI [of _ post]) (simp split: if_splits)
    next
      case (Some y)
      then have "x # xs = [] @ e # xs" using Cons.prems by (simp split: if_splits)
      then show ?thesis using find_signature_by_signer.simps(1) by blast
    qed
  qed simp
  then show ?thesis using Some find_signature_by_signer_Some [OF Some] by auto
qed

end
