(* ===== verification/Cap_Pattern.thy ===== *)
theory Cap_Pattern
  imports Entity_Uri
begin

text \<open>
  Capability patterns and scopes (\<^verbatim>\<open>core/capability/src/lib.rs\<close>, the scope types and the
  section on pattern matching).  Path patterns know three forms, \<open>*\<close>, \<open>prefix/*\<close> and the peer
  wildcard \<open>/*/rest\<close>; identifier patterns know \<open>*\<close> and \<open>prefix/*\<close>.  The central lemma is that
  matching is transitive, which is what lets a pattern comparison stand for an inclusion of the
  sets of paths.
\<close>

section \<open>Scopes\<close>

record path_scope =
  path_include :: "string list"
  path_exclude :: "string list"

definition PathScope_new :: "string list \<Rightarrow> path_scope" where
  "PathScope_new inc = \<lparr>path_include = inc, path_exclude = []\<rparr>"

definition PathScope_with_exclude :: "string list \<Rightarrow> string list \<Rightarrow> path_scope" where
  "PathScope_with_exclude inc exc = \<lparr>path_include = inc, path_exclude = exc\<rparr>"

definition PathScope_all :: path_scope where "PathScope_all = PathScope_new [''*'']"
definition PathScope_none :: path_scope where "PathScope_none = PathScope_new []"

record id_scope =
  id_include :: "string list"
  id_exclude :: "string list"

definition IdScope_new :: "string list \<Rightarrow> id_scope" where
  "IdScope_new inc = \<lparr>id_include = inc, id_exclude = []\<rparr>"

definition IdScope_with_exclude :: "string list \<Rightarrow> string list \<Rightarrow> id_scope" where
  "IdScope_with_exclude inc exc = \<lparr>id_include = inc, id_exclude = exc\<rparr>"

definition IdScope_all :: id_scope where "IdScope_all = IdScope_new [''*'']"

section \<open>Canonical form and matching\<close>

definition canonicalize :: "string \<Rightarrow> string \<Rightarrow> string" where
  "canonicalize path local_peer_id =
     (if starts_with path ''./'' \<or> starts_with path ''../'' then NEVER_MATCH
      else if starts_with path ''*/'' then NEVER_MATCH
      else
        let fallthrough =
          (if starts_with path ''/'' then path
           else if path = ''*'' then ''/'' @ local_peer_id @ ''/*''
           else ''/'' @ local_peer_id @ ''/'' @ path)
        in if starts_with path ''entity://''
           then (case uri_parse path of
                   Inr uri \<Rightarrow>
                     if uri_peer_id uri \<noteq> []
                     then (if uri_path uri = [] then ''/'' @ uri_peer_id uri
                           else ''/'' @ uri_peer_id uri @ ''/'' @ uri_path uri)
                     else fallthrough
                 | Inl _ \<Rightarrow> fallthrough)
           else fallthrough)"

text \<open>The test of a \<open>prefix/*\<close> pattern: the value starts with the prefix and goes on with a slash.\<close>

definition subtree_match :: "string \<Rightarrow> string \<Rightarrow> bool" where
  "subtree_match value pre \<longleftrightarrow>
     starts_with value pre \<and> length pre < length value \<and> value ! length pre = CHR ''/''"

function matches_pattern :: "string \<Rightarrow> string \<Rightarrow> bool" where
  "matches_pattern path pattern =
     (if path = NEVER_MATCH \<or> pattern = NEVER_MATCH then False
      else if pattern = ''*'' then True
      else case strip_prefix ''/*/'' pattern of
             Some remainder \<Rightarrow>
               (case strip_prefix ''/'' path of
                  None \<Rightarrow> False
                | Some after_slash \<Rightarrow>
                    (case split_once CHR ''/'' after_slash of
                       None \<Rightarrow> False
                     | Some (_, path_rest) \<Rightarrow> matches_pattern path_rest remainder))
           | None \<Rightarrow>
               (case strip_suffix ''/*'' pattern of
                  Some pre \<Rightarrow> subtree_match path pre
                | None \<Rightarrow> path = pattern))"
  by pat_completeness auto
termination
  by (relation "measure (length \<circ> snd)") (auto simp: strip_prefix_Some)

declare matches_pattern.simps [simp del]

definition matches_id_pattern :: "string \<Rightarrow> string \<Rightarrow> bool" where
  "matches_id_pattern value pattern =
     (if pattern = ''*'' then True
      else case strip_suffix ''/*'' pattern of
             Some pre \<Rightarrow> subtree_match value pre
           | None \<Rightarrow> value = pattern)"

definition matches_id_scope :: "string \<Rightarrow> string list \<Rightarrow> string list \<Rightarrow> bool" where
  "matches_id_scope value inc exc =
     (if \<not> list_ex (matches_id_pattern value) inc then False
      else \<not> list_ex (matches_id_pattern value) exc)"

text \<open>The exclude loop shared by \<^verbatim>\<open>matches_scope\<close> and the concrete arm of
  \<^verbatim>\<open>check_resource_scope\<close>: an unmatchable exclude denies.\<close>

fun survives_excludes :: "string \<Rightarrow> string list \<Rightarrow> string \<Rightarrow> bool" where
  "survives_excludes cv [] frame = True"
| "survives_excludes cv (pattern # rest) frame =
     (let cp = canonicalize pattern frame
      in if cp = NEVER_MATCH then False
         else if matches_pattern cv cp then False
         else survives_excludes cv rest frame)"

definition matches_scope :: "string \<Rightarrow> string list \<Rightarrow> string list \<Rightarrow> string \<Rightarrow> bool" where
  "matches_scope value inc exc local_peer_id =
     (let cv = canonicalize value local_peer_id;
          matched = list_ex (\<lambda>pattern. matches_pattern cv (canonicalize pattern local_peer_id)) inc
      in if \<not> matched then False else survives_excludes cv exc local_peer_id)"

definition is_covered_by :: "string \<Rightarrow> string list \<Rightarrow> string \<Rightarrow> bool" where
  "is_covered_by path pattern_set local_peer_id \<longleftrightarrow>
     list_ex (\<lambda>p. matches_pattern path (canonicalize p local_peer_id)) pattern_set"

definition is_pattern :: "string \<Rightarrow> bool" where
  "is_pattern path \<longleftrightarrow> CHR ''*'' \<in> set path"

definition strip_wildcard :: "string \<Rightarrow> string" where
  "strip_wildcard pattern =
     (case strip_suffix ''/*'' pattern of
        Some pre \<Rightarrow> pre
      | None \<Rightarrow> if pattern = ''*'' then [] else pattern)"

definition patterns_overlap :: "string \<Rightarrow> string \<Rightarrow> bool" where
  "patterns_overlap a b =
     (let pa = strip_wildcard a; pb = strip_wildcard b
      in starts_with pa pb \<or> starts_with pb pa)"

definition scope_subset_path :: "path_scope \<Rightarrow> path_scope \<Rightarrow> string \<Rightarrow> string \<Rightarrow> bool" where
  "scope_subset_path child parent child_frame parent_frame \<longleftrightarrow>
     list_all (\<lambda>ci. list_ex (\<lambda>pi. matches_pattern (canonicalize ci child_frame) (canonicalize pi parent_frame))
        (path_include parent)) (path_include child) \<and>
     list_all (\<lambda>pe. list_ex (\<lambda>ce. matches_pattern (canonicalize pe parent_frame) (canonicalize ce child_frame))
        (path_exclude child)) (path_exclude parent)"

definition scope_subset_id :: "id_scope \<Rightarrow> id_scope \<Rightarrow> bool" where
  "scope_subset_id child parent \<longleftrightarrow>
     list_all (\<lambda>ci. list_ex (matches_id_pattern ci) (id_include parent)) (id_include child) \<and>
     list_all (\<lambda>pe. list_ex (matches_id_pattern pe) (id_exclude child)) (id_exclude parent)"

section \<open>Matching as a relation\<close>

lemma subtree_match_iff: "subtree_match v p \<longleftrightarrow> prefix (p @ ''/'') v"
proof
  assume "subtree_match v p"
  then obtain z where "v = p @ z" "length p < length v" "v ! length p = CHR ''/''"
    by (auto simp: subtree_match_def starts_with_def prefix_def)
  then show "prefix (p @ ''/'') v" by (cases z) (auto simp: prefix_def nth_append)
next
  assume "prefix (p @ ''/'') v"
  then obtain z where "v = p @ CHR ''/'' # z" by (auto simp: prefix_def)
  then show "subtree_match v p" by (auto simp: subtree_match_def starts_with_def nth_append)
qed

lemma NEVER_MATCH_left [simp]: "\<not> matches_pattern NEVER_MATCH p"
  by (simp add: matches_pattern.simps)

lemma NEVER_MATCH_right [simp]: "\<not> matches_pattern v NEVER_MATCH"
  by (simp add: matches_pattern.simps)

lemma matches_star: "matches_pattern v ''*'' \<longleftrightarrow> v \<noteq> NEVER_MATCH"
  by (simp add: matches_pattern.simps NEVER_MATCH_def)

text \<open>The three shapes of a pattern other than \<open>*\<close>.\<close>

lemma matches_peer_wildcard:
  assumes v: "v \<noteq> NEVER_MATCH"
  shows "matches_pattern v (''/*/'' @ r) \<longleftrightarrow>
     (\<exists>a b. v = CHR ''/'' # a @ CHR ''/'' # b \<and> CHR ''/'' \<notin> set a \<and> matches_pattern b r)"
proof -
  have "matches_pattern v (''/*/'' @ r) =
      (case strip_prefix ''/'' v of None \<Rightarrow> False
       | Some u \<Rightarrow> (case split_once CHR ''/'' u of None \<Rightarrow> False | Some (_, b) \<Rightarrow> matches_pattern b r))"
    using v strip_prefix_append [of "''/*/''" r]
    by (subst matches_pattern.simps) (simp add: NEVER_MATCH_def)
  also have "\<dots> \<longleftrightarrow> (\<exists>a b. v = CHR ''/'' # a @ CHR ''/'' # b \<and> CHR ''/'' \<notin> set a \<and> matches_pattern b r)"
  proof (cases "strip_prefix ''/'' v")
    case None
    then show ?thesis by (auto simp: strip_prefix_def)
  next
    case (Some u)
    then have vu: "v = CHR ''/'' # u" by (simp add: strip_prefix_Some)
    show ?thesis
    proof (cases "split_once CHR ''/'' u")
      case None
      then have "CHR ''/'' \<notin> set u" by (simp add: split_once_None)
      then show ?thesis using vu Some None by auto
    next
      case (Some ab)
      then show ?thesis using vu \<open>strip_prefix ''/'' v = Some u\<close>
        by (cases ab) (auto simp: split_once_Some split_unique)
    qed
  qed
  finally show ?thesis .
qed

lemma matches_subtree:
  assumes "v \<noteq> NEVER_MATCH" "\<not> prefix ''/*/'' (pre @ ''/*'')"
  shows "matches_pattern v (pre @ ''/*'') \<longleftrightarrow> prefix (pre @ ''/'') v"
proof -
  have "strip_suffix ''/*'' (pre @ ''/*'') = Some pre" by (simp add: strip_suffix_Some)
  moreover have "strip_prefix ''/*/'' (pre @ ''/*'') = None" using assms(2) by (simp add: strip_prefix_None)
  moreover have "pre @ ''/*'' \<noteq> NEVER_MATCH" "pre @ ''/*'' \<noteq> ''*''"
    by (auto simp: NEVER_MATCH_def append_eq_Cons_conv)
  ultimately show ?thesis
    using assms(1) by (subst matches_pattern.simps) (simp only: if_False option.case subtree_match_iff disj_not1 simp_thms)
qed

lemma matches_exact:
  "pat \<noteq> NEVER_MATCH \<Longrightarrow> pat \<noteq> ''*'' \<Longrightarrow> \<not> prefix ''/*/'' pat \<Longrightarrow> \<not> suffix ''/*'' pat \<Longrightarrow>
   matches_pattern v pat \<longleftrightarrow> v = pat"
  by (subst matches_pattern.simps) (auto simp: strip_prefix_def strip_suffix_def)

lemma pattern_cases:
  obtains (never) "pat = NEVER_MATCH" | (star) "pat = ''*''" | (peer) r where "pat = ''/*/'' @ r"
  | (subtree) pre where "pat = pre @ ''/*''" "\<not> prefix ''/*/'' pat"
  | (exact) "pat \<noteq> NEVER_MATCH" "pat \<noteq> ''*''" "\<not> prefix ''/*/'' pat" "\<not> suffix ''/*'' pat"
  by (metis prefixE suffixE)

text \<open>Only \<open>*\<close> covers the pattern \<open>*\<close>.\<close>

lemma star_matches:
  assumes m: "matches_pattern ''*'' p"
  shows "p = ''*''"
proof (cases p rule: pattern_cases)
  case never
  then show ?thesis using m by simp
next
  case (peer r)
  then show ?thesis using m matches_peer_wildcard [of "''*''" r] by (simp add: NEVER_MATCH_def)
next
  case (subtree pre)
  then show ?thesis using m matches_subtree [of "''*''" pre] by (cases pre) (auto simp: NEVER_MATCH_def)
next
  case exact
  then show ?thesis using m matches_exact [OF exact] by simp
qed

lemma rest_not_NEVER:
  "\<not> str_contains ''//'' (CHR ''/'' # a @ CHR ''/'' # b) \<Longrightarrow> b \<noteq> NEVER_MATCH"
proof
  assume "\<not> str_contains ''//'' (CHR ''/'' # a @ CHR ''/'' # b)" "b = NEVER_MATCH"
  moreover have "CHR ''/'' # a @ CHR ''/'' # NEVER_MATCH = (CHR ''/'' # a) @ ''//'' @ ''never-match''"
    by (simp add: NEVER_MATCH_def)
  ultimately show False unfolding str_contains_iff by metis
qed

lemma contains_dslash_tail:
  "\<not> str_contains ''//'' (xs @ ys) \<Longrightarrow> \<not> str_contains ''//'' ys"
  by (metis append.assoc str_contains_iff)

lemma contains_dslash_prefix:
  "\<not> str_contains ''//'' v \<Longrightarrow> prefix u v \<Longrightarrow> \<not> str_contains ''//'' u"
  by (auto simp: prefix_def) (metis append.assoc str_contains_iff)

text \<open>Matching composes: a path in a pattern that another pattern covers is in that pattern.
  The path must not have an empty segment, since the unmatchable value may otherwise appear
  behind a peer segment.\<close>

lemma prefix_slash_star: "prefix (q @ ''/'') (pre @ ''/*'') \<Longrightarrow> prefix (q @ ''/'') (pre @ ''/'')"
proof -
  assume "prefix (q @ ''/'') (pre @ ''/*'')"
  then have "prefix (q @ ''/'') ((pre @ ''/'') @ ''*'')" by simp
  then show ?thesis unfolding prefix_append by (auto simp: prefix_Cons)
qed

lemma subtree_rest:
  assumes c: "c = pre @ ''/*''" "c = CHR ''/'' # a @ CHR ''/'' # b" "CHR ''/'' \<notin> set a"
    and v: "prefix (pre @ ''/'') v"
  obtains b' where "v = CHR ''/'' # a @ CHR ''/'' # b'"
    "b = ''*'' \<or> (\<exists>pre2. b = pre2 @ ''/*'' \<and> prefix (pre2 @ ''/'') b')"
proof -
  have split: "(CHR ''/'' # a @ ''/'') @ b = pre @ ''/*''" using c by simp
  from v obtain z where z: "v = pre @ CHR ''/'' # z" by (auto simp: prefix_def)
  from split consider (long) us where "pre = (CHR ''/'' # a @ ''/'') @ us" "b = us @ ''/*''"
    | (short) us where "CHR ''/'' # a @ ''/'' = pre @ us" "us @ b = ''/*''"
    unfolding append_eq_append_conv2 by blast
  then show ?thesis
  proof cases
    case long
    then show ?thesis using z that [of "us @ CHR ''/'' # z"] by (auto simp: prefix_def)
  next
    case short
    then consider "us = []" "b = ''/*''" | "us = ''/''" "b = ''*''" | "us = ''/*''" "b = []"
      by (auto simp: append_eq_Cons_conv)
    then show ?thesis
    proof cases
      case 1
      then show ?thesis using short(1) z that [of "CHR ''/'' # z"] by (auto simp: prefix_def)
    next
      case 2
      then have "pre = CHR ''/'' # a" using short(1) by (metis append1_eq_conv append_Cons)
      then show ?thesis using 2 z that [of z] by auto
    next
      case 3
      then have "last (CHR ''/'' # a @ ''/'') = last (pre @ ''/*'')" using short(1) by metis
      then show ?thesis by simp
    qed
  qed
qed

lemma trans_subtree:
  assumes "matches_pattern v c" "matches_pattern c (q @ ''/*'')" "\<not> prefix ''/*/'' (q @ ''/*'')"
  shows "matches_pattern v (q @ ''/*'')"
proof -
  have v0: "v \<noteq> NEVER_MATCH" and c0: "c \<noteq> NEVER_MATCH" using assms(1) by auto
  have q: "prefix (q @ ''/'') c" using assms(2,3) matches_subtree [OF c0] by simp
  have "prefix (q @ ''/'') v"
  proof (cases c rule: pattern_cases)
    case (peer r')
    obtain a b where v: "v = CHR ''/'' # a @ CHR ''/'' # b"
      using assms(1) peer matches_peer_wildcard [OF v0] by auto
    have "q = []"
    proof (rule ccontr)
      assume "q \<noteq> []"
      then obtain q2 where "q = CHR ''/'' # CHR ''*'' # q2" using q peer by (cases q; cases "tl q") auto
      with q peer have "prefix ''/*/'' (q @ ''/*'')" by (cases q2) auto
      then show False using assms(3) by simp
    qed
    then show ?thesis using v by simp
  next
    case (subtree pre)
    then have "prefix (pre @ ''/'') v" using assms(1) matches_subtree [OF v0] by simp
    moreover have "prefix (q @ ''/'') (pre @ ''/'')" using q subtree(1) prefix_slash_star by simp
    ultimately show ?thesis by (rule prefix_order.trans [rotated])
  next
    case exact
    then show ?thesis using assms(1) q matches_exact [OF exact] by simp
  next
    case star
    then show ?thesis using q by (cases q) auto
  qed (use c0 in auto)
  then show ?thesis using assms(3) matches_subtree [OF v0] by simp
qed

text \<open>A path in \<open>c\<close>, where \<open>c\<close> has a peer segment and rest \<open>b\<close>: the path has that shape too and its
  rest is in \<open>b\<close>.\<close>

lemma matches_peer_shape:
  assumes nd: "\<not> str_contains ''//'' v" and m: "matches_pattern v c"
    and c: "c = CHR ''/'' # a @ CHR ''/'' # b" "CHR ''/'' \<notin> set a"
  obtains a' b' where "v = CHR ''/'' # a' @ CHR ''/'' # b'" "CHR ''/'' \<notin> set a'"
    "b' \<noteq> NEVER_MATCH" "matches_pattern b' b \<or> b' = b"
proof -
  note goal = that
  have v0: "v \<noteq> NEVER_MATCH" and c0: "c \<noteq> NEVER_MATCH" using m by auto
  have fin: thesis if "v = CHR ''/'' # a' @ CHR ''/'' # b'" "CHR ''/'' \<notin> set a'" "matches_pattern b' b \<or> b' = b"
    for a' b'
    using that goal rest_not_NEVER nd by metis
  show thesis
  proof (cases c rule: pattern_cases)
    case (peer r')
    then obtain a' b' where "v = CHR ''/'' # a' @ CHR ''/'' # b'" "CHR ''/'' \<notin> set a'" "matches_pattern b' r'"
      using m matches_peer_wildcard [OF v0] by auto
    moreover have "r' = b" using c peer split_unique [of "CHR ''/''" a "''*''" b r'] by auto
    ultimately show thesis using fin by blast
  next
    case (subtree pre)
    then have "prefix (pre @ ''/'') v" using m matches_subtree [OF v0] by simp
    then obtain b' where b': "v = CHR ''/'' # a @ CHR ''/'' # b'"
      "b = ''*'' \<or> (\<exists>pre2. b = pre2 @ ''/*'' \<and> prefix (pre2 @ ''/'') b')"
      using subtree_rest subtree(1) c by metis
    have nb: "b' \<noteq> NEVER_MATCH" using nd b'(1) rest_not_NEVER by blast
    have "matches_pattern b' b" if "b = pre2 @ ''/*''" "prefix (pre2 @ ''/'') b'" for pre2
    proof -
      have "\<not> prefix ''/'' b'"
        using nd b'(1) by (auto simp: prefix_def str_contains_iff) (metis append_Cons append_Nil append.assoc)
      then have "\<not> prefix ''/*/'' b" using that by (cases pre2) (auto simp: prefix_def)
      then show ?thesis using that matches_subtree [OF nb] by simp
    qed
    then have "matches_pattern b' b" using b'(2) nb matches_star by blast
    then show thesis using fin b'(1) c(2) by blast
  next
    case exact
    then show thesis using fin [OF _ c(2)] m c(1) matches_exact [OF exact] by simp
  qed (use c0 c in auto)
qed

lemma matches_trans:
  "\<not> str_contains ''//'' v \<Longrightarrow> matches_pattern v c \<Longrightarrow> matches_pattern c p \<Longrightarrow> matches_pattern v p"
proof (induction p arbitrary: v c rule: length_induct)
  case (1 p)
  have v0: "v \<noteq> NEVER_MATCH" and c0: "c \<noteq> NEVER_MATCH" using "1.prems" by auto
  show ?case
  proof (cases p rule: pattern_cases)
    case (peer r)
    then obtain a b where c: "c = CHR ''/'' # a @ CHR ''/'' # b" "CHR ''/'' \<notin> set a" "matches_pattern b r"
      using "1.prems"(3) matches_peer_wildcard [OF c0] by auto
    obtain a' b' where v: "v = CHR ''/'' # a' @ CHR ''/'' # b'" "CHR ''/'' \<notin> set a'"
      "matches_pattern b' b \<or> b' = b"
      using matches_peer_shape [OF "1.prems"(1,2) c(1,2)] by metis
    have "\<not> str_contains ''//'' b'"
      using "1.prems"(1) v(1) contains_dslash_tail [of "CHR ''/'' # a' @ ''/''" b'] by simp
    then have "matches_pattern b' r"
      using "1.IH" c(3) v(3) peer by (metis append_Cons length_Cons less_Suc_eq less_SucI append_Nil)
    then show ?thesis using v(1,2) matches_peer_wildcard [OF v0] peer by blast
  next
    case (subtree q)
    then show ?thesis using "1.prems"(2,3) trans_subtree by blast
  next
    case exact
    then show ?thesis using "1.prems"(2,3) matches_exact [OF exact] by simp
  qed (use "1.prems" v0 in \<open>auto simp: matches_star\<close>)
qed

lemma matches_id_trans:
  assumes "matches_id_pattern v c" "matches_id_pattern c p"
  shows "matches_id_pattern v p"
proof (cases "p = ''*''")
  case True
  then show ?thesis by (simp add: matches_id_pattern_def)
next
  case p: False
  show ?thesis
  proof (cases "strip_suffix ''/*'' p")
    case None
    then show ?thesis using assms p by (simp add: matches_id_pattern_def)
  next
    case (Some q)
    then have q: "prefix (q @ ''/'') c" using assms(2) p by (simp add: matches_id_pattern_def subtree_match_iff)
    then have c: "c \<noteq> ''*''" by (cases q) auto
    have "prefix (q @ ''/'') v"
    proof (cases "strip_suffix ''/*'' c")
      case None
      then show ?thesis using assms(1) q c by (simp add: matches_id_pattern_def)
    next
      case (Some pre)
      then have "prefix (pre @ ''/'') v" using assms(1) c by (simp add: matches_id_pattern_def subtree_match_iff)
      moreover have "prefix (q @ ''/'') (pre @ ''/'')" using Some q prefix_slash_star by (simp add: strip_suffix_Some)
      ultimately show ?thesis by (rule prefix_order.trans [rotated])
    qed
    then show ?thesis using Some p by (simp add: matches_id_pattern_def subtree_match_iff)
  qed
qed

section \<open>Scopes as sets of values\<close>

lemma survives_excludes_iff:
  "survives_excludes cv exc f \<longleftrightarrow>
     (\<forall>e \<in> set exc. canonicalize e f \<noteq> NEVER_MATCH \<and> \<not> matches_pattern cv (canonicalize e f))"
  by (induction exc) (auto simp: Let_def)

lemma is_covered_by_iff:
  "is_covered_by v ps f \<longleftrightarrow> (\<exists>p \<in> set ps. matches_pattern v (canonicalize p f))"
  by (simp add: is_covered_by_def list_ex_iff)

lemma matches_scope_iff:
  "matches_scope v inc exc f \<longleftrightarrow>
     is_covered_by (canonicalize v f) inc f \<and> survives_excludes (canonicalize v f) exc f"
  by (simp add: matches_scope_def is_covered_by_def Let_def)

lemma matches_id_scope_iff:
  "matches_id_scope v inc exc \<longleftrightarrow>
     (\<exists>p \<in> set inc. matches_id_pattern v p) \<and> (\<forall>p \<in> set exc. \<not> matches_id_pattern v p)"
  by (auto simp: matches_id_scope_def list_ex_iff)

lemma scope_subset_path_sound:
  assumes sub: "scope_subset_path c p cf pf" and nd: "\<not> str_contains ''//'' v"
    and inc: "is_covered_by v (path_include c) cf" and exc: "survives_excludes v (path_exclude c) cf"
  shows "is_covered_by v (path_include p) pf \<and> survives_excludes v (path_exclude p) pf"
proof
  from inc obtain ci where "ci \<in> set (path_include c)" "matches_pattern v (canonicalize ci cf)"
    by (auto simp: is_covered_by_iff)
  moreover from this sub obtain pi where "pi \<in> set (path_include p)"
    "matches_pattern (canonicalize ci cf) (canonicalize pi pf)"
    by (auto simp: scope_subset_path_def list_all_iff list_ex_iff)
  ultimately show "is_covered_by v (path_include p) pf"
    using matches_trans [OF nd] by (auto simp: is_covered_by_iff)
next
  show "survives_excludes v (path_exclude p) pf"
    unfolding survives_excludes_iff
  proof
    fix pe assume "pe \<in> set (path_exclude p)"
    with sub obtain ce where ce: "ce \<in> set (path_exclude c)"
      "matches_pattern (canonicalize pe pf) (canonicalize ce cf)"
      by (auto simp: scope_subset_path_def list_all_iff list_ex_iff)
    then show "canonicalize pe pf \<noteq> NEVER_MATCH \<and> \<not> matches_pattern v (canonicalize pe pf)"
      using exc matches_trans [OF nd] by (auto simp: survives_excludes_iff)
  qed
qed

lemma scope_subset_id_sound:
  assumes "scope_subset_id c p" "matches_id_scope v (id_include c) (id_exclude c)"
  shows "matches_id_scope v (id_include p) (id_exclude p)"
  using assms matches_id_trans [of v]
  by (auto simp: scope_subset_id_def matches_id_scope_iff list_all_iff list_ex_iff) blast+

lemma two_slashes_not_NEVER: "CHR ''/'' # a @ CHR ''/'' # b \<noteq> NEVER_MATCH"
proof
  assume "CHR ''/'' # a @ CHR ''/'' # b = NEVER_MATCH"
  then have "CHR ''/'' \<in> set ''never-match''"
    unfolding NEVER_MATCH_def by (metis in_set_conv_decomp list.inject)
  then show False by simp
qed

lemma canonicalize_absolute [simp]: "canonicalize (CHR ''/'' # t) m = CHR ''/'' # t"
  by (simp add: canonicalize_def starts_with_def)

lemma canonicalize_shape: "\<exists>t. canonicalize s l = CHR ''/'' # t"
proof -
  have "starts_with s ''/'' \<Longrightarrow> \<exists>t. s = CHR ''/'' # t" by (auto simp: starts_with_def prefix_def)
  moreover have "\<exists>t. NEVER_MATCH = CHR ''/'' # t" by (simp add: NEVER_MATCH_def)
  ultimately show ?thesis unfolding canonicalize_def Let_def by (auto split: sum.splits)
qed

lemma canonicalize_uri_NEVER:
  "canonicalize (URI_SCHEME @ r) l = NEVER_MATCH \<longleftrightarrow> r = ''never-match'' \<or> r = ''never-match/''"
proof -
  let ?u = "URI_SCHEME @ r"
  have pre: "\<not> starts_with ?u ''./''" "\<not> starts_with ?u ''../''" "\<not> starts_with ?u ''*/''"
    "\<not> starts_with ?u ''/''" "?u \<noteq> ''*''" "starts_with ?u ''entity://''"
    by (simp_all add: starts_with_def URI_SCHEME_def)
  show ?thesis
  proof (cases "split_once CHR ''/'' r")
    case None
    then have "uri_parse ?u = Inr \<lparr>uri_peer_id = r, uri_path = []\<rparr>" by (simp add: uri_parse_def)
    moreover have "CHR ''/'' \<notin> set r" using None by (simp add: split_once_None)
    ultimately show ?thesis
      unfolding canonicalize_def using pre two_slashes_not_NEVER by (auto simp: NEVER_MATCH_def)
  next
    case (Some ab)
    then obtain a b where ab: "r = a @ CHR ''/'' # b" "CHR ''/'' \<notin> set a"
      "uri_parse ?u = Inr \<lparr>uri_peer_id = a, uri_path = b\<rparr>"
      by (cases ab) (auto simp: uri_parse_def split_once_Some)
    have "r = ''never-match/'' \<longleftrightarrow> a = ''never-match'' \<and> b = []"
      using ab(1,2) split_unique [of "CHR ''/''" a "''never-match''" b "[]"] by simp
    moreover have "r \<noteq> ''never-match''" using ab(1) by (metis NEVER_MATCH_def append_Nil two_slashes_not_NEVER append_Cons)
    ultimately show ?thesis
      unfolding canonicalize_def using pre ab(3) two_slashes_not_NEVER by (auto simp: NEVER_MATCH_def)
  qed
qed

section \<open>Properties\<close>

text \<open>Pattern comparison is sound as inclusion: when one pattern matches another as if it were
  a path, every path without empty segments that matches the first matches the second; for
  identifier patterns this holds of every value.\<close>

theorem pattern_inclusion:
  "(matches_pattern c p \<and> matches_pattern v c \<and> \<not> str_contains ''//'' v \<longrightarrow> matches_pattern v p) \<and>
   (matches_id_pattern i j \<and> matches_id_pattern x i \<longrightarrow> matches_id_pattern x j)"
  using matches_trans matches_id_trans by blast

theorem pattern_inclusion_witness: "matches_pattern ''/p/app/x'' ''/*/*''"
proof -
  have "matches_pattern ''/p/app/*'' ''/*/*'' \<and> matches_pattern ''/p/app/x'' ''/p/app/*'' \<and>
      \<not> str_contains ''//'' ''/p/app/x''"
    by code_simp
  then show ?thesis using pattern_inclusion by blast
qed

text \<open>Canonicalization is total onto absolute strings, is the identity on them in every frame,
  and yields the unmatchable value exactly for the three reserved prefixes and for the two
  spellings of the value itself, so that the verdict does not depend on the frame.\<close>

theorem canonicalize_correct:
  "starts_with (canonicalize s l) ''/'' \<and> canonicalize (canonicalize s l) m = canonicalize s l \<and>
   (canonicalize s l = NEVER_MATCH \<longleftrightarrow>
      starts_with s ''./'' \<or> starts_with s ''../'' \<or> starts_with s ''*/'' \<or> s = NEVER_MATCH \<or>
      s = ''entity://never-match'' \<or> s = ''entity://never-match/'')"
proof (intro conjI)
  obtain t where t: "canonicalize s l = CHR ''/'' # t" using canonicalize_shape by blast
  show "starts_with (canonicalize s l) ''/''" using t by (simp add: starts_with_def)
  show "canonicalize (canonicalize s l) m = canonicalize s l" using t canonicalize_absolute by simp
  show "canonicalize s l = NEVER_MATCH \<longleftrightarrow>
      starts_with s ''./'' \<or> starts_with s ''../'' \<or> starts_with s ''*/'' \<or> s = NEVER_MATCH \<or>
      s = ''entity://never-match'' \<or> s = ''entity://never-match/''"
  proof (cases "prefix URI_SCHEME s")
    case True
    then obtain r where s: "s = URI_SCHEME @ r" by (auto simp: prefix_def)
    then have "\<not> starts_with s ''./'' \<and> \<not> starts_with s ''../'' \<and> \<not> starts_with s ''*/'' \<and> s \<noteq> NEVER_MATCH"
      by (simp add: starts_with_def URI_SCHEME_def NEVER_MATCH_def)
    moreover have "canonicalize s l = NEVER_MATCH \<longleftrightarrow> r = ''never-match'' \<or> r = ''never-match/''"
      using canonicalize_uri_NEVER s by simp
    ultimately show ?thesis unfolding s by (simp add: URI_SCHEME_def)
  next
    case False
    then have "s \<noteq> ''entity://never-match'' \<and> s \<noteq> ''entity://never-match/''" by (auto simp: URI_SCHEME_def)
    moreover have "CHR ''/'' # l @ CHR ''/'' # x \<noteq> NEVER_MATCH" for x by (rule two_slashes_not_NEVER)
    moreover have "prefix ''/'' NEVER_MATCH" "''*'' \<noteq> NEVER_MATCH" by (simp_all add: NEVER_MATCH_def)
    ultimately show ?thesis
      using False unfolding canonicalize_def
      by (simp add: starts_with_def URI_SCHEME_def) blast
  qed
qed

text \<open>The overlap test behind the exclude rule for pattern targets ignores the peer wildcard:
  the pattern \<open>/p/*\<close> and the exclude \<open>/*/secret\<close> have the path \<open>/p/secret\<close> in common, yet the test
  says that they do not overlap.\<close>

theorem patterns_overlap_misses_peer_wildcard:
  "\<not> patterns_overlap ''/p/*'' ''/*/secret'' \<and>
   matches_pattern ''/p/secret'' ''/p/*'' \<and> matches_pattern ''/p/secret'' ''/*/secret''"
  by code_simp

end
