(* ===== verification/Cap_Grant.thy ===== *)
theory Cap_Grant
  imports Cap_Pattern Entity_Model
begin

text \<open>
  Grants, permission checks and attenuation (\<^verbatim>\<open>core/capability/src/lib.rs\<close>).  A request is
  admitted by a grant entry when all four dimensions hold of that one entry; the resource
  dimension distinguishes concrete targets from patterns and reads the grant's patterns in the
  granter's frame.  The CBOR writer of the \<^verbatim>\<open>ciborium\<close> crate, which compares constraint values, is
  the parameter \<open>ser\<close>.
\<close>

section \<open>Grant entries and tokens\<close>

record grant_entry =
  handlers :: path_scope
  resources :: path_scope
  operations :: id_scope
  peers :: "id_scope option"
  constraints :: "(string, Value) btree option"
  allowances :: "(string, Value) btree option"

definition grant_simple :: "path_scope \<Rightarrow> path_scope \<Rightarrow> id_scope \<Rightarrow> id_scope option \<Rightarrow> grant_entry" where
  "grant_simple h r ops p =
     \<lparr>handlers = h, resources = r, operations = ops, peers = p, constraints = None, allowances = None\<rparr>"

definition default_connection_grants :: "grant_entry list" where
  "default_connection_grants =
     [grant_simple (PathScope_new [''system/tree'']) (PathScope_new [''system/type/*'', ''system/handler/*''])
        (IdScope_new [''get'']) None,
      grant_simple (PathScope_new [''system/capability'']) (PathScope_new []) (IdScope_new [''request'']) None,
      grant_simple (PathScope_new [''system/network'']) (PathScope_new []) (IdScope_new [''observe-address'']) None]"

definition debug_open_grants :: "grant_entry list" where
  "debug_open_grants =
     [\<lparr>handlers = PathScope_new [''system/query''], resources = PathScope_new [''/*/*''],
       operations = IdScope_new [''find'', ''count''], peers = None,
       constraints = Some (bt_insert ''type_scope''
         (VMap [(VText ''include'', VArray [VText ''*''])]) []),
       allowances = Some (bt_insert ''scope'' (VText ''content_store'') [])\<rparr>,
      grant_simple (PathScope_new [''*'']) (PathScope_new [''/*/*'']) (IdScope_new [''*''])
        (Some (IdScope_new [''*'']))]"

definition owner_self_grant :: "string \<Rightarrow> grant_entry list" where
  "owner_self_grant peer_id =
     [grant_simple PathScope_all (PathScope_new [''/'' @ peer_id @ ''/*'']) IdScope_all (Some IdScope_all)]"

definition wildcard_handler_grant :: "grant_entry list" where
  "wildcard_handler_grant = [grant_simple PathScope_all PathScope_all IdScope_all (Some IdScope_all)]"

definition default_handler_self_grant :: "grant_entry list" where
  "default_handler_self_grant =
     [grant_simple PathScope_all (PathScope_new [''/*/*'']) IdScope_all None]"

definition capability_path_for_multisig_root :: "hash \<Rightarrow> string" where
  "capability_path_for_multisig_root cap_hash =
     ''system/capability/grants/multi-sig-root/'' @ hash_display cap_hash"

record resource_target =
  targets :: "string list"
  exclude :: "string list"

datatype CapabilityError =
    Denied string
  | CapInvalid string
  | DelegationError string
  | CapEntityError string
  | Expired

record multi_granter =
  signers :: "hash list"
  threshold :: u64

text \<open>The duplicate scan over index pairs \<open>i < j\<close>.\<close>

fun has_duplicate :: "hash list \<Rightarrow> bool" where
  "has_duplicate [] = False"
| "has_duplicate (h # hs) = (list_ex (\<lambda>h'. h = h') hs \<or> has_duplicate hs)"

definition multi_validate :: "multi_granter \<Rightarrow> CapabilityError + unit" where
  "multi_validate m =
     (let n = length (signers m)
      in if n < 2 then Inl (CapInvalid ''multi-granter must have N >= 2 signers'')
         else if threshold m < 2 then Inl (CapInvalid ''multi-granter threshold K must be >= 2'')
         else if unat (threshold m) > n then Inl (CapInvalid ''multi-granter threshold exceeds N'')
         else if has_duplicate (signers m) then Inl (CapInvalid ''multi-granter contains duplicate signers'')
         else Inr ())"

datatype granter = Single hash | Multi multi_granter

definition as_single :: "granter \<Rightarrow> hash option" where
  "as_single g = (case g of Single h \<Rightarrow> Some h | Multi _ \<Rightarrow> None)"

definition as_multi :: "granter \<Rightarrow> multi_granter option" where
  "as_multi g = (case g of Multi m \<Rightarrow> Some m | Single _ \<Rightarrow> None)"

definition is_multi :: "granter \<Rightarrow> bool" where
  "is_multi g = (case g of Multi _ \<Rightarrow> True | Single _ \<Rightarrow> False)"

record delegation_caveats_t =
  no_delegation :: "bool option"
  max_delegation_depth :: "u64 option"
  max_delegation_ttl :: "u64 option"

record capability_token =
  grants :: "grant_entry list"
  granter :: granter
  grantee :: hash
  parent :: "hash option"
  created_at :: u64
  expires_at :: "u64 option"
  not_before :: "u64 option"
  delegation_caveats :: "delegation_caveats_t option"

definition validate_structure :: "capability_token \<Rightarrow> CapabilityError + unit" where
  "validate_structure t =
     (let multi =
        (case granter t of
           Multi m \<Rightarrow>
             if parent t \<noteq> None then Inl (CapInvalid ''multi-sig capability MUST have parent: null'')
             else multi_validate m
         | Single _ \<Rightarrow> Inr ())
      in case multi of
           Inl e \<Rightarrow> Inl e
         | Inr _ \<Rightarrow> if is_zero (grantee t) then Inl (CapInvalid ''unresolvable_grantee'') else Inr ())"

section \<open>Permission checks\<close>

fun unmatchable_in :: "string list \<Rightarrow> string option" where
  "unmatchable_in [] = None"
| "unmatchable_in (pattern # rest) =
     (if canonicalize pattern ''unused-frame-see-doc-comment'' = NEVER_MATCH then Some pattern
      else unmatchable_in rest)"

definition grant_path_patterns :: "grant_entry \<Rightarrow> string list" where
  "grant_path_patterns g =
     path_include (handlers g) @ path_exclude (handlers g) @
     path_include (resources g) @ path_exclude (resources g)"

definition unmatchable_scope_pattern :: "grant_entry list \<Rightarrow> string option" where
  "unmatchable_scope_pattern gs = unmatchable_in (concat (map grant_path_patterns gs))"

definition effective_targets :: "resource_target option \<Rightarrow> string \<Rightarrow> string list" where
  "effective_targets resource_target local_peer_id =
     (case resource_target of
        None \<Rightarrow> []
      | Some rt \<Rightarrow>
          [target \<leftarrow> targets rt.
             \<not> is_covered_by (canonicalize target local_peer_id) (exclude rt) local_peer_id])"

fun pattern_subject_survives_grant_excludes ::
    "string \<Rightarrow> string list \<Rightarrow> string list \<Rightarrow> string \<Rightarrow> string \<Rightarrow> bool" where
  "pattern_subject_survives_grant_excludes subject [] caller_exclude local_peer_id granter_peer_id = True"
| "pattern_subject_survives_grant_excludes subject (ge # rest) caller_exclude local_peer_id granter_peer_id =
     (let cge = canonicalize ge granter_peer_id
      in if cge = NEVER_MATCH then False
         else if patterns_overlap subject cge \<and> \<not> is_covered_by cge caller_exclude local_peer_id then False
         else pattern_subject_survives_grant_excludes subject rest caller_exclude local_peer_id granter_peer_id)"

definition target_in_scope :: "string \<Rightarrow> string list \<Rightarrow> path_scope \<Rightarrow> string \<Rightarrow> string \<Rightarrow> bool" where
  "target_in_scope target caller_exclude grant_resources local_peer_id granter_peer_id =
     (let ct = canonicalize target local_peer_id
      in if \<not> is_pattern ct \<and> validate_absolute_path ct \<noteq> Inr () then False
         else if \<not> is_covered_by ct (path_include grant_resources) granter_peer_id then False
         else if is_pattern ct
         then pattern_subject_survives_grant_excludes ct (path_exclude grant_resources) caller_exclude
                local_peer_id granter_peer_id
         else survives_excludes ct (path_exclude grant_resources) granter_peer_id)"

definition check_resource_scope :: "resource_target \<Rightarrow> path_scope \<Rightarrow> string \<Rightarrow> string \<Rightarrow> bool" where
  "check_resource_scope rt grant_resources local_peer_id granter_peer_id =
     list_all (\<lambda>target. target_in_scope target (exclude rt) grant_resources local_peer_id granter_peer_id)
       (effective_targets (Some rt) local_peer_id)"

definition peers_or_default :: "grant_entry \<Rightarrow> string \<Rightarrow> id_scope" where
  "peers_or_default g local_peer_id =
     (case peers g of Some p \<Rightarrow> p | None \<Rightarrow> IdScope_new [local_peer_id])"

text \<open>One round of the loop over the grant entries of \<^verbatim>\<open>check_permission_inner\<close> and
  \<^verbatim>\<open>check_permission_with_grant\<close>: the dimensions in the order of the code.\<close>

definition grant_admits ::
    "string \<Rightarrow> string \<Rightarrow> string \<Rightarrow> resource_target option \<Rightarrow> string \<Rightarrow> string \<Rightarrow> bool \<Rightarrow> grant_entry \<Rightarrow> bool" where
  "grant_admits operation handler_pattern target_peer resource_target local_peer_id granter_peer_id
       relax_peers g =
     (if \<not> matches_id_scope operation (id_include (operations g)) (id_exclude (operations g)) then False
      else if \<not> matches_scope handler_pattern (path_include (handlers g)) (path_exclude (handlers g)) local_peer_id
      then False
      else if \<not> relax_peers \<and>
        \<not> (let p = peers_or_default g local_peer_id in matches_id_scope target_peer (id_include p) (id_exclude p))
      then False
      else case resource_target of
             Some rt \<Rightarrow> check_resource_scope rt (resources g) local_peer_id granter_peer_id
           | None \<Rightarrow> True)"

definition check_permission_inner ::
    "string \<Rightarrow> string \<Rightarrow> string \<Rightarrow> resource_target option \<Rightarrow> capability_token \<Rightarrow> string \<Rightarrow> bool \<Rightarrow> bool" where
  "check_permission_inner operation handler_pattern target_peer resource_target capability local_peer_id relax_peers =
     list_ex (grant_admits operation handler_pattern target_peer resource_target local_peer_id local_peer_id relax_peers)
       (grants capability)"

definition check_permission ::
    "string \<Rightarrow> string \<Rightarrow> string \<Rightarrow> resource_target option \<Rightarrow> capability_token \<Rightarrow> string \<Rightarrow> bool" where
  "check_permission operation handler_pattern target_peer resource_target capability local_peer_id =
     check_permission_inner operation handler_pattern target_peer resource_target capability local_peer_id False"

definition check_permission_relax_peers ::
    "string \<Rightarrow> string \<Rightarrow> resource_target option \<Rightarrow> capability_token \<Rightarrow> string \<Rightarrow> bool" where
  "check_permission_relax_peers operation handler_pattern resource_target capability local_peer_id =
     check_permission_inner operation handler_pattern local_peer_id resource_target capability local_peer_id True"

definition check_permission_with_grant ::
    "string \<Rightarrow> string \<Rightarrow> string \<Rightarrow> resource_target option \<Rightarrow> capability_token \<Rightarrow> string \<Rightarrow> string \<Rightarrow> grant_entry option" where
  "check_permission_with_grant operation handler_pattern target_peer resource_target capability local_peer_id granter_peer_id =
     find (grant_admits operation handler_pattern target_peer resource_target local_peer_id granter_peer_id False)
       (grants capability)"

definition path_scope_admits_subject :: "string \<Rightarrow> path_scope \<Rightarrow> string \<Rightarrow> string \<Rightarrow> bool" where
  "path_scope_admits_subject subject scope local_peer_id granter_peer_id =
     (if \<not> is_pattern subject
      then matches_scope subject (path_include scope) (path_exclude scope) granter_peer_id
      else is_covered_by subject (path_include scope) granter_peer_id \<and>
           pattern_subject_survives_grant_excludes subject (path_exclude scope) [] local_peer_id granter_peer_id)"

definition check_path_permission ::
    "string \<Rightarrow> string \<Rightarrow> capability_token \<Rightarrow> string \<Rightarrow> string \<Rightarrow> string \<Rightarrow> bool" where
  "check_path_permission operation path authority handler_pattern local_peer_id granter_peer_id =
     (let canonical_path = canonicalize path local_peer_id
      in list_ex (\<lambda>g.
           matches_scope handler_pattern (path_include (handlers g)) (path_exclude (handlers g)) local_peer_id \<and>
           matches_id_scope operation (id_include (operations g)) (id_exclude (operations g)) \<and>
           path_scope_admits_subject canonical_path (resources g) local_peer_id granter_peer_id)
         (grants authority))"

section \<open>Attenuation and caveats\<close>

definition cbor_bytes_equal :: "(Value \<Rightarrow> bytes option) \<Rightarrow> Value \<Rightarrow> Value \<Rightarrow> bool" where
  "cbor_bytes_equal ser a b =
     (case ser a of None \<Rightarrow> False
      | Some ba \<Rightarrow> (case ser b of None \<Rightarrow> False | Some bb \<Rightarrow> ba = bb))"

definition grant_axes_subset :: "grant_entry \<Rightarrow> grant_entry \<Rightarrow> string \<Rightarrow> string \<Rightarrow> string \<Rightarrow> bool" where
  "grant_axes_subset child par child_granter parent_granter local_peer_id =
     (if \<not> scope_subset_path (handlers child) (handlers par) local_peer_id local_peer_id then False
      else if \<not> scope_subset_id (operations child) (operations par) then False
      else if \<not> scope_subset_path (resources child) (resources par) child_granter parent_granter then False
      else scope_subset_id (peers_or_default child local_peer_id) (peers_or_default par local_peer_id))"

text \<open>Every entry of \<open>m\<close> occurs in \<open>m'\<close> with the same canonical value: both loops of \<^verbatim>\<open>grant_subset\<close>.\<close>

definition entries_retained ::
    "(Value \<Rightarrow> bytes option) \<Rightarrow> (string, Value) btree \<Rightarrow> (string, Value) btree \<Rightarrow> bool" where
  "entries_retained ser m m' \<longleftrightarrow>
     list_all (\<lambda>(key, v). case map_of m' key of None \<Rightarrow> False | Some v' \<Rightarrow> cbor_bytes_equal ser v v') m"

definition map_or_empty :: "(string, Value) btree option \<Rightarrow> (string, Value) btree" where
  "map_or_empty m = (case m of None \<Rightarrow> [] | Some m \<Rightarrow> m)"

definition grant_subset ::
    "(Value \<Rightarrow> bytes option) \<Rightarrow> grant_entry \<Rightarrow> grant_entry \<Rightarrow> string \<Rightarrow> string \<Rightarrow> string \<Rightarrow> bool" where
  "grant_subset ser child par child_granter parent_granter local_peer_id =
     (if \<not> grant_axes_subset child par child_granter parent_granter local_peer_id then False
      else if \<not> entries_retained ser (map_or_empty (constraints par)) (map_or_empty (constraints child)) then False
      else entries_retained ser (map_or_empty (allowances child)) (map_or_empty (allowances par)))"

definition grant_covered_by ::
    "(Value \<Rightarrow> bytes option) \<Rightarrow> grant_entry \<Rightarrow> grant_entry list \<Rightarrow> string \<Rightarrow> string \<Rightarrow> string \<Rightarrow> bool" where
  "grant_covered_by ser child_grant parent_grants child_granter parent_granter local_peer_id =
     list_ex (\<lambda>pg. grant_subset ser child_grant pg child_granter parent_granter local_peer_id) parent_grants"

definition is_attenuated_inner ::
    "(Value \<Rightarrow> bytes option) \<Rightarrow> capability_token \<Rightarrow> capability_token \<Rightarrow> string \<Rightarrow> string \<Rightarrow> string \<Rightarrow> bool" where
  "is_attenuated_inner ser child par child_granter parent_granter local_peer_id =
     (if \<not> list_all (\<lambda>g. grant_covered_by ser g (grants par) child_granter parent_granter local_peer_id) (grants child)
      then False
      else case expires_at par of
             None \<Rightarrow> True
           | Some parent_exp \<Rightarrow>
               (case expires_at child of
                  None \<Rightarrow> False
                | Some child_exp \<Rightarrow> \<not> child_exp > parent_exp))"

definition is_attenuated ::
    "(Value \<Rightarrow> bytes option) \<Rightarrow> capability_token \<Rightarrow> capability_token \<Rightarrow> string \<Rightarrow> bool" where
  "is_attenuated ser child par local_peer_id =
     is_attenuated_inner ser child par local_peer_id local_peer_id local_peer_id"

definition is_attenuated_framed ::
    "(Value \<Rightarrow> bytes option) \<Rightarrow> capability_token \<Rightarrow> capability_token \<Rightarrow> string \<Rightarrow> string \<Rightarrow> string \<Rightarrow> bool" where
  "is_attenuated_framed ser child par child_granter parent_granter local_peer_id =
     is_attenuated_inner ser child par child_granter parent_granter local_peer_id"

definition advertisement_covers :: "grant_entry list \<Rightarrow> grant_entry \<Rightarrow> string \<Rightarrow> bool" where
  "advertisement_covers advertised entry local_peer_id =
     (if list_ex (\<lambda>p. p = ''*'') (path_include (handlers entry)) then advertised \<noteq> []
      else list_ex (\<lambda>a. grant_axes_subset entry a local_peer_id local_peer_id local_peer_id) advertised)"

definition saturating_sub :: "u64 \<Rightarrow> u64 \<Rightarrow> u64" where
  "saturating_sub a b = (if a < b then 0 else a - b)"

definition check_delegation_caveats :: "capability_token \<Rightarrow> capability_token \<Rightarrow> u64 \<Rightarrow> bool" where
  "check_delegation_caveats par child depth =
     (case delegation_caveats par of
        None \<Rightarrow> True
      | Some caveats \<Rightarrow>
          if no_delegation caveats = Some True then False
          else if (case max_delegation_depth caveats of Some max_depth \<Rightarrow> depth \<ge> max_depth | None \<Rightarrow> False)
          then False
          else case max_delegation_ttl caveats of
                 None \<Rightarrow> True
               | Some max_ttl \<Rightarrow>
                   (case expires_at child of
                      None \<Rightarrow> False
                    | Some e \<Rightarrow> \<not> saturating_sub e (created_at child) > max_ttl))"

section \<open>Lemmas\<close>

text \<open>A request whose subjects are concrete: no target is a pattern, and the handler path has no
  empty segment.\<close>

definition concrete_request :: "string \<Rightarrow> resource_target option \<Rightarrow> string \<Rightarrow> bool" where
  "concrete_request handler_pattern rt local_peer_id \<longleftrightarrow>
     \<not> str_contains ''//'' (canonicalize handler_pattern local_peer_id) \<and>
     (case rt of None \<Rightarrow> True
      | Some r \<Rightarrow> list_all (\<lambda>t. \<not> is_pattern (canonicalize t local_peer_id)) (targets r))"

lemma validated_no_dslash: "validate_absolute_path p = Inr () \<Longrightarrow> \<not> str_contains ''//'' p"
  by (simp add: validate_absolute_path_def split: if_splits)

lemma target_in_scope_concrete:
  "\<not> is_pattern (canonicalize t l) \<Longrightarrow>
   target_in_scope t exc s l g \<longleftrightarrow>
     validate_absolute_path (canonicalize t l) = Inr () \<and>
     is_covered_by (canonicalize t l) (path_include s) g \<and>
     survives_excludes (canonicalize t l) (path_exclude s) g"
  by (simp add: target_in_scope_def Let_def)

lemma resource_scope_attenuated:
  assumes sub: "scope_subset_path c p cg pg" and ok: "check_resource_scope rt c l cg"
    and conc: "list_all (\<lambda>t. \<not> is_pattern (canonicalize t l)) (targets rt)"
  shows "check_resource_scope rt p l pg"
  unfolding check_resource_scope_def list_all_iff
proof
  fix t assume t: "t \<in> set (effective_targets (Some rt) l)"
  then have np: "\<not> is_pattern (canonicalize t l)" using conc by (auto simp: effective_targets_def list_all_iff)
  have ts: "target_in_scope t (exclude rt) c l cg" using ok t by (simp add: check_resource_scope_def list_all_iff)
  then have nd: "\<not> str_contains ''//'' (canonicalize t l)"
    using np validated_no_dslash by (simp add: target_in_scope_concrete)
  show "target_in_scope t (exclude rt) p l pg"
    using ts scope_subset_path_sound [OF sub nd] by (simp add: target_in_scope_concrete [OF np])
qed

lemma grant_admits_attenuated:
  assumes sub: "grant_axes_subset c p cg pg l" and adm: "grant_admits op h tp rt l cg False c"
    and conc: "concrete_request h rt l"
  shows "grant_admits op h tp rt l pg False p"
proof -
  from sub have s: "scope_subset_path (handlers c) (handlers p) l l" "scope_subset_id (operations c) (operations p)"
    "scope_subset_path (resources c) (resources p) cg pg"
    "scope_subset_id (peers_or_default c l) (peers_or_default p l)"
    by (auto simp: grant_axes_subset_def split: if_splits)
  from adm have a: "matches_id_scope op (id_include (operations c)) (id_exclude (operations c))"
    "matches_scope h (path_include (handlers c)) (path_exclude (handlers c)) l"
    "matches_id_scope tp (id_include (peers_or_default c l)) (id_exclude (peers_or_default c l))"
    "case rt of Some rt \<Rightarrow> check_resource_scope rt (resources c) l cg | None \<Rightarrow> True"
    by (auto simp: grant_admits_def Let_def split: if_splits)
  have "matches_scope h (path_include (handlers p)) (path_exclude (handlers p)) l"
    using a(2) conc scope_subset_path_sound [OF s(1)] by (simp add: matches_scope_iff concrete_request_def)
  moreover have "case rt of Some rt \<Rightarrow> check_resource_scope rt (resources p) l pg | None \<Rightarrow> True"
    using a(4) conc resource_scope_attenuated [OF s(3)] by (auto simp: concrete_request_def split: option.splits)
  ultimately show ?thesis
    using scope_subset_id_sound [OF s(2) a(1)] scope_subset_id_sound [OF s(4) a(3)]
    by (simp add: grant_admits_def Let_def)
qed

lemma grant_subset_axes: "grant_subset ser c p cg pg l \<Longrightarrow> grant_axes_subset c p cg pg l"
  by (simp add: grant_subset_def split: if_splits)

lemma attenuated_admits:
  assumes "is_attenuated_framed ser child par cg pg l"
    "c \<in> set (grants child)" "grant_admits op h tp rt l cg False c" "concrete_request h rt l"
  obtains p where "p \<in> set (grants par)" "grant_subset ser c p cg pg l" "grant_admits op h tp rt l pg False p"
proof -
  from assms(1,2) obtain p where "p \<in> set (grants par)" "grant_subset ser c p cg pg l"
    by (auto simp: is_attenuated_framed_def is_attenuated_inner_def grant_covered_by_def list_all_iff list_ex_iff
        split: if_splits)
  then show thesis using that grant_admits_attenuated [OF grant_subset_axes assms(3,4)] by blast
qed

lemma with_grant_Some:
  "check_permission_with_grant op h tp rt cap l g = Some c \<Longrightarrow>
     c \<in> set (grants cap) \<and> grant_admits op h tp rt l g False c"
  by (auto simp: check_permission_with_grant_def find_Some_iff)

lemma with_grant_not_None:
  "check_permission_with_grant op h tp rt cap l g \<noteq> None \<longleftrightarrow>
     (\<exists>c \<in> set (grants cap). grant_admits op h tp rt l g False c)"
  by (auto simp: check_permission_with_grant_def find_None_iff)

lemma has_duplicate_iff: "has_duplicate hs \<longleftrightarrow> \<not> distinct hs"
  by (induction hs) (auto simp: list_ex_iff)

lemma survives_pattern_iff:
  "pattern_subject_survives_grant_excludes s exc cexc l g \<longleftrightarrow>
     (\<forall>e \<in> set exc. canonicalize e g \<noteq> NEVER_MATCH \<and>
        (patterns_overlap s (canonicalize e g) \<longrightarrow> is_covered_by (canonicalize e g) cexc l))"
  by (induction exc) (auto simp: Let_def)

lemma entries_retained_iff:
  "entries_retained ser m m' \<longleftrightarrow>
     (\<forall>(k, v) \<in> set m. \<exists>v'. map_of m' k = Some v' \<and> cbor_bytes_equal ser v v')"
  by (auto simp: entries_retained_def list_all_iff split: option.splits)

lemma resource_scope_concrete_iff:
  assumes "list_all (\<lambda>t. \<not> is_pattern (canonicalize t l)) (targets rt)"
  shows "check_resource_scope rt s l g \<longleftrightarrow>
     (\<forall>t \<in> set (targets rt). is_covered_by (canonicalize t l) (exclude rt) l \<or>
        validate_absolute_path (canonicalize t l) = Inr () \<and>
        (\<exists>i \<in> set (path_include s). matches_pattern (canonicalize t l) (canonicalize i g)) \<and>
        (\<forall>e \<in> set (path_exclude s). canonicalize e g \<noteq> NEVER_MATCH \<and>
           \<not> matches_pattern (canonicalize t l) (canonicalize e g)))"
  using assms
  by (auto simp: check_resource_scope_def effective_targets_def list_all_iff target_in_scope_concrete
      is_covered_by_iff [of _ "path_include s"] survives_excludes_iff)

lemma peer_id_literal: "is_peer_id l \<Longrightarrow> matches_id_pattern v l \<longleftrightarrow> v = l"
proof -
  assume l: "is_peer_id l"
  have "strip_suffix ''/*'' l = None"
    using peer_id_no_slash [OF l] by (auto simp: strip_suffix_None suffix_def)
  moreover have "l \<noteq> ''*''" using l by (auto simp: is_peer_id_def)
  ultimately show ?thesis by (simp add: matches_id_pattern_def)
qed

lemma validated_matches_any_peer:
  assumes v: "validate_absolute_path p = Inr ()" and ne: "strip_peer_prefix p \<noteq> []"
  shows "matches_pattern p ''/*/*''"
proof -
  from v obtain peer where peer: "is_peer_id peer" "first_segment (tl p) = peer"
    and p: "p = CHR ''/'' # tl p" and nd: "\<not> str_contains ''//'' p"
    by (rule validate_absolute_pathD)
  have bare: "strip_peer_prefix (CHR ''/'' # peer) = []"
    using peer(1) peer_id_no_slash split_once_None [of "CHR ''/''" peer] by (simp add: strip_peer_prefix_def)
  have "tl p \<noteq> peer" using bare ne p by metis
  then obtain r where r: "p = CHR ''/'' # peer @ CHR ''/'' # r"
    using first_segment_split [of "tl p"] peer(2) p by metis
  have "r \<noteq> NEVER_MATCH" using nd rest_not_NEVER r by blast
  moreover have "p \<noteq> NEVER_MATCH" using r two_slashes_not_NEVER by metis
  ultimately show ?thesis
    using r peer_id_no_slash [OF peer(1)] matches_peer_wildcard [of p "''*''"] by (auto simp: matches_star)
qed

section \<open>Properties\<close>

text \<open>C17. Attenuation never amplifies: when a child token is accepted as an attenuation of its
  parent, each with its own granter frame, every concrete request that the child authorizes at
  the dispatch boundary is authorized by the parent too, and the child does not outlive it.\<close>

theorem attenuation_sound:
  assumes "is_attenuated_framed ser child par cg pg l"
    "check_permission_with_grant op h tp rt child l cg \<noteq> None" "concrete_request h rt l"
  shows "check_permission_with_grant op h tp rt par l pg \<noteq> None \<and>
     (\<forall>pe. expires_at par = Some pe \<longrightarrow> (\<exists>ce. expires_at child = Some ce \<and> ce \<le> pe))"
proof
  from assms(2) obtain c where "c \<in> set (grants child)" "grant_admits op h tp rt l cg False c"
    unfolding with_grant_not_None by blast
  then obtain p where "p \<in> set (grants par)" "grant_admits op h tp rt l pg False p"
    using attenuated_admits [OF assms(1) _ _ assms(3)] by metis
  then show "check_permission_with_grant op h tp rt par l pg \<noteq> None"
    unfolding with_grant_not_None by blast
  show "\<forall>pe. expires_at par = Some pe \<longrightarrow> (\<exists>ce. expires_at child = Some ce \<and> ce \<le> pe)"
    using assms(1)
    by (auto simp: is_attenuated_framed_def is_attenuated_inner_def not_less split: if_splits option.splits)
qed

definition token_of :: "grant_entry list \<Rightarrow> capability_token" where
  "token_of gs = \<lparr>grants = gs, granter = Single hash_zero, grantee = hash_zero, parent = None,
     created_at = 0, expires_at = None, not_before = None, delegation_caveats = None\<rparr>"

theorem attenuation_sound_witness:
  "check_permission_with_grant ''get'' ''system/tree'' ''L'' (Some \<lparr>targets = [], exclude = []\<rparr>)
     (token_of debug_open_grants) ''L'' ''L'' \<noteq> None"
proof -
  have "is_attenuated_framed (\<lambda>v. Some []) (token_of wildcard_handler_grant) (token_of debug_open_grants) ''L'' ''L'' ''L''"
    by code_simp
  moreover have "check_permission_with_grant ''get'' ''system/tree'' ''L'' (Some \<lparr>targets = [], exclude = []\<rparr>)
     (token_of wildcard_handler_grant) ''L'' ''L'' \<noteq> None"
    unfolding with_grant_not_None by code_simp
  moreover have "concrete_request ''system/tree'' (Some \<lparr>targets = [], exclude = []\<rparr>) ''L''" by code_simp
  ultimately show ?thesis using attenuation_sound by blast
qed

text \<open>C18. The conditions of a grant survive delegation: the parent entry that stands behind an
  admitted concrete request has each of its constraints in the child entry with the same
  serialized value, and every allowance of the child entry is one of its own.\<close>

theorem attenuation_keeps_conditions:
  assumes "is_attenuated_framed ser child par cg pg l"
    "check_permission_with_grant op h tp rt child l cg = Some c" "concrete_request h rt l"
  shows "\<exists>p \<in> set (grants par). grant_admits op h tp rt l pg False p \<and>
     (\<forall>(k, v) \<in> set (map_or_empty (constraints p)). \<exists>v'. map_of (map_or_empty (constraints c)) k = Some v' \<and>
        ser v \<noteq> None \<and> ser v' = ser v) \<and>
     (\<forall>(k, v) \<in> set (map_or_empty (allowances c)). \<exists>v'. map_of (map_or_empty (allowances p)) k = Some v' \<and>
        ser v \<noteq> None \<and> ser v' = ser v)"
proof -
  obtain p where p: "p \<in> set (grants par)" "grant_subset ser c p cg pg l" "grant_admits op h tp rt l pg False p"
    using attenuated_admits [OF assms(1) _ _ assms(3)] with_grant_Some [OF assms(2)] by metis
  have eq: "cbor_bytes_equal ser v v' \<longleftrightarrow> ser v \<noteq> None \<and> ser v' = ser v" for v v'
    by (auto simp: cbor_bytes_equal_def split: option.splits)
  show ?thesis
    using p(1,2,3) unfolding grant_subset_def entries_retained_iff eq
    by (intro bexI [of _ p] conjI) (simp_all split: if_splits)
qed

theorem attenuation_keeps_conditions_witness:
  "let q = (hd debug_open_grants)\<lparr>constraints := Some [(''rate'', VInteger 5)]\<rparr>;
       c = (hd debug_open_grants)\<lparr>constraints := Some [(''rate'', VInteger 5), (''size'', VInteger 9)]\<rparr>;
       ser = (\<lambda>v. Some (to_ecf v))
   in check_permission_with_grant ''find'' ''system/query'' ''L'' None (token_of [c]) ''L'' ''L'' = Some c \<and>
     (\<exists>p \<in> set (grants (token_of [q])). grant_admits ''find'' ''system/query'' ''L'' None ''L'' ''L'' False p \<and>
        (\<forall>(k, v) \<in> set (map_or_empty (constraints p)). \<exists>v'. map_of (map_or_empty (constraints c)) k = Some v' \<and>
          ser v' = ser v))"
proof -
  let ?q = "(hd debug_open_grants)\<lparr>constraints := Some [(''rate'', VInteger 5)]\<rparr>"
  let ?c = "(hd debug_open_grants)\<lparr>constraints := Some [(''rate'', VInteger 5), (''size'', VInteger 9)]\<rparr>"
  have "is_attenuated_framed (\<lambda>v. Some (to_ecf v)) (token_of [?c]) (token_of [?q]) ''L'' ''L'' ''L''"
    by code_simp
  moreover have "check_permission_with_grant ''find'' ''system/query'' ''L'' None (token_of [?c]) ''L'' ''L'' = Some ?c"
    by code_simp
  moreover have "concrete_request ''system/query'' None ''L''" by code_simp
  ultimately show ?thesis using attenuation_keeps_conditions unfolding Let_def by fast
qed

text \<open>The resource check on concrete targets: each target is either removed by the caller's own
  excludes or is a valid absolute path, in some include of the grant, in no exclude of the
  grant, and the grant has no unmatchable exclude.\<close>

theorem check_resource_scope_concrete:
  assumes "list_all (\<lambda>t. \<not> is_pattern (canonicalize t l)) (targets rt)"
  shows "check_resource_scope rt s l g \<longleftrightarrow>
     (\<forall>t \<in> set (targets rt). let ct = canonicalize t l in
        is_covered_by ct (exclude rt) l \<or>
        validate_absolute_path ct = Inr () \<and>
        (\<exists>i \<in> set (path_include s). matches_pattern ct (canonicalize i g)) \<and>
        (\<forall>e \<in> set (path_exclude s). canonicalize e g \<noteq> NEVER_MATCH \<and> \<not> matches_pattern ct (canonicalize e g)))"
  unfolding Let_def by (rule resource_scope_concrete_iff [OF assms])

theorem check_resource_scope_concrete_witness:
  "\<not> check_resource_scope \<lparr>targets = [''x''], exclude = []\<rparr> (PathScope_new []) ''L'' ''L''"
proof -
  have "list_all (\<lambda>t. \<not> is_pattern (canonicalize t ''L'')) (targets \<lparr>targets = [''x''], exclude = []\<rparr>)" by code_simp
  from check_resource_scope_concrete [OF this] show ?thesis by (simp add: PathScope_new_def is_covered_by_def)
qed

text \<open>An exclude that canonicalizes to the unmatchable value denies everything: a scope that has
  one matches no value, admits no subject of the handler-level check, concrete or pattern, and
  no request with a target left passes its resource check.\<close>

theorem unmatchable_exclude_denies:
  assumes "e \<in> set (path_exclude s)" "canonicalize e g = NEVER_MATCH"
  shows "\<not> matches_scope v (path_include s) (path_exclude s) g \<and>
     \<not> path_scope_admits_subject v s l g \<and>
     (effective_targets (Some rt) l \<noteq> [] \<longrightarrow> \<not> check_resource_scope rt s l g)"
proof -
  have a: "\<not> survives_excludes v (path_exclude s) g" for v using assms by (auto simp: survives_excludes_iff)
  have b: "\<not> pattern_subject_survives_grant_excludes v (path_exclude s) c l g" for v c
    using assms by (auto simp: survives_pattern_iff)
  have "\<not> target_in_scope t c s l g" for t c
    using a b by (simp add: target_in_scope_def Let_def)
  then show ?thesis
    using a b by (auto simp: matches_scope_iff path_scope_admits_subject_def check_resource_scope_def list_all_iff)
qed

theorem unmatchable_exclude_denies_witness:
  "\<not> check_resource_scope \<lparr>targets = [''x''], exclude = []\<rparr> \<lparr>path_include = [''*''], path_exclude = [''*/secret'']\<rparr> ''L'' ''L''"
proof -
  have "canonicalize ''*/secret'' ''L'' = NEVER_MATCH" by code_simp
  moreover have "effective_targets (Some \<lparr>targets = [''x''], exclude = []\<rparr>) ''L'' \<noteq> []" by code_simp
  ultimately show ?thesis
    using unmatchable_exclude_denies [of "''*/secret''" "\<lparr>path_include = [''*''], path_exclude = [''*/secret'']\<rparr>"] by simp
qed

text \<open>A pattern target escapes an exclude written with the peer wildcard: under the grant
  \<open>/*/*\<close> without \<open>/*/secret\<close>, the path \<open>secret\<close> of a peer is refused, but the pattern over that
  peer's whole namespace, which contains it, is admitted.\<close>

theorem pattern_target_escapes_exclude:
  "let P = replicate 46 CHR ''A''; s = \<lparr>path_include = [''/*/*''], path_exclude = [''/*/secret'']\<rparr>
   in check_resource_scope \<lparr>targets = [''/'' @ P @ ''/*''], exclude = []\<rparr> s P P \<and>
      \<not> check_resource_scope \<lparr>targets = [''/'' @ P @ ''/secret''], exclude = []\<rparr> s P P \<and>
      matches_pattern (''/'' @ P @ ''/secret'') (''/'' @ P @ ''/*'')"
  by code_simp

text \<open>The permission checks agree: the dispatch check is the granter-framed one with the local
  peer as granter, the framed check returns the first entry that admits the request, and
  relaxing the peer dimension only ever admits more.\<close>

theorem check_permission_variants:
  "(check_permission op h tp rt cap l \<longleftrightarrow> check_permission_with_grant op h tp rt cap l l \<noteq> None) \<and>
   (\<not> check_permission op h tp rt cap l \<or> check_permission_relax_peers op h rt cap l) \<and>
   (case check_permission_with_grant op h tp rt cap l g of
      None \<Rightarrow> True
    | Some c \<Rightarrow> \<exists>pre post. grants cap = pre @ c # post \<and> grant_admits op h tp rt l g False c \<and>
        \<not> list_ex (grant_admits op h tp rt l g False) pre)"
proof (intro conjI)
  show "check_permission op h tp rt cap l \<longleftrightarrow> check_permission_with_grant op h tp rt cap l l \<noteq> None"
    unfolding with_grant_not_None by (simp add: check_permission_def check_permission_inner_def list_ex_iff)
  have "grant_admits op h tp rt l l False c \<Longrightarrow> grant_admits op h l rt l l True c" for c
    by (auto simp: grant_admits_def split: if_splits)
  then show "\<not> check_permission op h tp rt cap l \<or> check_permission_relax_peers op h rt cap l"
    by (auto simp: check_permission_def check_permission_relax_peers_def check_permission_inner_def list_ex_iff)
  show "case check_permission_with_grant op h tp rt cap l g of None \<Rightarrow> True
    | Some c \<Rightarrow> \<exists>pre post. grants cap = pre @ c # post \<and> grant_admits op h tp rt l g False c \<and>
        \<not> list_ex (grant_admits op h tp rt l g False) pre"
  proof (cases "check_permission_with_grant op h tp rt cap l g")
    case (Some c)
    then obtain i where i: "i < length (grants cap)" "grant_admits op h tp rt l g False (grants cap ! i)"
      "c = grants cap ! i" "\<forall>j<i. \<not> grant_admits op h tp rt l g False (grants cap ! j)"
      by (auto simp: check_permission_with_grant_def find_Some_iff)
    have "grants cap = take i (grants cap) @ c # drop (Suc i) (grants cap)" using i by (simp add: id_take_nth_drop)
    moreover have "\<not> list_ex (grant_admits op h tp rt l g False) (take i (grants cap))"
      using i by (auto simp: list_ex_iff in_set_conv_nth)
    ultimately show ?thesis using Some i by auto
  qed simp
qed

theorem check_permission_variants_witness:
  "check_permission_relax_peers ''get'' ''system/tree'' None (token_of wildcard_handler_grant) ''L''"
proof -
  have "check_permission ''get'' ''system/tree'' ''L'' None (token_of wildcard_handler_grant) ''L''" by code_simp
  then show ?thesis using check_permission_variants by blast
qed

text \<open>The default self-grant of a handler reaches every valid path of the local store, in any
  peer's namespace, but is confined to the local peer: it authorizes exactly the requests to
  the local peer.\<close>

theorem default_self_grant_local:
  assumes l: "is_peer_id l" and cap: "grants cap = default_handler_self_grant"
    and h: "matches_pattern (canonicalize h l) (''/'' @ l @ ''/*'')"
    and rt: "\<And>r t. rt = Some r \<Longrightarrow> t \<in> set (targets r) \<Longrightarrow>
       \<not> is_pattern (canonicalize t l) \<and> validate_absolute_path (canonicalize t l) = Inr () \<and>
       strip_peer_prefix (canonicalize t l) \<noteq> []"
  shows "check_permission op h tp rt cap l \<longleftrightarrow> tp = l"
proof -
  let ?g = "grant_simple PathScope_all (PathScope_new [''/*/*'']) IdScope_all None"
  note scope_defs = grant_simple_def PathScope_all_def PathScope_new_def IdScope_all_def IdScope_new_def
    peers_or_default_def
  have "canonicalize ''*'' l = ''/'' @ l @ ''/*''" by (simp add: canonicalize_def starts_with_def)
  then have hs: "matches_scope h (path_include (handlers ?g)) (path_exclude (handlers ?g)) l"
    using h by (simp add: scope_defs matches_scope_iff is_covered_by_def)
  have ops: "matches_id_scope op (id_include (operations ?g)) (id_exclude (operations ?g))"
    by (simp add: scope_defs matches_id_scope_def matches_id_pattern_def)
  have "check_resource_scope r (resources ?g) l l" if "rt = Some r" for r
  proof -
    have "list_all (\<lambda>t. \<not> is_pattern (canonicalize t l)) (targets r)" using rt [OF that] by (simp add: list_all_iff)
    then show ?thesis
      using rt [OF that] validated_matches_any_peer by (simp add: resource_scope_concrete_iff scope_defs)
  qed
  then have "grant_admits op h tp rt l l False ?g \<longleftrightarrow>
      matches_id_scope tp (id_include (peers_or_default ?g l)) (id_exclude (peers_or_default ?g l))"
    using hs ops by (auto simp: grant_admits_def Let_def split: option.splits)
  also have "\<dots> \<longleftrightarrow> tp = l" using peer_id_literal [OF l] by (simp add: scope_defs matches_id_scope_def)
  finally show ?thesis
    by (simp add: check_permission_def check_permission_inner_def cap default_handler_self_grant_def)
qed

theorem default_self_grant_local_witness:
  "check_permission ''put'' ''system/tree'' ''other'' None (token_of default_handler_self_grant) (replicate 46 CHR ''A'')
     \<longleftrightarrow> ''other'' = replicate 46 CHR ''A''"
proof -
  have "is_peer_id (replicate 46 CHR ''A'')" by code_simp
  moreover have "matches_pattern (canonicalize ''system/tree'' (replicate 46 CHR ''A'')) (''/'' @ replicate 46 CHR ''A'' @ ''/*'')"
    by code_simp
  moreover have "grants (token_of default_handler_self_grant) = default_handler_self_grant" by (simp add: token_of_def)
  ultimately show ?thesis using default_self_grant_local [where rt = None] by blast
qed

text \<open>A threshold granter is accepted exactly when it has at least two distinct signers and a
  threshold between two and their number.\<close>

theorem multi_validate_iff:
  "multi_validate m = Inr () \<longleftrightarrow>
     distinct (signers m) \<and> 2 \<le> unat (threshold m) \<and> unat (threshold m) \<le> length (signers m)"
proof -
  have "threshold m < 2 \<longleftrightarrow> unat (threshold m) < 2" by (simp add: word_less_nat_alt)
  then show ?thesis by (auto simp: multi_validate_def Let_def has_duplicate_iff)
qed

text \<open>Caveats bind: a delegation passes exactly when the parent has no caveats, or does not
  forbid delegation, the depth is below its limit, and, under a lifetime limit, the child
  expires and its lifetime, computed without wrap-around, is within the limit.\<close>

theorem check_delegation_caveats_iff:
  "check_delegation_caveats par child depth \<longleftrightarrow>
     (case delegation_caveats par of None \<Rightarrow> True
      | Some c \<Rightarrow> no_delegation c \<noteq> Some True \<and>
          (case max_delegation_depth c of None \<Rightarrow> True | Some d \<Rightarrow> unat depth < unat d) \<and>
          (case max_delegation_ttl c of None \<Rightarrow> True
           | Some ttl \<Rightarrow> (case expires_at child of None \<Rightarrow> False
               | Some e \<Rightarrow> unat e - unat (created_at child) \<le> unat ttl)))"
proof -
  have "unat (saturating_sub a b) = unat a - unat b" for a b
    by (auto simp: saturating_sub_def word_less_nat_alt unat_sub not_less word_le_nat_alt)
  then have "saturating_sub a b > c \<longleftrightarrow> \<not> unat a - unat b \<le> unat c" for a b c
    by (simp add: word_less_nat_alt not_le)
  then show ?thesis
    by (auto simp: check_delegation_caveats_def word_le_nat_alt not_le split: option.splits)
qed

text \<open>An advertised entry is backed by what the peer serves: unless it claims every handler,
  each concrete request it admits is admitted by one advertised entry.\<close>

theorem advertisement_covers_sound:
  assumes "advertisement_covers adv e l" "''*'' \<notin> set (path_include (handlers e))"
    "grant_admits op h tp rt l l False e" "concrete_request h rt l"
  shows "\<exists>a \<in> set adv. grant_admits op h tp rt l l False a"
proof -
  from assms(1,2) obtain a where "a \<in> set adv" "grant_axes_subset e a l l l"
    by (auto simp: advertisement_covers_def list_ex_iff split: if_splits)
  then show ?thesis using grant_admits_attenuated assms(3,4) by blast
qed

theorem advertisement_covers_sound_witness:
  "\<exists>a \<in> set default_connection_grants. grant_admits ''get'' ''system/tree'' ''L'' None ''L'' ''L'' False a"
proof -
  let ?e = "hd default_connection_grants"
  have "advertisement_covers default_connection_grants ?e ''L''" by code_simp
  moreover have "''*'' \<notin> set (path_include (handlers ?e))" by code_simp
  moreover have "grant_admits ''get'' ''system/tree'' ''L'' None ''L'' ''L'' False ?e" by code_simp
  moreover have "concrete_request ''system/tree'' None ''L''" by code_simp
  ultimately show ?thesis by (rule advertisement_covers_sound)
qed

end
