(* ===== verification/Cap_Token.thy ===== *)
theory Cap_Token
  imports Cap_Grant
begin

text \<open>
  The wire form of capability tokens (\<^verbatim>\<open>core/capability/src/lib.rs\<close>, encoding and decoding).
  Each decoder of the source is a loop over the entries of a CBOR map that matches on the key and
  assigns a local variable; here a decoder is a step that yields an error or the assignment, and
  \<open>run_fields\<close> is the loop.  Decoding bytes is the parameter \<open>dec\<close> (\<^verbatim>\<open>ciborium::from_reader\<close>).
\<close>

section \<open>The field loop\<close>

fun run_fields ::
    "(Value \<Rightarrow> Value \<Rightarrow> 'e + ('a \<Rightarrow> 'a)) \<Rightarrow> (Value \<times> Value) list \<Rightarrow> 'a \<Rightarrow> 'e + 'a" where
  "run_fields step [] acc = Inr acc"
| "run_fields step ((k, v) # rest) acc =
     (case step k v of Inl e \<Rightarrow> Inl e | Inr upd \<Rightarrow> run_fields step rest (upd acc))"

definition TYPE_CAP_TOKEN :: string where "TYPE_CAP_TOKEN = ''system/capability/token''"

section \<open>Encoding\<close>

fun ciborium_to_ecf :: "Value \<Rightarrow> Value" where
  "ciborium_to_ecf VNull = VNull"
| "ciborium_to_ecf (VBool b) = VBool b"
| "ciborium_to_ecf (VInteger i) = integer (as_i64 i)"
| "ciborium_to_ecf (VText s) = VText s"
| "ciborium_to_ecf (VBytes b) = VBytes b"
| "ciborium_to_ecf (VArray arr) = VArray (map ciborium_to_ecf arr)"
| "ciborium_to_ecf (VMap m) = VMap (map (\<lambda>e. (ciborium_to_ecf (fst e), ciborium_to_ecf (snd e))) m)"
| "ciborium_to_ecf (VFloat f) = VFloat f"
| "ciborium_to_ecf (VTag _ _) = VNull"

definition string_map_to_ecf :: "(string, Value) btree \<Rightarrow> Value" where
  "string_map_to_ecf m = VMap (map (\<lambda>(k, v). (text_val k, ciborium_to_ecf v)) m)"

definition scope_to_value :: "string list \<Rightarrow> string list \<Rightarrow> Value" where
  "scope_to_value inc exc =
     VMap ((if exc \<noteq> [] then [(text_val ''exclude'', VArray (map text_val exc))] else []) @
           [(text_val ''include'', VArray (map text_val inc))])"

definition scope_to_value_path :: "path_scope \<Rightarrow> Value" where
  "scope_to_value_path s = scope_to_value (path_include s) (path_exclude s)"

definition scope_to_value_id :: "id_scope \<Rightarrow> Value" where
  "scope_to_value_id s = scope_to_value (id_include s) (id_exclude s)"

text \<open>\<^verbatim>\<open>if let Some(x) = field { entries.push(..) }\<close>.\<close>

definition opt_entry :: "string \<Rightarrow> ('a \<Rightarrow> Value) \<Rightarrow> 'a option \<Rightarrow> (Value \<times> Value) list" where
  "opt_entry key enc x = (case x of None \<Rightarrow> [] | Some a \<Rightarrow> [(text_val key, enc a)])"

definition encode_grant_entry :: "grant_entry \<Rightarrow> Value" where
  "encode_grant_entry g =
     VMap (opt_entry ''allowances'' string_map_to_ecf (allowances g) @
           opt_entry ''constraints'' string_map_to_ecf (constraints g) @
           [(text_val ''handlers'', scope_to_value_path (handlers g)),
            (text_val ''operations'', scope_to_value_id (operations g))] @
           opt_entry ''peers'' scope_to_value_id (peers g) @
           [(text_val ''resources'', scope_to_value_path (resources g))])"

definition hash_value :: "hash \<Rightarrow> Value" where
  "hash_value h = VBytes (to_bytes h)"

definition encode_granter :: "granter \<Rightarrow> Value" where
  "encode_granter g =
     (case g of
        Single h \<Rightarrow> hash_value h
      | Multi m \<Rightarrow>
          VMap [(text_val ''signers'', VArray (map hash_value (signers m))),
                (text_val ''threshold'', integer (as_i64 (uint (threshold m))))])"

definition caveats_to_value :: "delegation_caveats_t \<Rightarrow> Value" where
  "caveats_to_value c =
     VMap (opt_entry ''max_delegation_depth'' (\<lambda>d. integer (as_i64 (uint d))) (max_delegation_depth c) @
           opt_entry ''max_delegation_ttl'' (\<lambda>d. integer (as_i64 (uint d))) (max_delegation_ttl c) @
           opt_entry ''no_delegation'' bool_val (no_delegation c))"

definition token_value :: "capability_token \<Rightarrow> Value" where
  "token_value t =
     VMap ([(text_val ''created_at'', uinteger (created_at t))] @
           opt_entry ''delegation_caveats'' caveats_to_value (delegation_caveats t) @
           opt_entry ''expires_at'' uinteger (expires_at t) @
           [(text_val ''grantee'', hash_value (grantee t)),
            (text_val ''granter'', encode_granter (granter t)),
            (text_val ''grants'', VArray (map encode_grant_entry (grants t)))] @
           opt_entry ''not_before'' uinteger (not_before t) @
           opt_entry ''parent'' hash_value (parent t))"

definition token_to_ecf :: "capability_token \<Rightarrow> bytes" where
  "token_to_ecf t = to_ecf (token_value t)"

definition entity_error_text :: "EntityError \<Rightarrow> string" where
  "entity_error_text e =
     (case e of InvalidType s \<Rightarrow> s | EntityHashMismatch _ _ \<Rightarrow> ''hash mismatch'' | MissingField s \<Rightarrow> s | InvalidUri s \<Rightarrow> s)"

definition to_entity_with_format :: "digests \<Rightarrow> capability_token \<Rightarrow> u8 \<Rightarrow> CapabilityError + entity" where
  "to_entity_with_format D t format_code =
     (case new_with_format D TYPE_CAP_TOKEN (token_to_ecf t) format_code of
        Inl e \<Rightarrow> Inl (CapEntityError (entity_error_text e))
      | Inr e \<Rightarrow> Inr e)"

definition to_entity :: "digests \<Rightarrow> u8 \<Rightarrow> capability_token \<Rightarrow> CapabilityError + entity" where
  "to_entity D home t = to_entity_with_format D t home"

section \<open>Decoding\<close>

definition cap_hash :: "bytes \<Rightarrow> CapabilityError + hash" where
  "cap_hash b = (case from_bytes b of Inl e \<Rightarrow> Inl (CapInvalid (hash_error_text e)) | Inr h \<Rightarrow> Inr h)"

fun decode_strings :: "Value list \<Rightarrow> string list" where
  "decode_strings [] = []"
| "decode_strings (item # arr) =
     (case as_str item of Some s \<Rightarrow> s # decode_strings arr | None \<Rightarrow> decode_strings arr)"

definition scope_field :: "Value \<Rightarrow> Value \<Rightarrow> CapabilityError + (string list \<times> string list \<Rightarrow> string list \<times> string list)" where
  "scope_field k v =
     (if as_str k = Some ''include''
      then Inr (case as_array v of Some arr \<Rightarrow> apfst (\<lambda>inc. inc @ decode_strings arr) | None \<Rightarrow> id)
      else if as_str k = Some ''exclude''
      then Inr (case as_array v of Some arr \<Rightarrow> apsnd (\<lambda>exc. exc @ decode_strings arr) | None \<Rightarrow> id)
      else Inr id)"

definition decode_scope_lists :: "Value \<Rightarrow> CapabilityError + (string list \<times> string list)" where
  "decode_scope_lists value =
     (case as_map value of
        None \<Rightarrow> Inl (CapInvalid ''scope must be a map'')
      | Some m \<Rightarrow> run_fields scope_field m ([], []))"

definition decode_path_scope :: "Value \<Rightarrow> CapabilityError + path_scope" where
  "decode_path_scope value =
     (case decode_scope_lists value of
        Inl e \<Rightarrow> Inl e
      | Inr (inc, exc) \<Rightarrow> Inr \<lparr>path_include = inc, path_exclude = exc\<rparr>)"

definition decode_id_scope :: "Value \<Rightarrow> CapabilityError + id_scope" where
  "decode_id_scope value =
     (case decode_scope_lists value of
        Inl e \<Rightarrow> Inl e
      | Inr (inc, exc) \<Rightarrow> Inr \<lparr>id_include = inc, id_exclude = exc\<rparr>)"

fun insert_text_entries :: "(Value \<times> Value) list \<Rightarrow> (string, Value) btree \<Rightarrow> (string, Value) btree" where
  "insert_text_entries [] result = result"
| "insert_text_entries ((k, v) # entries) result =
     (case as_str k of
        Some key \<Rightarrow> insert_text_entries entries (bt_insert key v result)
      | None \<Rightarrow> insert_text_entries entries result)"

definition decode_string_keyed_map :: "Value \<Rightarrow> (string, Value) btree" where
  "decode_string_keyed_map value =
     (case as_map value of Some entries \<Rightarrow> insert_text_entries entries [] | None \<Rightarrow> [])"

text \<open>The local variables of \<^verbatim>\<open>decode_grant_entry\<close>.\<close>

record grant_acc =
  ga_handlers :: "path_scope option"
  ga_resources :: "path_scope option"
  ga_operations :: "id_scope option"
  ga_peers :: "id_scope option"
  ga_constraints :: "(string, Value) btree option"
  ga_allowances :: "(string, Value) btree option"

text \<open>\<^verbatim>\<open>x = Some(f(v)?)\<close> as a step.\<close>

definition assign :: "('x \<Rightarrow> 'a \<Rightarrow> 'a) \<Rightarrow> CapabilityError + 'x \<Rightarrow> CapabilityError + ('a \<Rightarrow> 'a)" where
  "assign upd r = (case r of Inl e \<Rightarrow> Inl e | Inr x \<Rightarrow> Inr (upd x))"

definition grant_field :: "Value \<Rightarrow> Value \<Rightarrow> CapabilityError + (grant_acc \<Rightarrow> grant_acc)" where
  "grant_field k v =
     (if as_str k = Some ''handlers'' then assign (\<lambda>x. ga_handlers_update (\<lambda>_. Some x)) (decode_path_scope v)
      else if as_str k = Some ''resources'' then assign (\<lambda>x. ga_resources_update (\<lambda>_. Some x)) (decode_path_scope v)
      else if as_str k = Some ''operations'' then assign (\<lambda>x. ga_operations_update (\<lambda>_. Some x)) (decode_id_scope v)
      else if as_str k = Some ''peers'' then assign (\<lambda>x. ga_peers_update (\<lambda>_. Some x)) (decode_id_scope v)
      else if as_str k = Some ''constraints''
      then Inr (ga_constraints_update (\<lambda>_. Some (decode_string_keyed_map v)))
      else if as_str k = Some ''allowances''
      then Inr (ga_allowances_update (\<lambda>_. Some (decode_string_keyed_map v)))
      else Inr id)"

definition grant_acc_init :: grant_acc where
  "grant_acc_init = \<lparr>ga_handlers = None, ga_resources = None, ga_operations = None, ga_peers = None,
     ga_constraints = None, ga_allowances = None\<rparr>"

definition decode_grant_entry :: "Value \<Rightarrow> CapabilityError + grant_entry" where
  "decode_grant_entry value =
     (case as_map value of
        None \<Rightarrow> Inl (CapInvalid ''grant entry must be a map'')
      | Some m \<Rightarrow>
          (case run_fields grant_field m grant_acc_init of
             Inl e \<Rightarrow> Inl e
           | Inr a \<Rightarrow>
               (case ga_handlers a of
                  None \<Rightarrow> Inl (CapInvalid ''missing handlers in grant'')
                | Some h \<Rightarrow>
                    (case ga_resources a of
                       None \<Rightarrow> Inl (CapInvalid ''missing resources in grant'')
                     | Some r \<Rightarrow>
                         (case ga_operations a of
                            None \<Rightarrow> Inl (CapInvalid ''missing operations in grant'')
                          | Some ops \<Rightarrow>
                              Inr \<lparr>handlers = h, resources = r, operations = ops, peers = ga_peers a,
                                   constraints = ga_constraints a, allowances = ga_allowances a\<rparr>)))))"

text \<open>Collecting the results of a fallible step over an array, stopping at the first error.\<close>

fun map_result :: "('x \<Rightarrow> 'e + 'y) \<Rightarrow> 'x list \<Rightarrow> 'e + 'y list" where
  "map_result f [] = Inr []"
| "map_result f (x # xs) =
     (case f x of Inl e \<Rightarrow> Inl e
      | Inr y \<Rightarrow> (case map_result f xs of Inl e \<Rightarrow> Inl e | Inr ys \<Rightarrow> Inr (y # ys)))"

definition decode_signer :: "Value \<Rightarrow> CapabilityError + hash" where
  "decode_signer item =
     (case as_bytes item of
        None \<Rightarrow> Inl (CapInvalid ''multi-granter signer entries must be byte strings'')
      | Some b \<Rightarrow> cap_hash b)"

definition opt_u64 :: "Value \<Rightarrow> u64 option" where
  "opt_u64 v = (case as_integer v of Some i \<Rightarrow> try_u64 i | None \<Rightarrow> None)"

record multi_acc =
  ma_signers :: "hash list option"
  ma_threshold :: "u64 option"

definition multi_field :: "Value \<Rightarrow> Value \<Rightarrow> CapabilityError + (multi_acc \<Rightarrow> multi_acc)" where
  "multi_field k v =
     (if as_str k = Some ''signers''
      then (case as_array v of
              None \<Rightarrow> Inl (CapInvalid ''multi-granter signers must be an array'')
            | Some arr \<Rightarrow> assign (\<lambda>x. ma_signers_update (\<lambda>_. Some x)) (map_result decode_signer arr))
      else if as_str k = Some ''threshold'' then Inr (ma_threshold_update (\<lambda>_. opt_u64 v))
      else Inr id)"

definition decode_granter :: "Value \<Rightarrow> CapabilityError + granter" where
  "decode_granter value =
     (case value of
        VTag _ _ \<Rightarrow> Inl (CapInvalid ''granter MUST NOT be CBOR-tagged'')
      | VBytes b \<Rightarrow> (case cap_hash b of Inl e \<Rightarrow> Inl e | Inr h \<Rightarrow> Inr (Single h))
      | VMap m \<Rightarrow>
          (case run_fields multi_field m \<lparr>ma_signers = None, ma_threshold = None\<rparr> of
             Inl e \<Rightarrow> Inl e
           | Inr a \<Rightarrow>
               (case ma_signers a of
                  None \<Rightarrow> Inl (CapInvalid ''multi-granter missing signers'')
                | Some ss \<Rightarrow>
                    (case ma_threshold a of
                       None \<Rightarrow> Inl (CapInvalid ''multi-granter missing threshold'')
                     | Some k \<Rightarrow> Inr (Multi \<lparr>signers = ss, threshold = k\<rparr>))))
      | _ \<Rightarrow> Inl (CapInvalid ''granter must be a byte string (single-sig) or map (multi-sig)''))"

definition caveat_field :: "Value \<Rightarrow> Value \<Rightarrow> CapabilityError + (delegation_caveats_t \<Rightarrow> delegation_caveats_t)" where
  "caveat_field k v =
     (if as_str k = Some ''no_delegation'' then Inr (no_delegation_update (\<lambda>_. as_bool_val v))
      else if as_str k = Some ''max_delegation_depth'' then Inr (max_delegation_depth_update (\<lambda>_. opt_u64 v))
      else if as_str k = Some ''max_delegation_ttl'' then Inr (max_delegation_ttl_update (\<lambda>_. opt_u64 v))
      else Inr id)"

definition decode_delegation_caveats :: "Value \<Rightarrow> CapabilityError + delegation_caveats_t" where
  "decode_delegation_caveats value =
     (case as_map value of
        None \<Rightarrow> Inl (CapInvalid ''delegation_caveats must be a map'')
      | Some m \<Rightarrow>
          run_fields caveat_field m
            \<lparr>no_delegation = None, max_delegation_depth = None, max_delegation_ttl = None\<rparr>)"

definition decode_temporal_field :: "Value \<Rightarrow> CapabilityError + u64 option" where
  "decode_temporal_field v =
     (if is_null v then Inr None
      else case as_integer v of
             None \<Rightarrow> Inl (CapInvalid ''must be an integer (primitive/uint)'')
           | Some i \<Rightarrow>
               (case try_u64 i of
                  None \<Rightarrow> Inl (CapInvalid ''does not fit primitive/uint'')
                | Some n \<Rightarrow> Inr (Some n)))"

record token_acc =
  ta_grants :: "grant_entry list option"
  ta_granter :: "granter option"
  ta_grantee :: "hash option"
  ta_parent :: "hash option"
  ta_created_at :: "u64 option"
  ta_expires_at :: "u64 option"
  ta_not_before :: "u64 option"
  ta_caveats :: "delegation_caveats_t option"

text \<open>\<^verbatim>\<open>if let Some(b) = v.as_bytes() { x = Some(Hash::from_bytes(b)?) }\<close>.\<close>

definition hash_field :: "(hash \<Rightarrow> 'a \<Rightarrow> 'a) \<Rightarrow> Value \<Rightarrow> CapabilityError + ('a \<Rightarrow> 'a)" where
  "hash_field upd v = (case as_bytes v of Some b \<Rightarrow> assign upd (cap_hash b) | None \<Rightarrow> Inr id)"

definition token_field :: "Value \<Rightarrow> Value \<Rightarrow> CapabilityError + (token_acc \<Rightarrow> token_acc)" where
  "token_field k v =
     (if as_str k = Some ''grants''
      then (case as_array v of
              None \<Rightarrow> Inl (CapInvalid ''grants must be an array'')
            | Some arr \<Rightarrow> assign (\<lambda>x. ta_grants_update (\<lambda>_. Some x)) (map_result decode_grant_entry arr))
      else if as_str k = Some ''granter'' then assign (\<lambda>x. ta_granter_update (\<lambda>_. Some x)) (decode_granter v)
      else if as_str k = Some ''grantee'' then hash_field (\<lambda>h. ta_grantee_update (\<lambda>_. Some h)) v
      else if as_str k = Some ''parent'' then hash_field (\<lambda>h. ta_parent_update (\<lambda>_. Some h)) v
      else if as_str k = Some ''created_at'' then assign (\<lambda>x. ta_created_at_update (\<lambda>_. x)) (decode_temporal_field v)
      else if as_str k = Some ''expires_at'' then assign (\<lambda>x. ta_expires_at_update (\<lambda>_. x)) (decode_temporal_field v)
      else if as_str k = Some ''not_before'' then assign (\<lambda>x. ta_not_before_update (\<lambda>_. x)) (decode_temporal_field v)
      else if as_str k = Some ''delegation_caveats''
      then assign (\<lambda>x. ta_caveats_update (\<lambda>_. Some x)) (decode_delegation_caveats v)
      else Inr id)"

definition token_acc_init :: token_acc where
  "token_acc_init = \<lparr>ta_grants = None, ta_granter = None, ta_grantee = None, ta_parent = None,
     ta_created_at = None, ta_expires_at = None, ta_not_before = None, ta_caveats = None\<rparr>"

definition required :: "string \<Rightarrow> 'x option \<Rightarrow> CapabilityError + 'x" where
  "required what x = (case x of None \<Rightarrow> Inl (CapInvalid what) | Some v \<Rightarrow> Inr v)"

definition token_from_value :: "Value \<Rightarrow> CapabilityError + capability_token" where
  "token_from_value value =
     (case as_map value of
        None \<Rightarrow> Inl (CapInvalid ''capability data must be a map'')
      | Some m \<Rightarrow>
          (case run_fields token_field m token_acc_init of
             Inl e \<Rightarrow> Inl e
           | Inr a \<Rightarrow>
               (case required ''missing grants'' (ta_grants a) of Inl e \<Rightarrow> Inl e | Inr gs \<Rightarrow>
               (case required ''missing granter'' (ta_granter a) of Inl e \<Rightarrow> Inl e | Inr g \<Rightarrow>
               (case required ''missing grantee'' (ta_grantee a) of Inl e \<Rightarrow> Inl e | Inr ge \<Rightarrow>
               (case required ''missing created_at'' (ta_created_at a) of Inl e \<Rightarrow> Inl e | Inr c \<Rightarrow>
                  Inr \<lparr>grants = gs, granter = g, grantee = ge, parent = ta_parent a, created_at = c,
                       expires_at = ta_expires_at a, not_before = ta_not_before a,
                       delegation_caveats = ta_caveats a\<rparr>))))))"

definition token_from_entity :: "(bytes \<Rightarrow> Value option) \<Rightarrow> entity \<Rightarrow> CapabilityError + capability_token" where
  "token_from_entity dec e =
     (if entity_type e \<noteq> TYPE_CAP_TOKEN then Inl (CapInvalid ''expected system/capability/token'')
      else case dec (data e) of
             None \<Rightarrow> Inl (CapInvalid ''malformed CBOR'')
           | Some value \<Rightarrow> token_from_value value)"

section \<open>Order independence of the field loop\<close>

definition commuting :: "(Value \<Rightarrow> Value \<Rightarrow> 'e + ('a \<Rightarrow> 'a)) \<Rightarrow> bool" where
  "commuting step \<longleftrightarrow>
     (\<forall>k v k' v' u u'. as_str k \<noteq> as_str k' \<longrightarrow> step k v = Inr u \<longrightarrow> step k' v' = Inr u' \<longrightarrow>
        (\<forall>a. u (u' a) = u' (u a)))"

definition all_ok :: "(Value \<Rightarrow> Value \<Rightarrow> 'e + ('a \<Rightarrow> 'a)) \<Rightarrow> (Value \<times> Value) list \<Rightarrow> bool" where
  "all_ok step m \<longleftrightarrow> (\<forall>e \<in> set m. \<exists>u. step (fst e) (snd e) = Inr u)"

definition step_fun :: "(Value \<Rightarrow> Value \<Rightarrow> 'e + ('a \<Rightarrow> 'a)) \<Rightarrow> Value \<times> Value \<Rightarrow> 'a \<Rightarrow> 'a" where
  "step_fun step e = (case step (fst e) (snd e) of Inr u \<Rightarrow> u | Inl _ \<Rightarrow> id)"

lemma run_fields_fold: "all_ok step m \<Longrightarrow> run_fields step m a = Inr (fold (step_fun step) m a)"
proof (induction m arbitrary: a)
  case (Cons e m)
  then show ?case by (cases e) (auto simp: all_ok_def step_fun_def)
qed simp

lemma run_fields_perm:
  assumes "commuting step" "all_ok step m" "distinct (map (as_str \<circ> fst) m)" "mset m' = mset m"
  shows "run_fields step m' a = run_fields step m a"
proof -
  have set_eq: "set m' = set m" using assms(4) by (rule mset_eq_setD)
  have comm: "step_fun step x \<circ> step_fun step y = step_fun step y \<circ> step_fun step x"
    if "x \<in> set m" "y \<in> set m" for x y
  proof (cases "x = y")
    case False
    note mem = that
    with False assms(3) have "as_str (fst x) \<noteq> as_str (fst y)" by (auto simp: distinct_map inj_on_def)
    moreover obtain u where u: "step (fst x) (snd x) = Inr u"
      using bspec [OF assms(2) [unfolded all_ok_def] mem(1)] by (rule exE)
    moreover obtain u' where u': "step (fst y) (snd y) = Inr u'"
      using bspec [OF assms(2) [unfolded all_ok_def] mem(2)] by (rule exE)
    ultimately have "\<forall>a. u (u' a) = u' (u a)" using assms(1) unfolding commuting_def by blast
    then show ?thesis by (simp add: step_fun_def u u' fun_eq_iff)
  qed simp
  have "fold (step_fun step) m = fold (step_fun step) m'"
    using comm assms(4) by (intro fold_multiset_equiv) (auto simp: o_def)
  moreover have "all_ok step m'" using assms(2) set_eq by (simp add: all_ok_def)
  ultimately show ?thesis using assms(2) by (simp add: run_fields_fold)
qed

definition canon_entry :: "Value \<times> Value \<Rightarrow> Value \<times> Value" where
  "canon_entry e = (canon (fst e), canon (snd e))"

lemma canon_map: "canon (VMap m) = VMap (sort_key key_order (map canon_entry m))"
  by (simp add: canon_entry_def [abs_def])

lemma canon_text [simp]: "canon (text_val s) = text_val s" "as_str (text_val s) = Some s"
  by (simp_all add: text_val_def as_str_def)

lemma canon_entry_text [simp]: "canon_entry (text_val s, v) = (text_val s, canon v)"
  by (simp add: canon_entry_def)

lemma run_fields_canon:
  assumes "commuting step" "all_ok step (map canon_entry m)" "distinct (map (as_str \<circ> fst) (map canon_entry m))"
  shows "run_fields step (sort_key key_order (map canon_entry m)) a = run_fields step (map canon_entry m) a"
  by (rule run_fields_perm) (use assms in simp_all)

lemma opt_entry_canon: "map canon_entry (opt_entry key enc x) = opt_entry key (canon \<circ> enc) x"
  by (cases x) (simp_all add: opt_entry_def)

lemma set_opt_entry: "e \<in> set (opt_entry key enc x) \<longleftrightarrow> (\<exists>a. x = Some a \<and> e = (text_val key, enc a))"
  by (cases x) (auto simp: opt_entry_def)

lemma run_opt_entry:
  "run_fields step (opt_entry key enc x @ rest) acc =
     (case x of None \<Rightarrow> run_fields step rest acc
      | Some a \<Rightarrow> (case step (text_val key) (enc a) of Inl e \<Rightarrow> Inl e | Inr u \<Rightarrow> run_fields step rest (u acc)))"
  by (cases x) (simp_all add: opt_entry_def)

lemma distinct_opt_entry:
  "map (as_str \<circ> fst) (opt_entry key enc x) = (case x of None \<Rightarrow> [] | Some _ \<Rightarrow> [Some key])"
  by (cases x) (simp_all add: opt_entry_def)

lemmas entry_simps = opt_entry_canon set_opt_entry run_opt_entry distinct_opt_entry all_ok_def

lemma as_map_VMap [simp]: "as_map (VMap m) = Some m" by (simp add: as_map_def)
lemma as_array_VArray [simp]: "as_array (VArray m) = Some m" by (simp add: as_array_def)
lemma as_bytes_VBytes [simp]: "as_bytes (VBytes m) = Some m" by (simp add: as_bytes_def)

section \<open>Scopes\<close>

lemma commuting_scope: "commuting scope_field"
  by (auto simp: commuting_def scope_field_def split: if_splits option.splits)

lemma commuting_multi: "commuting multi_field"
  by (auto simp: commuting_def multi_field_def assign_def split: if_splits option.splits sum.splits)

lemma commuting_caveat: "commuting caveat_field"
  by (auto simp: commuting_def caveat_field_def split: if_splits)

lemma commuting_grant: "commuting grant_field"
  by (auto simp: commuting_def grant_field_def assign_def split: if_splits sum.splits)

lemma decode_strings_text [simp]: "decode_strings (map text_val xs) = xs"
  by (induction xs) simp_all

lemma canon_o_text [simp]: "canon \<circ> text_val = text_val"
  by (simp add: fun_eq_iff)

lemma scope_roundtrip: "decode_scope_lists (canon (scope_to_value inc exc)) = Inr (inc, exc)"
proof -
  let ?m = "(if exc \<noteq> [] then [(text_val ''exclude'', VArray (map text_val exc))] else []) @
           [(text_val ''include'', VArray (map text_val inc))]"
  have "run_fields scope_field (sort_key key_order (map canon_entry ?m)) ([], []) =
      run_fields scope_field (map canon_entry ?m) ([], [])"
    by (rule run_fields_canon [OF commuting_scope]) (auto simp: all_ok_def scope_field_def)
  also have "\<dots> = Inr (inc, exc)"
    by (auto simp: scope_field_def)
  finally show ?thesis
    by (simp only: decode_scope_lists_def scope_to_value_def canon_map as_map_VMap option.case)
qed

lemma path_scope_roundtrip [simp]: "decode_path_scope (canon (scope_to_value_path s)) = Inr s"
  by (simp add: decode_path_scope_def scope_to_value_path_def scope_roundtrip)

lemma id_scope_roundtrip [simp]: "decode_id_scope (canon (scope_to_value_id s)) = Inr s"
  by (simp add: decode_id_scope_def scope_to_value_id_def scope_roundtrip)

section \<open>Constraint maps\<close>

definition value_map_ok :: "(string, Value) btree \<Rightarrow> bool" where
  "value_map_ok m \<longleftrightarrow> bt_wf m \<and> (\<forall>e \<in> set m. canon (ciborium_to_ecf (snd e)) = snd e)"

lemma insert_text_entries_fold:
  "insert_text_entries (map (\<lambda>(k, v). (text_val k, v)) kvs) acc = fold (\<lambda>(k, v). bt_insert k v) kvs acc"
  by (induction kvs arbitrary: acc) (auto simp: case_prod_beta)

lemma string_map_roundtrip:
  assumes "value_map_ok m"
  shows "decode_string_keyed_map (canon (string_map_to_ecf m)) = m"
proof -
  let ?f = "\<lambda>(k, v). (text_val k, v)" and ?g = "\<lambda>(k, v). (the (as_str k), v)"
  have can: "map canon_entry (map (\<lambda>(k, v). (text_val k, ciborium_to_ecf v)) m) = map ?f m"
    using assms by (auto simp: value_map_ok_def split: prod.splits)
  define l where "l = sort_key key_order (map ?f m)"
  define kvs where "kvs = map ?g l"
  have l: "set l = ?f ` set m" "mset l = mset (map ?f m)" by (simp_all add: l_def)
  have lk: "l = map ?f kvs"
    unfolding kvs_def map_map using l(1) by (intro map_idI [symmetric]) (auto split: prod.splits)
  have mk: "mset kvs = mset m"
    unfolding kvs_def mset_map l(2) by (simp add: multiset.map_comp comp_def case_prod_beta)
  have wf: "bt_wf m" using assms by (simp add: value_map_ok_def)
  have dm: "distinct (map fst m)" by (rule bt_wf_distinct [OF wf])
  have "mset (map fst kvs) = mset (map fst m)" using mk by simp
  then have "distinct (map fst kvs)" using dm mset_eq_imp_distinct_iff by blast
  then have d: "distinct (map fst (rev kvs))" "set (rev kvs) = set m" "distinct (map fst m)"
    using dm mset_eq_setD [OF mk] by (simp_all add: rev_map [symmetric])
  have "map_of (rev kvs) = map_of m" using map_of_inject_set [OF d(1,3)] d(2) by simp
  then have "fold (\<lambda>(k, v). bt_insert k v) kvs [] = m"
    using wf by (intro bt_ext) (simp_all add: bt.fold_insert_wf bt.fold_insert_get)
  then show ?thesis
    unfolding decode_string_keyed_map_def string_map_to_ecf_def canon_map can
    by (simp add: l_def [symmetric] lk insert_text_entries_fold)
qed

section \<open>Grants, granters and caveats\<close>

definition grant_ok :: "grant_entry \<Rightarrow> bool" where
  "grant_ok g \<longleftrightarrow> (\<forall>m. constraints g = Some m \<longrightarrow> value_map_ok m) \<and> (\<forall>m. allowances g = Some m \<longrightarrow> value_map_ok m)"

lemma grant_roundtrip: "grant_ok g \<Longrightarrow> decode_grant_entry (canon (encode_grant_entry g)) = Inr g"
proof -
  assume ok: "grant_ok g"
  define m where "m = opt_entry ''allowances'' string_map_to_ecf (allowances g) @
           opt_entry ''constraints'' string_map_to_ecf (constraints g) @
           [(text_val ''handlers'', scope_to_value_path (handlers g)),
            (text_val ''operations'', scope_to_value_id (operations g))] @
           opt_entry ''peers'' scope_to_value_id (peers g) @
           [(text_val ''resources'', scope_to_value_path (resources g))]"
  have "run_fields grant_field (sort_key key_order (map canon_entry m)) grant_acc_init =
      run_fields grant_field (map canon_entry m) grant_acc_init"
    by (rule run_fields_canon [OF commuting_grant])
      (auto simp: m_def entry_simps grant_field_def assign_def split: option.splits)
  also have "\<dots> = Inr \<lparr>ga_handlers = Some (handlers g), ga_resources = Some (resources g),
      ga_operations = Some (operations g), ga_peers = peers g, ga_constraints = constraints g,
      ga_allowances = allowances g\<rparr>"
    using ok by (auto simp: m_def entry_simps grant_field_def assign_def grant_acc_init_def grant_ok_def
        string_map_roundtrip split: option.splits)
  finally show ?thesis
    by (simp only: decode_grant_entry_def encode_grant_entry_def canon_map as_map_VMap option.case
        m_def [symmetric] sum.case) simp
qed

lemma map_result_roundtrip: "(\<And>x. x \<in> set xs \<Longrightarrow> f (g x) = Inr x) \<Longrightarrow> map_result f (map g xs) = Inr xs"
  by (induction xs) auto

lemma canon_hash [simp]: "canon (hash_value h) = hash_value h"
  by (simp add: hash_value_def)

lemma signer_roundtrip: "hash_ok h \<Longrightarrow> decode_signer (hash_value h) = Inr h"
  by (simp add: decode_signer_def hash_value_def cap_hash_def from_to_bytes)

lemma as_i64_small: "unat n < 2 ^ 63 \<Longrightarrow> as_i64 (uint n) = uint (n :: u64)"
proof -
  assume "unat n < 2 ^ 63"
  then have "uint n < 2 ^ 63" unfolding uint_nat by (metis of_nat_less_iff of_nat_numeral of_nat_power)
  then have "signed_take_bit 63 (uint n) = uint n"
    by (intro signed_take_bit_int_eq_self) (auto intro: order_trans [of _ 0])
  then show ?thesis by (simp add: as_i64_def sint_uint)
qed

lemma opt_u64_small: "unat n < 2 ^ 63 \<Longrightarrow> opt_u64 (canon (integer (as_i64 (uint n)))) = Some n"
proof -
  assume "unat n < 2 ^ 63"
  moreover have "uint n < 2 ^ 64" using uint_lt2p [of n] by simp
  ultimately show ?thesis by (simp add: as_i64_small integer_def opt_u64_def as_integer_def try_u64_def)
qed

definition granter_ok :: "granter \<Rightarrow> bool" where
  "granter_ok g = (case g of Single h \<Rightarrow> hash_ok h
     | Multi m \<Rightarrow> (\<forall>h \<in> set (signers m). hash_ok h) \<and> unat (threshold m) < 2 ^ 63)"

lemma granter_roundtrip: "granter_ok g \<Longrightarrow> decode_granter (canon (encode_granter g)) = Inr g"
proof (cases g)
  case (Single h)
  moreover assume "granter_ok g"
  ultimately show ?thesis
    by (simp add: encode_granter_def hash_value_def decode_granter_def cap_hash_def granter_ok_def from_to_bytes)
next
  case (Multi m)
  moreover assume "granter_ok g"
  ultimately have ok: "\<forall>h \<in> set (signers m). hash_ok h" "unat (threshold m) < 2 ^ 63" by (simp_all add: granter_ok_def)
  define es where "es = [(text_val ''signers'', VArray (map hash_value (signers m))),
                (text_val ''threshold'', integer (as_i64 (uint (threshold m))))]"
  have signers: "map_result decode_signer (map (canon \<circ> hash_value) (signers m)) = Inr (signers m)"
    using ok(1) signer_roundtrip by (intro map_result_roundtrip) simp
  have "run_fields multi_field (sort_key key_order (map canon_entry es)) \<lparr>ma_signers = None, ma_threshold = None\<rparr> =
      run_fields multi_field (map canon_entry es) \<lparr>ma_signers = None, ma_threshold = None\<rparr>"
    by (rule run_fields_canon [OF commuting_multi])
      (auto simp: es_def all_ok_def multi_field_def assign_def signers)
  also have "\<dots> = Inr \<lparr>ma_signers = Some (signers m), ma_threshold = Some (threshold m)\<rparr>"
    by (simp add: es_def multi_field_def assign_def signers opt_u64_small [OF ok(2)])
  finally show ?thesis
    unfolding decode_granter_def encode_granter_def Multi granter.case es_def [symmetric] canon_map Value.case
    by simp
qed

definition caveats_ok :: "delegation_caveats_t \<Rightarrow> bool" where
  "caveats_ok c \<longleftrightarrow> (\<forall>d. max_delegation_depth c = Some d \<longrightarrow> unat d < 2 ^ 63) \<and>
     (\<forall>d. max_delegation_ttl c = Some d \<longrightarrow> unat d < 2 ^ 63)"

lemma caveats_roundtrip: "caveats_ok c \<Longrightarrow> decode_delegation_caveats (canon (caveats_to_value c)) = Inr c"
proof -
  assume ok: "caveats_ok c"
  define m where "m = opt_entry ''max_delegation_depth'' (\<lambda>d. integer (as_i64 (uint d))) (max_delegation_depth c) @
           opt_entry ''max_delegation_ttl'' (\<lambda>d. integer (as_i64 (uint d))) (max_delegation_ttl c) @
           opt_entry ''no_delegation'' bool_val (no_delegation c) @ []"
  let ?i = "\<lparr>no_delegation = None, max_delegation_depth = None, max_delegation_ttl = None\<rparr>"
  have "run_fields caveat_field (sort_key key_order (map canon_entry m)) ?i = run_fields caveat_field (map canon_entry m) ?i"
    by (rule run_fields_canon [OF commuting_caveat])
      (auto simp: m_def entry_simps caveat_field_def split: option.splits)
  also have "\<dots> = Inr c"
  proof -
    have "map canon_entry m = opt_entry ''max_delegation_depth'' (canon \<circ> (\<lambda>d. integer (as_i64 (uint d)))) (max_delegation_depth c) @
           opt_entry ''max_delegation_ttl'' (canon \<circ> (\<lambda>d. integer (as_i64 (uint d)))) (max_delegation_ttl c) @
           opt_entry ''no_delegation'' (canon \<circ> bool_val) (no_delegation c) @ []"
      by (simp only: m_def map_append opt_entry_canon list.map)
    then show ?thesis
      using ok by (cases c) (auto simp: run_opt_entry caveat_field_def caveats_ok_def opt_u64_small bool_val_def
          as_bool_val_def split: option.splits simp del: append_Nil2)
  qed
  finally show ?thesis
    unfolding decode_delegation_caveats_def caveats_to_value_def canon_map as_map_VMap option.case
    by (simp add: m_def)
qed

lemma temporal_roundtrip [simp]: "decode_temporal_field (canon (uinteger n)) = Inr (Some n)"
proof -
  have "uint n < 2 ^ 64" using uint_lt2p [of n] by simp
  then show ?thesis by (simp add: decode_temporal_field_def uinteger_def is_null_def as_integer_def try_u64_def)
qed

section \<open>Tokens\<close>

lemma commuting_chain:
  assumes "commuting step" "\<And>v u. f v = Inr u \<Longrightarrow> P u"
    and "\<And>k v u u' a. step k v = Inr u \<Longrightarrow> P u' \<Longrightarrow> u (u' a) = u' (u a)"
  shows "commuting (\<lambda>k v. if as_str k = s then f v else step k v)"
  using assms unfolding commuting_def by (auto split: if_splits) metis+

lemma commuting_token: "commuting token_field"
  unfolding token_field_def [abs_def]
  apply (rule commuting_chain [where P = "\<lambda>u. \<exists>c. u = ta_grants_update (\<lambda>_. c)"])
    apply (rule commuting_chain [where P = "\<lambda>u. \<exists>c. u = ta_granter_update (\<lambda>_. c)"])
      apply (rule commuting_chain [where P = "\<lambda>u. u = id \<or> (\<exists>c. u = ta_grantee_update (\<lambda>_. c))"])
        apply (rule commuting_chain [where P = "\<lambda>u. u = id \<or> (\<exists>c. u = ta_parent_update (\<lambda>_. c))"])
          apply (rule commuting_chain [where P = "\<lambda>u. \<exists>c. u = ta_created_at_update (\<lambda>_. c)"])
            apply (rule commuting_chain [where P = "\<lambda>u. \<exists>c. u = ta_expires_at_update (\<lambda>_. c)"])
              apply (rule commuting_chain [where P = "\<lambda>u. \<exists>c. u = ta_not_before_update (\<lambda>_. c)"])
                apply (rule commuting_chain [where P = "\<lambda>u. \<exists>c. u = ta_caveats_update (\<lambda>_. c)"])
                  apply (auto simp: commuting_def assign_def hash_field_def split: if_splits option.splits sum.splits)
  done

definition token_ok :: "capability_token \<Rightarrow> bool" where
  "token_ok t \<longleftrightarrow> list_all grant_ok (grants t) \<and> granter_ok (granter t) \<and> hash_ok (grantee t) \<and>
     (\<forall>p. parent t = Some p \<longrightarrow> hash_ok p) \<and> (\<forall>c. delegation_caveats t = Some c \<longrightarrow> caveats_ok c)"

lemma hash_field_roundtrip [simp]: "hash_ok h \<Longrightarrow> hash_field upd (hash_value h) = Inr (upd h)"
  by (simp add: hash_field_def hash_value_def assign_def cap_hash_def from_to_bytes)

lemma token_value_roundtrip:
  assumes ok: "token_ok t"
  shows "token_from_value (canon (token_value t)) = Inr t"
proof -
  define m where "m = [(text_val ''created_at'', uinteger (created_at t))] @
           opt_entry ''delegation_caveats'' caveats_to_value (delegation_caveats t) @
           opt_entry ''expires_at'' uinteger (expires_at t) @
           [(text_val ''grantee'', hash_value (grantee t)),
            (text_val ''granter'', encode_granter (granter t)),
            (text_val ''grants'', VArray (map encode_grant_entry (grants t)))] @
           opt_entry ''not_before'' uinteger (not_before t) @
           opt_entry ''parent'' hash_value (parent t) @ []"
  have gs: "map_result decode_grant_entry (map (canon \<circ> encode_grant_entry) (grants t)) = Inr (grants t)"
    using ok grant_roundtrip by (intro map_result_roundtrip) (auto simp: token_ok_def list_all_iff)
  have g: "decode_granter (canon (encode_granter (granter t))) = Inr (granter t)"
    using ok granter_roundtrip by (simp add: token_ok_def)
  have oks: "hash_ok (grantee t)" "\<And>p. parent t = Some p \<Longrightarrow> hash_ok p"
    "\<And>c. delegation_caveats t = Some c \<Longrightarrow> decode_delegation_caveats (canon (caveats_to_value c)) = Inr c"
    using ok caveats_roundtrip by (auto simp: token_ok_def)
  have "run_fields token_field (sort_key key_order (map canon_entry m)) token_acc_init =
      run_fields token_field (map canon_entry m) token_acc_init"
    by (rule run_fields_canon [OF commuting_token])
      (auto simp: m_def entry_simps token_field_def assign_def gs g oks split: option.splits)
  also have "\<dots> = Inr \<lparr>ta_grants = Some (grants t), ta_granter = Some (granter t), ta_grantee = Some (grantee t),
      ta_parent = parent t, ta_created_at = Some (created_at t), ta_expires_at = expires_at t,
      ta_not_before = not_before t, ta_caveats = delegation_caveats t\<rparr>"
    by (simp add: m_def opt_entry_canon run_opt_entry token_field_def assign_def gs g oks token_acc_init_def
        split: option.splits del: append_Nil2)
  finally have "token_from_value (canon (VMap m)) = Inr t"
    unfolding token_from_value_def canon_map as_map_VMap option.case by (simp add: required_def)
  then show ?thesis unfolding token_value_def m_def by simp
qed

text \<open>The documented behaviour of the decoder that the round trip relies on: it reads back what
  the encoder wrote, as the canonical value.\<close>

definition dec_inverts :: "(bytes \<Rightarrow> Value option) \<Rightarrow> Value \<Rightarrow> bool" where
  "dec_inverts dec v \<longleftrightarrow> dec (to_ecf v) = Some (canon v)"

lemma dec_ok_inverts: "dec_ok dec \<Longrightarrow> ecf_wf v \<Longrightarrow> dec_inverts dec v"
  by (simp add: dec_ok_def dec_inverts_def)

section \<open>Properties\<close>



text \<open>Decoding is fail-closed on the fields that bound a token: an expiry that is present and is
  neither null nor an unsigned 64-bit integer makes the token malformed, never immortal.\<close>

theorem decode_temporal_fail_closed:
  "(decode_temporal_field v = Inr None \<longleftrightarrow> v = VNull) \<and>
   (decode_temporal_field v = Inr (Some n) \<longleftrightarrow> v = VInteger (uint n))"
proof -
  have "uint n < 2 ^ 64" using uint_lt2p [of n] by simp
  moreover have "word_of_int i = n \<longleftrightarrow> i = uint n" if "0 \<le> i" "i < 2 ^ 64" for i
    using that by (simp add: word_uint_eq_iff uint_word_of_int_eq take_bit_int_eq_self)
  ultimately show ?thesis
    by (cases v) (auto simp: decode_temporal_field_def is_null_def as_integer_def try_u64_def split: option.splits if_splits)
qed

text \<open>The limits of a caveat are cast to a signed integer when they are encoded, and a negative
  integer is read as an absent limit: a token that limits the delegation depth to 2^63 or more
  comes back without that limit, and a constraint of 2^63 comes back negated.\<close>

theorem caveat_limit_lost:
  "decode_delegation_caveats (canon (caveats_to_value
       \<lparr>no_delegation = None, max_delegation_depth = Some (2 ^ 63), max_delegation_ttl = None\<rparr>)) =
     Inr \<lparr>no_delegation = None, max_delegation_depth = None, max_delegation_ttl = None\<rparr> \<and>
   ciborium_to_ecf (VInteger (2 ^ 63)) = VInteger (- (2 ^ 63))"
  by code_simp

end
