(* ===== verification/Store_Model.thy ===== *)
theory Store_Model
  imports Entity_Model Entity_Uri
begin

text \<open>
  Content store and location index (\<^verbatim>\<open>core/store/src/lib.rs\<close>): the in-memory back ends, the
  default compare-and-swap methods of the trait, and the contract both sides of the trait agree
  on, as the locale \<open>location_index\<close>.  A lock-protected map is the map itself; each operation of
  the back end holds the lock for its whole body, so an operation is one step.
\<close>

section \<open>Content store\<close>

type_synonym content_store = "(hash, entity) btree"

datatype StoreError = StoreInternal string

definition mcs_new :: content_store where "mcs_new = []"

definition mcs_entries :: "content_store \<Rightarrow> (hash \<times> entity) list" where
  "mcs_entries cs = cs"

definition mcs_put :: "entity \<Rightarrow> content_store \<Rightarrow> (StoreError + hash) \<times> content_store" where
  "mcs_put e cs = (Inr (content_hash e), bt_insert (content_hash e) e cs)"

definition mcs_get :: "hash \<Rightarrow> content_store \<Rightarrow> entity option" where
  "mcs_get h cs = map_of cs h"

definition mcs_has :: "hash \<Rightarrow> content_store \<Rightarrow> bool" where
  "mcs_has h cs \<longleftrightarrow> map_of cs h \<noteq> None"

definition mcs_remove :: "hash \<Rightarrow> content_store \<Rightarrow> bool \<times> content_store" where
  "mcs_remove h cs = (map_of cs h \<noteq> None, bt_remove h cs)"

definition mcs_len :: "content_store \<Rightarrow> nat" where
  "mcs_len cs = length cs"

section \<open>Location index\<close>

type_synonym loc_index = "(string, hash) btree"

datatype CasError = Mismatch hash | NotFound

record location_entry =
  loc_path :: string
  loc_hash :: hash

text \<open>\<^verbatim>\<open>char::is_control\<close> on UTF-8 bytes: the C0 controls, DEL, and the two-byte forms of the C1
  controls.\<close>

fun has_control :: "string \<Rightarrow> bool" where
  "has_control [] = False"
| "has_control (c # cs) =
     ((of_char c :: nat) < 0x20 \<or> (of_char c :: nat) = 0x7F \<or>
      ((of_char c :: nat) = 0xC2 \<and>
         (case cs of d # _ \<Rightarrow> 0x80 \<le> (of_char d :: nat) \<and> (of_char d :: nat) \<le> 0x9F | [] \<Rightarrow> False)) \<or>
      has_control cs)"

definition path_is_storable :: "string \<Rightarrow> bool" where
  "path_is_storable path =
     (if path = [] \<or> path = NEVER_MATCH then False
      else if str_contains ''//'' path \<or> has_control path then False
      else \<not> list_ex (\<lambda>segment. segment = ''.'' \<or> segment = ''..'') (str_split CHR ''/'' path))"

definition mli_new :: loc_index where "mli_new = []"

definition mli_entries :: "loc_index \<Rightarrow> (string \<times> hash) list" where
  "mli_entries ix = ix"

definition mli_set :: "string \<Rightarrow> hash \<Rightarrow> loc_index \<Rightarrow> loc_index" where
  "mli_set path h ix = (if \<not> path_is_storable path then ix else bt_insert path h ix)"

definition mli_get :: "string \<Rightarrow> loc_index \<Rightarrow> hash option" where
  "mli_get path ix = map_of ix path"

definition mli_has :: "string \<Rightarrow> loc_index \<Rightarrow> bool" where
  "mli_has path ix \<longleftrightarrow> map_of ix path \<noteq> None"

definition mli_remove :: "string \<Rightarrow> loc_index \<Rightarrow> hash option \<times> loc_index" where
  "mli_remove path ix = (map_of ix path, bt_remove path ix)"

text \<open>\<^verbatim>\<open>range(prefix..)\<close> of an ordered map.\<close>

definition bt_range_from :: "string \<Rightarrow> loc_index \<Rightarrow> loc_index" where
  "bt_range_from lo ix = dropWhile (\<lambda>(k, _). k < lo) ix"

definition mli_list :: "string \<Rightarrow> loc_index \<Rightarrow> location_entry list" where
  "mli_list pre ix =
     map (\<lambda>(k, v). \<lparr>loc_path = k, loc_hash = v\<rparr>)
       (takeWhile (\<lambda>(k, _). starts_with k pre) (bt_range_from pre ix))"

definition mli_len_prefix :: "string \<Rightarrow> loc_index \<Rightarrow> nat" where
  "mli_len_prefix pre ix =
     (if pre = [] then length ix
      else length (takeWhile (\<lambda>(k, _). starts_with k pre) (bt_range_from pre ix)))"

definition mli_compare_and_swap :: "string \<Rightarrow> hash \<Rightarrow> hash \<Rightarrow> loc_index \<Rightarrow> (CasError + unit) \<times> loc_index" where
  "mli_compare_and_swap path expected new_hash ix =
     (case map_of ix path of
        Some current \<Rightarrow>
          if current = expected then (Inr (), bt_insert path new_hash ix) else (Inl (Mismatch current), ix)
      | None \<Rightarrow> (Inl NotFound, ix))"

definition mli_compare_and_remove :: "string \<Rightarrow> hash \<Rightarrow> loc_index \<Rightarrow> (CasError + hash) \<times> loc_index" where
  "mli_compare_and_remove path expected ix =
     (case map_of ix path of
        Some current \<Rightarrow>
          if current = expected then (Inr current, bt_remove path ix) else (Inl (Mismatch current), ix)
      | None \<Rightarrow> (Inl NotFound, ix))"

definition mli_compare_and_create :: "string \<Rightarrow> hash \<Rightarrow> loc_index \<Rightarrow> (CasError + unit) \<times> loc_index" where
  "mli_compare_and_create path new_hash ix =
     (case map_of ix path of
        Some current \<Rightarrow> (Inl (Mismatch current), ix)
      | None \<Rightarrow> (Inr (), bt_insert path new_hash ix))"

text \<open>The default methods of the trait, over any back end's \<open>get\<close>, \<open>set\<close> and \<open>remove\<close>.\<close>

definition default_compare_and_swap ::
    "(string \<Rightarrow> 's \<Rightarrow> hash option) \<Rightarrow> (string \<Rightarrow> hash \<Rightarrow> 's \<Rightarrow> 's) \<Rightarrow>
     string \<Rightarrow> hash \<Rightarrow> hash \<Rightarrow> 's \<Rightarrow> (CasError + unit) \<times> 's" where
  "default_compare_and_swap get_op set_op path expected new_hash s =
     (case get_op path s of
        Some current \<Rightarrow>
          if current = expected then (Inr (), set_op path new_hash s) else (Inl (Mismatch current), s)
      | None \<Rightarrow> (Inl NotFound, s))"

definition default_compare_and_remove ::
    "(string \<Rightarrow> 's \<Rightarrow> hash option) \<Rightarrow> (string \<Rightarrow> 's \<Rightarrow> hash option \<times> 's) \<Rightarrow>
     string \<Rightarrow> hash \<Rightarrow> 's \<Rightarrow> (CasError + hash) \<times> 's" where
  "default_compare_and_remove get_op remove_op path expected s =
     (case get_op path s of
        Some current \<Rightarrow>
          if current = expected
          then (case remove_op path s of
                  (Some h, s') \<Rightarrow> (Inr h, s')
                | (None, s') \<Rightarrow> (Inl NotFound, s'))
          else (Inl (Mismatch current), s)
      | None \<Rightarrow> (Inl NotFound, s))"

definition default_compare_and_create ::
    "(string \<Rightarrow> 's \<Rightarrow> hash option) \<Rightarrow> (string \<Rightarrow> hash \<Rightarrow> 's \<Rightarrow> 's) \<Rightarrow>
     string \<Rightarrow> hash \<Rightarrow> 's \<Rightarrow> (CasError + unit) \<times> 's" where
  "default_compare_and_create get_op set_op path new_hash s =
     (case get_op path s of
        Some current \<Rightarrow> (Inl (Mismatch current), s)
      | None \<Rightarrow> (Inr (), set_op path new_hash s))"

section \<open>The contract of a location index\<close>

locale location_index =
  fixes get_op :: "string \<Rightarrow> 's \<Rightarrow> hash option"
    and set_op :: "string \<Rightarrow> hash \<Rightarrow> 's \<Rightarrow> 's"
    and remove_op :: "string \<Rightarrow> 's \<Rightarrow> hash option \<times> 's"
    and inv :: "'s \<Rightarrow> bool"
  assumes inv_set: "inv s \<Longrightarrow> inv (set_op p h s)"
    and inv_remove: "inv s \<Longrightarrow> inv (snd (remove_op p s))"
    and get_set: "inv s \<Longrightarrow> path_is_storable p \<Longrightarrow>
          get_op q (set_op p h s) = (if q = p then Some h else get_op q s)"
    and set_refused: "\<not> path_is_storable p \<Longrightarrow> set_op p h s = s"
    and remove_result: "fst (remove_op p s) = get_op p s"
    and get_remove: "inv s \<Longrightarrow> get_op q (snd (remove_op p s)) = (if q = p then None else get_op q s)"
begin

text \<open>The lookup as a map, and what the derived operations do to it.\<close>

lemma set_then_get: "inv s \<Longrightarrow> path_is_storable p \<Longrightarrow> get_op p (set_op p h s) = Some h"
  by (simp add: get_set)

lemma swap_success:
  "inv s \<Longrightarrow> path_is_storable p \<Longrightarrow> get_op p s = Some old \<Longrightarrow>
   fst (default_compare_and_swap get_op set_op p old new s) = Inr () \<and>
   get_op q (snd (default_compare_and_swap get_op set_op p old new s)) = (if q = p then Some new else get_op q s)"
  by (simp add: default_compare_and_swap_def get_set)

lemma swap_failure:
  "get_op p s \<noteq> Some old \<Longrightarrow>
   default_compare_and_swap get_op set_op p old new s =
     (Inl (case get_op p s of None \<Rightarrow> NotFound | Some h \<Rightarrow> Mismatch h), s)"
  by (auto simp: default_compare_and_swap_def split: option.splits)

lemma swap_back:
  "inv s \<Longrightarrow> path_is_storable p \<Longrightarrow> get_op p s = Some old \<Longrightarrow>
   get_op q (snd (default_compare_and_swap get_op set_op p new old
     (snd (default_compare_and_swap get_op set_op p old new s)))) = get_op q s"
  by (simp add: default_compare_and_swap_def get_set inv_set)

lemma create_once:
  "inv s \<Longrightarrow> path_is_storable p \<Longrightarrow> get_op p s = None \<Longrightarrow>
   default_compare_and_create get_op set_op p h' (snd (default_compare_and_create get_op set_op p h s)) =
     (Inl (Mismatch h), snd (default_compare_and_create get_op set_op p h s))"
  by (simp add: default_compare_and_create_def get_set)

lemma remove_twice: "inv s \<Longrightarrow> fst (remove_op p (snd (remove_op p s))) = None"
  by (simp add: remove_result get_remove)

end

interpretation mli: location_index mli_get mli_set mli_remove bt_wf
  by unfold_locales
    (auto simp: mli_get_def mli_set_def mli_remove_def bt_simps)

section \<open>Lemmas\<close>

lemma prefix_interval:
  assumes "k \<le> k'" "k' \<le> k''" "prefix p k" "prefix p k''"
  shows "prefix p (k' :: string)"
  using assms
proof (induction p arbitrary: k k' k'')
  case (Cons c p)
  then obtain ks ks'' where k: "k = c # ks" "k'' = c # ks''" by (auto simp: prefix_def)
  with Cons.prems obtain d ds where d: "k' = d # ds" by (cases k') auto
  with Cons.prems k have "c = d" "ks \<le> ds" "ds \<le> ks''" by auto
  with Cons k d show ?case by auto
qed simp

lemma prefix_le: "prefix p k \<Longrightarrow> p \<le> (k :: string)"
  by (induction p arbitrary: k) (auto simp: prefix_def)

text \<open>In key order the keys with a given prefix are contiguous and start at the prefix.\<close>

lemma range_prefix_filter:
  assumes "bt_wf ix"
  shows "takeWhile (\<lambda>(k, _). starts_with k p) (bt_range_from p ix) = filter (\<lambda>(k, _). starts_with k p) ix"
  using assms
proof (induction ix)
  case Nil
  then show ?case by (simp add: bt_range_from_def)
next
  case (Cons e ix)
  obtain k v where e: "e = (k, v)" by (cases e)
  from Cons.prems have wf: "bt_wf ix" and lo: "\<And>k'. k' \<in> fst ` set ix \<Longrightarrow> k < k'" by (auto simp: e bt_wf_Cons)
  show ?case
  proof (cases "k < p")
    case True
    then have "\<not> prefix p k" using prefix_le by fastforce
    then show ?thesis using True Cons.IH [OF wf] by (simp add: e bt_range_from_def starts_with_def)
  next
    case False
    have rest: "bt_range_from p (e # ix) = e # ix" using False by (simp add: e bt_range_from_def)
    have ix_rest: "bt_range_from p ix = ix"
      using False lo by (cases ix) (fastforce simp: bt_range_from_def)+
    show ?thesis
    proof (cases "prefix p k")
      case True
      then show ?thesis using Cons.IH [OF wf] rest ix_rest by (simp add: e starts_with_def)
    next
      case np: False
      have "\<not> prefix p k'" if "k' \<in> fst ` set ix" for k'
        using prefix_interval [of p k k' p] prefix_le lo [OF that] False np by fastforce
      then have "filter (\<lambda>(k, _). starts_with k p) ix = []" by (force simp: filter_empty_conv starts_with_def)
      then show ?thesis using np rest by (simp add: e starts_with_def)
    qed
  qed
qed

lemma mli_cas_default:
  assumes "path_is_storable p"
  shows "mli_compare_and_swap p old new ix = default_compare_and_swap mli_get mli_set p old new ix"
    and "mli_compare_and_create p new ix = default_compare_and_create mli_get mli_set p new ix"
  using assms
  by (auto simp: mli_compare_and_swap_def default_compare_and_swap_def mli_compare_and_create_def
      default_compare_and_create_def mli_get_def mli_set_def split: option.splits)

lemma mli_remove_default:
  "mli_compare_and_remove p old ix = default_compare_and_remove mli_get mli_remove p old ix"
  by (auto simp: mli_compare_and_remove_def default_compare_and_remove_def mli_get_def mli_remove_def
      split: option.splits)

section \<open>Properties\<close>

text \<open>C32. The prefix listing, a range scan that stops at the first key without the prefix, returns
  exactly the bindings whose path starts with the prefix, in key order, and the prefix count is
  its length.\<close>

theorem mli_list_correct:
  assumes "bt_wf ix"
  shows "mli_list pre ix = [\<lparr>loc_path = k, loc_hash = v\<rparr>. (k, v) \<leftarrow> ix, starts_with k pre] \<and>
     mli_len_prefix pre ix = length (mli_list pre ix) \<and>
     sorted_wrt (<) (map loc_path (mli_list pre ix))"
proof -
  let ?e = "\<lambda>(k, v). \<lparr>loc_path = k, loc_hash = v\<rparr>" and ?p = "\<lambda>(k, _). starts_with k pre"
  have list: "mli_list pre ix = map ?e (filter ?p ix)"
    unfolding mli_list_def by (simp only: range_prefix_filter [OF assms])
  have comp: "map ?e (filter ?p ix) = [\<lparr>loc_path = k, loc_hash = v\<rparr>. (k, v) \<leftarrow> ix, starts_with k pre]"
    by (induction ix) auto
  have len: "mli_len_prefix pre ix = length (filter ?p ix)"
    unfolding mli_len_prefix_def range_prefix_filter [OF assms]
    by (simp add: starts_with_def case_prod_beta filter_True)
  have "map loc_path (map ?e (filter ?p ix)) = map fst (filter ?p ix)" by (simp add: case_prod_beta)
  moreover have "sorted_wrt (<) (map fst (filter ?p ix))"
    using assms by (simp add: bt_wf_def sorted_wrt_map sorted_wrt_filter)
  ultimately have "sorted_wrt (<) (map loc_path (mli_list pre ix))" unfolding list by (simp only:)
  moreover have "length (mli_list pre ix) = length (filter ?p ix)" unfolding list by (rule length_map)
  ultimately show ?thesis using comp len list by (intro conjI) (simp_all only:)
qed

theorem mli_list_correct_witness:
  "mli_list ''/p/'' [(''/a/x'', hash_zero), (''/p/x'', hash_zero)] = [\<lparr>loc_path = ''/p/x'', loc_hash = hash_zero\<rparr>]"
proof -
  have "bt_wf [(''/a/x'', hash_zero), (''/p/x'', hash_zero)]" by (simp add: bt_wf_def less_char_def)
  from mli_list_correct [OF this, of "''/p/''"] show ?thesis by (simp add: starts_with_def)
qed

text \<open>The in-memory index meets the contract of a location index: at a storable path the
  compare-and-swap succeeds exactly when the current binding is the expected one and then
  rebinds that path and nothing else; a failed swap reports the current binding and changes
  nothing; creation succeeds once; removal unbinds.\<close>

theorem mli_compare_and_swap_correct:
  assumes "bt_wf ix" "path_is_storable p"
  shows "(case mli_compare_and_swap p old new ix of
            (Inr _, ix') \<Rightarrow> mli_get p ix = Some old \<and> bt_wf ix' \<and> (\<forall>q. mli_get q ix' = (if q = p then Some new else mli_get q ix))
          | (Inl e, ix') \<Rightarrow> ix' = ix \<and> e = (case mli_get p ix of None \<Rightarrow> NotFound | Some h \<Rightarrow> Mismatch h) \<and> mli_get p ix \<noteq> Some old) \<and>
     (case mli_compare_and_create p new ix of
            (Inr _, ix') \<Rightarrow> mli_get p ix = None \<and> mli_get p ix' = Some new \<and>
               mli_compare_and_create p old ix' = (Inl (Mismatch new), ix')
          | (Inl e, ix') \<Rightarrow> ix' = ix \<and> (\<exists>h. e = Mismatch h \<and> mli_get p ix = Some h)) \<and>
     (case mli_compare_and_remove p old ix of
            (Inr h, ix') \<Rightarrow> h = old \<and> mli_get p ix' = None
          | (Inl e, ix') \<Rightarrow> ix' = ix \<and> mli_get p ix \<noteq> Some old)"
proof (intro conjI)
  show "case mli_compare_and_swap p old new ix of
            (Inr _, ix') \<Rightarrow> mli_get p ix = Some old \<and> bt_wf ix' \<and> (\<forall>q. mli_get q ix' = (if q = p then Some new else mli_get q ix))
          | (Inl e, ix') \<Rightarrow> ix' = ix \<and> e = (case mli_get p ix of None \<Rightarrow> NotFound | Some h \<Rightarrow> Mismatch h) \<and> mli_get p ix \<noteq> Some old"
  proof (cases "mli_get p ix = Some old")
    case True
    then show ?thesis
      using assms mli.inv_set [OF assms(1)] mli.get_set [OF assms]
      by (simp add: mli_cas_default default_compare_and_swap_def)
  next
    case False
    then show ?thesis using mli.swap_failure [OF False] by (simp add: mli_cas_default assms(2))
  qed
  show "case mli_compare_and_create p new ix of
            (Inr _, ix') \<Rightarrow> mli_get p ix = None \<and> mli_get p ix' = Some new \<and>
               mli_compare_and_create p old ix' = (Inl (Mismatch new), ix')
          | (Inl e, ix') \<Rightarrow> ix' = ix \<and> (\<exists>h. e = Mismatch h \<and> mli_get p ix = Some h)"
    using mli.create_once [OF assms] mli.set_then_get [OF assms]
    by (auto simp: mli_cas_default [OF assms(2)] default_compare_and_create_def split: option.splits)
  show "case mli_compare_and_remove p old ix of
            (Inr h, ix') \<Rightarrow> h = old \<and> mli_get p ix' = None
          | (Inl e, ix') \<Rightarrow> ix' = ix \<and> mli_get p ix \<noteq> Some old"
    using assms(1) by (auto simp: mli_compare_and_remove_def mli_get_def bt_simps split: option.splits)
qed

theorem mli_compare_and_swap_correct_witness:
  "mli_get ''/p/x'' (snd (mli_compare_and_create ''/p/x'' hash_zero [])) = Some hash_zero"
proof -
  have "path_is_storable ''/p/x''" by (simp add: path_is_storable_def NEVER_MATCH_def)
  from mli_compare_and_swap_correct [OF bt_wf_Nil this, of hash_zero hash_zero] show ?thesis
    by (simp add: mli_compare_and_create_def)
qed

text \<open>The boundary check is not on every way into the index: a plain write at a malformed path
  is dropped, but creating a binding there by compare-and-swap stores it, and from then on
  swaps rebind it.\<close>

theorem mli_create_skips_boundary:
  "\<not> path_is_storable ''a//b'' \<and> mli_set ''a//b'' hash_zero [] = [] \<and>
   mli_compare_and_create ''a//b'' hash_zero [] = (Inr (), [(''a//b'', hash_zero)])"
  by (simp add: path_is_storable_def NEVER_MATCH_def mli_set_def mli_compare_and_create_def)

end
