(* ===== verification/Emit_Pathway.thy ===== *)
theory Emit_Pathway
  imports Store_Model
begin

text \<open>
  The emit pathway (\<^verbatim>\<open>NotifyingLocationIndex\<close> and \<^verbatim>\<open>NotifyingContentStore\<close> of
  \<^verbatim>\<open>core/store/src/lib.rs\<close>).  A write commits to the inner index, then runs the registered hooks in
  order, then broadcasts.  Hooks are code from elsewhere that may read and write the same index
  while they run: a hook is a tree of interactions, \<open>hook_prog\<close>, that ends with the updated
  context and an optional halt; its private state is the part \<open>world\<close> of the index state.  The
  operations call hooks and hooks call operations; \<open>emit\<close> ties the knot with fuel, and 33 units
  are always enough because the code refuses to write at nesting depth 32.  One thread at a
  time runs the pathway; the broadcast closure is the log of the events handed to it.
\<close>

section \<open>Contexts, events and results\<close>

datatype ChangeType = Created | Modified | Deleted

record clock_hlc =
  hlc_physical :: u64
  hlc_logical :: u64
  hlc_peer :: hash

record clock_state =
  clk_mode :: string
  clk_timestamp :: "u64 option"
  clk_logical :: "u64 option"
  clk_vector :: "(string \<rightharpoonup> u64) option"
  clk_hlc :: "clock_hlc option"

record exec_context =
  ctx_chain_id :: "string option"
  ctx_author :: "hash option"
  ctx_caller_capability :: "hash option"
  ctx_request_id :: "string option"
  ctx_cascade_depth :: u32
  ctx_capability :: "hash option"
  ctx_handler_grant :: "hash option"
  ctx_handler_pattern :: "string option"
  ctx_operation :: "string option"
  ctx_parent_chain_id :: "string option"
  ctx_clock :: "clock_state option"

definition ctx_default :: exec_context where
  "ctx_default = \<lparr>ctx_chain_id = None, ctx_author = None, ctx_caller_capability = None, ctx_request_id = None,
     ctx_cascade_depth = 0, ctx_capability = None, ctx_handler_grant = None, ctx_handler_pattern = None,
     ctx_operation = None, ctx_parent_chain_id = None, ctx_clock = None\<rparr>"

record tree_event =
  ev_path :: string
  ev_hash :: hash
  ev_previous :: "hash option"
  ev_new :: "hash option"
  ev_change :: ChangeType
  ev_context :: "exec_context option"

record cascade_halt =
  halt_consumer :: string
  halt_code :: u32
  halt_message :: string
  halt_is_error :: bool

record cascade_result =
  binding_committed :: bool
  consumers_completed :: "string list"
  consumers_halted :: "cascade_halt list"
  consumers_errored :: "cascade_halt list"
  consumers_skipped :: "string list"
  cr_depth :: u32

definition is_complete :: "cascade_result \<Rightarrow> bool" where
  "is_complete r \<longleftrightarrow> consumers_halted r = [] \<and> consumers_errored r = [] \<and> binding_committed r"

definition empty_success :: cascade_result where
  "empty_success = \<lparr>binding_committed = True, consumers_completed = [], consumers_halted = [],
     consumers_errored = [], consumers_skipped = [], cr_depth = 0\<rparr>"

definition cascade_success :: "string list \<Rightarrow> u32 \<Rightarrow> cascade_result" where
  "cascade_success consumers depth = \<lparr>binding_committed = True, consumers_completed = consumers,
     consumers_halted = [], consumers_errored = [], consumers_skipped = [], cr_depth = depth\<rparr>"

definition cascade_rejected :: "cascade_halt \<Rightarrow> u32 \<Rightarrow> cascade_result" where
  "cascade_rejected halt depth = \<lparr>binding_committed = False, consumers_completed = [],
     consumers_halted = [halt], consumers_errored = [], consumers_skipped = [], cr_depth = depth\<rparr>"

definition CASCADE_DEPTH_LIMIT :: u32 where "CASCADE_DEPTH_LIMIT = 32"

definition system_halt :: "u32 \<Rightarrow> string \<Rightarrow> cascade_halt" where
  "system_halt code msg = \<lparr>halt_consumer = ''system'', halt_code = code, halt_message = msg, halt_is_error = False\<rparr>"

section \<open>Hooks and state\<close>

datatype op =
    OpSet string hash "exec_context option"
  | OpRemove string "exec_context option"
  | OpSwap string hash hash "exec_context option"
  | OpCasRemove string hash "exec_context option"
  | OpCreate string hash "exec_context option"

datatype op_result =
    ResSet cascade_result
  | ResRemove "hash option" cascade_result
  | ResSwap "CasError + cascade_result"
  | ResCasRemove "CasError + (hash \<times> cascade_result)"

datatype 'w hook_prog =
    HDone exec_context "cascade_halt option"
  | HGet string "hash option \<Rightarrow> 'w hook_prog"
  | HOp op "op_result \<Rightarrow> 'w hook_prog"
  | HRead "'w \<Rightarrow> 'w hook_prog"
  | HWrite 'w "'w hook_prog"

record 'w hook =
  hk_name :: string
  hk_pattern :: string
  hk_run :: "tree_event \<Rightarrow> exec_context \<Rightarrow> 'w hook_prog"

record 'w nli =
  inner :: loc_index
  hooks :: "'w hook list"
  depth :: u32
  chain_depths :: "string \<rightharpoonup> u32"
  broadcasts :: "tree_event list"
  world :: 'w

definition nli_new :: "'w \<Rightarrow> 'w nli" where
  "nli_new w = \<lparr>inner = mli_new, hooks = [], depth = 0, chain_depths = Map.empty, broadcasts = [], world = w\<rparr>"

definition register_hook :: "'w hook \<Rightarrow> 'w nli \<Rightarrow> 'w nli" where
  "register_hook hk s = s\<lparr>hooks := hooks s @ [hk]\<rparr>"

type_synonym 'w runner = "op \<Rightarrow> 'w nli \<Rightarrow> ('w nli \<times> op_result) option"

primrec run_hook :: "'w runner \<Rightarrow> 'w hook_prog \<Rightarrow> 'w nli \<Rightarrow> ('w nli \<times> exec_context \<times> cascade_halt option) option" where
  "run_hook wr (HDone ctx halt) s = Some (s, ctx, halt)"
| "run_hook wr (HGet path k) s = run_hook wr (k (mli_get path (inner s))) s"
| "run_hook wr (HOp op k) s =
     (case wr op s of None \<Rightarrow> None | Some (s', r) \<Rightarrow> run_hook wr (k r) s')"
| "run_hook wr (HRead k) s = run_hook wr (k (world s)) s"
| "run_hook wr (HWrite w p) s = run_hook wr p (s\<lparr>world := w\<rparr>)"

section \<open>Dispatch\<close>

text \<open>The loop over the hooks.  It returns the state, the context after the last hook, and either the
  names of the completed hooks or the result of the halt.\<close>

fun run_hooks ::
    "'w runner \<Rightarrow> tree_event \<Rightarrow> 'w hook list \<Rightarrow> string list \<Rightarrow> exec_context \<Rightarrow> 'w nli \<Rightarrow>
     ('w nli \<times> exec_context \<times> (cascade_result + string list)) option" where
  "run_hooks wr event [] completed ctx s = Some (s, ctx, Inr completed)"
| "run_hooks wr event (hk # hks) completed ctx s =
     (let call_ctx = ctx\<lparr>ctx_capability := None, ctx_handler_grant := None,
                       ctx_handler_pattern := Some (hk_pattern hk), ctx_operation := Some (hk_name hk)\<rparr>
      in case run_hook wr (hk_run hk event call_ctx) s of
           None \<Rightarrow> None
         | Some (s', hook_ctx, result) \<Rightarrow>
             (let ctx' = hook_ctx\<lparr>ctx_handler_pattern := ctx_handler_pattern ctx, ctx_operation := ctx_operation ctx,
                                ctx_capability := ctx_capability ctx, ctx_handler_grant := ctx_handler_grant ctx\<rparr>
              in case result of
                   None \<Rightarrow> run_hooks wr event hks (completed @ [hk_name hk]) ctx' s'
                 | Some halt \<Rightarrow>
                     Some (s', ctx',
                       Inl \<lparr>binding_committed = True, consumers_completed = completed,
                            consumers_halted = (if halt_is_error halt then [] else [halt]),
                            consumers_errored = (if halt_is_error halt then [halt] else []),
                            consumers_skipped = map hk_name hks, cr_depth = ctx_cascade_depth ctx'\<rparr>)))"

text \<open>The check of the accumulated depth of a chain: the new accumulators, or the refusal.\<close>

definition chain_check :: "exec_context \<Rightarrow> (string \<rightharpoonup> u32) \<Rightarrow> (string \<rightharpoonup> u32) \<times> bool" where
  "chain_check ctx cd =
     (case ctx_chain_id ctx of
        None \<Rightarrow> (cd, True)
      | Some chain_id \<Rightarrow>
          let accumulated = (case cd chain_id of Some a \<Rightarrow> a | None \<Rightarrow> 0);
              total = accumulated + ctx_cascade_depth ctx
          in if total > CASCADE_DEPTH_LIMIT then (cd(chain_id \<mapsto> accumulated), False)
             else (cd(chain_id \<mapsto> total), True))"

text \<open>Phase 1 and, unless a hook halts, phase 2; the nesting depth is given back at the end.\<close>

definition run_phases ::
    "'w runner \<Rightarrow> tree_event \<Rightarrow> exec_context \<Rightarrow> 'w nli \<Rightarrow> ('w nli \<times> cascade_result) option" where
  "run_phases wr event ctx s =
     (case run_hooks wr event (hooks s) [] ctx s of
        None \<Rightarrow> None
      | Some (s', ctx', Inl halted) \<Rightarrow> Some (s'\<lparr>depth := depth s' - 1\<rparr>, halted)
      | Some (s', ctx', Inr completed) \<Rightarrow>
          Some (s'\<lparr>broadcasts := broadcasts s' @ [event\<lparr>ev_context := Some ctx'\<rparr>], depth := depth s' - 1\<rparr>,
                cascade_success completed (ctx_cascade_depth ctx')))"

definition dispatch_event ::
    "'w runner \<Rightarrow> string \<Rightarrow> hash \<Rightarrow> hash option \<Rightarrow> hash option \<Rightarrow> ChangeType \<Rightarrow> exec_context option \<Rightarrow>
     'w nli \<Rightarrow> ('w nli \<times> cascade_result) option" where
  "dispatch_event wr path h previous new change context s0 =
     (let s = s0\<lparr>depth := depth s0 + 1\<rparr>;
          ctx = (case context of Some c \<Rightarrow> c | None \<Rightarrow> ctx_default)\<lparr>ctx_cascade_depth := depth s\<rparr>;
          (cd, ok) = chain_check ctx (chain_depths s)
      in if \<not> ok
         then Some (s\<lparr>chain_depths := cd, depth := depth s - 1\<rparr>,
                    cascade_rejected (system_halt 500 ''cross_peer_cascade_depth_exceeded'') (ctx_cascade_depth ctx))
         else
           run_phases wr
             \<lparr>ev_path = path, ev_hash = h, ev_previous = previous, ev_new = new, ev_change = change, ev_context = Some ctx\<rparr>
             ctx (s\<lparr>chain_depths := cd\<rparr>))"

section \<open>Operations\<close>

definition depth_exceeded :: "'w nli \<Rightarrow> bool" where
  "depth_exceeded s \<longleftrightarrow> depth s \<ge> CASCADE_DEPTH_LIMIT"

definition set_impl ::
    "'w runner \<Rightarrow> string \<Rightarrow> hash \<Rightarrow> exec_context option \<Rightarrow> 'w nli \<Rightarrow> ('w nli \<times> cascade_result) option" where
  "set_impl wr path h context s =
     (if validate_absolute_path path \<noteq> Inr ()
      then Some (s, cascade_rejected (system_halt 400 ''invalid path'') 0)
      else if depth_exceeded s
      then Some (s, cascade_rejected (system_halt 500 ''cascade_depth_exceeded'') (depth s))
      else
        let previous = mli_get path (inner s);
            s' = s\<lparr>inner := mli_set path h (inner s)\<rparr>
        in case previous of
             Some prev \<Rightarrow>
               if prev = h then Some (s', empty_success)
               else dispatch_event wr path h (Some prev) (Some h) Modified context s'
           | None \<Rightarrow> dispatch_event wr path h None (Some h) Created context s')"

definition cas_swap_impl ::
    "'w runner \<Rightarrow> string \<Rightarrow> hash \<Rightarrow> hash \<Rightarrow> exec_context option \<Rightarrow> 'w nli \<Rightarrow>
     ('w nli \<times> (CasError + cascade_result)) option" where
  "cas_swap_impl wr path expected new_hash context s =
     (if validate_absolute_path path \<noteq> Inr () then Some (s, Inl (Mismatch expected))
      else if depth_exceeded s then Some (s, Inl (Mismatch expected))
      else case mli_compare_and_swap path expected new_hash (inner s) of
             (Inl e, _) \<Rightarrow> Some (s, Inl e)
           | (Inr _, ix) \<Rightarrow>
               let s' = s\<lparr>inner := ix\<rparr>
               in if expected = new_hash then Some (s', Inr empty_success)
                  else map_option (\<lambda>(s'', r). (s'', Inr r))
                         (dispatch_event wr path new_hash (Some expected) (Some new_hash) Modified context s'))"

definition cas_remove_impl ::
    "'w runner \<Rightarrow> string \<Rightarrow> hash \<Rightarrow> exec_context option \<Rightarrow> 'w nli \<Rightarrow>
     ('w nli \<times> (CasError + (hash \<times> cascade_result))) option" where
  "cas_remove_impl wr path expected context s =
     (if validate_absolute_path path \<noteq> Inr () then Some (s, Inl (Mismatch expected))
      else if depth_exceeded s then Some (s, Inl (Mismatch expected))
      else case mli_compare_and_remove path expected (inner s) of
             (Inl e, _) \<Rightarrow> Some (s, Inl e)
           | (Inr removed, ix) \<Rightarrow>
               map_option (\<lambda>(s'', r). (s'', Inr (removed, r)))
                 (dispatch_event wr path removed (Some removed) None Deleted context (s\<lparr>inner := ix\<rparr>)))"

definition cas_create_impl ::
    "'w runner \<Rightarrow> string \<Rightarrow> hash \<Rightarrow> exec_context option \<Rightarrow> 'w nli \<Rightarrow>
     ('w nli \<times> (CasError + cascade_result)) option" where
  "cas_create_impl wr path new_hash context s =
     (if validate_absolute_path path \<noteq> Inr () then Some (s, Inl (Mismatch hash_zero))
      else if depth_exceeded s then Some (s, Inl (Mismatch hash_zero))
      else case mli_compare_and_create path new_hash (inner s) of
             (Inl e, _) \<Rightarrow> Some (s, Inl e)
           | (Inr _, ix) \<Rightarrow>
               map_option (\<lambda>(s'', r). (s'', Inr r))
                 (dispatch_event wr path new_hash None (Some new_hash) Created context (s\<lparr>inner := ix\<rparr>)))"

definition remove_impl ::
    "'w runner \<Rightarrow> string \<Rightarrow> exec_context option \<Rightarrow> 'w nli \<Rightarrow> ('w nli \<times> hash option \<times> cascade_result) option" where
  "remove_impl wr path context s =
     (if validate_absolute_path path \<noteq> Inr ()
      then Some (s, None, cascade_rejected (system_halt 400 ''invalid path'') 0)
      else if depth_exceeded s
      then Some (s, None, cascade_rejected (system_halt 500 ''cascade_depth_exceeded'') (depth s))
      else case mli_remove path (inner s) of
             (Some prev, ix) \<Rightarrow>
               map_option (\<lambda>(s'', r). (s'', Some prev, r))
                 (dispatch_event wr path prev (Some prev) None Deleted context (s\<lparr>inner := ix\<rparr>))
           | (None, ix) \<Rightarrow> Some (s\<lparr>inner := ix\<rparr>, None, empty_success))"

definition exec_op :: "'w runner \<Rightarrow> 'w runner" where
  "exec_op wr operation s =
     (case operation of
        OpSet path h ctx \<Rightarrow> map_option (\<lambda>(s', r). (s', ResSet r)) (set_impl wr path h ctx s)
      | OpRemove path ctx \<Rightarrow> map_option (\<lambda>(s', h, r). (s', ResRemove h r)) (remove_impl wr path ctx s)
      | OpSwap path e n ctx \<Rightarrow> map_option (\<lambda>(s', r). (s', ResSwap r)) (cas_swap_impl wr path e n ctx s)
      | OpCasRemove path e ctx \<Rightarrow> map_option (\<lambda>(s', r). (s', ResCasRemove r)) (cas_remove_impl wr path e ctx s)
      | OpCreate path n ctx \<Rightarrow> map_option (\<lambda>(s', r). (s', ResSwap r)) (cas_create_impl wr path n ctx s))"

text \<open>The operations as they call each other through the hooks; \<open>None\<close> only when the fuel ends.\<close>

primrec emit :: "nat \<Rightarrow> 'w runner" where
  "emit 0 operation s = None"
| "emit (Suc fuel) operation s = exec_op (emit fuel) operation s"

section \<open>Notifying content store\<close>

record content_event =
  ce_hash :: hash
  ce_entity :: entity
  ce_is_new :: bool

text \<open>A content hook is a function of the event on the private state, with an optional halt.\<close>

record 'w ncs =
  ncs_inner :: content_store
  ncs_hooks :: "(content_event \<Rightarrow> 'w \<Rightarrow> 'w \<times> cascade_halt option) list"
  ncs_broadcasts :: "content_event list"
  ncs_world :: 'w

fun run_content_hooks ::
    "(content_event \<Rightarrow> 'w \<Rightarrow> 'w \<times> cascade_halt option) list \<Rightarrow> content_event \<Rightarrow> 'w \<Rightarrow> 'w \<times> cascade_halt option" where
  "run_content_hooks [] event w = (w, None)"
| "run_content_hooks (hk # hks) event w =
     (case hk event w of
        (w', Some halt) \<Rightarrow> (w', Some halt)
      | (w', None) \<Rightarrow> run_content_hooks hks event w')"

definition ncs_put :: "entity \<Rightarrow> 'w ncs \<Rightarrow> (StoreError + hash) \<times> 'w ncs" where
  "ncs_put e s =
     (let h = content_hash e
      in if mcs_has h (ncs_inner s) then (Inr h, s)
         else case mcs_put e (ncs_inner s) of
                (Inl err, cs) \<Rightarrow> (Inl err, s\<lparr>ncs_inner := cs\<rparr>)
              | (Inr result, cs) \<Rightarrow>
                  let event = \<lparr>ce_hash = h, ce_entity = e, ce_is_new = True\<rparr>
                  in case run_content_hooks (ncs_hooks s) event (ncs_world s) of
                       (w, Some halt) \<Rightarrow> (Inr result, s\<lparr>ncs_inner := cs, ncs_world := w\<rparr>)
                     | (w, None) \<Rightarrow>
                         (Inr result, s\<lparr>ncs_inner := cs, ncs_world := w,
                                        ncs_broadcasts := ncs_broadcasts s @ [event]\<rparr>))"

section \<open>Invariants of the pathway\<close>

text \<open>What every operation keeps: the hooks and the nesting depth; and an invariant of the inner
  index that its own operations keep.\<close>

definition index_ok :: "loc_index \<Rightarrow> bool" where
  "index_ok ix \<longleftrightarrow> bt_wf ix \<and> (\<forall>p \<in> fst ` set ix. validate_absolute_path p = Inr ())"

definition chains_ok :: "(string \<rightharpoonup> u32) \<Rightarrow> bool" where
  "chains_ok cd \<longleftrightarrow> (\<forall>c a. cd c = Some a \<longrightarrow> a \<le> CASCADE_DEPTH_LIMIT)"

definition nli_ok :: "'w nli \<Rightarrow> bool" where
  "nli_ok s \<longleftrightarrow> index_ok (inner s) \<and> chains_ok (chain_depths s)"

definition frame :: "'w nli \<Rightarrow> 'w nli \<Rightarrow> bool" where
  "frame s s' \<longleftrightarrow> hooks s' = hooks s \<and> depth s' = depth s \<and> prefix (broadcasts s) (broadcasts s') \<and>
     (nli_ok s \<longrightarrow> nli_ok s')"

definition runner_frame :: "'w runner \<Rightarrow> bool" where
  "runner_frame wr \<longleftrightarrow> (\<forall>operation s s' r. wr operation s = Some (s', r) \<longrightarrow> frame s s')"

lemma frame_refl [simp]: "frame s s"
  by (simp add: frame_def)

lemma frame_trans: "frame s s' \<Longrightarrow> frame s' s'' \<Longrightarrow> frame s s''"
  by (auto simp: frame_def intro: prefix_order.trans)

lemma frame_world [simp]: "frame s (s\<lparr>world := w\<rparr>)"
  by (simp add: frame_def nli_ok_def)

lemma run_hook_frame:
  assumes "runner_frame wr"
  shows "run_hook wr p s = Some (s', c, h) \<Longrightarrow> frame s s'"
proof (induction p arbitrary: s)
  case (HOp operation k)
  then obtain s1 r where "wr operation s = Some (s1, r)" "run_hook wr (k r) s1 = Some (s', c, h)"
    by (auto split: option.splits)
  then show ?case using HOp.IH assms frame_trans unfolding runner_frame_def by blast
next
  case (HWrite w p)
  then show ?case using frame_trans frame_world by fastforce
qed auto

lemma run_hooks_frame:
  assumes "runner_frame wr"
  shows "run_hooks wr event hks ds ctx s = Some (s', c, r) \<Longrightarrow> frame s s'"
proof (induction hks arbitrary: ds ctx s)
  case (Cons hk hks)
  then show ?case
    using run_hook_frame [OF assms] frame_trans
    by (auto simp: Let_def split: option.splits) blast+
qed simp

lemma chain_check_ok: "chains_ok cd \<Longrightarrow> chains_ok (fst (chain_check ctx cd))"
  by (auto simp: chain_check_def chains_ok_def Let_def not_less split: option.splits)

lemma run_phases_frame:
  assumes wr: "runner_frame wr" and r: "run_phases wr event ctx s = Some (s', r)"
  shows "frame s (s'\<lparr>depth := depth s' + 1\<rparr>)"
proof -
  obtain s1 ctx1 res where rh: "run_hooks wr event (hooks s) [] ctx s = Some (s1, ctx1, res)"
    using r by (cases "run_hooks wr event (hooks s) [] ctx s") (auto simp: run_phases_def)
  then have "\<exists>b. s' = s1\<lparr>broadcasts := broadcasts s1 @ b, depth := depth s1 - 1\<rparr>"
    using r by (cases res) (auto simp: run_phases_def intro: exI [of _ "[]"])
  then show ?thesis using run_hooks_frame [OF wr rh] by (auto simp: frame_def nli_ok_def prefix_def)
qed

lemma dispatch_frame:
  assumes wr: "runner_frame wr" and d: "dispatch_event wr path h prev new ch cx s = Some (s', r)"
  shows "frame s s'"
proof -
  let ?ctx = "(case cx of Some c \<Rightarrow> c | None \<Rightarrow> ctx_default)\<lparr>ctx_cascade_depth := depth s + 1\<rparr>"
  obtain cd ok where cc: "chain_check ?ctx (chain_depths s) = (cd, ok)" by (cases "chain_check ?ctx (chain_depths s)")
  have cd: "chains_ok (chain_depths s) \<Longrightarrow> chains_ok cd" using chain_check_ok cc by (metis fst_conv)
  show ?thesis
  proof (cases ok)
    case False
    then show ?thesis using d cc cd by (auto simp: dispatch_event_def Let_def frame_def nli_ok_def)
  next
    case True
    then obtain event where "run_phases wr event ?ctx (s\<lparr>depth := depth s + 1, chain_depths := cd\<rparr>) = Some (s', r)"
      using d cc by (auto simp: dispatch_event_def Let_def)
    from run_phases_frame [OF wr this] show ?thesis using cd by (auto simp: frame_def nli_ok_def)
  qed
qed

lemma frame_inner: "(index_ok (inner s) \<Longrightarrow> index_ok ix) \<Longrightarrow> frame s (s\<lparr>inner := ix\<rparr>)"
  by (simp add: frame_def nli_ok_def)

lemma index_ok_insert: "validate_absolute_path p = Inr () \<Longrightarrow> index_ok ix \<Longrightarrow> index_ok (bt_insert p h ix)"
  by (auto simp: index_ok_def keys_bt_insert)

lemma index_ok_remove: "index_ok ix \<Longrightarrow> index_ok (bt_remove p ix)"
  using set_bt_remove_subset [of p ix] by (fastforce simp: index_ok_def)

lemmas index_ok_intros = index_ok_insert index_ok_remove

lemma dispatch_inner_frame:
  assumes "runner_frame wr" "dispatch_event wr path h prev new ch cx (s\<lparr>inner := ix\<rparr>) = Some (s', r)"
    "index_ok (inner s) \<Longrightarrow> index_ok ix"
  shows "frame s s'"
  using frame_trans [OF frame_inner [of s ix] dispatch_frame [OF assms(1,2)]] assms(3) by blast

lemma set_impl_frame:
  assumes "runner_frame wr" "set_impl wr p h ctx s = Some (s', r)"
  shows "frame s s'"
proof -
  have ok: "validate_absolute_path p = Inr () \<Longrightarrow> index_ok (inner s) \<Longrightarrow> index_ok (mli_set p h (inner s))"
    by (simp add: mli_set_def index_ok_insert)
  then have "validate_absolute_path p = Inr () \<Longrightarrow> frame s (s\<lparr>inner := mli_set p h (inner s)\<rparr>)"
    by (rule frame_inner)
  then show ?thesis
    using assms(2) ok dispatch_inner_frame [OF assms(1)]
    by (auto simp: set_impl_def Let_def split: if_splits option.splits)
qed

lemma exec_op_frame:
  assumes wr: "runner_frame wr"
  shows "runner_frame (exec_op wr)"
  unfolding runner_frame_def
proof (intro allI impI)
  fix operation s s' r
  assume e: "exec_op wr operation s = Some (s', r)"
  note D = dispatch_inner_frame [OF wr]
  show "frame s s'"
  proof (cases operation)
    case (OpSet path h ctx)
    then show ?thesis using e set_impl_frame [OF wr] by (auto simp: exec_op_def)
  next
    case (OpRemove path ctx)
    then show ?thesis
      using e D by (auto simp: exec_op_def remove_impl_def mli_remove_def frame_inner index_ok_intros
          split: if_splits option.splits)
  next
    case (OpSwap path x n ctx)
    then show ?thesis
      using e D by (auto simp: exec_op_def cas_swap_impl_def mli_compare_and_swap_def frame_inner index_ok_intros
          Let_def split: if_splits option.splits)
  next
    case (OpCasRemove path x ctx)
    then show ?thesis
      using e D by (auto simp: exec_op_def cas_remove_impl_def mli_compare_and_remove_def index_ok_intros
          split: if_splits option.splits)
  next
    case (OpCreate path n ctx)
    then show ?thesis
      using e D by (auto simp: exec_op_def cas_create_impl_def mli_compare_and_create_def index_ok_intros
          split: if_splits option.splits)
  qed
qed

lemma emit_frame: "runner_frame (emit n)"
proof (induction n)
  case (Suc n)
  then show ?case using exec_op_frame unfolding runner_frame_def emit.simps by blast
qed (simp add: runner_frame_def)

section \<open>Fuel\<close>

definition runner_total :: "'w runner \<Rightarrow> u32 \<Rightarrow> bool" where
  "runner_total wr d \<longleftrightarrow> (\<forall>operation s. depth s = d \<longrightarrow> wr operation s \<noteq> None)"

lemma run_hook_total:
  assumes "runner_frame wr" "runner_total wr d"
  shows "depth s = d \<Longrightarrow> run_hook wr p s \<noteq> None"
proof (induction p arbitrary: s)
  case (HOp operation k)
  then obtain s1 r where r: "wr operation s = Some (s1, r)" using assms(2) by (force simp: runner_total_def)
  then have "depth s1 = d" using assms(1) HOp.prems unfolding runner_frame_def frame_def by metis
  then show ?case using HOp.IH r by simp
qed simp_all

lemma run_hooks_total:
  assumes "runner_frame wr" "runner_total wr d"
  shows "depth s = d \<Longrightarrow> run_hooks wr event hks ds ctx s \<noteq> None"
proof (induction hks arbitrary: ds ctx s)
  case (Cons hk hks)
  let ?ctx = "ctx\<lparr>ctx_capability := None, ctx_handler_grant := None,
                  ctx_handler_pattern := Some (hk_pattern hk), ctx_operation := Some (hk_name hk)\<rparr>"
  obtain s1 c halt where r: "run_hook wr (hk_run hk event ?ctx) s = Some (s1, c, halt)"
    using run_hook_total [OF assms Cons.prems] by (metis option.exhaust prod_cases3)
  then have "depth s1 = d" using run_hook_frame [OF assms(1)] Cons.prems unfolding frame_def by metis
  then show ?case using Cons.IH r by (auto simp: Let_def split: option.splits)
qed simp

lemma dispatch_total:
  assumes "runner_frame wr" "runner_total wr (depth s + 1)"
  shows "dispatch_event wr path h prev new ch cx s \<noteq> None"
proof -
  have "run_phases wr event ctx s1 \<noteq> None" if "depth s1 = depth s + 1" for event ctx s1
    using run_hooks_total [OF assms that, of event "hooks s1" "[]" ctx]
    by (auto simp: run_phases_def split: sum.splits)
  then show ?thesis by (simp add: dispatch_event_def Let_def split: prod.splits)
qed

lemma exec_op_total:
  assumes "runner_frame wr" "\<not> depth_exceeded s \<Longrightarrow> runner_total wr (depth s + 1)"
  shows "exec_op wr operation s \<noteq> None"
proof (cases "depth_exceeded s")
  case True
  then show ?thesis
    by (cases operation) (auto simp: exec_op_def set_impl_def remove_impl_def cas_swap_impl_def cas_remove_impl_def
        cas_create_impl_def)
next
  case False
  have "dispatch_event wr path h prev new ch cx (s\<lparr>inner := ix\<rparr>) \<noteq> None" for path h prev new ch cx ix
    using dispatch_total [OF assms(1)] assms(2) [OF False] by simp
  then show ?thesis
    by (cases operation) (auto simp: exec_op_def set_impl_def remove_impl_def cas_swap_impl_def cas_remove_impl_def
        cas_create_impl_def Let_def split: option.splits prod.splits sum.splits)
qed

lemma emit_total:
  fixes s :: "'w nli"
  shows "33 \<le> n + unat (depth s) \<Longrightarrow> 0 < n \<Longrightarrow> emit n operation s \<noteq> None"
proof (induction n arbitrary: operation s)
  case (Suc n)
  have "runner_total (emit n :: 'w runner) (depth s + 1)" if nd: "\<not> depth_exceeded s"
    unfolding runner_total_def
  proof (intro allI impI)
    fix op2 and s2 :: "'w nli"
    assume d: "depth s2 = depth s + 1"
    have lt: "unat (depth s) < 32"
      using nd by (simp add: depth_exceeded_def CASCADE_DEPTH_LIMIT_def word_le_nat_alt not_le)
    then have "unat (depth s + 1) = unat (depth s) + 1" by (simp add: unat_word_ariths)
    then show "emit n op2 s2 \<noteq> None" using Suc.IH [of s2 op2] Suc.prems d lt by simp
  qed
  then have "exec_op (emit n) operation s \<noteq> None" by (rule exec_op_total [OF emit_frame])
  then show ?case unfolding emit.simps .
qed simp

section \<open>Hook order\<close>

text \<open>How a run of the hooks ends: all completed, or one halted with the hooks before it completed and
  those after it skipped.\<close>

lemma run_hooks_result:
  "run_hooks wr event hks ds ctx s = Some (s', c, res) \<Longrightarrow>
   (case res of
      Inr names \<Rightarrow> names = ds @ map hk_name hks
    | Inl r \<Rightarrow> binding_committed r \<and> length (consumers_halted r) + length (consumers_errored r) = 1 \<and>
        (\<exists>name. ds @ map hk_name hks = consumers_completed r @ name # consumers_skipped r))"
proof (induction hks arbitrary: ds ctx s)
  case (Cons hk hks)
  let ?ctx = "ctx\<lparr>ctx_capability := None, ctx_handler_grant := None,
                  ctx_handler_pattern := Some (hk_pattern hk), ctx_operation := Some (hk_name hk)\<rparr>"
  obtain s1 c1 halt where h: "run_hook wr (hk_run hk event ?ctx) s = Some (s1, c1, halt)"
    using Cons.prems by (auto simp: Let_def split: option.splits)
  show ?case
  proof (cases halt)
    case None
    then show ?thesis
      using Cons.IH [of "ds @ [hk_name hk]"] Cons.prems h by (auto simp: Let_def split: sum.splits)
  next
    case (Some hl)
    then show ?thesis using Cons.prems h by (auto simp: Let_def)
  qed
qed auto

text \<open>A write with no hooks and no chain: the state before and after.\<close>

definition plain :: "exec_context option \<Rightarrow> bool" where
  "plain cx \<longleftrightarrow> (case cx of None \<Rightarrow> True | Some c \<Rightarrow> ctx_chain_id c = None)"

lemma dispatch_no_hooks:
  assumes "hooks s = []" "plain cx"
  shows "\<exists>c. dispatch_event wr path h prev new ch cx s =
     Some (s\<lparr>broadcasts := broadcasts s @ [\<lparr>ev_path = path, ev_hash = h, ev_previous = prev, ev_new = new,
              ev_change = ch, ev_context = Some c\<rparr>]\<rparr>, cascade_success [] (depth s + 1))"
proof -
  let ?c = "(case cx of Some c \<Rightarrow> c | None \<Rightarrow> ctx_default)\<lparr>ctx_cascade_depth := depth s + 1\<rparr>"
  have "ctx_chain_id (case cx of Some c \<Rightarrow> c | None \<Rightarrow> ctx_default) = None"
    using assms(2) by (auto simp: plain_def ctx_default_def split: option.splits)
  then have "chain_check ?c (chain_depths s) = (chain_depths s, True)" by (simp add: chain_check_def)
  then show ?thesis
    using assms(1) by (intro exI [of _ ?c]) (simp add: dispatch_event_def run_phases_def)
qed

section \<open>Properties\<close>

text \<open>C30. The emit pathway always returns: whatever the registered hooks do, writes of their own on
  the same index included, 33 units of fuel are enough at any nesting depth, the nesting depth
  and the hooks are as before, and the invariant of the index is kept: ordered keys, valid
  absolute paths only, and chain accumulators within the limit.\<close>

theorem emit_returns:
  "\<exists>s' r. emit 33 operation s = Some (s', r) \<and> depth s' = depth s \<and> hooks s' = hooks s \<and>
     prefix (broadcasts s) (broadcasts s') \<and> (nli_ok s \<longrightarrow> nli_ok s')"
proof -
  obtain s' r where e: "emit 33 operation s = Some (s', r)"
    using emit_total [of 33 s operation] by (metis le_add1 option.exhaust surj_pair zero_less_numeral)
  moreover have "frame s s'" using emit_frame e unfolding runner_frame_def by blast
  ultimately show ?thesis unfolding frame_def by blast
qed

theorem emit_returns_witness:
  "\<exists>s' r. emit 33 (OpSet ''x'' hash_zero None) (nli_new ()) = Some (s', r) \<and> nli_ok s'"
proof -
  have "nli_ok (nli_new ())" by (simp add: nli_ok_def nli_new_def index_ok_def chains_ok_def mli_new_def)
  then show ?thesis using emit_returns by blast
qed

text \<open>A halt stops the cascade: in the result of dispatching an event the registered hooks are,
  in order, the completed ones, the one that halted, and the skipped ones; the broadcast is
  reached only when no hook halted, and a write that a hook halts is nevertheless committed.\<close>

theorem run_phases_halt:
  assumes "run_phases wr event ctx s = Some (s', r)"
  shows "binding_committed r \<and>
     (if is_complete r then consumers_completed r = map hk_name (hooks s) \<and> consumers_skipped r = [] \<and>
        (\<exists>c. last (broadcasts s') = event\<lparr>ev_context := c\<rparr>)
      else \<exists>name. map hk_name (hooks s) = consumers_completed r @ name # consumers_skipped r)"
proof -
  obtain s1 ctx1 res where rh: "run_hooks wr event (hooks s) [] ctx s = Some (s1, ctx1, res)"
    using assms by (cases "run_hooks wr event (hooks s) [] ctx s") (auto simp: run_phases_def)
  from run_hooks_result [OF rh] rh assms show ?thesis
    by (cases res) (auto simp: run_phases_def is_complete_def cascade_success_def)
qed

theorem run_phases_halt_witness:
  "binding_committed (snd (the (run_phases (emit 33)
     \<lparr>ev_path = ''/x'', ev_hash = hash_zero, ev_previous = None, ev_new = None, ev_change = Created, ev_context = None\<rparr>
     ctx_default (nli_new ()))))"
proof -
  let ?ev = "\<lparr>ev_path = ''/x'', ev_hash = hash_zero, ev_previous = None, ev_new = None, ev_change = Created, ev_context = None\<rparr>"
  obtain s' r where "run_phases (emit 33) ?ev ctx_default (nli_new ()) = Some (s', r)"
    by (simp add: run_phases_def nli_new_def)
  with run_phases_halt [OF this] show ?thesis by simp
qed

text \<open>The event that names a write: a creation, a modification, or nothing when the hash was there already.\<close>

definition change_events :: "string \<Rightarrow> hash \<Rightarrow> hash option \<Rightarrow> exec_context \<Rightarrow> tree_event list" where
  "change_events p h previous c =
     (case previous of
        None \<Rightarrow> [\<lparr>ev_path = p, ev_hash = h, ev_previous = None, ev_new = Some h, ev_change = Created, ev_context = Some c\<rparr>]
      | Some old \<Rightarrow>
          if old = h then []
          else [\<lparr>ev_path = p, ev_hash = h, ev_previous = Some old, ev_new = Some h, ev_change = Modified, ev_context = Some c\<rparr>])"

lemma set_impl_plain:
  assumes "hooks s = []" "plain cx" "\<not> depth_exceeded s" "validate_absolute_path p = Inr ()"
  shows "\<exists>s' r c. set_impl wr p h cx s = Some (s', r) \<and> is_complete r \<and> inner s' = mli_set p h (inner s) \<and>
     broadcasts s' = broadcasts s @ change_events p h (mli_get p (inner s)) c"
proof -
  let ?s = "s\<lparr>inner := mli_set p h (inner s)\<rparr>"
  have d: "\<exists>c. dispatch_event wr p h prev (Some h) ch cx ?s =
     Some (?s\<lparr>broadcasts := broadcasts s @ [\<lparr>ev_path = p, ev_hash = h, ev_previous = prev, ev_new = Some h,
              ev_change = ch, ev_context = Some c\<rparr>]\<rparr>, cascade_success [] (depth s + 1))" for prev ch
    using dispatch_no_hooks [of ?s cx wr p h prev "Some h" ch] assms(1,2) by simp
  show ?thesis
  proof (cases "mli_get p (inner s)")
    case None
    then show ?thesis using d [of None Created] assms(3,4)
      by (auto simp: set_impl_def is_complete_def cascade_success_def change_events_def)
  next
    case (Some old)
    then show ?thesis using d [of "Some old" Modified] assms(3,4)
      by (cases "old = h") (auto simp: set_impl_def is_complete_def cascade_success_def empty_success_def change_events_def)
  qed
qed

text \<open>C31. Without hooks, outside a chain and below the depth limit, a write through the pathway is a map update with an event: at a valid absolute
  path that the inner index stores, the write is committed, afterwards exactly that path is bound to the hash and every other path is as before, and
  one event of the right kind is broadcast, none when the path had this hash already; at a path that is not a valid absolute one the write
  is refused and nothing changes.\<close>

theorem set_plain:
  assumes "hooks s = []" "plain cx" "\<not> depth_exceeded s" "bt_wf (inner s)"
  shows "(validate_absolute_path p \<noteq> Inr () \<longrightarrow>
      (\<exists>r. set_impl wr p h cx s = Some (s, r) \<and> \<not> binding_committed r)) \<and>
    (validate_absolute_path p = Inr () \<and> path_is_storable p \<longrightarrow>
      (\<exists>s' r c. set_impl wr p h cx s = Some (s', r) \<and> is_complete r \<and>
         (\<forall>q. mli_get q (inner s') = (if q = p then Some h else mli_get q (inner s))) \<and>
         broadcasts s' = broadcasts s @ change_events p h (mli_get p (inner s)) c))"
proof (intro conjI impI)
  assume "validate_absolute_path p \<noteq> Inr ()"
  then show "\<exists>r. set_impl wr p h cx s = Some (s, r) \<and> \<not> binding_committed r" by (simp add: set_impl_def cascade_rejected_def)
next
  assume p: "validate_absolute_path p = Inr () \<and> path_is_storable p"
  then obtain s' r c where s': "set_impl wr p h cx s = Some (s', r)" "is_complete r" "inner s' = mli_set p h (inner s)"
    "broadcasts s' = broadcasts s @ change_events p h (mli_get p (inner s)) c"
    using set_impl_plain [OF assms(1-3), of p wr h] by blast
  have "\<forall>q. mli_get q (inner s') = (if q = p then Some h else mli_get q (inner s))"
    using s'(3) p by (simp add: mli.get_set [OF assms(4)])
  then show "\<exists>s' r c. set_impl wr p h cx s = Some (s', r) \<and> is_complete r \<and>
         (\<forall>q. mli_get q (inner s') = (if q = p then Some h else mli_get q (inner s))) \<and>
         broadcasts s' = broadcasts s @ change_events p h (mli_get p (inner s)) c"
    using s' by blast
qed

lemma plain_start: "hooks (nli_new ()) = []" "plain None" "\<not> depth_exceeded (nli_new ())" "bt_wf (inner (nli_new ()))"
  "mli_get p (inner (nli_new ())) = None" "broadcasts (nli_new ()) = []"
  by (simp_all add: nli_new_def mli_new_def plain_def depth_exceeded_def CASCADE_DEPTH_LIMIT_def mli_get_def)

theorem set_plain_witness:
  "let P = ''/'' @ replicate 46 CHR ''A'' @ ''/x'' in
   (\<exists>s' r c. set_impl (emit 33) P hash_zero None (nli_new ()) = Some (s', r) \<and> is_complete r \<and> mli_get P (inner s') = Some hash_zero \<and>
     broadcasts s' = change_events P hash_zero None c) \<and>
   (\<exists>r. set_impl (emit 33) ''x'' hash_zero None (nli_new ()) = Some (nli_new (), r) \<and> \<not> binding_committed r)"
proof -
  let ?P = "''/'' @ replicate 46 CHR ''A'' @ ''/x''"
  note w = set_plain [OF plain_start(1-4), where wr = "emit 33" and h = hash_zero]
  have p: "validate_absolute_path ?P = Inr () \<and> path_is_storable ?P" "validate_absolute_path ''x'' \<noteq> Inr ()" by code_simp+
  obtain s' r c where s': "set_impl (emit 33) ?P hash_zero None (nli_new ()) = Some (s', r)" "is_complete r"
    "\<forall>q. mli_get q (inner s') = (if q = ?P then Some hash_zero else mli_get q (inner (nli_new ())))"
    "broadcasts s' = broadcasts (nli_new ()) @ change_events ?P hash_zero (mli_get ?P (inner (nli_new ()))) c"
    using conjunct2 [OF w, THEN mp, OF p(1)] by blast
  have "mli_get ?P (inner s') = Some hash_zero" using s'(3) by metis
  moreover have "broadcasts s' = change_events ?P hash_zero None c" using s'(4) unfolding plain_start append_Nil .
  ultimately show ?thesis unfolding Let_def using s'(1,2) conjunct1 [OF w, THEN mp, OF p(2)] by blast
qed

text \<open>At a valid absolute path that the inner index refuses to store, such as one with a segment \<^verbatim>\<open>..\<close>, the write is dropped, and nevertheless
  reported as committed and broadcast as the creation of a binding.\<close>

theorem dropped_write_committed:
  "let P = ''/'' @ replicate 46 CHR ''A'' @ ''/../x'' in
   \<exists>s' r c. set_impl (emit 33) P hash_zero None (nli_new ()) = Some (s', r) \<and> is_complete r \<and> inner s' = [] \<and>
     broadcasts s' = change_events P hash_zero None c"
proof -
  let ?P = "''/'' @ replicate 46 CHR ''A'' @ ''/../x''"
  have p: "validate_absolute_path ?P = Inr ()" "\<not> path_is_storable ?P" by code_simp+
  have e: "mli_set ?P hash_zero (inner (nli_new ())) = []" using p(2) by (simp add: mli_set_def nli_new_def mli_new_def)
  show ?thesis unfolding Let_def
    using set_impl_plain [OF plain_start(1-3) p(1), where wr = "emit 33" and h = hash_zero] unfolding e plain_start append_Nil .
qed

text \<open>The accumulated chain depth is charged after the inner write: once a chain has used up the
  limit, a further write of that chain is reported as not committed although the binding has
  been written.\<close>

theorem chain_rejection_commits:
  assumes "validate_absolute_path p = Inr ()" "path_is_storable p" "index_ok (inner s)"
    "depth s = 0" "mli_get p (inner s) = None" "chain_depths s c = Some CASCADE_DEPTH_LIMIT"
  shows "\<exists>s' r. set_impl wr p h (Some (ctx_default\<lparr>ctx_chain_id := Some c\<rparr>)) s = Some (s', r) \<and>
     \<not> binding_committed r \<and> mli_get p (inner s') = Some h"
proof -
  have wf: "bt_wf (inner s)" using assms(3) by (simp add: index_ok_def)
  have "\<not> depth_exceeded s" using assms(4) by (simp add: depth_exceeded_def CASCADE_DEPTH_LIMIT_def)
  then show ?thesis
    using assms mli.set_then_get [OF wf assms(2)]
    by (simp add: set_impl_def dispatch_event_def chain_check_def CASCADE_DEPTH_LIMIT_def cascade_rejected_def)
qed

theorem chain_rejection_commits_witness:
  "let P = ''/'' @ replicate 46 CHR ''A'' @ ''/x'' in
   \<exists>s' r. set_impl (emit 33) P hash_zero (Some (ctx_default\<lparr>ctx_chain_id := Some ''c''\<rparr>))
      ((nli_new ())\<lparr>chain_depths := [''c'' \<mapsto> CASCADE_DEPTH_LIMIT]\<rparr>) = Some (s', r) \<and>
      \<not> binding_committed r \<and> mli_get P (inner s') = Some hash_zero"
  unfolding Let_def
proof (rule chain_rejection_commits)
  show "validate_absolute_path (''/'' @ replicate 46 CHR ''A'' @ ''/x'') = Inr ()" by code_simp
  show "path_is_storable (''/'' @ replicate 46 CHR ''A'' @ ''/x'')" by code_simp
qed (simp_all add: nli_new_def mli_new_def mli_get_def index_ok_def)

text \<open>The notifying content store is the content store with events: storing an entity whose hash
  is present changes nothing; otherwise the entity is stored even when a hook halts, and the
  event is broadcast exactly when none does.\<close>

theorem ncs_put_correct:
  assumes "bt_wf (ncs_inner s)"
  shows "(case ncs_put e s of (res, s') \<Rightarrow>
     res = Inr (content_hash e) \<and>
     (if mcs_has (content_hash e) (ncs_inner s) then s' = s
      else ncs_inner s' = bt_insert (content_hash e) e (ncs_inner s) \<and> mcs_get (content_hash e) (ncs_inner s') = Some e \<and>
        ncs_broadcasts s' = ncs_broadcasts s @
          (if snd (run_content_hooks (ncs_hooks s) \<lparr>ce_hash = content_hash e, ce_entity = e, ce_is_new = True\<rparr> (ncs_world s)) = None
           then [\<lparr>ce_hash = content_hash e, ce_entity = e, ce_is_new = True\<rparr>] else [])))"
  using assms
  by (auto simp: ncs_put_def Let_def mcs_put_def mcs_get_def bt_simps split: prod.splits option.splits)

theorem ncs_put_correct_witness:
  "fst (ncs_put \<lparr>entity_type = ''t'', data = [0xa0], content_hash = hash_zero\<rparr>
     \<lparr>ncs_inner = [], ncs_hooks = [], ncs_broadcasts = [], ncs_world = ()\<rparr>) = Inr hash_zero"
  using ncs_put_correct [of "\<lparr>ncs_inner = [], ncs_hooks = [], ncs_broadcasts = [], ncs_world = ()\<rparr>"
      "\<lparr>entity_type = ''t'', data = [0xa0], content_hash = hash_zero\<rparr>"]
  by (simp split: prod.splits)

end
