(* ===== verification/Revision_Dag.thy ===== *)
theory Revision_Dag
  imports Store_Model
begin

text \<open>
  The revision graph (\<^verbatim>\<open>extensions/revision/src/dag.rs\<close>): revision entries in the content store point
  to their parents, and the traversals are breadth-first searches with a visited set.  They
  terminate because an entry is expanded once and the store is finite; the correctness lemmas
  relate them to reachability in the parent relation.  The decoder of the \<^verbatim>\<open>ciborium\<close> crate is the
  parameter \<open>dec\<close>.
\<close>

section \<open>Entries\<close>

definition TYPE_REVISION_ENTRY :: string where "TYPE_REVISION_ENTRY = ''system/revision/entry''"

record revision_entry =
  rev_root :: hash
  rev_parents :: "hash list"

fun decode_hash_array :: "Value list \<Rightarrow> hash list" where
  "decode_hash_array [] = []"
| "decode_hash_array (item # arr) =
     (case item of
        VBytes b \<Rightarrow> (case from_bytes b of Inr h \<Rightarrow> h # decode_hash_array arr | Inl _ \<Rightarrow> decode_hash_array arr)
      | _ \<Rightarrow> decode_hash_array arr)"

text \<open>The field loop; a key that is not text makes the whole entry undecodable.\<close>

fun rev_fields ::
    "(Value \<times> Value) list \<Rightarrow> hash option \<Rightarrow> hash list option \<Rightarrow> (hash option \<times> hash list option) option" where
  "rev_fields [] r ps = Some (r, ps)"
| "rev_fields ((k, v) # rest) r ps =
     (case as_str k of
        None \<Rightarrow> None
      | Some key \<Rightarrow>
          if key = ''root''
          then (case v of
                  VBytes b \<Rightarrow> rev_fields rest (case from_bytes b of Inr h \<Rightarrow> Some h | Inl _ \<Rightarrow> None) ps
                | _ \<Rightarrow> rev_fields rest r ps)
          else if key = ''parents''
          then (case v of
                  VArray arr \<Rightarrow> rev_fields rest r (Some (decode_hash_array arr))
                | _ \<Rightarrow> rev_fields rest r ps)
          else rev_fields rest r ps)"

definition decode_revision_entry :: "(bytes \<Rightarrow> Value option) \<Rightarrow> entity \<Rightarrow> revision_entry option" where
  "decode_revision_entry dec e =
     (case dec (data e) of None \<Rightarrow> None
      | Some v \<Rightarrow> (case as_map v of None \<Rightarrow> None
          | Some m \<Rightarrow> (case rev_fields m None None of
              Some (Some r, Some ps) \<Rightarrow> Some \<lparr>rev_root = r, rev_parents = ps\<rparr>
            | _ \<Rightarrow> None)))"

text \<open>The order of the field sort: by length, then by bytes, of a text key; stable.\<close>

definition field_key :: "Value \<times> Value \<Rightarrow> nat \<times> string" where
  "field_key e = (let s = (case fst e of VText s \<Rightarrow> s | _ \<Rightarrow> []) in (length s, s))"

definition revision_value :: "revision_entry \<Rightarrow> Value" where
  "revision_value d =
     VMap (sort_key field_key
       [(text_val ''parents'', VArray (map (\<lambda>h. VBytes (to_bytes h)) (rev_parents d))),
        (text_val ''root'', VBytes (to_bytes (rev_root d)))])"

definition build_revision_entry :: "digests \<Rightarrow> u8 \<Rightarrow> revision_entry \<Rightarrow> EntityError + entity" where
  "build_revision_entry D home d = entity_new D home TYPE_REVISION_ENTRY (to_ecf (revision_value d))"

definition sorted_parents :: "hash list \<Rightarrow> hash list" where
  "sorted_parents ps = sort ps"

definition entry_of :: "(bytes \<Rightarrow> Value option) \<Rightarrow> content_store \<Rightarrow> hash \<Rightarrow> revision_entry option" where
  "entry_of dec cs h = (case mcs_get h cs of None \<Rightarrow> None | Some e \<Rightarrow> decode_revision_entry dec e)"

definition parents_of :: "(bytes \<Rightarrow> Value option) \<Rightarrow> content_store \<Rightarrow> hash \<Rightarrow> hash list" where
  "parents_of dec cs h = (case entry_of dec cs h of None \<Rightarrow> [] | Some d \<Rightarrow> rev_parents d)"

section \<open>Traversals\<close>

definition unseen :: "content_store \<Rightarrow> hash list \<Rightarrow> nat" where
  "unseen cs visited = card (fst ` set cs - set visited)"

lemma unseen_le: "unseen cs (h # visited) \<le> unseen cs visited"
  unfolding unseen_def by (intro card_mono) auto

lemma unseen_less:
  assumes "h \<notin> set visited" "entry_of dec cs h \<noteq> None"
  shows "unseen cs (h # visited) < unseen cs visited"
proof -
  have "h \<in> fst ` set cs"
    using assms(2) by (auto simp: entry_of_def mcs_get_def split: option.splits dest!: map_of_SomeD) force
  then show ?thesis unfolding unseen_def using assms(1) by (intro psubset_card_mono) auto
qed

lemma parents_entry: "parents_of dec cs h \<noteq> [] \<Longrightarrow> entry_of dec cs h \<noteq> None"
  by (auto simp: parents_of_def split: option.splits)

lemma expand_measure:
  assumes "h \<notin> set visited"
  shows "unseen cs (h # visited) < unseen cs visited \<or>
     unseen cs (h # visited) = unseen cs visited \<and> parents_of dec cs h = []"
  using unseen_less [OF assms, of dec cs] unseen_le [of cs h visited] parents_entry by fastforce

function walk_loop ::
    "(bytes \<Rightarrow> Value option) \<Rightarrow> content_store \<Rightarrow> nat \<Rightarrow> hash option \<Rightarrow> hash list \<Rightarrow> hash list \<Rightarrow> hash list \<Rightarrow> hash list" where
  "walk_loop dec cs limit stop_at result visited [] = result"
| "walk_loop dec cs limit stop_at result visited (current # queue) =
     (if limit \<le> length result then result
      else if current \<in> set visited then walk_loop dec cs limit stop_at result visited queue
      else if stop_at = Some current then result
      else case entry_of dec cs current of
             None \<Rightarrow> walk_loop dec cs limit stop_at result (current # visited) queue
           | Some entry \<Rightarrow>
               walk_loop dec cs limit stop_at (result @ [current]) (current # visited)
                 (queue @ [p \<leftarrow> rev_parents entry. p \<notin> set (current # visited)]))"
  by pat_completeness auto
termination
proof (relation "measures [\<lambda>(dec, cs, limit, stop, result, visited, queue). unseen cs visited,
    \<lambda>(dec, cs, limit, stop, result, visited, queue). length queue]", goal_cases)
  case (3 dec cs limit stop_at result visited current queue)
  then show ?case using unseen_le [of cs current visited] by auto
next
  case (4 dec cs limit stop_at result visited current queue entry)
  then show ?case using unseen_less [of current visited dec cs] by auto
qed auto

definition walk_history ::
    "(bytes \<Rightarrow> Value option) \<Rightarrow> content_store \<Rightarrow> hash \<Rightarrow> nat \<Rightarrow> hash option \<Rightarrow> hash list" where
  "walk_history dec cs head limit stop_at = walk_loop dec cs limit stop_at [] [] [head]"

function is_ancestor_loop ::
    "(bytes \<Rightarrow> Value option) \<Rightarrow> content_store \<Rightarrow> hash \<Rightarrow> hash list \<Rightarrow> hash list \<Rightarrow> bool" where
  "is_ancestor_loop dec cs anc visited [] = False"
| "is_ancestor_loop dec cs anc visited (current # queue) =
     (if current = anc then True
      else if current \<in> set visited then is_ancestor_loop dec cs anc visited queue
      else is_ancestor_loop dec cs anc (current # visited) (queue @ parents_of dec cs current))"
  by pat_completeness auto
termination
proof (relation "measures [\<lambda>(dec, cs, anc, visited, queue). unseen cs visited,
    \<lambda>(dec, cs, anc, visited, queue). length queue]", goal_cases)
  case (3 dec cs anc visited current queue)
  then show ?case using expand_measure [of current visited cs dec] by auto
qed auto

definition is_ancestor :: "(bytes \<Rightarrow> Value option) \<Rightarrow> content_store \<Rightarrow> hash \<Rightarrow> hash \<Rightarrow> bool" where
  "is_ancestor dec cs potential_ancestor descendant =
     is_ancestor_loop dec cs potential_ancestor [] [descendant]"

text \<open>One expansion of the alternating search: pop a node, stop if the other side has seen it, else
  record it with its depth and queue its parents, unless it is recorded already.\<close>

datatype expansion = Found hash | Continue "(hash \<times> nat) list" "(hash \<times> nat) list"

definition expand ::
    "(bytes \<Rightarrow> Value option) \<Rightarrow> content_store \<Rightarrow> (hash \<times> nat) list \<Rightarrow> (hash \<times> nat) list \<Rightarrow> (hash \<times> nat) list \<Rightarrow> expansion" where
  "expand dec cs own other queue =
     (case queue of
        [] \<Rightarrow> Continue own []
      | (current, d) # rest \<Rightarrow>
          if map_of other current \<noteq> None then Found current
          else if map_of own current \<noteq> None then Continue own rest
          else Continue ((current, d) # own) (rest @ map (\<lambda>p. (p, d + 1)) (parents_of dec cs current)))"

lemma expand_unseen_le:
  "expand dec cs own other queue = Continue own' queue' \<Longrightarrow>
     unseen cs (map fst own') \<le> unseen cs (map fst own)"
  using unseen_le by (auto simp: expand_def split: list.splits if_splits)

lemma expand_decreases:
  assumes "expand dec cs own other queue = Continue own' queue'" "queue \<noteq> []"
  shows "unseen cs (map fst own') < unseen cs (map fst own) \<or>
     unseen cs (map fst own') = unseen cs (map fst own) \<and> length queue' < length queue"
proof -
  obtain current d rest where q: "queue = (current, d) # rest" using assms(2) by (cases queue) auto
  show ?thesis
  proof (cases "map_of own current = None")
    case True
    then have "current \<notin> set (map fst own)" by (simp add: map_of_eq_None_iff)
    then show ?thesis
      using assms(1) True q expand_measure [of current "map fst own" cs dec]
      by (auto simp: expand_def split: if_splits)
  next
    case False
    then show ?thesis using assms(1) q by (auto simp: expand_def split: if_splits)
  qed
qed

lemma expand_Nil: "expand dec cs own other [] = Continue own []"
  by (simp add: expand_def)

function ancestor_loop ::
    "(bytes \<Rightarrow> Value option) \<Rightarrow> content_store \<Rightarrow> (hash \<times> nat) list \<Rightarrow> (hash \<times> nat) list \<Rightarrow>
     (hash \<times> nat) list \<Rightarrow> (hash \<times> nat) list \<Rightarrow> hash option" where
  "ancestor_loop dec cs anc_a anc_b queue_a queue_b =
     (if queue_a = [] \<and> queue_b = [] then None
      else case expand dec cs anc_a anc_b queue_a of
             Found h \<Rightarrow> Some h
           | Continue anc_a' queue_a' \<Rightarrow>
               (case expand dec cs anc_b anc_a' queue_b of
                  Found h \<Rightarrow> Some h
                | Continue anc_b' queue_b' \<Rightarrow> ancestor_loop dec cs anc_a' anc_b' queue_a' queue_b'))"
  by pat_completeness auto
termination
proof (relation "measures [\<lambda>(dec, cs, anc_a, anc_b, qa, qb). unseen cs (map fst anc_a) + unseen cs (map fst anc_b),
    \<lambda>(dec, cs, anc_a, anc_b, qa, qb). length qa + length qb]", goal_cases)
  case (2 dec cs anc_a anc_b queue_a queue_b anc_a' queue_a' anc_b' queue_b')
  note le = expand_unseen_le [OF 2(2)] expand_unseen_le [OF 2(3)]
  have a: "queue_a = [] \<Longrightarrow> anc_a' = anc_a \<and> queue_a' = []" using 2(2) by (simp add: expand_Nil)
  have b: "queue_b = [] \<Longrightarrow> anc_b' = anc_b \<and> queue_b' = []" using 2(3) by (simp add: expand_Nil)
  show ?case
    using 2(1) le a b expand_decreases [OF 2(2)] expand_decreases [OF 2(3)]
    by (cases "queue_a = []"; cases "queue_b = []") auto
qed auto

declare ancestor_loop.simps [simp del]

definition find_common_ancestor :: "(bytes \<Rightarrow> Value option) \<Rightarrow> content_store \<Rightarrow> hash \<Rightarrow> hash \<Rightarrow> hash option" where
  "find_common_ancestor dec cs a b = ancestor_loop dec cs [] [] [(a, 0)] [(b, 0)]"

datatype Relationship = InSync | Behind | Ahead | Diverged

definition relationship_as_str :: "Relationship \<Rightarrow> string" where
  "relationship_as_str r =
     (case r of InSync \<Rightarrow> ''in_sync'' | Behind \<Rightarrow> ''behind'' | Ahead \<Rightarrow> ''ahead'' | Diverged \<Rightarrow> ''diverged'')"

definition check_relationship :: "(bytes \<Rightarrow> Value option) \<Rightarrow> content_store \<Rightarrow> hash \<Rightarrow> hash \<Rightarrow> Relationship" where
  "check_relationship dec cs local remote =
     (if local = remote then InSync
      else if is_ancestor dec cs local remote then Behind
      else if is_ancestor dec cs remote local then Ahead
      else Diverged)"

definition detect_oscillation ::
    "(bytes \<Rightarrow> Value option) \<Rightarrow> content_store \<Rightarrow> hash \<Rightarrow> hash list \<Rightarrow> hash \<Rightarrow> nat \<Rightarrow> bool" where
  "detect_oscillation dec cs proposed_root proposed_parents head depth_limit =
     (let proposed = sorted_parents proposed_parents
      in list_ex (\<lambda>version.
           case entry_of dec cs version of
             None \<Rightarrow> False
           | Some entry \<Rightarrow> rev_root entry = proposed_root \<and> sorted_parents (rev_parents entry) = proposed)
         (walk_history dec cs head depth_limit None))"

section \<open>Reachability\<close>

text \<open>The parent relation and its closure: \<open>reaches dec cs h a\<close> says that \<open>a\<close> is \<open>h\<close> or an ancestor of it.\<close>

definition parent_rel :: "(bytes \<Rightarrow> Value option) \<Rightarrow> content_store \<Rightarrow> (hash \<times> hash) set" where
  "parent_rel dec cs = {(h, p). p \<in> set (parents_of dec cs h)}"

definition reaches :: "(bytes \<Rightarrow> Value option) \<Rightarrow> content_store \<Rightarrow> hash \<Rightarrow> hash \<Rightarrow> bool" where
  "reaches dec cs h a \<longleftrightarrow> (h, a) \<in> (parent_rel dec cs)\<^sup>*"

lemma reaches_refl [simp]: "reaches dec cs h h"
  by (simp add: reaches_def)

lemma reaches_step: "p \<in> set (parents_of dec cs h) \<Longrightarrow> reaches dec cs p a \<Longrightarrow> reaches dec cs h a"
  by (auto simp: reaches_def parent_rel_def intro: converse_rtrancl_into_rtrancl)

lemma reaches_cases: "reaches dec cs h a \<Longrightarrow> h = a \<or> (\<exists>p \<in> set (parents_of dec cs h). reaches dec cs p a)"
  by (auto simp: reaches_def parent_rel_def elim: converse_rtranclE)

lemma reaches_snoc: "reaches dec cs h a \<Longrightarrow> p \<in> set (parents_of dec cs a) \<Longrightarrow> reaches dec cs h p"
  by (auto simp: reaches_def parent_rel_def intro: rtrancl_into_rtrancl)

text \<open>The state of a search: every parent of a visited node is visited or queued.\<close>

definition frontier :: "(bytes \<Rightarrow> Value option) \<Rightarrow> content_store \<Rightarrow> hash set \<Rightarrow> hash set \<Rightarrow> bool" where
  "frontier dec cs visited queue \<longleftrightarrow> (\<forall>v \<in> visited. set (parents_of dec cs v) \<subseteq> visited \<union> queue)"

text \<open>A path out of the visited nodes passes the queue.\<close>

lemma frontier_exit:
  assumes "frontier dec cs V Q" "reaches dec cs v a" "v \<in> V"
  shows "a \<in> V \<or> (\<exists>q \<in> Q - V. reaches dec cs q a)"
  using assms(2,3) unfolding reaches_def
proof (induction rule: converse_rtrancl_induct)
  case (step x y)
  then have "y \<in> V \<or> y \<in> Q - V" using assms(1) by (auto simp: frontier_def parent_rel_def)
  then show ?case using step by (auto simp: reaches_def)
qed simp

lemma is_ancestor_loop_correct:
  assumes "frontier dec cs (set visited) (set queue)" "anc \<notin> set visited"
  shows "is_ancestor_loop dec cs anc visited queue \<longleftrightarrow> (\<exists>q \<in> set queue. reaches dec cs q anc)"
  using assms
proof (induction dec cs anc visited queue rule: is_ancestor_loop.induct)
  case (2 dec cs anc visited current queue)
  consider "current = anc" | (seen) "current \<noteq> anc" "current \<in> set visited"
    | (fresh) "current \<noteq> anc" "current \<notin> set visited" by blast
  then show ?case
  proof cases
    case seen
    then have "frontier dec cs (set visited) (set queue)" using "2.prems"(1) by (auto simp: frontier_def)
    moreover have "reaches dec cs current anc \<Longrightarrow> \<exists>q \<in> set queue. reaches dec cs q anc"
      using frontier_exit [OF calculation _ seen(2)] "2.prems"(2) by blast
    ultimately show ?thesis using 2 seen by auto
  next
    case fresh
    have "frontier dec cs (set (current # visited)) (set (queue @ parents_of dec cs current))"
      using "2.prems"(1) by (auto simp: frontier_def)
    then have "is_ancestor_loop dec cs anc visited (current # queue) \<longleftrightarrow>
        (\<exists>q \<in> set (queue @ parents_of dec cs current). reaches dec cs q anc)"
      using 2 fresh by simp
    then show ?thesis using fresh reaches_step reaches_cases by fastforce
  qed simp
qed (simp add: frontier_def)

lemma is_ancestor_reaches: "is_ancestor dec cs a d \<longleftrightarrow> reaches dec cs d a"
  using is_ancestor_loop_correct [of dec cs "[]" "[d]" a] by (simp add: is_ancestor_def frontier_def)

section \<open>Common ancestors\<close>

text \<open>The invariant of the alternating search: both sides are searches from their start, and no node
  is recorded on both sides.\<close>

definition side_ok :: "(bytes \<Rightarrow> Value option) \<Rightarrow> content_store \<Rightarrow> hash \<Rightarrow> hash set \<Rightarrow> hash set \<Rightarrow> bool" where
  "side_ok dec cs start seen queue \<longleftrightarrow>
     frontier dec cs seen queue \<and> start \<in> seen \<union> queue \<and> (\<forall>x \<in> seen \<union> queue. reaches dec cs start x)"

lemma side_complete:
  assumes "side_ok dec cs start seen {}" "reaches dec cs start x"
  shows "x \<in> seen"
  using assms frontier_exit [of dec cs seen "{}" start x] by (auto simp: side_ok_def)

lemma side_skip: "side_ok dec cs start S (insert c Q) \<Longrightarrow> c \<in> S \<Longrightarrow> side_ok dec cs start S Q"
  unfolding side_ok_def frontier_def by blast

lemma side_expand:
  "side_ok dec cs start S (insert c Q) \<Longrightarrow> side_ok dec cs start (insert c S) (Q \<union> set (parents_of dec cs c))"
  using reaches_snoc [of dec cs start c] unfolding side_ok_def frontier_def by blast

lemma expand_Found:
  "expand dec cs own other queue = Found h \<Longrightarrow> h \<in> fst ` set queue \<and> h \<in> fst ` set other"
  by (auto simp: expand_def map_of_eq_None_iff split: list.splits if_splits)

lemma expand_Continue:
  assumes "expand dec cs own other queue = Continue own' queue'"
    and ok: "side_ok dec cs start (fst ` set own) (fst ` set queue)"
    and disj: "fst ` set own \<inter> fst ` set other = {}"
  shows "side_ok dec cs start (fst ` set own') (fst ` set queue') \<and> fst ` set own' \<inter> fst ` set other = {}"
proof (cases queue)
  case Nil
  then show ?thesis using assms by (simp add: expand_def)
next
  case (Cons e rest)
  obtain c d where e: "e = (c, d)" by (cases e)
  show ?thesis
  proof (cases "map_of own c = None")
    case False
    then have "c \<in> fst ` set own" by (simp add: map_of_eq_None_iff)
    moreover have "own' = own" "queue' = rest" using assms(1) False Cons e by (auto simp: expand_def split: if_splits)
    ultimately show ?thesis using ok disj Cons e side_skip [of dec cs start "fst ` set own" c] by simp
  next
    case True
    then have own': "own' = (c, d) # own" "queue' = rest @ map (\<lambda>p. (p, d + 1)) (parents_of dec cs c)"
      "c \<notin> fst ` set other"
      using assms(1) Cons e by (auto simp: expand_def map_of_eq_None_iff split: if_splits)
    have "fst ` set queue' = fst ` set rest \<union> set (parents_of dec cs c)" using own'(2) by (force simp: image_Un)
    moreover have "side_ok dec cs start (fst ` set own) (insert c (fst ` set rest))" using ok Cons e by simp
    ultimately show ?thesis using side_expand own' disj by simp
  qed
qed

lemma ancestor_loop_correct:
  assumes "side_ok dec cs a (fst ` set sa) (fst ` set qa)" "side_ok dec cs b (fst ` set sb) (fst ` set qb)"
    "fst ` set sa \<inter> fst ` set sb = {}"
  shows "case ancestor_loop dec cs sa sb qa qb of
      Some c \<Rightarrow> reaches dec cs a c \<and> reaches dec cs b c
    | None \<Rightarrow> \<not> (\<exists>c. reaches dec cs a c \<and> reaches dec cs b c)"
  using assms
proof (induction dec cs sa sb qa qb rule: ancestor_loop.induct)
  case (1 dec cs sa sb qa qb)
  note ok = "1.prems"
  show ?case
  proof (cases "qa = [] \<and> qb = []")
    case True
    then have "ancestor_loop dec cs sa sb qa qb = None" by (simp add: ancestor_loop.simps)
    moreover have "\<not> (\<exists>c. reaches dec cs a c \<and> reaches dec cs b c)"
      using ok True side_complete by fastforce
    ultimately show ?thesis by simp
  next
    case nonempty: False
    show ?thesis
    proof (cases "expand dec cs sa sb qa")
      case (Found h)
      then have "reaches dec cs a h \<and> reaches dec cs b h"
        using expand_Found [OF Found] ok by (auto simp: side_ok_def)
      then show ?thesis using nonempty Found by (auto simp: ancestor_loop.simps)
    next
      case ca: (Continue sa' qa')
      have ok': "side_ok dec cs a (fst ` set sa') (fst ` set qa')" "fst ` set sa' \<inter> fst ` set sb = {}"
        using expand_Continue [OF ca ok(1,3)] by auto
      show ?thesis
      proof (cases "expand dec cs sb sa' qb")
        case (Found h)
        then have "reaches dec cs a h \<and> reaches dec cs b h"
          using expand_Found [OF Found] ok ok' by (auto simp: side_ok_def)
        then show ?thesis using nonempty ca Found by (auto simp: ancestor_loop.simps)
      next
        case cb: (Continue sb' qb')
        have ok'': "side_ok dec cs b (fst ` set sb') (fst ` set qb')" "fst ` set sa' \<inter> fst ` set sb' = {}"
          using expand_Continue [OF cb ok(2)] ok'(2) by auto
        then show ?thesis
          using "1.IH" [OF nonempty ca cb ok'(1) ok''] nonempty ca cb
          by (auto simp: ancestor_loop.simps [of dec cs sa sb qa qb])
      qed
    qed
  qed
qed

section \<open>History walks\<close>

lemma walk_loop_sound:
  assumes "\<And>x. x \<in> set queue \<Longrightarrow> reaches dec cs head x"
    "distinct result" "set result \<subseteq> set visited" "length result \<le> limit"
    "\<And>x. x \<in> set result \<Longrightarrow> reaches dec cs head x \<and> entry_of dec cs x \<noteq> None"
  shows "let r = walk_loop dec cs limit stop_at result visited queue in
     distinct r \<and> length r \<le> limit \<and> prefix result r \<and>
     (\<forall>x \<in> set r. reaches dec cs head x \<and> entry_of dec cs x \<noteq> None)"
  using assms
proof (induction dec cs limit stop_at result visited queue rule: walk_loop.induct)
  case (2 dec cs limit stop_at result visited current queue)
  show ?case
  proof (cases "limit \<le> length result \<or> current \<in> set visited \<or> stop_at = Some current \<or> entry_of dec cs current = None")
    case True
    then consider "limit \<le> length result" | (seen) "\<not> limit \<le> length result" "current \<in> set visited"
      | "\<not> limit \<le> length result" "current \<notin> set visited" "stop_at = Some current"
      | (missing) "\<not> limit \<le> length result" "current \<notin> set visited" "stop_at \<noteq> Some current" "entry_of dec cs current = None"
      by metis
    then show ?thesis
    proof cases
      case seen
      then show ?thesis using "2.IH"(1) [OF seen] "2.prems" by simp
    next
      case missing
      have "set result \<subseteq> set (current # visited)" using "2.prems"(3) by auto
      then show ?thesis using "2.IH"(2) [OF missing] "2.prems" missing by simp
    qed (use "2.prems" in \<open>simp_all add: Let_def\<close>)
  next
    case False
    then obtain entry where e: "entry_of dec cs current = Some entry" by auto
    let ?q = "queue @ [p \<leftarrow> rev_parents entry. p \<notin> set (current # visited)]"
    have "reaches dec cs head x" if "x \<in> set ?q" for x
      using that "2.prems"(1) e reaches_snoc [of dec cs head current x] by (auto simp: parents_of_def)
    moreover have "distinct (result @ [current])" "set (result @ [current]) \<subseteq> set (current # visited)"
      "length (result @ [current]) \<le> limit"
      using "2.prems" False by auto
    moreover have "reaches dec cs head x \<and> entry_of dec cs x \<noteq> None" if "x \<in> set (result @ [current])" for x
      using that "2.prems" e by auto
    ultimately have "let r = walk_loop dec cs limit stop_at (result @ [current]) (current # visited) ?q in
       distinct r \<and> length r \<le> limit \<and> prefix (result @ [current]) r \<and>
       (\<forall>x \<in> set r. reaches dec cs head x \<and> entry_of dec cs x \<noteq> None)"
      using False e by (intro "2.IH"(3)) auto
    moreover have "walk_loop dec cs limit stop_at result visited (current # queue) =
        walk_loop dec cs limit stop_at (result @ [current]) (current # visited) ?q"
      using False e by simp
    moreover have "prefix (result @ [current]) r \<Longrightarrow> prefix result r" for r by (rule append_prefixD)
    ultimately show ?thesis unfolding Let_def by metis
  qed
qed (simp add: Let_def)

lemma walk_loop_complete:
  assumes "frontier dec cs (set visited) (set queue)" "\<And>x. x \<in> set visited \<Longrightarrow> entry_of dec cs x \<noteq> None \<Longrightarrow> x \<in> set result"
    "length (walk_loop dec cs limit None result visited queue) < limit"
    "x \<in> set visited \<or> (\<exists>q \<in> set queue. reaches dec cs q x)" "entry_of dec cs x \<noteq> None"
  shows "x \<in> set (walk_loop dec cs limit None result visited queue)"
  using assms
proof (induction dec cs limit "None :: hash option" result visited queue rule: walk_loop.induct)
  case (2 dec cs limit result visited current queue)
  have lim: "\<not> limit \<le> length result"
    using "2.prems"(3) by (auto split: if_splits)
  show ?case
  proof (cases "current \<in> set visited")
    case True
    then have fr: "frontier dec cs (set visited) (set queue)" using "2.prems"(1) by (auto simp: frontier_def)
    have "x \<in> set visited \<or> (\<exists>q \<in> set queue. reaches dec cs q x)"
      using "2.prems"(4) frontier_exit [OF fr _ True] by auto
    moreover have "walk_loop dec cs limit None result visited (current # queue) =
        walk_loop dec cs limit None result visited queue"
      using True lim by simp
    ultimately show ?thesis using "2.hyps"(1) [OF lim True fr "2.prems"(2)] "2.prems"(3,5) by simp
  next
    case fresh: False
    show ?thesis
    proof (cases "entry_of dec cs current")
      case None
      then have par: "parents_of dec cs current = []" by (simp add: parents_of_def)
      then have fr: "frontier dec cs (set (current # visited)) (set queue)" using "2.prems"(1) by (auto simp: frontier_def)
      have "x \<in> set (current # visited) \<or> (\<exists>q \<in> set queue. reaches dec cs q x)"
        using "2.prems"(4) reaches_cases par by fastforce
      moreover have "walk_loop dec cs limit None result visited (current # queue) =
          walk_loop dec cs limit None result (current # visited) queue"
        using None fresh lim by simp
      moreover have "y \<in> set result" if "y \<in> set (current # visited)" "entry_of dec cs y \<noteq> None" for y
        using that None "2.prems"(2) by auto
      ultimately show ?thesis using "2.hyps"(2) [OF lim fresh _ None fr] "2.prems"(3,5) by simp
    next
      case (Some entry)
      let ?q = "queue @ [p \<leftarrow> rev_parents entry. p \<notin> set (current # visited)]"
      have par: "parents_of dec cs current = rev_parents entry" using Some by (simp add: parents_of_def)
      then have fr: "frontier dec cs (set (current # visited)) (set ?q)" using "2.prems"(1) by (auto simp: frontier_def)
      have "x \<in> set (current # visited) \<or> (\<exists>q \<in> set ?q. reaches dec cs q x)"
        using "2.prems"(4) frontier_exit [OF fr, of current x] by auto
      moreover have "walk_loop dec cs limit None result visited (current # queue) =
          walk_loop dec cs limit None (result @ [current]) (current # visited) ?q"
        using Some fresh lim by simp
      moreover have "y \<in> set (result @ [current])" if "y \<in> set (current # visited)" "entry_of dec cs y \<noteq> None" for y
        using that "2.prems"(2) by auto
      ultimately show ?thesis using "2.hyps"(3) [OF lim fresh _ Some fr] "2.prems"(3,5) by simp
    qed
  qed
qed auto

lemma walk_history_sound:
  "distinct (walk_history dec cs head limit stop_at) \<and> length (walk_history dec cs head limit stop_at) \<le> limit \<and>
   (\<forall>x \<in> set (walk_history dec cs head limit stop_at). reaches dec cs head x \<and> entry_of dec cs x \<noteq> None)"
  using walk_loop_sound [of "[head]" dec cs head "[]" "[]" limit stop_at]
  by (simp add: walk_history_def Let_def)

lemma walk_history_complete:
  "length (walk_history dec cs head limit None) < limit \<Longrightarrow> reaches dec cs head x \<Longrightarrow> entry_of dec cs x \<noteq> None \<Longrightarrow>
   x \<in> set (walk_history dec cs head limit None)"
  using walk_loop_complete [of dec cs "[]" "[head]" "[]" limit x]
  by (simp add: walk_history_def frontier_def del: walk_loop.simps)

lemma sort_eq_iff_mset: "sort (xs :: 'a::linorder list) = sort ys \<longleftrightarrow> mset xs = mset ys"
  by (metis mset_sort properties_for_sort sorted_sort)

section \<open>Properties\<close>

text \<open>C33. The ancestor test decides reachability in the parent relation, whatever the graph in the
  store looks like, cycles and missing entries included.\<close>

theorem is_ancestor_correct:
  "is_ancestor dec cs a d \<longleftrightarrow> (d, a) \<in> (parent_rel dec cs)\<^sup>*"
  using is_ancestor_reaches by (simp add: reaches_def)

text \<open>C34. The search for a common ancestor finds one exactly when one exists, and what it returns is
  an ancestor of both versions.\<close>

theorem find_common_ancestor_correct:
  "case find_common_ancestor dec cs a b of
     Some c \<Rightarrow> is_ancestor dec cs c a \<and> is_ancestor dec cs c b
   | None \<Rightarrow> \<not> (\<exists>c. is_ancestor dec cs c a \<and> is_ancestor dec cs c b)"
  using ancestor_loop_correct [of dec cs a "[]" "[(a, 0)]" b "[]" "[(b, 0)]"]
  by (simp add: find_common_ancestor_def is_ancestor_reaches side_ok_def frontier_def split: option.splits)

text \<open>A history walk lists versions at most once, at most up to the limit, and only ancestors of
  the head that have an entry; when the limit is not reached and no stop is given it lists all of
  them.\<close>

theorem walk_history_correct:
  "distinct (walk_history dec cs head limit stop_at) \<and> length (walk_history dec cs head limit stop_at) \<le> limit \<and>
   (\<forall>x. x \<in> set (walk_history dec cs head limit stop_at) \<longrightarrow> is_ancestor dec cs x head \<and> entry_of dec cs x \<noteq> None) \<and>
   (length (walk_history dec cs head limit None) < limit \<longrightarrow>
      set (walk_history dec cs head limit None) = {x. is_ancestor dec cs x head \<and> entry_of dec cs x \<noteq> None})"
  using walk_history_sound walk_history_complete unfolding is_ancestor_reaches by blast

text \<open>A concrete graph for the witnesses and the examples below: the entry of node \<open>n\<close> has the data
  byte \<open>n\<close>, and the decoder looks the parents up in a table.\<close>

definition node :: "nat \<Rightarrow> hash" where
  "node n = Hash 0 (replicate 31 0 @ [word_of_nat n])"

definition table_store :: "(nat \<times> nat list) list \<Rightarrow> content_store" where
  "table_store t =
     fold (\<lambda>(n, _) cs. bt_insert (node n)
       \<lparr>entity_type = TYPE_REVISION_ENTRY, data = [word_of_nat n], content_hash = node n\<rparr> cs) t []"

definition table_dec :: "(nat \<times> nat list) list \<Rightarrow> bytes \<Rightarrow> Value option" where
  "table_dec t b =
     map_option (\<lambda>ps. VMap [(VText ''root'', VBytes (to_bytes (node 0))),
         (VText ''parents'', VArray (map (\<lambda>p. VBytes (to_bytes (node p))) ps))])
       (map_of t (unat (hd b)))"

theorem walk_history_correct_witness:
  "set (walk_history (table_dec [(1, []), (2, [1])]) (table_store [(1, []), (2, [1])]) (node 2) 5 None) =
     {x. is_ancestor (table_dec [(1, []), (2, [1])]) (table_store [(1, []), (2, [1])]) x (node 2) \<and>
        entry_of (table_dec [(1, []), (2, [1])]) (table_store [(1, []), (2, [1])]) x \<noteq> None}"
proof -
  have "length (walk_history (table_dec [(1, []), (2, [1])]) (table_store [(1, []), (2, [1])]) (node 2) 5 None) < 5"
    by code_simp
  then show ?thesis using walk_history_correct by blast
qed

text \<open>The relationship of two heads is the one their ancestry has, and two peers that compare the
  same heads see mirrored answers, provided the parent relation has no cycle.\<close>

theorem check_relationship_correct:
  "(check_relationship dec cs x y = InSync \<longleftrightarrow> x = y) \<and>
   (check_relationship dec cs x y = Behind \<longleftrightarrow> x \<noteq> y \<and> (y, x) \<in> (parent_rel dec cs)\<^sup>*) \<and>
   (acyclic (parent_rel dec cs) \<longrightarrow>
      check_relationship dec cs y x =
        (case check_relationship dec cs x y of Behind \<Rightarrow> Ahead | Ahead \<Rightarrow> Behind | r \<Rightarrow> r))"
proof -
  have "acyclic (parent_rel dec cs) \<Longrightarrow> (x, y) \<in> (parent_rel dec cs)\<^sup>* \<Longrightarrow> (y, x) \<in> (parent_rel dec cs)\<^sup>* \<Longrightarrow> x = y"
    by (meson acyclic_impl_antisym_rtrancl antisymD)
  then show ?thesis
    using is_ancestor_reaches [of dec cs x y] is_ancestor_reaches [of dec cs y x]
    by (auto simp: check_relationship_def reaches_def)
qed

theorem check_relationship_correct_witness:
  "check_relationship (\<lambda>_. None) [] (node 1) (node 2) =
     (case check_relationship (\<lambda>_. None) [] (node 2) (node 1) of Behind \<Rightarrow> Ahead | Ahead \<Rightarrow> Behind | r \<Rightarrow> r)"
proof -
  have "acyclic (parent_rel (\<lambda>_. None) [])"
    by (simp add: parent_rel_def parents_of_def entry_of_def mcs_get_def acyclic_def)
  then show ?thesis using check_relationship_correct by blast
qed

text \<open>Oscillation is detected exactly when a version within the walk has the proposed root and the
  proposed parents, compared as multisets.\<close>

theorem detect_oscillation_iff:
  "detect_oscillation dec cs r ps head limit \<longleftrightarrow>
     (\<exists>v entry. v \<in> set (walk_history dec cs head limit None) \<and> entry_of dec cs v = Some entry \<and>
        rev_root entry = r \<and> mset (rev_parents entry) = mset ps)"
  by (auto simp: detect_oscillation_def Let_def list_ex_iff sorted_parents_def sort_eq_iff_mset split: option.splits)

text \<open>The common ancestor depends on the order of the arguments and need not be a lowest one.  In
  the first graph the heads 7 and 8 have the maximal common ancestors 1 and 4, and the search
  returns one or the other as the heads are swapped; in the second graph it returns 1 although 2
  is a common ancestor below it.\<close>

theorem common_ancestor_order_dependent:
  "let g = [(1, []), (2, [4]), (3, [1]), (4, []), (7, [1, 2]), (8, [3, 4])];
       l = [(1, []), (2, [1]), (3, [2]), (7, [2]), (8, [1, 3])]
   in find_common_ancestor (table_dec g) (table_store g) (node 7) (node 8) = Some (node 4) \<and>
      find_common_ancestor (table_dec g) (table_store g) (node 8) (node 7) = Some (node 1) \<and>
      find_common_ancestor (table_dec l) (table_store l) (node 7) (node 8) = Some (node 1) \<and>
      is_ancestor (table_dec l) (table_store l) (node 2) (node 7) \<and>
      is_ancestor (table_dec l) (table_store l) (node 2) (node 8) \<and>
      is_ancestor (table_dec l) (table_store l) (node 1) (node 2)"
  by code_simp

end
