(* ===== verification/Revision_Merge.thy ===== *)
theory Revision_Merge
  imports Store_Model
begin

text \<open>
  Three-way merge of snapshots (\<^verbatim>\<open>extensions/revision/src/merge.rs\<close>) and the glob grammar it shares
  with the exclude patterns (\<^verbatim>\<open>extensions/revision/src/engine.rs\<close>).  A snapshot is an ordered map from
  relative paths to hashes; the configuration lives in the location index and the content store,
  here the in-memory back ends.  The canonical deletion marker's hash is the argument \<open>marker\<close>, and
  the CBOR decoder is the parameter \<open>dec\<close>.
\<close>

section \<open>Patterns\<close>

definition glob_match :: "string \<Rightarrow> string \<Rightarrow> bool" where
  "glob_match pattern subject =
     (if pattern = ''*'' then True
      else if ends_with pattern ''/*'' then starts_with subject (take (length pattern - 1) pattern)
      else case strip_prefix ''*'' pattern of
             Some lit \<Rightarrow> ends_with subject lit
           | None \<Rightarrow> subject = pattern)"

definition valid_exclude_pattern :: "string \<Rightarrow> bool" where
  "valid_exclude_pattern pattern =
     (let n = count_list pattern CHR ''*''
      in if n = 0 then True
         else if n = 1 then pattern = ''*'' \<or> ends_with pattern ''/*'' \<or> starts_with pattern ''*''
         else False)"

definition path_pattern_matches :: "string \<Rightarrow> string \<Rightarrow> bool" where
  "path_pattern_matches pattern path = glob_match pattern path"

definition pattern_specificity :: "string \<Rightarrow> nat \<times> nat" where
  "pattern_specificity pattern =
     (if pattern = ''*'' then (0, 0)
      else case strip_suffix ''/*'' pattern of
             Some lit \<Rightarrow> (2, length lit + 1)
           | None \<Rightarrow>
               (case strip_prefix ''*'' pattern of
                  Some lit \<Rightarrow> (1, length lit)
                | None \<Rightarrow> (3, length pattern)))"

definition more_specific :: "(nat \<times> nat) \<times> string \<times> string \<Rightarrow> (nat \<times> nat) \<times> string \<times> string \<Rightarrow> bool" where
  "more_specific cand best =
     (case cand of (cand_key, cand_pattern, cand_name) \<Rightarrow>
      case best of (best_key, best_pattern, best_name) \<Rightarrow>
        if best_key < cand_key then True
        else if cand_key < best_key then False
        else if cand_pattern < best_pattern then True
        else if best_pattern < cand_pattern then False
        else cand_name < best_name)"

definition config_name_of :: "string \<Rightarrow> string" where
  "config_name_of path = last (str_split CHR ''/'' path)"

section \<open>Strategies\<close>

datatype DeletionResolution = PreserveOnConflict | DeletionWins | ThreeWayFallthrough | Deterministic

definition deletion_parse :: "string \<Rightarrow> DeletionResolution option" where
  "deletion_parse s =
     (if s = ''preserve-on-conflict'' then Some PreserveOnConflict
      else if s = ''deletion-wins'' then Some DeletionWins
      else if s = ''three-way-fallthrough'' then Some ThreeWayFallthrough
      else if s = ''deterministic'' then Some Deterministic
      else None)"

definition is_rejected_at_config_write :: "string \<Rightarrow> bool" where
  "is_rejected_at_config_write s \<longleftrightarrow> s = ''lww'' \<or> s = ''keep-both''"

datatype MergeStrategy =
    ThreeWay
  | SourceWins
  | TargetWins
  | Manual
  | KeepBoth
  | Handler string
  | Unresolvable string

definition STRATEGY_HANDLER_SENTINEL :: string where "STRATEGY_HANDLER_SENTINEL = ''handler''"

text \<open>\<^verbatim>\<open>p.trim().is_empty()\<close>: every character is white space, read off the UTF-8 bytes.\<close>

fun blank :: "nat list \<Rightarrow> bool" where
  "blank [] = True"
| "blank (b # bs) =
     (if b \<in> {9, 10, 11, 12, 13, 32} then blank bs
      else case bs of
             [] \<Rightarrow> False
           | c # cs \<Rightarrow>
               if b = 0xC2 \<and> (c = 0x85 \<or> c = 0xA0) then blank cs
               else case cs of
                      [] \<Rightarrow> False
                    | d # ds \<Rightarrow>
                        if b = 0xE1 \<and> c = 0x9A \<and> d = 0x80 \<or>
                           b = 0xE2 \<and> c = 0x80 \<and> (0x80 \<le> d \<and> d \<le> 0x8A \<or> d = 0xA8 \<or> d = 0xA9 \<or> d = 0xAF) \<or>
                           b = 0xE2 \<and> c = 0x81 \<and> d = 0x9F \<or>
                           b = 0xE3 \<and> c = 0x80 \<and> d = 0x80
                        then blank ds else False)"

definition trim_is_empty :: "string \<Rightarrow> bool" where
  "trim_is_empty s = blank (map of_char s)"

definition strategy_parse :: "string \<Rightarrow> string option \<Rightarrow> MergeStrategy option" where
  "strategy_parse strategy handler =
     (if strategy = ''three-way'' then Some ThreeWay
      else if strategy = ''source-wins'' then Some SourceWins
      else if strategy = ''target-wins'' then Some TargetWins
      else if strategy = ''manual'' then Some Manual
      else if strategy = ''keep-both'' then Some KeepBoth
      else if strategy = ''lww'' then Some (Unresolvable ''lww'')
      else if strategy = STRATEGY_HANDLER_SENTINEL
      then (case handler of
              Some p \<Rightarrow> if \<not> trim_is_empty p then Some (Handler p) else Some (Unresolvable STRATEGY_HANDLER_SENTINEL)
            | None \<Rightarrow> Some (Unresolvable STRATEGY_HANDLER_SENTINEL))
      else None)"

definition strategy_as_str :: "MergeStrategy \<Rightarrow> string" where
  "strategy_as_str s =
     (case s of ThreeWay \<Rightarrow> ''three-way'' | SourceWins \<Rightarrow> ''source-wins'' | TargetWins \<Rightarrow> ''target-wins''
      | Manual \<Rightarrow> ''manual'' | KeepBoth \<Rightarrow> ''keep-both'' | Handler _ \<Rightarrow> STRATEGY_HANDLER_SENTINEL
      | Unresolvable name \<Rightarrow> name)"

record merge_config =
  mc_pattern :: "string option"
  mc_strategy :: "MergeStrategy option"

fun config_fields ::
    "(Value \<times> Value) list \<Rightarrow> string option \<times> string option \<times> string option \<Rightarrow> string option \<times> string option \<times> string option" where
  "config_fields [] acc = acc"
| "config_fields ((k, v) # rest) (pattern, strategy, handler) =
     (if as_str k = Some ''pattern'' then config_fields rest (as_str v, strategy, handler)
      else if as_str k = Some ''strategy'' then config_fields rest (pattern, as_str v, handler)
      else if as_str k = Some ''handler'' then config_fields rest (pattern, strategy, as_str v)
      else config_fields rest (pattern, strategy, handler))"

definition decode_merge_config :: "(bytes \<Rightarrow> Value option) \<Rightarrow> bytes \<Rightarrow> merge_config" where
  "decode_merge_config dec d =
     (let (pattern, strategy_name, handler) =
        (case dec d of
           Some v \<Rightarrow> (case as_map v of Some m \<Rightarrow> config_fields m (None, None, None) | None \<Rightarrow> (None, None, None))
         | None \<Rightarrow> (None, None, None))
      in \<lparr>mc_pattern = pattern,
          mc_strategy = (case strategy_name of Some s \<Rightarrow> strategy_parse s handler | None \<Rightarrow> None)\<rparr>)"

fun deletion_fields ::
    "(Value \<times> Value) list \<Rightarrow> string option \<Rightarrow> DeletionResolution option \<Rightarrow> string option \<times> DeletionResolution option" where
  "deletion_fields [] pattern dr = (pattern, dr)"
| "deletion_fields ((k, v) # rest) pattern dr =
     (if as_str k = Some ''pattern'' then deletion_fields rest (as_str v) dr
      else if as_str k = Some ''deletion_resolution''
      then deletion_fields rest pattern (case as_str v of Some s \<Rightarrow> deletion_parse s | None \<Rightarrow> None)
      else deletion_fields rest pattern dr)"

definition decode_deletion_resolution_config ::
    "(bytes \<Rightarrow> Value option) \<Rightarrow> bytes \<Rightarrow> (string \<times> DeletionResolution) option" where
  "decode_deletion_resolution_config dec d =
     (case dec d of None \<Rightarrow> None
      | Some v \<Rightarrow> (case as_map v of None \<Rightarrow> None
          | Some m \<Rightarrow> (case deletion_fields m None None of
              (Some pattern, Some dr) \<Rightarrow> Some (pattern, dr)
            | _ \<Rightarrow> None)))"

text \<open>The selection loop shared by the two lookups: keep the candidate that \<open>more_specific\<close> prefers.\<close>

type_synonym 'x candidate = "((nat \<times> nat) \<times> string \<times> string) \<times> 'x"

fun select_best :: "'x candidate list \<Rightarrow> 'x candidate option \<Rightarrow> 'x candidate option" where
  "select_best [] best = best"
| "select_best (cand # cands) best =
     (case best of
        None \<Rightarrow> select_best cands (Some cand)
      | Some b \<Rightarrow> if more_specific (fst cand) (fst b) then select_best cands (Some cand) else select_best cands best)"

definition path_config_prefix :: "string \<Rightarrow> string" where
  "path_config_prefix local_peer_id = ''/'' @ local_peer_id @ ''/system/revision/config/merge/path/''"

text \<open>The candidates among the listed bindings: those whose entity decodes and whose pattern
  matches.\<close>

definition candidates ::
    "(bytes \<Rightarrow> (string \<times> 'x) option) \<Rightarrow> string \<Rightarrow> content_store \<Rightarrow> location_entry list \<Rightarrow> 'x candidate list" where
  "candidates decode path cs entries =
     concat (map (\<lambda>entry.
       case mcs_get (loc_hash entry) cs of
         None \<Rightarrow> []
       | Some config \<Rightarrow>
           (case decode (data config) of
              None \<Rightarrow> []
            | Some (pattern, x) \<Rightarrow>
                if path_pattern_matches pattern path
                then [((pattern_specificity pattern, pattern, config_name_of (loc_path entry)), x)] else []))
       entries)"

definition find_deletion_resolution ::
    "(bytes \<Rightarrow> Value option) \<Rightarrow> string \<Rightarrow> loc_index \<Rightarrow> content_store \<Rightarrow> string \<Rightarrow> DeletionResolution" where
  "find_deletion_resolution dec path ix cs local_peer_id =
     (case select_best (candidates (decode_deletion_resolution_config dec) path cs
             (mli_list (path_config_prefix local_peer_id) ix)) None of
        Some (_, dr) \<Rightarrow> dr
      | None \<Rightarrow> PreserveOnConflict)"

definition config_pair :: "(bytes \<Rightarrow> Value option) \<Rightarrow> bytes \<Rightarrow> (string \<times> MergeStrategy) option" where
  "config_pair dec d =
     (let config = decode_merge_config dec d
      in case (mc_pattern config, mc_strategy config) of
           (Some pattern, Some strategy) \<Rightarrow> Some (pattern, strategy)
         | _ \<Rightarrow> None)"

fun types_to_check :: "content_store \<Rightarrow> hash list \<Rightarrow> string list \<Rightarrow> string list" where
  "types_to_check cs [] acc = acc"
| "types_to_check cs (h # hs) acc =
     (case mcs_get h cs of
        None \<Rightarrow> types_to_check cs hs acc
      | Some e \<Rightarrow>
          if entity_type e \<in> set acc then types_to_check cs hs acc
          else types_to_check cs hs (acc @ [entity_type e]))"

fun type_strategy ::
    "(bytes \<Rightarrow> Value option) \<Rightarrow> loc_index \<Rightarrow> content_store \<Rightarrow> string \<Rightarrow> string list \<Rightarrow> MergeStrategy option" where
  "type_strategy dec ix cs local_peer_id [] = None"
| "type_strategy dec ix cs local_peer_id (type_name # rest) =
     (case mli_get (''/'' @ local_peer_id @ ''/system/revision/config/merge/type/'' @ type_name) ix of
        None \<Rightarrow> type_strategy dec ix cs local_peer_id rest
      | Some config_hash \<Rightarrow>
          (case mcs_get config_hash cs of
             None \<Rightarrow> type_strategy dec ix cs local_peer_id rest
           | Some config_entity \<Rightarrow>
               (case mc_strategy (decode_merge_config dec (data config_entity)) of
                  Some strategy \<Rightarrow> Some strategy
                | None \<Rightarrow> type_strategy dec ix cs local_peer_id rest)))"

definition find_merge_strategy ::
    "(bytes \<Rightarrow> Value option) \<Rightarrow> string \<Rightarrow> string option \<Rightarrow> loc_index \<Rightarrow> content_store \<Rightarrow> hash option \<Rightarrow> hash option \<Rightarrow>
     string \<Rightarrow> MergeStrategy" where
  "find_merge_strategy dec path override ix cs local_hash remote_hash local_peer_id =
     (case (case override of Some s \<Rightarrow> strategy_parse s None | None \<Rightarrow> None) of
        Some strategy \<Rightarrow> strategy
      | None \<Rightarrow>
          (case type_strategy dec ix cs local_peer_id
                  (types_to_check cs (List.map_filter id [local_hash, remote_hash]) []) of
             Some strategy \<Rightarrow> strategy
           | None \<Rightarrow>
               (case select_best (candidates (config_pair dec) path cs (mli_list (path_config_prefix local_peer_id) ix)) None of
                  Some (_, strategy) \<Rightarrow> strategy
                | None \<Rightarrow> ThreeWay)))"

section \<open>Merging\<close>

type_synonym snapshot = "(string, hash) btree"

record conflict_info =
  ci_path :: string
  ci_base :: "hash option"
  ci_local :: "hash option"
  ci_remote :: "hash option"
  ci_strategy :: string

record merge_result =
  merged_bindings :: snapshot
  deletions :: "string list"
  conflicts :: "conflict_info list"
  additional_bindings :: "(string \<times> hash) list"

definition normalize_merge_sides ::
    "snapshot \<Rightarrow> snapshot \<Rightarrow> hash \<Rightarrow> hash \<Rightarrow> string \<Rightarrow> snapshot \<times> snapshot \<times> hash \<times> hash" where
  "normalize_merge_sides local remote local_version remote_version merge_order =
     (if merge_order = ''deterministic'' \<and> remote_version < local_version
      then (remote, local, remote_version, local_version)
      else (local, remote, local_version, remote_version))"

definition bind :: "string \<Rightarrow> hash \<Rightarrow> merge_result \<Rightarrow> merge_result" where
  "bind path h r = r\<lparr>merged_bindings := bt_insert path h (merged_bindings r)\<rparr>"

definition mark_deleted :: "string \<Rightarrow> merge_result \<Rightarrow> merge_result" where
  "mark_deleted path r = r\<lparr>deletions := deletions r @ [path]\<rparr>"

definition add_conflict :: "string \<Rightarrow> hash option \<Rightarrow> hash \<Rightarrow> hash \<Rightarrow> string \<Rightarrow> merge_result \<Rightarrow> merge_result" where
  "add_conflict path base l r strategy res =
     res\<lparr>conflicts := conflicts res @
       [\<lparr>ci_path = path, ci_base = base, ci_local = Some l, ci_remote = Some r, ci_strategy = strategy\<rparr>]\<rparr>"

text \<open>Marker against entity: one side is the deletion marker, the other is not.\<close>

definition merge_marker ::
    "DeletionResolution \<Rightarrow> hash \<Rightarrow> string \<Rightarrow> hash option \<Rightarrow> hash \<Rightarrow> hash \<Rightarrow> merge_result \<Rightarrow> merge_result" where
  "merge_marker dr marker path base l r res =
     (let l_marker = (l = marker); r_marker = (r = marker)
      in if base = Some l
         then (if r_marker then mark_deleted path else id) (bind path r res)
         else if base = Some r
         then (if l_marker then mark_deleted path else id) (bind path l res)
         else
           let entity_side_hash = (if l_marker then r else l)
           in case dr of
                PreserveOnConflict \<Rightarrow> bind path entity_side_hash res
              | DeletionWins \<Rightarrow> mark_deleted path (bind path marker res)
              | ThreeWayFallthrough \<Rightarrow>
                  bind path l (add_conflict path base l r ''three-way-fallthrough'' res)
              | Deterministic \<Rightarrow>
                  let winner = (if l < r then l else r)
                  in (if winner = marker then mark_deleted path else id) (bind path winner res))"

text \<open>Entity against entity.  The digest of a hash of an allocated format is longer than the four
  bytes that are sliced here.\<close>

definition merge_edits ::
    "MergeStrategy \<Rightarrow> string \<Rightarrow> hash option \<Rightarrow> hash \<Rightarrow> hash \<Rightarrow> merge_result \<Rightarrow> merge_result" where
  "merge_edits strategy path base l r res =
     (case strategy of
        SourceWins \<Rightarrow> bind path r res
      | TargetWins \<Rightarrow> bind path l res
      | ThreeWay \<Rightarrow>
          if base \<noteq> None \<and> base = Some l then bind path r res
          else if base \<noteq> None \<and> base = Some r then bind path l res
          else bind path l (add_conflict path base l r ''three-way'' res)
      | KeepBoth \<Rightarrow>
          (bind path l res)\<lparr>additional_bindings :=
             additional_bindings res @ [(path @ ''.keep-both-'' @ hex_str (take 4 (digest r)), r)]\<rparr>
      | Manual \<Rightarrow> bind path l (add_conflict path base l r (strategy_as_str strategy) res)
      | Handler _ \<Rightarrow> bind path l (add_conflict path base l r (strategy_as_str strategy) res)
      | Unresolvable _ \<Rightarrow> bind path l (add_conflict path base l r (strategy_as_str strategy) res))"

definition merge_path ::
    "(bytes \<Rightarrow> Value option) \<Rightarrow> hash \<Rightarrow> snapshot \<Rightarrow> snapshot \<Rightarrow> snapshot \<Rightarrow> string option \<Rightarrow> content_store \<Rightarrow> loc_index \<Rightarrow>
     string \<Rightarrow> string \<Rightarrow> merge_result \<Rightarrow> merge_result" where
  "merge_path dec marker base local remote override cs ix local_peer_id path res =
     (case (map_of local path, map_of remote path) of
        (None, None) \<Rightarrow> res
      | (Some l, None) \<Rightarrow> bind path l res
      | (None, Some r) \<Rightarrow> bind path r res
      | (Some l, Some r) \<Rightarrow>
          if l = r then bind path l res
          else if (l = marker) \<noteq> (r = marker)
          then merge_marker (find_deletion_resolution dec path ix cs local_peer_id) marker path
                 (map_of base path) l r res
          else merge_edits
                 (find_merge_strategy dec path override ix cs (Some l) (Some r) local_peer_id) path
                 (map_of base path) l r res)"

text \<open>The paths of all three snapshots without repetition, sorted.\<close>

definition all_paths :: "snapshot \<Rightarrow> snapshot \<Rightarrow> snapshot \<Rightarrow> string list" where
  "all_paths base local remote =
     sort (fold (\<lambda>p acc. if p \<in> set acc then acc else acc @ [p])
       (map fst base @ map fst local @ map fst remote) [])"

definition merge_snapshots ::
    "(bytes \<Rightarrow> Value option) \<Rightarrow> hash \<Rightarrow> snapshot option \<Rightarrow> snapshot \<Rightarrow> snapshot \<Rightarrow> string option \<Rightarrow> content_store \<Rightarrow>
     loc_index \<Rightarrow> string \<Rightarrow> merge_result" where
  "merge_snapshots dec marker ancestor local remote override cs ix local_peer_id =
     (let base = (case ancestor of Some b \<Rightarrow> b | None \<Rightarrow> [])
      in fold (merge_path dec marker base local remote override cs ix local_peer_id)
           (all_paths base local remote)
           \<lparr>merged_bindings = [], deletions = [], conflicts = [], additional_bindings = []\<rparr>)"

text \<open>The callers of the merge then fold the additional bindings into the merged map.\<close>

definition fold_additional :: "merge_result \<Rightarrow> merge_result" where
  "fold_additional res =
     res\<lparr>merged_bindings := fold (\<lambda>(path, hash). bt_insert path hash) (additional_bindings res) (merged_bindings res),
         additional_bindings := []\<rparr>"

section \<open>Conflict entities\<close>

definition conflict_path :: "string \<Rightarrow> string \<Rightarrow> string \<Rightarrow> string" where
  "conflict_path local_peer_id prefix_hash path =
     ''/'' @ local_peer_id @ ''/system/revision/'' @ prefix_hash @ ''/conflicts/'' @ path"

definition opt_hash_field :: "string \<Rightarrow> hash option \<Rightarrow> (Value \<times> Value) list" where
  "opt_hash_field key h = (case h of None \<Rightarrow> [] | Some h \<Rightarrow> [(text_val key, VBytes (to_bytes h))])"

definition text_field_key :: "Value \<times> Value \<Rightarrow> nat \<times> string" where
  "text_field_key e = (let s = (case fst e of VText s \<Rightarrow> s | _ \<Rightarrow> []) in (length s, s))"

definition conflict_value :: "conflict_info \<Rightarrow> hash option \<Rightarrow> hash \<Rightarrow> hash \<Rightarrow> Value" where
  "conflict_value info supersedes local_version remote_version =
     VMap (sort_key text_field_key
       (opt_hash_field ''base'' (ci_base info) @ opt_hash_field ''local'' (ci_local info) @
        [(text_val ''path'', text_val (ci_path info))] @ opt_hash_field ''remote'' (ci_remote info) @
        [(text_val ''strategy'', text_val (ci_strategy info))] @ opt_hash_field ''supersedes'' supersedes @
        [(text_val ''version_local'', VBytes (to_bytes local_version)),
         (text_val ''version_remote'', VBytes (to_bytes remote_version))]))"

definition store_conflict ::
    "digests \<Rightarrow> u8 \<Rightarrow> string \<Rightarrow> conflict_info \<Rightarrow> hash \<Rightarrow> hash \<Rightarrow> string \<Rightarrow> content_store \<Rightarrow> loc_index \<Rightarrow>
     (EntityError + hash) \<times> content_store \<times> loc_index" where
  "store_conflict D home prefix_hash info local_version remote_version local_peer_id cs ix =
     (let cp = conflict_path local_peer_id prefix_hash (ci_path info);
          supersedes = mli_get cp ix;
          d = to_ecf (conflict_value info supersedes local_version remote_version)
      in case entity_new D home ''system/revision/conflict'' d of
           Inl e \<Rightarrow> (Inl e, cs, ix)
         | Inr e \<Rightarrow>
             (case mcs_put e cs of
                (Inr h, cs') \<Rightarrow> (Inr h, cs', mli_set cp h ix)
              | (Inl (StoreInternal msg), cs') \<Rightarrow> (Inl (InvalidType msg), cs', ix)))"

section \<open>Patterns and specificity\<close>

text \<open>What a valid pattern denotes: its one star stands for any string.\<close>

definition glob_denotes :: "string \<Rightarrow> string \<Rightarrow> bool" where
  "glob_denotes pattern subject \<longleftrightarrow>
     (if CHR ''*'' \<in> set pattern
      then \<exists>a b w. pattern = a @ CHR ''*'' # b \<and> subject = a @ w @ b
      else subject = pattern)"

lemma count_one_split:
  assumes "count_list xs c = 1"
  obtains a b where "xs = a @ c # b" "c \<notin> set a" "c \<notin> set b"
proof -
  from assms have "c \<in> set xs" by (metis count_list_0_iff zero_neq_one)
  then obtain a b where ab: "xs = a @ c # b" "c \<notin> set a" by (meson split_list_first)
  with assms have "c \<notin> set b" by (simp add: count_list_0_iff)
  with ab that show ?thesis by blast
qed

lemma glob_denotes_star:
  assumes "CHR ''*'' \<notin> set a" "CHR ''*'' \<notin> set b"
  shows "glob_denotes (a @ CHR ''*'' # b) s \<longleftrightarrow> (\<exists>w. s = a @ w @ b)"
proof -
  have "a' = a \<and> b' = b" if "a @ CHR ''*'' # b = a' @ CHR ''*'' # b'" for a' b'
    using that assms by (auto simp: append_eq_append_conv2 append_eq_Cons_conv Cons_eq_append_conv)
  then show ?thesis unfolding glob_denotes_def by auto
qed

text \<open>On every pattern the write gate accepts, the matcher decides exactly the denotation of
  the pattern: literal equality without a star, and any string for the single star with one.\<close>

theorem glob_match_correct:
  assumes "valid_exclude_pattern p"
  shows "glob_match p s \<longleftrightarrow> glob_denotes p s"
proof (cases "CHR ''*'' \<in> set p")
  case False
  then show ?thesis
    by (auto simp: glob_match_def glob_denotes_def ends_with_def suffix_def strip_prefix_def prefix_def
        split: option.splits)
next
  case True
  with assms have one: "count_list p CHR ''*'' = 1"
    and shape: "p = ''*'' \<or> ends_with p ''/*'' \<or> starts_with p ''*''"
    by (auto simp: valid_exclude_pattern_def Let_def count_list_0_iff split: if_splits)
  from one obtain a b where p: "p = a @ CHR ''*'' # b" "CHR ''*'' \<notin> set a" "CHR ''*'' \<notin> set b"
    by (rule count_one_split)
  from shape show ?thesis
  proof (elim disjE)
    assume e: "p = ''*''"
    then have "a = []" "b = []" using p by (auto simp: append_eq_Cons_conv Cons_eq_append_conv)
    with e p show ?thesis using glob_denotes_star[of a b s] by (simp add: glob_match_def)
  next
    assume e: "ends_with p ''/*''"
    then obtain z where z: "p = z @ ''/*''" by (auto simp: ends_with_def suffix_def)
    have "a = z @ ''/'' \<and> b = []"
      using z p by (auto simp: append_eq_append_conv2 append_eq_Cons_conv Cons_eq_append_conv)
    with e p show ?thesis using glob_denotes_star[of a b s]
      by (auto simp: glob_match_def starts_with_def prefix_def)
  next
    assume e: "starts_with p ''*''"
    then have a: "a = []" using p by (auto simp: starts_with_def prefix_def append_eq_Cons_conv Cons_eq_append_conv)
    then have "\<not> ends_with p ''/*''"
      using p a by (auto simp: ends_with_def suffix_def Cons_eq_append_conv)
    then show ?thesis using p a glob_denotes_star[of a b s]
      by (auto simp: glob_match_def strip_prefix_def ends_with_def suffix_def)
  qed
qed

theorem glob_match_correct_witness:
  "glob_match ''docs/*'' ''docs/a.md'' \<longleftrightarrow> glob_denotes ''docs/*'' ''docs/a.md''"
  by (rule glob_match_correct) code_simp

lemma more_specific_irrefl: "\<not> more_specific a a"
  by (cases a) (simp add: more_specific_def)

lemma more_specific_total: "a \<noteq> b \<Longrightarrow> more_specific a b \<or> more_specific b a"
  by (cases a; cases b) (auto simp: more_specific_def split: if_splits)

lemma more_specific_trans: "more_specific a b \<Longrightarrow> more_specific b c \<Longrightarrow> more_specific a c"
  by (cases a; cases b; cases c) (auto simp: more_specific_def split: if_splits)

lemma select_best_some: "\<exists>y. select_best cands (Some b) = Some y"
  by (induction cands arbitrary: b) auto

lemma select_best_max:
  "select_best cands (Some b) = Some y \<Longrightarrow>
     y \<in> set (b # cands) \<and> (\<forall>x \<in> set (b # cands). \<not> more_specific (fst x) (fst y))"
proof (induction cands arbitrary: b)
  case Nil
  then show ?case by (simp add: more_specific_irrefl)
next
  case (Cons c cs)
  show ?case
  proof (cases "more_specific (fst c) (fst b)")
    case True
    with Cons.IH[of c] Cons.prems have y: "y \<in> set (c # cs)" "\<forall>x \<in> set (c # cs). \<not> more_specific (fst x) (fst y)"
      by auto
    then have "\<not> more_specific (fst b) (fst y)" using True more_specific_trans[of "fst c" "fst b" "fst y"] by auto
    with y show ?thesis by auto
  next
    case False
    with Cons.IH[of b] Cons.prems have y: "y \<in> set (b # cs)" "\<forall>x \<in> set (b # cs). \<not> more_specific (fst x) (fst y)"
      by auto
    then have "fst y = fst b \<or> more_specific (fst y) (fst b)" using more_specific_total[of "fst y" "fst b"] by auto
    then have "\<not> more_specific (fst c) (fst y)"
      using False more_specific_trans[of "fst c" "fst y" "fst b"] by auto
    with y show ?thesis by auto
  qed
qed

lemma select_best_None_iff: "select_best cands None = None \<longleftrightarrow> cands = []"
proof (cases cands)
  case (Cons c cs)
  then show ?thesis using select_best_some[of cs c] by auto
qed simp

lemma select_best_None_max:
  assumes "select_best cands None = Some y"
  shows "y \<in> set cands \<and> (\<forall>x \<in> set cands. \<not> more_specific (fst x) (fst y))"
proof (cases cands)
  case (Cons c cs)
  with assms show ?thesis using select_best_max[of cs c y] by simp
qed (use assms in simp)

text \<open>The configuration lookup picks the same candidate in whatever order the bindings are
  listed, as long as no two candidates agree in pattern and name: the comparison is a strict total
  order and the pick is its greatest element.\<close>

theorem select_best_order_independent:
  assumes "distinct (map fst cands)" "set cands' = set cands"
  shows "select_best cands' None = select_best cands None"
proof (cases "select_best cands None")
  case None
  with assms(2) show ?thesis by (metis list.set_intros(1) neq_Nil_conv select_best_None_iff set_empty2)
next
  case (Some y)
  then obtain z where z: "select_best cands' None = Some z"
    using assms(2) select_best_None_iff by (metis not_None_eq set_empty2)
  have "fst y = fst z"
    using select_best_None_max[OF Some] select_best_None_max[OF z] assms(2) more_specific_total by metis
  moreover have "inj_on fst (set cands)" using assms(1) by (simp add: distinct_map)
  ultimately have "y = z"
    using select_best_None_max[OF Some] select_best_None_max[OF z] assms(2) by (auto dest: inj_onD)
  with Some z show ?thesis by simp
qed

theorem select_best_order_independent_witness:
  "select_best [(((2, 5), ''docs/*'', ''b''), ThreeWay), (((0, 0), ''*'', ''a''), Manual)] None =
   select_best [(((0, 0), ''*'', ''a''), Manual), (((2, 5), ''docs/*'', ''b''), ThreeWay)] None"
  by (rule select_best_order_independent) (simp, simp add: insert_commute)

section \<open>The merge\<close>

lemma bind_simps [simp]:
  "merged_bindings (bind p h r) = bt_insert p h (merged_bindings r)"
  "deletions (bind p h r) = deletions r" "conflicts (bind p h r) = conflicts r"
  "additional_bindings (bind p h r) = additional_bindings r"
  by (simp_all add: bind_def)

lemma mark_deleted_simps [simp]:
  "merged_bindings (mark_deleted p r) = merged_bindings r" "conflicts (mark_deleted p r) = conflicts r"
  "deletions (mark_deleted p r) = deletions r @ [p]" "additional_bindings (mark_deleted p r) = additional_bindings r"
  by (simp_all add: mark_deleted_def)

lemma add_conflict_simps [simp]:
  "merged_bindings (add_conflict p b l r s res) = merged_bindings res"
  "deletions (add_conflict p b l r s res) = deletions res"
  "conflicts (add_conflict p b l r s res) = conflicts res @
     [\<lparr>ci_path = p, ci_base = b, ci_local = Some l, ci_remote = Some r, ci_strategy = s\<rparr>]"
  "additional_bindings (add_conflict p b l r s res) = additional_bindings res"
  by (simp_all add: add_conflict_def)

text \<open>What one path contributes: the bound value, whether a deletion is recorded, the conflicts, and
  the alternate under which a second version is kept.\<close>

record contribution =
  c_value :: "hash option"
  c_deleted :: bool
  c_conflicts :: "conflict_info list"
  c_additional :: "(string \<times> hash) list"

definition conflict_of :: "string \<Rightarrow> hash option \<Rightarrow> hash \<Rightarrow> hash \<Rightarrow> string \<Rightarrow> conflict_info" where
  "conflict_of p b l r s = \<lparr>ci_path = p, ci_base = b, ci_local = Some l, ci_remote = Some r, ci_strategy = s\<rparr>"

definition alternate_path :: "string \<Rightarrow> hash \<Rightarrow> string" where
  "alternate_path p h = p @ ''.keep-both-'' @ hex_str (take 4 (digest h))"

definition taken :: "hash \<Rightarrow> contribution" where
  "taken h = \<lparr>c_value = Some h, c_deleted = False, c_conflicts = [], c_additional = []\<rparr>"

definition marker_contribution ::
    "DeletionResolution \<Rightarrow> hash \<Rightarrow> string \<Rightarrow> hash option \<Rightarrow> hash \<Rightarrow> hash \<Rightarrow> contribution" where
  "marker_contribution dr marker p b l r =
     (if b = Some l then (taken r)\<lparr>c_deleted := (r = marker)\<rparr>
      else if b = Some r then (taken l)\<lparr>c_deleted := (l = marker)\<rparr>
      else case dr of
             PreserveOnConflict \<Rightarrow> taken (if l = marker then r else l)
           | DeletionWins \<Rightarrow> (taken marker)\<lparr>c_deleted := True\<rparr>
           | ThreeWayFallthrough \<Rightarrow> (taken l)\<lparr>c_conflicts := [conflict_of p b l r ''three-way-fallthrough'']\<rparr>
           | Deterministic \<Rightarrow> (taken (min l r))\<lparr>c_deleted := (min l r = marker)\<rparr>)"

definition edit_contribution ::
    "MergeStrategy \<Rightarrow> string \<Rightarrow> hash option \<Rightarrow> hash \<Rightarrow> hash \<Rightarrow> contribution" where
  "edit_contribution s p b l r =
     (case s of
        SourceWins \<Rightarrow> taken r
      | TargetWins \<Rightarrow> taken l
      | KeepBoth \<Rightarrow> (taken l)\<lparr>c_additional := [(alternate_path p r, r)]\<rparr>
      | ThreeWay \<Rightarrow>
          if b = Some l then taken r else if b = Some r then taken l
          else (taken l)\<lparr>c_conflicts := [conflict_of p b l r ''three-way'']\<rparr>
      | _ \<Rightarrow> (taken l)\<lparr>c_conflicts := [conflict_of p b l r (strategy_as_str s)]\<rparr>)"

definition contribution_of ::
    "(bytes \<Rightarrow> Value option) \<Rightarrow> hash \<Rightarrow> snapshot \<Rightarrow> snapshot \<Rightarrow> snapshot \<Rightarrow> string option \<Rightarrow> content_store \<Rightarrow> loc_index \<Rightarrow>
     string \<Rightarrow> string \<Rightarrow> contribution" where
  "contribution_of dec marker base local remote override cs ix peer p =
     (case (map_of local p, map_of remote p) of
        (None, None) \<Rightarrow> \<lparr>c_value = None, c_deleted = False, c_conflicts = [], c_additional = []\<rparr>
      | (Some l, None) \<Rightarrow> taken l
      | (None, Some r) \<Rightarrow> taken r
      | (Some l, Some r) \<Rightarrow>
          if l = r then taken l
          else if (l = marker) \<noteq> (r = marker)
          then marker_contribution (find_deletion_resolution dec p ix cs peer) marker p (map_of base p) l r
          else edit_contribution (find_merge_strategy dec p override ix cs (Some l) (Some r) peer) p (map_of base p) l r)"

definition contributes :: "contribution \<Rightarrow> string \<Rightarrow> merge_result \<Rightarrow> merge_result \<Rightarrow> bool" where
  "contributes c p res res' \<longleftrightarrow>
     merged_bindings res' = (case c_value c of None \<Rightarrow> merged_bindings res | Some h \<Rightarrow> bt_insert p h (merged_bindings res)) \<and>
     deletions res' = deletions res @ (if c_deleted c then [p] else []) \<and>
     conflicts res' = conflicts res @ c_conflicts c \<and>
     additional_bindings res' = additional_bindings res @ c_additional c"

lemma taken_simps [simp]:
  "c_value (taken h) = Some h" "\<not> c_deleted (taken h)" "c_conflicts (taken h) = []" "c_additional (taken h) = []"
  by (simp_all add: taken_def)

lemma merge_marker_contributes:
  "l \<noteq> r \<Longrightarrow> (l = marker) \<noteq> (r = marker) \<Longrightarrow>
     contributes (marker_contribution dr marker p b l r) p res (merge_marker dr marker p b l r res)"
  by (auto simp: contributes_def marker_contribution_def merge_marker_def Let_def conflict_of_def min_def
      split: DeletionResolution.splits)

lemma merge_edits_contributes:
  "contributes (edit_contribution s p b l r) p res (merge_edits s p b l r res)"
  by (cases s) (simp_all add: contributes_def edit_contribution_def merge_edits_def conflict_of_def alternate_path_def)

lemma merge_path_contributes:
  "contributes (contribution_of dec marker base local remote override cs ix peer p) p res
     (merge_path dec marker base local remote override cs ix peer p res)"
  unfolding contribution_of_def merge_path_def
  by (simp add: merge_marker_contributes merge_edits_contributes split: option.split)
     (simp add: contributes_def)

lemma fold_contributes:
  assumes "\<And>p res. contributes (C p) p res (f p res)" "distinct ps"
    and "bt_wf (merged_bindings res)"
    and "fold f ps res = res'"
  shows "bt_wf (merged_bindings res') \<and>
     map_of (merged_bindings res') =
       (\<lambda>p. if p \<in> set ps \<and> c_value (C p) \<noteq> None then c_value (C p) else map_of (merged_bindings res) p) \<and>
     deletions res' = deletions res @ filter (\<lambda>p. c_deleted (C p)) ps \<and>
     conflicts res' = conflicts res @ concat (map (\<lambda>p. c_conflicts (C p)) ps) \<and>
     additional_bindings res' = additional_bindings res @ concat (map (\<lambda>p. c_additional (C p)) ps)"
  using assms(2-)
proof (induction ps arbitrary: res)
  case (Cons p ps)
  let ?r = "f p res"
  have c: "contributes (C p) p res ?r" by (rule assms(1))
  then have w: "bt_wf (merged_bindings ?r)"
    using Cons.prems(2) by (simp add: contributes_def split: option.splits)
  have "map_of (merged_bindings ?r) = (map_of (merged_bindings res))(p := (if c_value (C p) = None then map_of (merged_bindings res) p else c_value (C p)))"
    using c Cons.prems(2) by (auto simp: contributes_def bt_simps split: option.splits)
  with Cons.IH[of ?r] Cons.prems w c show ?case
    by (auto simp: contributes_def fun_eq_iff)
qed simp

lemma fold_nub_gen:
  "distinct acc \<Longrightarrow> (let r = fold (\<lambda>p acc. if p \<in> set acc then acc else acc @ [p]) xs acc
     in distinct r \<and> set r = set acc \<union> set xs)"
  by (induction xs arbitrary: acc) (simp_all add: Let_def insert_absorb)

lemma all_paths_props:
  "distinct (all_paths base local remote)" "sorted (all_paths base local remote)"
  "set (all_paths base local remote) = dom (map_of base) \<union> dom (map_of local) \<union> dom (map_of remote)"
  using fold_nub_gen[of "[]" "map fst base @ map fst local @ map fst remote"]
  by (auto simp: all_paths_def Let_def dom_map_of_conv_image_fst)

lemma contribution_value:
  "c_value (contribution_of dec marker base local remote override cs ix peer p) = None \<longleftrightarrow>
     map_of local p = None \<and> map_of remote p = None"
  "c_value (contribution_of dec marker base local remote override cs ix peer p) = Some h \<Longrightarrow>
     map_of local p = Some h \<or> map_of remote p = Some h"
  by (auto simp: contribution_of_def marker_contribution_def edit_contribution_def min_def
      split: option.splits if_splits DeletionResolution.splits MergeStrategy.splits)

lemma contribution_deleted:
  "c_deleted (contribution_of dec marker base local remote override cs ix peer p) \<Longrightarrow>
     c_value (contribution_of dec marker base local remote override cs ix peer p) = Some marker \<and>
     map_of local p \<noteq> map_of remote p"
  by (auto simp: contribution_of_def marker_contribution_def edit_contribution_def
      split: option.splits if_splits DeletionResolution.splits MergeStrategy.splits)

lemma contribution_conflicts:
  assumes "c \<in> set (c_conflicts (contribution_of dec marker base local remote override cs ix peer p))"
  shows "c_conflicts (contribution_of dec marker base local remote override cs ix peer p) = [c]"
    "ci_path c = p" "ci_base c = map_of base p" "ci_local c = map_of local p" "ci_remote c = map_of remote p"
    "ci_local c \<noteq> None" "ci_remote c \<noteq> None" "ci_local c \<noteq> ci_remote c"
    "c_value (contribution_of dec marker base local remote override cs ix peer p) = ci_local c"
  using assms
  by (auto simp: contribution_of_def marker_contribution_def edit_contribution_def conflict_of_def
      split: option.splits if_splits DeletionResolution.splits MergeStrategy.splits)

text \<open>The paths at which both versions are kept: both sides bind them to different versions, neither
  of them a deletion, and the strategy is to keep both.\<close>

definition keeps_both ::
    "(bytes \<Rightarrow> Value option) \<Rightarrow> hash \<Rightarrow> snapshot \<Rightarrow> snapshot \<Rightarrow> string option \<Rightarrow> content_store \<Rightarrow> loc_index \<Rightarrow> string \<Rightarrow>
     string \<Rightarrow> hash \<Rightarrow> hash \<Rightarrow> bool" where
  "keeps_both dec marker local remote override cs ix peer p l r \<longleftrightarrow>
     map_of local p = Some l \<and> map_of remote p = Some r \<and> l \<noteq> r \<and> l \<noteq> marker \<and> r \<noteq> marker \<and>
     find_merge_strategy dec p override ix cs (Some l) (Some r) peer = KeepBoth"

lemma contribution_additional:
  "(q, h) \<in> set (c_additional (contribution_of dec marker base local remote override cs ix peer p)) \<longleftrightarrow>
     (\<exists>l. keeps_both dec marker local remote override cs ix peer p l h \<and> q = alternate_path p h)"
  "keeps_both dec marker local remote override cs ix peer p l h \<Longrightarrow>
     c_value (contribution_of dec marker base local remote override cs ix peer p) = Some l \<and>
     c_conflicts (contribution_of dec marker base local remote override cs ix peer p) = []"
  by (auto simp: contribution_of_def marker_contribution_def edit_contribution_def keeps_both_def
      split: option.splits if_splits DeletionResolution.splits MergeStrategy.splits)

lemma fold_bt_insert:
  assumes "bt_wf m"
  shows "bt_wf (fold (\<lambda>(p, h). bt_insert p h) xs m)"
    "map_of (fold (\<lambda>(p, h). bt_insert p h) xs m) = map_of m ++ map_of (rev xs)"
  using assms by (induction xs arbitrary: m) (auto simp: bt_simps)

lemma concat_singletons_distinct:
  assumes "distinct ps" "\<And>p c. c \<in> set (f p) \<Longrightarrow> f p = [c] \<and> k c = p"
  shows "distinct (map k (concat (map f ps)))"
  using assms(1)
proof (induction ps)
  case (Cons p ps)
  have "k ` set (f p) \<inter> k ` set (concat (map f ps)) = {}"
    using Cons.prems assms(2) by (auto simp: image_iff)
  moreover have "distinct (map k (f p))"
  proof (cases "f p")
    case (Cons c cs)
    then show ?thesis using assms(2)[of c p] by simp
  qed simp
  ultimately show ?case using Cons by simp
qed simp

lemma merge_snapshots_pointwise:
  assumes "base = (case ancestor of Some b \<Rightarrow> b | None \<Rightarrow> [])"
    and "C = contribution_of dec marker base local remote override cs ix peer"
    and "R = merge_snapshots dec marker ancestor local remote override cs ix peer"
  shows "bt_wf (merged_bindings R)" "map_of (merged_bindings R) p = c_value (C p)"
    "deletions R = filter (\<lambda>p. c_deleted (C p)) (all_paths base local remote)"
    "conflicts R = concat (map (\<lambda>p. c_conflicts (C p)) (all_paths base local remote))"
    "additional_bindings R = concat (map (\<lambda>p. c_additional (C p)) (all_paths base local remote))"
proof -
  have "R = fold (merge_path dec marker base local remote override cs ix peer) (all_paths base local remote)
      \<lparr>merged_bindings = [], deletions = [], conflicts = [], additional_bindings = []\<rparr>"
    unfolding assms(1,3) merge_snapshots_def Let_def ..
  from fold_contributes[OF merge_path_contributes all_paths_props(1) _ this[symmetric]]
  have *: "bt_wf (merged_bindings R) \<and> map_of (merged_bindings R) =
       (\<lambda>p. if p \<in> set (all_paths base local remote) \<and> c_value (C p) \<noteq> None then c_value (C p) else None) \<and>
     deletions R = filter (\<lambda>p. c_deleted (C p)) (all_paths base local remote) \<and>
     conflicts R = concat (map (\<lambda>p. c_conflicts (C p)) (all_paths base local remote)) \<and>
     additional_bindings R = concat (map (\<lambda>p. c_additional (C p)) (all_paths base local remote))"
    unfolding assms(2) by (simp cong: if_cong)
  show "bt_wf (merged_bindings R)"
    "deletions R = filter (\<lambda>p. c_deleted (C p)) (all_paths base local remote)"
    "conflicts R = concat (map (\<lambda>p. c_conflicts (C p)) (all_paths base local remote))"
    "additional_bindings R = concat (map (\<lambda>p. c_additional (C p)) (all_paths base local remote))"
    using * by blast+
  have "c_value (C p) = None" if "p \<notin> set (all_paths base local remote)"
    using that by (auto simp: assms(2) contribution_value(1) all_paths_props(3) domIff)
  then show "map_of (merged_bindings R) p = c_value (C p)" using * by auto
qed

text \<open>C35. A merge loses no path and invents no binding beyond the kept-both alternates: the merged
  snapshot is a well-formed map over exactly the paths of the two sides, every value comes from one
  of them, a path listed as deleted is bound to the deletion marker, and there is at most one conflict
  per path, recorded with the three versions it has and only where both sides are bound and differ;
  the local version stays bound there.  The additional bindings are exactly the alternates of the
  paths whose strategy is to keep both: the remote version under the path with the suffix
  \<open>.keep-both-\<close> and four bytes of its hash, while the local version stays bound at the path itself.
  Folding them in, as the callers do, binds every alternate to a version that is kept there and
  changes no other path.\<close>

theorem merge_snapshots_correct:
  assumes "base = (case ancestor of Some b \<Rightarrow> b | None \<Rightarrow> [])"
    and R: "R = merge_snapshots dec marker ancestor local remote override cs ix peer"
  shows "bt_wf (merged_bindings R) \<and>
    (\<forall>p. map_of (merged_bindings R) p = None \<longleftrightarrow> map_of local p = None \<and> map_of remote p = None) \<and>
    (\<forall>p h. map_of (merged_bindings R) p = Some h \<longrightarrow> map_of local p = Some h \<or> map_of remote p = Some h) \<and>
    (\<forall>p \<in> set (deletions R). map_of (merged_bindings R) p = Some marker \<and> map_of local p \<noteq> map_of remote p) \<and>
    distinct (map ci_path (conflicts R)) \<and>
    (\<forall>c \<in> set (conflicts R).
       ci_base c = map_of base (ci_path c) \<and> ci_local c = map_of local (ci_path c) \<and>
       ci_remote c = map_of remote (ci_path c) \<and> ci_local c \<noteq> None \<and> ci_remote c \<noteq> None \<and>
       ci_local c \<noteq> ci_remote c \<and> map_of (merged_bindings R) (ci_path c) = ci_local c) \<and>
    (\<forall>q h. (q, h) \<in> set (additional_bindings R) \<longleftrightarrow>
       (\<exists>p l. keeps_both dec marker local remote override cs ix peer p l h \<and>
          q = p @ ''.keep-both-'' @ hex_str (take 4 (digest h)))) \<and>
    (\<forall>p l h. keeps_both dec marker local remote override cs ix peer p l h \<longrightarrow>
       map_of (merged_bindings R) p = Some l \<and> p \<notin> ci_path ` set (conflicts R)) \<and>
    (\<forall>q. map_of (merged_bindings (fold_additional R)) q =
       (if q \<in> fst ` set (additional_bindings R) then map_of (rev (additional_bindings R)) q
        else map_of (merged_bindings R) q))"
proof -
  define C where "C = contribution_of dec marker base local remote override cs ix peer"
  note pw = merge_snapshots_pointwise[OF assms(1) C_def R]
  have v: "\<forall>p. map_of (merged_bindings R) p = None \<longleftrightarrow> map_of local p = None \<and> map_of remote p = None"
    "\<forall>p h. map_of (merged_bindings R) p = Some h \<longrightarrow> map_of local p = Some h \<or> map_of remote p = Some h"
    using contribution_value by (simp_all add: pw(2) C_def)
  have d: "\<forall>p \<in> set (deletions R). map_of (merged_bindings R) p = Some marker \<and> map_of local p \<noteq> map_of remote p"
    using contribution_deleted[of dec marker base local remote override cs ix peer] by (auto simp: pw(2) pw(3) C_def)
  have c1: "distinct (map ci_path (conflicts R))"
    unfolding pw(4) using contribution_conflicts(1,2)
    by (intro concat_singletons_distinct all_paths_props(1)) (simp add: C_def)
  have c2: "ci_base c = map_of base (ci_path c) \<and> ci_local c = map_of local (ci_path c) \<and>
       ci_remote c = map_of remote (ci_path c) \<and> ci_local c \<noteq> None \<and> ci_remote c \<noteq> None \<and>
       ci_local c \<noteq> ci_remote c \<and> map_of (merged_bindings R) (ci_path c) = ci_local c"
    if "c \<in> set (conflicts R)" for c
  proof -
    from that obtain p where "c \<in> set (c_conflicts (C p))" by (auto simp: pw(4))
    from contribution_conflicts[OF this[unfolded C_def]] show ?thesis by (simp add: pw(2) C_def)
  qed
  have a1: "(q, h) \<in> set (additional_bindings R) \<longleftrightarrow>
       (\<exists>p l. keeps_both dec marker local remote override cs ix peer p l h \<and>
          q = p @ ''.keep-both-'' @ hex_str (take 4 (digest h)))" for q h
  proof -
    have "p \<in> set (all_paths base local remote)"
      if "keeps_both dec marker local remote override cs ix peer p l h" for p l
      using that by (auto simp: keeps_both_def all_paths_props(3))
    then show ?thesis
      by (auto simp: pw(5) C_def contribution_additional(1) alternate_path_def)
  qed
  have a2: "map_of (merged_bindings R) p = Some l \<and> p \<notin> ci_path ` set (conflicts R)"
    if k: "keeps_both dec marker local remote override cs ix peer p l h" for p l h
  proof -
    have "c_conflicts (C p) = []" and "c_value (C p) = Some l"
      using contribution_additional(2)[OF k, of base] by (simp_all add: C_def)
    moreover have "ci_path c = q" if "c \<in> set (c_conflicts (C q))" for c q
      using contribution_conflicts(2)[OF that[unfolded C_def]] .
    ultimately show ?thesis by (force simp: pw(2) pw(4))
  qed
  have a3: "map_of (merged_bindings (fold_additional R)) q =
       (if q \<in> fst ` set (additional_bindings R) then map_of (rev (additional_bindings R)) q
        else map_of (merged_bindings R) q)" for q
    by (auto simp: fold_additional_def fold_bt_insert(2)[OF pw(1)] map_add_def map_of_eq_None_iff
        split: option.split dest!: map_of_SomeD) force+
  from pw(1) v d c1 c2 a1 a2 a3 show ?thesis by blast
qed

theorem merge_snapshots_correct_witness:
  "let m = Hash 0 [0]; base = [(''a'', Hash 0 [1]), (''b'', Hash 0 [2])];
       local = [(''a'', Hash 0 [3]), (''b'', m)]; remote = [(''a'', Hash 0 [4, 0, 0, 0]), (''b'', Hash 0 [2]), (''c'', Hash 0 [5])];
       R = merge_snapshots (\<lambda>_. None) m (Some base) local remote None [] [] ''P'';
       K = merge_snapshots (\<lambda>_. None) m (Some base) local remote (Some ''keep-both'') [] [] ''P''
   in merged_bindings R = [(''a'', Hash 0 [3]), (''b'', m), (''c'', Hash 0 [5])] \<and> deletions R = [''b''] \<and>
      map ci_path (conflicts R) = [''a''] \<and>
      (\<forall>p \<in> set (deletions R). map_of (merged_bindings R) p = Some m \<and> map_of local p \<noteq> map_of remote p) \<and>
      additional_bindings K = [(''a.keep-both-04000000'', Hash 0 [4, 0, 0, 0])] \<and> conflicts K = [] \<and>
      map_of (merged_bindings (fold_additional K)) ''a'' = Some (Hash 0 [3])"
proof -
  let ?m = "Hash 0 [0]" and ?base = "[(''a'', Hash 0 [1]), (''b'', Hash 0 [2])]"
    and ?l = "[(''a'', Hash 0 [3]), (''b'', Hash 0 [0])]"
    and ?r = "[(''a'', Hash 0 [4, 0, 0, 0]), (''b'', Hash 0 [2]), (''c'', Hash 0 [5])]"
  let ?R = "merge_snapshots (\<lambda>_. None) ?m (Some ?base) ?l ?r None [] [] ''P''"
  let ?K = "merge_snapshots (\<lambda>_. None) ?m (Some ?base) ?l ?r (Some ''keep-both'') [] [] ''P''"
  have "merged_bindings ?R = [(''a'', Hash 0 [3]), (''b'', ?m), (''c'', Hash 0 [5])]" "deletions ?R = [''b'']"
    "map ci_path (conflicts ?R) = [''a'']"
    by code_simp+
  moreover have "\<forall>p \<in> set (deletions ?R). map_of (merged_bindings ?R) p = Some ?m \<and> map_of ?l p \<noteq> map_of ?r p"
    by (rule merge_snapshots_correct[OF refl refl, THEN conjunct2, THEN conjunct2, THEN conjunct2, THEN conjunct1])
  moreover have K: "additional_bindings ?K = [(''a.keep-both-04000000'', Hash 0 [4, 0, 0, 0])]" "conflicts ?K = []"
    "merged_bindings ?K = [(''a'', Hash 0 [3]), (''b'', ?m), (''c'', Hash 0 [5])]"
    by code_simp+
  moreover have "map_of (merged_bindings (fold_additional ?K)) ''a'' = Some (Hash 0 [3])"
    using merge_snapshots_correct[OF refl refl, THEN conjunct2, THEN conjunct2, THEN conjunct2, THEN conjunct2,
        THEN conjunct2, THEN conjunct2, THEN conjunct2, THEN conjunct2, THEN spec,
        of "\<lambda>_. None" ?m "Some ?base" ?l ?r "Some ''keep-both''" "[]" "[]" "''P''" "''a''"]
    by (simp add: K)
  ultimately show ?thesis by (simp only: Let_def)
qed

text \<open>The alternate is not checked against the paths that exist: a version that already stands at it
  on both sides is replaced, no conflict is recorded, and the merged snapshot no longer holds it.\<close>

theorem keep_both_overwrites:
  "let local = [(''a'', Hash 0 [3]), (''a.keep-both-04000000'', Hash 0 [9])];
       remote = [(''a'', Hash 0 [4, 0, 0, 0]), (''a.keep-both-04000000'', Hash 0 [9])];
       R = fold_additional (merge_snapshots (\<lambda>_. None) (Hash 0 [0]) None local remote (Some ''keep-both'') [] [] ''P'')
   in merged_bindings R = [(''a'', Hash 0 [3]), (''a.keep-both-04000000'', Hash 0 [4, 0, 0, 0])] \<and> conflicts R = [] \<and>
      deletions R = []"
  by code_simp

text \<open>C36. The three-way rule on a path that both sides bind to entities, with the default strategy:
  equal sides and a side equal to the base merge without a conflict to the changed side, and two
  different changes keep the local one and record exactly one conflict.\<close>

theorem three_way_rule:
  assumes "map_of local p = Some l" "map_of remote p = Some r" "l \<noteq> marker" "r \<noteq> marker"
    and "find_merge_strategy dec p override ix cs (Some l) (Some r) peer = ThreeWay"
    and R: "R = merge_snapshots dec marker (Some base) local remote override cs ix peer"
  shows "map_of (merged_bindings R) p = Some (if map_of base p = Some l then r else l) \<and>
    filter (\<lambda>c. ci_path c = p) (conflicts R) =
      (if l = r \<or> map_of base p = Some l \<or> map_of base p = Some r then []
       else [\<lparr>ci_path = p, ci_base = map_of base p, ci_local = Some l, ci_remote = Some r, ci_strategy = ''three-way''\<rparr>])"
proof -
  define C where "C = contribution_of dec marker base local remote override cs ix peer"
  note pw = merge_snapshots_pointwise[OF _ C_def R, simplified]
  have Cp: "C p = (if l = r then taken l
       else if map_of base p = Some l then taken r else if map_of base p = Some r then taken l
       else (taken l)\<lparr>c_conflicts := [conflict_of p (map_of base p) l r ''three-way'']\<rparr>)"
    using assms(1-5) by (simp add: C_def contribution_of_def edit_contribution_def)
  have "filter (\<lambda>c. ci_path c = p) (concat (map (\<lambda>q. c_conflicts (C q)) qs)) =
      (if p \<in> set qs then c_conflicts (C p) else [])" if "distinct qs" for qs
    using that
  proof (induction qs)
    case (Cons q qs)
    have "filter (\<lambda>c. ci_path c = p) (c_conflicts (C q)) = (if q = p then c_conflicts (C p) else [])"
      using contribution_conflicts(2)[of _ dec marker base local remote override cs ix peer q]
      by (auto simp: C_def[symmetric] filter_empty_conv filter_id_conv)
    with Cons show ?case by auto
  qed simp
  moreover have "p \<in> set (all_paths base local remote)"
    using assms(1) by (auto simp: all_paths_props)
  ultimately show ?thesis
    using all_paths_props(1)[of base local remote] by (simp add: pw(2,4) Cp conflict_of_def)
qed

theorem three_way_rule_witness:
  "map_of (merged_bindings (merge_snapshots (\<lambda>_. None) (Hash 0 [0]) (Some [(''a'', Hash 0 [1])])
     [(''a'', Hash 0 [1])] [(''a'', Hash 0 [2])] None [] [] ''P'')) ''a'' = Some (Hash 0 [2])"
proof -
  have "find_merge_strategy (\<lambda>_. None) ''a'' None [] [] (Some (Hash 0 [1])) (Some (Hash 0 [2])) ''P'' = ThreeWay"
    by code_simp
  from three_way_rule[OF _ _ _ _ this refl, of "[(''a'', Hash 0 [1])]" "[(''a'', Hash 0 [2])]" "Hash 0 [0]" "[(''a'', Hash 0 [1])]"]
  show ?thesis by simp
qed

end
