(* ===== verification/Trie_Node.thy ===== *)
theory Trie_Node
  imports Store_Model "HOL-Library.Word"
begin

text \<open>
  Nodes of the snapshot trie (\<^verbatim>\<open>core/tree/src/trie.rs\<close>): a bitmap of occupied positions and the
  dense array of the entries at them, their ECF form, and the bit slices of the key hash that
  address them.  The \<^verbatim>\<open>&dyn ContentStore\<close> the trie functions take is a record of the two operations
  they call; indexing out of bounds, which panics in the code, is the error \<open>TriePanic\<close>.
\<close>

unbundle bit_operations_syntax

section \<open>Nodes\<close>

definition TYPE_TREE_SNAPSHOT_NODE :: string where "TYPE_TREE_SNAPSHOT_NODE = ''system/tree/snapshot/node''"
definition BIT_WIDTH :: nat where "BIT_WIDTH = 5"
definition K :: nat where "K = push_bit BIT_WIDTH 1"
definition BUCKET_SIZE :: nat where "BUCKET_SIZE = 3"
definition BITMAP_BYTES :: nat where "BITMAP_BYTES = K div 8"

datatype Entry = Bucket "(string \<times> hash) list" | Link hash

record snapshot_node =
  sn_map :: u32
  sn_data :: "Entry list"

definition node_empty :: snapshot_node where
  "node_empty = \<lparr>sn_map = 0, sn_data = []\<rparr>"

definition tuple_value :: "string \<times> hash \<Rightarrow> Value" where
  "tuple_value t = VArray [text_val (fst t), VBytes (to_bytes (snd t))]"

fun entry_value :: "Entry \<Rightarrow> Value" where
  "entry_value (Bucket tuples) = VArray (map tuple_value tuples)"
| "entry_value (Link h) = VBytes (to_bytes h)"

definition node_value :: "snapshot_node \<Rightarrow> Value" where
  "node_value n =
     VMap [(text_val ''map'', VBytes (be_bytes BITMAP_BYTES (unat (sn_map n)))),
           (text_val ''data'', VArray (map entry_value (sn_data n)))]"

definition to_ecf_bytes :: "snapshot_node \<Rightarrow> bytes" where
  "to_ecf_bytes n = to_ecf (node_value n)"

text \<open>Decoding gives up at the first malformed part.\<close>

fun decode_tuples :: "Value list \<Rightarrow> (string \<times> hash) list option" where
  "decode_tuples [] = Some []"
| "decode_tuples (v # vs) =
     (case as_array v of
        Some [a, b] \<Rightarrow>
          (case (as_str a, as_bytes b) of
             (Some key, Some bs) \<Rightarrow>
               (case from_bytes bs of
                  Inr h \<Rightarrow> map_option (\<lambda>ts. (key, h) # ts) (decode_tuples vs)
                | Inl _ \<Rightarrow> None)
           | _ \<Rightarrow> None)
      | _ \<Rightarrow> None)"

definition decode_entry :: "Value \<Rightarrow> Entry option" where
  "decode_entry item =
     (case as_array item of
        Some item_arr \<Rightarrow> map_option Bucket (decode_tuples item_arr)
      | None \<Rightarrow>
          (case as_bytes item of
             Some b \<Rightarrow> (case from_bytes b of Inr h \<Rightarrow> Some (Link h) | Inl _ \<Rightarrow> None)
           | None \<Rightarrow> None))"

fun decode_entries :: "Value list \<Rightarrow> Entry list option" where
  "decode_entries [] = Some []"
| "decode_entries (v # vs) =
     (case decode_entry v of
        None \<Rightarrow> None
      | Some e \<Rightarrow> map_option (\<lambda>es. e # es) (decode_entries vs))"

fun node_fields ::
    "(Value \<times> Value) list \<Rightarrow> u32 option \<Rightarrow> Entry list option \<Rightarrow> (u32 option \<times> Entry list option) option" where
  "node_fields [] bitmap entries = Some (bitmap, entries)"
| "node_fields ((k, v) # rest) bitmap entries =
     (case as_str k of
        None \<Rightarrow> None
      | Some s \<Rightarrow>
          if s = ''map'' then
            (case as_bytes v of
               None \<Rightarrow> None
             | Some b \<Rightarrow>
                 if length b \<noteq> BITMAP_BYTES then None
                 else node_fields rest (Some (word_of_nat (from_be_bytes b))) entries)
          else if s = ''data'' then
            (case as_array v of
               None \<Rightarrow> None
             | Some arr \<Rightarrow>
                 (case decode_entries arr of
                    None \<Rightarrow> None
                  | Some out \<Rightarrow> node_fields rest bitmap (Some out)))
          else node_fields rest bitmap entries)"

definition node_from_cbor :: "(bytes \<Rightarrow> Value option) \<Rightarrow> bytes \<Rightarrow> snapshot_node option" where
  "node_from_cbor dec d =
     (case dec d of
        None \<Rightarrow> None
      | Some v \<Rightarrow>
          (case as_map v of
             None \<Rightarrow> None
           | Some m \<Rightarrow>
               (case node_fields m None None of
                  Some (Some bitmap, Some entries) \<Rightarrow> Some \<lparr>sn_map = bitmap, sn_data = entries\<rparr>
                | _ \<Rightarrow> None)))"

section \<open>Addressing\<close>

definition key_hash :: "digests \<Rightarrow> string \<Rightarrow> bytes" where
  "key_hash D key = sha256 D (str_bytes key)"

text \<open>The five bits of a level, most significant first; \<open>None\<close> when the hash has no such byte.\<close>

definition bit_slice_at :: "bytes \<Rightarrow> nat \<Rightarrow> u32 option" where
  "bit_slice_at hash_bytes level =
     (let bit_offset = level * BIT_WIDTH;
          byte_offset = bit_offset div 8;
          bit_in_byte = bit_offset mod 8
      in if 32 \<le> byte_offset then None
         else
           let b0 = ucast (hash_bytes ! byte_offset) :: u32;
               b1 = (if byte_offset + 1 < 32 then ucast (hash_bytes ! (byte_offset + 1)) else 0) :: u32;
               combined = push_bit 8 b0 OR b1;
               shift = 16 - bit_in_byte - BIT_WIDTH
           in Some (drop_bit shift combined AND 0x1F))"

definition count_ones :: "u32 \<Rightarrow> nat" where
  "count_ones w = length (filter (bit w) [0..<32])"

definition position :: "u32 \<Rightarrow> u32 \<Rightarrow> bool \<times> nat" where
  "position m p =
     (let bit_set = (drop_bit (unat p) m AND 1 = 1);
          mask = (if p = 0 then 0 else push_bit (unat p) 1 - 1);
          idx = count_ones (m AND mask)
      in (bit_set, idx))"

section \<open>Stores behind the trait\<close>

record 's content_ops =
  co_get :: "hash \<Rightarrow> 's \<Rightarrow> entity option"
  co_put :: "entity \<Rightarrow> 's \<Rightarrow> (StoreError + hash) \<times> 's"

definition mem_ops :: "content_store content_ops" where
  "mem_ops = \<lparr>co_get = mcs_get, co_put = mcs_put\<rparr>"

datatype trie_error = TrieErr string | TriePanic

definition load_trie_node :: "(bytes \<Rightarrow> Value option) \<Rightarrow> 's content_ops \<Rightarrow> 's \<Rightarrow> hash \<Rightarrow> snapshot_node option" where
  "load_trie_node dec ops s h =
     (case co_get ops h s of None \<Rightarrow> None | Some e \<Rightarrow> node_from_cbor dec (data e))"

text \<open>The constant part of an entity error's message.\<close>

definition entity_error_text :: "EntityError \<Rightarrow> string" where
  "entity_error_text e =
     (case e of InvalidType s \<Rightarrow> s | EntityHashMismatch _ _ \<Rightarrow> ''hash mismatch'' | MissingField s \<Rightarrow> s | InvalidUri s \<Rightarrow> s)"

definition store_trie_node ::
    "digests \<Rightarrow> u8 \<Rightarrow> 's content_ops \<Rightarrow> 's \<Rightarrow> snapshot_node \<Rightarrow> (trie_error + hash) \<times> 's" where
  "store_trie_node D home ops s n =
     (case entity_new D home TYPE_TREE_SNAPSHOT_NODE (to_ecf_bytes n) of
        Inl e \<Rightarrow> (Inl (TrieErr (entity_error_text e)), s)
      | Inr e \<Rightarrow>
          (case co_put ops e s of
             (Inl (StoreInternal msg), s') \<Rightarrow> (Inl (TrieErr msg), s')
           | (Inr h, s') \<Rightarrow> (Inr h, s')))"

section \<open>Round trip of nodes\<close>

fun entry_ok :: "Entry \<Rightarrow> bool" where
  "entry_ok (Bucket tuples) \<longleftrightarrow> (\<forall>t \<in> set tuples. hash_ok (snd t))"
| "entry_ok (Link h) \<longleftrightarrow> hash_ok h"

definition node_ok :: "snapshot_node \<Rightarrow> bool" where
  "node_ok n \<longleftrightarrow> (\<forall>e \<in> set (sn_data n). entry_ok e)"

lemma trie_consts: "BIT_WIDTH = 5" "K = 32" "BUCKET_SIZE = 3" "BITMAP_BYTES = 4"
  by (simp_all add: BIT_WIDTH_def K_def BUCKET_SIZE_def BITMAP_BYTES_def)

lemma canon_tuple: "canon (tuple_value t) = tuple_value t"
  by (simp add: tuple_value_def text_val_def)

lemma canon_entry: "canon (entry_value e) = entry_value e"
  by (cases e) (simp_all add: canon_tuple comp_def)

lemma canon_node_value: "canon (node_value n) = node_value n"
proof -
  have "length (encode_value (VText ''map'')) = 4" "length (encode_value (VText ''data'')) = 5"
    by (simp_all add: encode_cbor_text_def encode_head_def)
  then have "key_order (VText ''map'', v) < key_order (VText ''data'', w)" for v w
    by (simp add: key_order_def del: encode_value.simps)
  then show ?thesis
    by (simp add: node_value_def text_val_def canon_entry comp_def less_imp_le)
qed

lemma decode_tuples_value: "(\<forall>t \<in> set ts. hash_ok (snd t)) \<Longrightarrow> decode_tuples (map tuple_value ts) = Some ts"
  by (induction ts) (auto simp: tuple_value_def as_array_def text_val_def as_str_def as_bytes_def from_to_bytes)

lemma decode_entry_value: "entry_ok e \<Longrightarrow> decode_entry (entry_value e) = Some e"
  by (cases e) (simp_all add: decode_entry_def as_array_def as_bytes_def decode_tuples_value from_to_bytes)

lemma decode_entries_value: "(\<forall>e \<in> set es. entry_ok e) \<Longrightarrow> decode_entries (map entry_value es) = Some es"
  by (induction es) (simp_all add: decode_entry_value)

lemma node_roundtrip:
  assumes "node_ok n" "dec (to_ecf_bytes n) = Some (canon (node_value n))"
  shows "node_from_cbor dec (to_ecf_bytes n) = Some n"
proof -
  have "word_of_nat (from_be_bytes (be_bytes 4 (unat (sn_map n)))) = sn_map n"
    using unsigned_less[of "sn_map n", where 'a = nat] by (simp add: from_be_bytes_be_bytes)
  then show ?thesis
    using assms unfolding node_from_cbor_def canon_node_value
    by (simp add: node_value_def as_map_def text_val_def as_str_def as_bytes_def as_array_def trie_consts
        decode_entries_value node_ok_def)
qed

section \<open>Bit slices determine the hash\<close>

text \<open>The bits of a byte sequence in reading order.\<close>

definition bit_at :: "bytes \<Rightarrow> nat \<Rightarrow> bool" where
  "bit_at bs j = bit (bs ! (j div 8)) (7 - j mod 8)"

lemma bit_slice_at_None: "bit_slice_at h L = None \<longleftrightarrow> 52 \<le> L"
  by (auto simp: bit_slice_at_def Let_def trie_consts split: if_splits)

lemma bit_slice_bits:
  assumes "L < 52" "t < 5"
  shows "bit (the (bit_slice_at h L)) t \<longleftrightarrow> 5 * L + 4 - t < 256 \<and> bit_at h (5 * L + 4 - t)"
proof -
  define bo where "bo = 5 * L div 8"
  define bi where "bi = 5 * L mod 8"
  have L: "5 * L = 8 * bo + bi" "bi < 8" by (simp_all add: bo_def bi_def)
  have bo: "bo < 32" using assms(1) by (simp add: bo_def)
  have mask: "bit (0x1F :: u32) n \<longleftrightarrow> n < 5" for n
  proof -
    have "bit (0x1F :: u32) n = bit (mask 5 :: u32) n" by (simp add: mask_eq_exp_minus_1)
    also have "\<dots> \<longleftrightarrow> n < 5" unfolding bit_mask_iff by auto
    finally show ?thesis .
  qed
  define n where "n = 11 - bi + t"
  have sl: "the (bit_slice_at h L) = drop_bit (11 - bi) (push_bit 8 (ucast (h ! bo)) OR (if bo + 1 < 32 then ucast (h ! (bo + 1)) else 0)) AND 0x1F"
    using bo by (simp add: bit_slice_at_def Let_def trie_consts bo_def bi_def mult.commute)
  have n16: "n < 16" using assms(2) L(2) by (simp add: n_def)
  have b: "bit (the (bit_slice_at h L)) t \<longleftrightarrow>
      (8 \<le> n \<and> bit (h ! bo) (n - 8)) \<or> (n < 8 \<and> bo + 1 < 32 \<and> bit (h ! (bo + 1)) n)"
    unfolding sl using n16 assms(2) mask[of t]
    by (auto simp: bit_simps mask n_def[symmetric] simp del: One_nat_def dest: bit_imp_le_length)
  show ?thesis
  proof (cases "8 \<le> n")
    case True
    then have "5 * L + 4 - t = 8 * bo + (bi + 4 - t)" "bi + 4 - t < 8" "7 - (bi + 4 - t) = n - 8"
      using L assms(2) by (auto simp: n_def)
    then have "(5 * L + 4 - t) div 8 = bo" "7 - (5 * L + 4 - t) mod 8 = n - 8" "5 * L + 4 - t < 256"
      using bo by simp_all
    with b True show ?thesis by (simp add: bit_at_def)
  next
    case False
    define e where "e = bi - 4 - t"
    define c where "c = bo + 1"
    have "5 * L + 4 - t = 8 * c + e" "e < 8" "7 - e = n"
      using L assms(2) False by (auto simp: n_def e_def c_def)
    then have "(5 * L + 4 - t) div 8 = c" "7 - (5 * L + 4 - t) mod 8 = n" "5 * L + 4 - t < 256 \<longleftrightarrow> c < 32"
      by auto
    with b False show ?thesis by (auto simp: bit_at_def c_def)
  qed
qed

lemma slices_determine_hash:
  assumes "length g = 32" "length h = 32" "\<And>L. L < 52 \<Longrightarrow> bit_slice_at g L = bit_slice_at h L"
  shows "g = h"
proof (rule nth_equalityI)
  show "length g = length h" using assms by simp
next
  fix i assume i: "i < length g"
  show "g ! i = h ! i"
  proof (rule bit_eqI)
    fix n assume n: "possible_bit TYPE(8 word) n"
    define d where "d = 7 - n"
    define j where "j = 8 * i + d"
    from n have "d < 8" "7 - d = n" by (simp_all add: d_def)
    then have j: "j < 256" "j div 8 = i" "7 - j mod 8 = n" using i assms(1) by (auto simp: j_def)
    define t where "t = 4 - j mod 5"
    have t: "t < 5" "j div 5 < 52" "5 * (j div 5) + 4 - t = j"
    proof -
      have "j mod 5 < 5" "5 * (j div 5) + j mod 5 = j" by simp_all
      then show "t < 5" "j div 5 < 52" "5 * (j div 5) + 4 - t = j"
        using j(1) unfolding t_def by linarith+
    qed
    have "bit_at g j = bit_at h j"
      using bit_slice_bits[OF t(2,1), of g] bit_slice_bits[OF t(2,1), of h] assms(3)[OF t(2)] j(1) t(3) by simp
    then show "bit (g ! i) n = bit (h ! i) n" by (simp add: bit_at_def j)
  qed
qed

lemma slice_bound: "bit_slice_at h L = Some p \<Longrightarrow> unat p < 32"
proof -
  assume "bit_slice_at h L = Some p"
  then obtain c where "p = c AND mask 5"
    by (auto simp: bit_slice_at_def Let_def mask_eq_exp_minus_1 split: if_splits)
  then have "unat p = take_bit 5 (unat c)" by (simp add: take_bit_eq_mask[symmetric] unsigned_take_bit_eq del: take_bit_eq_mask)
  then show ?thesis using take_bit_nat_less_exp[of 5 "unat c"] by simp
qed

section \<open>The compressed array is a partial function on positions\<close>

definition node_of :: "(nat \<Rightarrow> Entry option) \<Rightarrow> snapshot_node" where
  "node_of f = \<lparr>sn_map = horner_sum of_bool 2 (map (\<lambda>p. f p \<noteq> None) [0..<32]), sn_data = List.map_filter f [0..<32]\<rparr>"

definition rank :: "(nat \<Rightarrow> Entry option) \<Rightarrow> nat \<Rightarrow> nat" where
  "rank f p = length (List.map_filter f [0..<p])"

lemma length_map_filter: "length (List.map_filter f xs) = length (filter (\<lambda>x. f x \<noteq> None) xs)"
  by (induction xs) (auto simp: map_filter_simps split: option.splits)

lemma map_filter_cong: "(\<And>x. x \<in> set xs \<Longrightarrow> f x = g x) \<Longrightarrow> List.map_filter f xs = List.map_filter g xs"
  by (induction xs) (auto simp: map_filter_simps split: option.splits)

lemma map_filter_append: "List.map_filter f (xs @ ys) = List.map_filter f xs @ List.map_filter f ys"
  by (simp add: List.map_filter_def)

lemma bit_node_of: "bit (sn_map (node_of f)) p \<longleftrightarrow> p < 32 \<and> f p \<noteq> None"
  by (auto simp: node_of_def bit_horner_sum_bit_iff)

lemma node_map_eqI: "(\<And>p. p < 32 \<Longrightarrow> bit m p \<longleftrightarrow> f p \<noteq> None) \<Longrightarrow> m = sn_map (node_of f)"
  by (rule bit_eqI) (simp add: bit_node_of)

lemma node_data_split:
  assumes "p < 32"
  shows "sn_data (node_of f) =
     List.map_filter f [0..<p] @ (case f p of None \<Rightarrow> [] | Some e \<Rightarrow> [e]) @ List.map_filter f [Suc p..<32]"
proof -
  have "[0..<32] = [0..<p] @ p # [Suc p..<32]"
    using assms upt_add_eq_append[of 0 p "32 - p"] upt_conv_Cons[of p 32] by simp
  then show ?thesis by (auto simp: node_of_def map_filter_append map_filter_simps split: option.splits)
qed

lemma data_parts_upd:
  "List.map_filter (f(p := e)) [0..<p] = List.map_filter f [0..<p]"
  "List.map_filter (f(p := e)) [Suc p..<32] = List.map_filter f [Suc p..<32]"
  by (rule map_filter_cong; simp)+

lemma position_node_of:
  assumes "unat p < 32"
  shows "position (sn_map (node_of f)) p = (f (unat p) \<noteq> None, rank f (unat p))"
proof -
  let ?m = "sn_map (node_of f)"
  have "drop_bit (unat p) ?m AND 1 = 1 \<longleftrightarrow> bit ?m (unat p)"
    by (simp add: bit_iff_odd_drop_bit and_one_eq odd_iff_mod_2_eq_one)
  moreover have "(if p = 0 then 0 else push_bit (unat p) 1 - 1) = (mask (unat p) :: u32)"
    by (simp add: mask_eq_exp_minus_1 push_bit_eq_mult)
  moreover have "count_ones (?m AND mask (unat p)) = rank f (unat p)"
  proof -
    have "filter (bit (?m AND mask (unat p))) [0..<32] = filter (\<lambda>q. f q \<noteq> None) [0..<unat p]"
    proof -
      have "[0..<32] = [0..<unat p] @ [unat p..<32]"
        using assms upt_add_eq_append[of 0 "unat p" "32 - unat p"] by simp
      moreover have "filter (bit (?m AND mask (unat p))) [unat p..<32] = []"
        by (auto simp: filter_empty_conv bit_and_iff bit_mask_iff)
      moreover have "filter (bit (?m AND mask (unat p))) [0..<unat p] = filter (\<lambda>q. f q \<noteq> None) [0..<unat p]"
        using assms by (intro filter_cong) (auto simp: bit_and_iff bit_mask_iff bit_node_of)
      ultimately show ?thesis by simp
    qed
    then show ?thesis by (simp add: count_ones_def rank_def length_map_filter)
  qed
  ultimately show ?thesis using assms by (simp add: position_def Let_def bit_node_of)
qed

lemma node_of_nth:
  assumes "p < 32" "f p = Some e"
  shows "rank f p < length (sn_data (node_of f))" "sn_data (node_of f) ! rank f p = e"
  using assms by (simp_all add: node_data_split rank_def nth_append)

lemma node_of_update:
  assumes "p < 32" "f p = Some e"
  shows "\<lparr>sn_map = sn_map (node_of f), sn_data = (sn_data (node_of f))[rank f p := e']\<rparr> = node_of (f(p \<mapsto> e'))"
proof -
  have "sn_map (node_of f) = sn_map (node_of (f(p \<mapsto> e')))"
    using assms by (intro node_map_eqI) (auto simp: bit_node_of)
  moreover have "(sn_data (node_of f))[rank f p := e'] = sn_data (node_of (f(p \<mapsto> e')))"
    using assms node_data_split[OF assms(1), of f] node_data_split[OF assms(1), of "f(p \<mapsto> e')"]
    by (simp add: rank_def data_parts_upd list_update_append)
  ultimately show ?thesis by (metis snapshot_node.surjective old.unit.exhaust snapshot_node.select_convs(1,2))
qed

lemma node_of_insert:
  assumes "p < 32" "f p = None"
  shows "rank f p \<le> length (sn_data (node_of f))"
    "\<lparr>sn_map = sn_map (node_of f) OR push_bit p 1,
      sn_data = take (rank f p) (sn_data (node_of f)) @ e # drop (rank f p) (sn_data (node_of f))\<rparr> = node_of (f(p \<mapsto> e))"
proof -
  have "sn_map (node_of f) OR push_bit p 1 = sn_map (node_of (f(p \<mapsto> e)))"
    using assms by (intro node_map_eqI) (auto simp: bit_or_iff bit_node_of push_bit_of_1 bit_exp_iff)
  moreover have "take (rank f p) (sn_data (node_of f)) @ e # drop (rank f p) (sn_data (node_of f)) = sn_data (node_of (f(p \<mapsto> e)))"
    using assms node_data_split[OF assms(1), of f] node_data_split[OF assms(1), of "f(p \<mapsto> e)"]
    by (simp add: rank_def data_parts_upd)
  ultimately show "\<lparr>sn_map = sn_map (node_of f) OR push_bit p 1,
      sn_data = take (rank f p) (sn_data (node_of f)) @ e # drop (rank f p) (sn_data (node_of f))\<rparr> = node_of (f(p \<mapsto> e))"
    by (metis snapshot_node.surjective old.unit.exhaust snapshot_node.select_convs(1,2))
  show "rank f p \<le> length (sn_data (node_of f))" using assms by (simp add: node_data_split rank_def)
qed

lemma node_of_remove:
  assumes "p < 32" "f p = Some e"
  shows "\<lparr>sn_map = sn_map (node_of f) AND NOT (push_bit p 1),
      sn_data = take (rank f p) (sn_data (node_of f)) @ drop (Suc (rank f p)) (sn_data (node_of f))\<rparr> = node_of (f(p := None))"
proof -
  have "sn_map (node_of f) AND NOT (push_bit p 1) = sn_map (node_of (f(p := None)))"
    using assms by (intro node_map_eqI) (auto simp: bit_and_iff bit_not_iff bit_node_of push_bit_of_1 bit_exp_iff)
  moreover have "take (rank f p) (sn_data (node_of f)) @ drop (Suc (rank f p)) (sn_data (node_of f)) = sn_data (node_of (f(p := None)))"
    using assms node_data_split[OF assms(1), of f] node_data_split[OF assms(1), of "f(p := None)"]
    by (simp add: rank_def data_parts_upd)
  ultimately show ?thesis by (metis snapshot_node.surjective old.unit.exhaust snapshot_node.select_convs(1,2))
qed

lemma set_node_data: "e \<in> set (sn_data (node_of f)) \<longleftrightarrow> (\<exists>p < 32. f p = Some e)"
  by (auto simp: node_of_def List.map_filter_def image_iff)

lemma node_of_empty: "node_of (\<lambda>_. None) = node_empty"
proof -
  have "0 = sn_map (node_of (\<lambda>_. None))" by (rule node_map_eqI) simp
  moreover have "sn_data (node_of (\<lambda>_. None)) = []" by (simp add: node_of_def List.map_filter_def)
  ultimately show ?thesis by (metis node_empty_def snapshot_node.surjective old.unit.exhaust)
qed

end
