(* ===== verification/Trie_Ops.thy ===== *)
theory Trie_Ops
  imports Trie_Node Emit_Pathway
begin

text \<open>
  Operations of the snapshot trie (\<^verbatim>\<open>core/tree/src/trie.rs\<close>).  Each function that writes takes the
  store state and returns it with its result, in the order in which the code puts nodes.  Recursion
  on the level ends because the key hash has no slice at level 52; the functions that recurse over
  links without a level may not return on a store with a cycle of links, and are partial.
\<close>

unbundle bit_operations_syntax

section \<open>Put\<close>

lemma bit_slice_descends: "bit_slice_at h L = Some p \<Longrightarrow> 51 - L < 52 - L"
  using bit_slice_at_None[of h L] by (cases "52 \<le> L") auto

text \<open>The \<^verbatim>\<open>?\<close> operator with the store threaded through.\<close>

definition and_then :: "('e + 'a) \<times> 's \<Rightarrow> ('a \<Rightarrow> 's \<Rightarrow> ('e + 'b) \<times> 's) \<Rightarrow> ('e + 'b) \<times> 's" where
  "and_then r f = (case r of (Inl e, s) \<Rightarrow> (Inl e, s) | (Inr a, s) \<Rightarrow> f a s)"

lemma and_then_simps [simp]: "and_then (Inl e, s) f = (Inl e, s)" "and_then (Inr a, s) f = f a s"
  by (simp_all add: and_then_def)

lemma and_then_cong [fundef_cong]:
  "r = r' \<Longrightarrow> (\<And>a s. r' = (Inr a, s) \<Longrightarrow> f a s = g a s) \<Longrightarrow> and_then r f = and_then r' g"
  by (auto simp: and_then_def split: prod.splits sum.splits)

definition load_or_empty :: "(bytes \<Rightarrow> Value option) \<Rightarrow> 's content_ops \<Rightarrow> 's \<Rightarrow> hash option \<Rightarrow> snapshot_node" where
  "load_or_empty dec ops s root_hash =
     (case (case root_hash of None \<Rightarrow> None | Some h \<Rightarrow> load_trie_node dec ops s h) of
        Some n \<Rightarrow> n
      | None \<Rightarrow> node_empty)"

definition tuple_pos :: "(string \<times> hash) list \<Rightarrow> string \<Rightarrow> nat option" where
  "tuple_pos tuples key = find (\<lambda>i. fst (tuples ! i) = key) [0..<length tuples]"

definition with_entry :: "snapshot_node \<Rightarrow> nat \<Rightarrow> Entry \<Rightarrow> snapshot_node" where
  "with_entry node idx e = \<lparr>sn_map = sn_map node, sn_data = (sn_data node)[idx := e]\<rparr>"

function (sequential) put_at_node ::
    "digests \<Rightarrow> u8 \<Rightarrow> (bytes \<Rightarrow> Value option) \<Rightarrow> 's content_ops \<Rightarrow> 's \<Rightarrow> snapshot_node \<Rightarrow> bytes \<Rightarrow> nat \<Rightarrow> string \<Rightarrow> hash \<Rightarrow>
     (trie_error + snapshot_node) \<times> 's"
  and put_tuples ::
    "digests \<Rightarrow> u8 \<Rightarrow> (bytes \<Rightarrow> Value option) \<Rightarrow> 's content_ops \<Rightarrow> 's \<Rightarrow> snapshot_node \<Rightarrow> nat \<Rightarrow> (string \<times> hash) list \<Rightarrow>
     (trie_error + snapshot_node) \<times> 's" where
  "put_at_node D home dec ops s node hash_bytes level key value_hash =
     (case bit_slice_at hash_bytes level of
        None \<Rightarrow> (Inl TriePanic, s)
      | Some p \<Rightarrow>
          let (bit_set, idx) = position (sn_map node) p
          in if \<not> bit_set then
               (if length (sn_data node) < idx then (Inl TriePanic, s)
                else (Inr \<lparr>sn_map = sn_map node OR push_bit (unat p) 1,
                           sn_data = take idx (sn_data node) @ Bucket [(key, value_hash)] # drop idx (sn_data node)\<rparr>, s))
             else if length (sn_data node) \<le> idx then (Inl TriePanic, s)
             else
               (case sn_data node ! idx of
                  Bucket tuples \<Rightarrow>
                    (case tuple_pos tuples key of
                       Some pos \<Rightarrow> (Inr (with_entry node idx (Bucket (tuples[pos := (fst (tuples ! pos), value_hash)]))), s)
                     | None \<Rightarrow>
                         if length tuples < BUCKET_SIZE
                         then (Inr (with_entry node idx (Bucket (sort_key fst (tuples @ [(key, value_hash)])))), s)
                         else and_then (put_tuples D home dec ops s node_empty (level + 1) tuples)
                           (\<lambda>sub s1. and_then (put_at_node D home dec ops s1 sub hash_bytes (level + 1) key value_hash)
                             (\<lambda>sub s2. and_then (store_trie_node D home ops s2 sub)
                               (\<lambda>sub_hash s3. (Inr (with_entry node idx (Link sub_hash)), s3)))))
                | Link sub_hash \<Rightarrow>
                    (case load_trie_node dec ops s sub_hash of
                       None \<Rightarrow> (Inl (TrieErr ''missing sub-node''), s)
                     | Some sub \<Rightarrow>
                         and_then (put_at_node D home dec ops s sub hash_bytes (level + 1) key value_hash)
                           (\<lambda>new_sub s1. and_then (store_trie_node D home ops s1 new_sub)
                             (\<lambda>new_sub_hash s2. (Inr (with_entry node idx (Link new_sub_hash)), s2))))))"
| "put_tuples D home dec ops s sub level [] = (Inr sub, s)"
| "put_tuples D home dec ops s sub level ((k, v) # tuples) =
     and_then (put_at_node D home dec ops s sub (key_hash D k) level k v)
       (\<lambda>sub' s1. put_tuples D home dec ops s1 sub' level tuples)"
  by pat_completeness auto

termination
  by (relation "measures
    [\<lambda>x. case x of Inl (_, _, _, _, _, _, _, level, _) \<Rightarrow> 52 - level | Inr (_, _, _, _, _, _, level, _) \<Rightarrow> 52 - level,
     \<lambda>x. case x of Inl _ \<Rightarrow> 0 | Inr (_, _, _, _, _, _, _, tuples) \<Rightarrow> Suc (length tuples)]")
    (simp_all add: bit_slice_descends)

definition build_trie ::
    "digests \<Rightarrow> u8 \<Rightarrow> (bytes \<Rightarrow> Value option) \<Rightarrow> 's content_ops \<Rightarrow> 's \<Rightarrow> (string, hash) btree \<Rightarrow> (trie_error + hash) \<times> 's" where
  "build_trie D home dec ops s bindings =
     and_then (put_tuples D home dec ops s node_empty 0 bindings) (\<lambda>root s1. store_trie_node D home ops s1 root)"

definition trie_put ::
    "digests \<Rightarrow> u8 \<Rightarrow> (bytes \<Rightarrow> Value option) \<Rightarrow> 's content_ops \<Rightarrow> 's \<Rightarrow> hash option \<Rightarrow> string \<Rightarrow> hash \<Rightarrow>
     (trie_error + hash) \<times> 's" where
  "trie_put D home dec ops s root_hash relative_key value_hash =
     and_then (put_at_node D home dec ops s (load_or_empty dec ops s root_hash) (key_hash D relative_key) 0
                 relative_key value_hash)
       (\<lambda>new_root s1. store_trie_node D home ops s1 new_root)"

section \<open>Lookup\<close>

datatype TrieStep = Found hash | Descend hash | Absent

definition trie_step :: "digests \<Rightarrow> snapshot_node \<Rightarrow> string \<Rightarrow> nat \<Rightarrow> trie_error + TrieStep" where
  "trie_step D node relative_key level =
     (case bit_slice_at (key_hash D relative_key) level of
        None \<Rightarrow> Inl TriePanic
      | Some p \<Rightarrow>
          let (bit_set, idx) = position (sn_map node) p
          in if \<not> bit_set then Inr Absent
             else if length (sn_data node) \<le> idx then Inl TriePanic
             else
               (case sn_data node ! idx of
                  Bucket tuples \<Rightarrow>
                    (case find (\<lambda>t. fst t = relative_key) tuples of
                       Some t \<Rightarrow> Inr (Found (snd t))
                     | None \<Rightarrow> Inr Absent)
                | Link sub_hash \<Rightarrow> Inr (Descend sub_hash)))"

lemma trie_step_descends: "trie_step D node k L = Inr x \<Longrightarrow> 51 - L < 52 - L"
  by (auto simp: trie_step_def intro: bit_slice_descends split: option.splits)

function trie_get_loop ::
    "digests \<Rightarrow> (bytes \<Rightarrow> Value option) \<Rightarrow> 's content_ops \<Rightarrow> 's \<Rightarrow> snapshot_node \<Rightarrow> string \<Rightarrow> nat \<Rightarrow> trie_error + hash option" where
  "trie_get_loop D dec ops s node relative_key level =
     (case trie_step D node relative_key level of
        Inl e \<Rightarrow> Inl e
      | Inr (Found h) \<Rightarrow> Inr (Some h)
      | Inr Absent \<Rightarrow> Inr None
      | Inr (Descend sub) \<Rightarrow>
          (case load_trie_node dec ops s sub of
             None \<Rightarrow> Inr None
           | Some node' \<Rightarrow> trie_get_loop D dec ops s node' relative_key (level + 1)))"
  by pat_completeness auto

termination
  by (relation "measure (\<lambda>(_, _, _, _, _, _, level). 52 - level)") (simp_all add: trie_step_descends)

definition trie_get ::
    "digests \<Rightarrow> (bytes \<Rightarrow> Value option) \<Rightarrow> 's content_ops \<Rightarrow> 's \<Rightarrow> hash \<Rightarrow> string \<Rightarrow> trie_error + hash option" where
  "trie_get D dec ops s root_hash relative_key =
     (case load_trie_node dec ops s root_hash of
        None \<Rightarrow> Inr None
      | Some node \<Rightarrow> trie_get_loop D dec ops s node relative_key 0)"

section \<open>Counting, flattening and collecting\<close>

text \<open>The loops over the entries of a node, with the recursive call on a link inside; \<open>None\<close> is not
  returning.\<close>

partial_function (option) count_list_entries ::
    "(bytes \<Rightarrow> Value option) \<Rightarrow> 's content_ops \<Rightarrow> 's \<Rightarrow> Entry list \<Rightarrow> (trie_error + nat) option" where
  "count_list_entries dec ops s es =
     (case es of
        [] \<Rightarrow> Some (Inr 0)
      | e # rest \<Rightarrow>
          (case e of
             Bucket b \<Rightarrow>
               Option.bind (count_list_entries dec ops s rest)
                 (\<lambda>r. Some (case r of Inl err \<Rightarrow> Inl err | Inr n \<Rightarrow> Inr (length b + n)))
           | Link h \<Rightarrow>
               (case load_trie_node dec ops s h of
                  None \<Rightarrow> Some (Inl (TrieErr ''missing sub-node''))
                | Some sub \<Rightarrow>
                    Option.bind (count_list_entries dec ops s (sn_data sub))
                      (\<lambda>r. case r of
                         Inl err \<Rightarrow> Some (Inl err)
                       | Inr a \<Rightarrow>
                           Option.bind (count_list_entries dec ops s rest)
                             (\<lambda>r. Some (case r of Inl err \<Rightarrow> Inl err | Inr n \<Rightarrow> Inr (a + n)))))))"

definition count_entries ::
    "(bytes \<Rightarrow> Value option) \<Rightarrow> 's content_ops \<Rightarrow> 's \<Rightarrow> snapshot_node \<Rightarrow> (trie_error + nat) option" where
  "count_entries dec ops s node = count_list_entries dec ops s (sn_data node)"

partial_function (option) flatten_entries_into ::
    "(bytes \<Rightarrow> Value option) \<Rightarrow> 's content_ops \<Rightarrow> 's \<Rightarrow> Entry list \<Rightarrow> (string \<times> hash) list \<Rightarrow>
     (trie_error + (string \<times> hash) list) option" where
  "flatten_entries_into dec ops s es out =
     (case es of
        [] \<Rightarrow> Some (Inr out)
      | e # rest \<Rightarrow>
          (case e of
             Bucket b \<Rightarrow> flatten_entries_into dec ops s rest (out @ b)
           | Link h \<Rightarrow>
               (case load_trie_node dec ops s h of
                  None \<Rightarrow> Some (Inl (TrieErr ''missing sub-node''))
                | Some sub \<Rightarrow>
                    Option.bind (flatten_entries_into dec ops s (sn_data sub) out)
                      (\<lambda>r. case r of
                         Inl err \<Rightarrow> Some (Inl err)
                       | Inr out' \<Rightarrow> flatten_entries_into dec ops s rest out'))))"

definition flatten_entries ::
    "(bytes \<Rightarrow> Value option) \<Rightarrow> 's content_ops \<Rightarrow> 's \<Rightarrow> snapshot_node \<Rightarrow> (trie_error + (string \<times> hash) list) option" where
  "flatten_entries dec ops s node = flatten_entries_into dec ops s (sn_data node) []"

partial_function (option) collect_bindings_into ::
    "(bytes \<Rightarrow> Value option) \<Rightarrow> 's content_ops \<Rightarrow> 's \<Rightarrow> Entry list \<Rightarrow> (string, hash) btree \<Rightarrow> (string, hash) btree option" where
  "collect_bindings_into dec ops s es out =
     (case es of
        [] \<Rightarrow> Some out
      | e # rest \<Rightarrow>
          (case e of
             Bucket b \<Rightarrow> collect_bindings_into dec ops s rest (fold (\<lambda>(k, h). bt_insert k h) b out)
           | Link h \<Rightarrow>
               (case load_trie_node dec ops s h of
                  None \<Rightarrow> collect_bindings_into dec ops s rest out
                | Some sub \<Rightarrow>
                    Option.bind (collect_bindings_into dec ops s (sn_data sub) out)
                      (collect_bindings_into dec ops s rest))))"

definition collect_all_bindings ::
    "(bytes \<Rightarrow> Value option) \<Rightarrow> 's content_ops \<Rightarrow> 's \<Rightarrow> hash \<Rightarrow> (string, hash) btree option" where
  "collect_all_bindings dec ops s node_hash =
     (case load_trie_node dec ops s node_hash of
        None \<Rightarrow> Some []
      | Some node \<Rightarrow> collect_bindings_into dec ops s (sn_data node) [])"

section \<open>Remove\<close>

datatype RemoveOutcome = Unchanged | Changed snapshot_node | Inline "(string \<times> hash) list"

definition without_entry :: "snapshot_node \<Rightarrow> u32 \<Rightarrow> nat \<Rightarrow> snapshot_node" where
  "without_entry node p idx =
     \<lparr>sn_map = sn_map node AND NOT (push_bit (unat p) 1),
      sn_data = take idx (sn_data node) @ drop (Suc idx) (sn_data node)\<rparr>"

text \<open>The end of \<^verbatim>\<open>remove_at_node\<close>: below the root, a node with too few bindings is handed back to be
  inlined.\<close>

definition finish_remove ::
    "(bytes \<Rightarrow> Value option) \<Rightarrow> 's content_ops \<Rightarrow> bool \<Rightarrow> 's \<Rightarrow> snapshot_node \<Rightarrow> ((trie_error + RemoveOutcome) \<times> 's) option" where
  "finish_remove dec ops is_root s result =
     (if is_root then Some (Inr (Changed result), s)
      else Option.bind (count_entries dec ops s result)
        (\<lambda>r. case r of
           Inl err \<Rightarrow> Some (Inl err, s)
         | Inr branch \<Rightarrow>
             if branch < BUCKET_SIZE + 1
             then Option.bind (flatten_entries dec ops s result)
               (\<lambda>r. Some (case r of Inl err \<Rightarrow> Inl err | Inr tuples \<Rightarrow> Inr (Inline tuples), s))
             else Some (Inr (Changed result), s)))"

text \<open>After the recursive call: relink the changed sub-node, or inline what is left of it.\<close>

definition relink ::
    "digests \<Rightarrow> u8 \<Rightarrow> (bytes \<Rightarrow> Value option) \<Rightarrow> 's content_ops \<Rightarrow> bool \<Rightarrow> snapshot_node \<Rightarrow> u32 \<Rightarrow> nat \<Rightarrow>
     (trie_error + RemoveOutcome) \<times> 's \<Rightarrow> ((trie_error + RemoveOutcome) \<times> 's) option" where
  "relink D home dec ops is_root node p idx res =
     (case res of
        (Inl err, s1) \<Rightarrow> Some (Inl err, s1)
      | (Inr Unchanged, s1) \<Rightarrow> Some (Inr Unchanged, s1)
      | (Inr (Changed new_sub), s1) \<Rightarrow>
          (case store_trie_node D home ops s1 new_sub of
             (Inl err, s2) \<Rightarrow> Some (Inl err, s2)
           | (Inr new_sub_hash, s2) \<Rightarrow>
               finish_remove dec ops is_root s2 (with_entry node idx (Link new_sub_hash)))
      | (Inr (Inline tuples), s1) \<Rightarrow>
          finish_remove dec ops is_root s1
            (if tuples = [] then without_entry node p idx
             else with_entry node idx (Bucket (sort_key fst tuples))))"

function remove_at_node ::
    "digests \<Rightarrow> u8 \<Rightarrow> (bytes \<Rightarrow> Value option) \<Rightarrow> 's content_ops \<Rightarrow> 's \<Rightarrow> snapshot_node \<Rightarrow> bytes \<Rightarrow> nat \<Rightarrow> string \<Rightarrow> bool \<Rightarrow>
     ((trie_error + RemoveOutcome) \<times> 's) option" where
  "remove_at_node D home dec ops s node hash_bytes level key is_root =
     (case bit_slice_at hash_bytes level of
        None \<Rightarrow> Some (Inl TriePanic, s)
      | Some p \<Rightarrow>
          let (bit_set, idx) = position (sn_map node) p
          in if \<not> bit_set then Some (Inr Unchanged, s)
             else if length (sn_data node) \<le> idx then Some (Inl TriePanic, s)
             else
               (case sn_data node ! idx of
                  Bucket tuples \<Rightarrow>
                    (case tuple_pos tuples key of
                       None \<Rightarrow> Some (Inr Unchanged, s)
                     | Some pos \<Rightarrow>
                         finish_remove dec ops is_root s
                           (if length tuples = 1 then without_entry node p idx
                            else with_entry node idx (Bucket (take pos tuples @ drop (Suc pos) tuples))))
                | Link sub_hash \<Rightarrow>
                    (case load_trie_node dec ops s sub_hash of
                       None \<Rightarrow> Some (Inl (TrieErr ''missing sub-node''), s)
                     | Some sub \<Rightarrow>
                         Option.bind (remove_at_node D home dec ops s sub hash_bytes (level + 1) key False)
                           (relink D home dec ops is_root node p idx))))"
  by pat_completeness auto

termination
  by (relation "measure (\<lambda>(_, _, _, _, _, _, _, level, _, _). 52 - level)") (simp_all add: bit_slice_descends)

definition trie_remove ::
    "digests \<Rightarrow> u8 \<Rightarrow> (bytes \<Rightarrow> Value option) \<Rightarrow> 's content_ops \<Rightarrow> 's \<Rightarrow> hash option \<Rightarrow> string \<Rightarrow>
     ((trie_error + hash) \<times> 's) option" where
  "trie_remove D home dec ops s root_hash relative_key =
     (let root = load_or_empty dec ops s root_hash
      in Option.bind (remove_at_node D home dec ops s root (key_hash D relative_key) 0 relative_key True)
        (\<lambda>(r, s1). Some
          (case r of
             Inl err \<Rightarrow> (Inl err, s1)
           | Inr Unchanged \<Rightarrow> store_trie_node D home ops s1 root
           | Inr (Changed new_root) \<Rightarrow> store_trie_node D home ops s1 new_root
           | Inr (Inline _) \<Rightarrow> (Inl TriePanic, s1))))"

end
