(* ===== verification/Trie_Canon.thy ===== *)
theory Trie_Canon
  imports Trie_Ops
begin

text \<open>
  What the snapshot trie should be.  The contract of a content store as a locale, interpreted on the
  in-memory and on the notifying store; the store that reports hash collisions, so that a run free of
  collisions can be named; the canonical node of a map of bindings, the predicate that all of its
  sub-nodes are stored, and the list lemmas behind bucket updates.
\<close>

unbundle bit_operations_syntax

section \<open>The contract of a content store\<close>

definition ext :: "'s content_ops \<Rightarrow> 's \<Rightarrow> 's \<Rightarrow> bool" where
  "ext ops s s' \<longleftrightarrow> (\<forall>k x. co_get ops k s = Some x \<longrightarrow> co_get ops k s' = Some x)"

lemma ext_refl [simp]: "ext ops s s" by (simp add: ext_def)
lemma ext_trans: "ext ops a b \<Longrightarrow> ext ops b c \<Longrightarrow> ext ops a c" by (simp add: ext_def)

lemma load_ext: "ext ops s s' \<Longrightarrow> load_trie_node dec ops s h = Some n \<Longrightarrow> load_trie_node dec ops s' h = Some n"
  by (auto simp: load_trie_node_def ext_def split: option.splits)

text \<open>A put stores the entity under its content hash and keeps what is stored, unless another
  entity is stored under the same hash.\<close>

locale content_store_laws =
  fixes ops :: "'s content_ops" and ok :: "'s \<Rightarrow> bool"
  assumes put_inv: "ok s \<Longrightarrow> co_put ops e s = (r, s') \<Longrightarrow> ok s'"
    and put_fresh: "ok s \<Longrightarrow> co_put ops e s = (r, s') \<Longrightarrow>
      co_get ops (content_hash e) s = None \<or> co_get ops (content_hash e) s = Some e \<Longrightarrow>
      ext ops s s' \<and> (\<forall>h. r = Inr h \<longrightarrow> h = content_hash e \<and> co_get ops h s' = Some e)"

text \<open>The same without the proviso.\<close>

locale append_only_store =
  fixes ops :: "'s content_ops" and ok :: "'s \<Rightarrow> bool"
  assumes append: "ok s \<Longrightarrow> co_put ops e s = (r, s') \<Longrightarrow>
      ok s' \<and> ext ops s s' \<and> (\<forall>h. r = Inr h \<longrightarrow> h = content_hash e \<and> co_get ops h s' = Some e)"

text \<open>A store that reports a collision of content hashes instead of overwriting or ignoring: a run
  on it that succeeds is a run in which no collision happens.\<close>

definition guard :: "'s content_ops \<Rightarrow> 's content_ops" where
  "guard ops = \<lparr>co_get = co_get ops,
     co_put = (\<lambda>e s. if co_get ops (content_hash e) s = None \<or> co_get ops (content_hash e) s = Some e
                     then co_put ops e s else (Inl (StoreInternal ''content hash collision''), s))\<rparr>"

lemma guard_get [simp]: "co_get (guard ops) = co_get ops" "ext (guard ops) = ext ops"
  "load_trie_node dec (guard ops) = load_trie_node dec ops"
  by (auto simp: guard_def ext_def fun_eq_iff load_trie_node_def)

sublocale content_store_laws \<subseteq> guarded: append_only_store "guard ops" ok
proof
  fix s e r s'
  assume "ok s" "co_put (guard ops) e s = (r, s')"
  then show "ok s' \<and> ext (guard ops) s s' \<and> (\<forall>h. r = Inr h \<longrightarrow> h = content_hash e \<and> co_get (guard ops) h s' = Some e)"
    using put_inv[of s e r s'] put_fresh[of s e r s'] by (auto simp: guard_def[of ops] simp del: guard_get split: if_splits)
       (auto simp: ext_def)
qed

definition ncs_ops :: "'w ncs content_ops" where
  "ncs_ops = \<lparr>co_get = (\<lambda>h s. mcs_get h (ncs_inner s)), co_put = ncs_put\<rparr>"

interpretation mem: content_store_laws mem_ops bt_wf
  by unfold_locales (auto simp: mem_ops_def mcs_put_def mcs_get_def ext_def bt_simps)

interpretation notifying: content_store_laws ncs_ops "\<lambda>s. bt_wf (ncs_inner s)"
  by unfold_locales
    (auto simp: ncs_ops_def ncs_put_def mcs_put_def mcs_get_def mcs_has_def ext_def bt_simps Let_def
      split: if_splits prod.splits option.splits)

section \<open>The canonical trie of a map\<close>

definition key_slice :: "digests \<Rightarrow> nat \<Rightarrow> string \<Rightarrow> nat" where
  "key_slice D L k = unat (the (bit_slice_at (key_hash D k) L))"

definition slot :: "digests \<Rightarrow> nat \<Rightarrow> nat \<Rightarrow> (string, hash) btree \<Rightarrow> (string, hash) btree" where
  "slot D L p m = filter (\<lambda>t. key_slice D L (fst t) = p) m"

definition node_hash :: "digests \<Rightarrow> u8 \<Rightarrow> snapshot_node \<Rightarrow> hash" where
  "node_hash D home n =
     (case entity_new D home TYPE_TREE_SNAPSHOT_NODE (to_ecf_bytes n) of Inr e \<Rightarrow> content_hash e | Inl _ \<Rightarrow> hash_zero)"

text \<open>What a map is stored as: per position, nothing, a bucket of up to three bindings, or a link to
  the canonical node of the bindings there.\<close>

definition entry_for :: "((string, hash) btree \<Rightarrow> hash) \<Rightarrow> (string, hash) btree \<Rightarrow> Entry option" where
  "entry_for link g = (if g = [] then None else if length g \<le> BUCKET_SIZE then Some (Bucket g) else Some (Link (link g)))"

function canon_node :: "digests \<Rightarrow> u8 \<Rightarrow> nat \<Rightarrow> (string, hash) btree \<Rightarrow> snapshot_node" where
  "canon_node D home L m =
     (if 52 \<le> L then node_empty
      else node_of (\<lambda>p. entry_for (\<lambda>g. node_hash D home (canon_node D home (Suc L) g)) (slot D L p m)))"
  by pat_completeness auto
termination by (relation "measure (\<lambda>(_, _, L, _). 52 - L)") auto

declare canon_node.simps [simp del]

definition link_of :: "digests \<Rightarrow> u8 \<Rightarrow> nat \<Rightarrow> (string, hash) btree \<Rightarrow> hash" where
  "link_of D home L g = node_hash D home (canon_node D home (Suc L) g)"

lemma canon_node_eq:
  "L < 52 \<Longrightarrow> canon_node D home L m = node_of (\<lambda>p. entry_for (link_of D home L) (slot D L p m))"
  by (subst canon_node.simps) (simp add: link_of_def[abs_def])

function stored :: "digests \<Rightarrow> u8 \<Rightarrow> (bytes \<Rightarrow> Value option) \<Rightarrow> 's content_ops \<Rightarrow> 's \<Rightarrow> nat \<Rightarrow> (string, hash) btree \<Rightarrow> bool" where
  "stored D home dec ops s L m =
     (if 52 \<le> L then True
      else (\<forall>p < 32. let g = slot D L p m in
         length g \<le> BUCKET_SIZE \<or>
         load_trie_node dec ops s (link_of D home L g) = Some (canon_node D home (Suc L) g) \<and>
         stored D home dec ops s (Suc L) g))"
  by pat_completeness auto
termination by (relation "measure (\<lambda>(_, _, _, _, _, L, _). 52 - L)") auto

declare stored.simps [simp del]

lemma stored_iff:
  "stored D home dec ops s L m \<longleftrightarrow> 52 \<le> L \<or>
     (\<forall>p < 32. length (slot D L p m) \<le> BUCKET_SIZE \<or>
        load_trie_node dec ops s (link_of D home L (slot D L p m)) = Some (canon_node D home (Suc L) (slot D L p m)) \<and>
        stored D home dec ops s (Suc L) (slot D L p m))"
  by (subst stored.simps) (simp add: Let_def)

lemma stored_ext: "stored D home dec ops s L m \<Longrightarrow> ext ops s s' \<Longrightarrow> stored D home dec ops s' L m"
proof (induction D home dec ops s L m rule: stored.induct)
  case (1 D home dec ops s L m)
  then show ?case
    unfolding stored_iff[of _ _ _ _ _ L] using load_ext[OF 1(3)] by blast
qed

section \<open>Ordered maps as lists\<close>

lemma filter_bt_insert:
  "bt_wf m \<Longrightarrow> filter (\<lambda>t. P (fst t)) (bt_insert k v m) =
     (if P k then bt_insert k v (filter (\<lambda>t. P (fst t)) m) else filter (\<lambda>t. P (fst t)) m)"
proof (induction m)
  case (Cons a m)
  obtain x y where a: "a = (x, y)" by force
  have "bt_insert k v (filter (\<lambda>t. P (fst t)) m) = (k, v) # filter (\<lambda>t. P (fst t)) m" if "k < x"
    using that Cons.prems by (cases "filter (\<lambda>t. P (fst t)) m")
      (auto simp: a bt_wf_Cons dest!: Cons_eq_filterD[OF sym] intro: order.strict_trans)
  with Cons a show ?case by (auto simp: bt_wf_Cons)
qed simp

lemma bt_wf_filter: "bt_wf m \<Longrightarrow> bt_wf (filter P m)"
  by (simp add: bt_wf_def strict_sorted_iff sorted_filter distinct_map_filter)

lemma slot_bt_insert:
  "bt_wf m \<Longrightarrow> slot D L p (bt_insert k v m) = (if key_slice D L k = p then bt_insert k v (slot D L p m) else slot D L p m)"
  unfolding slot_def by (rule filter_bt_insert)

lemma bt_wf_slot [simp]: "bt_wf m \<Longrightarrow> bt_wf (slot D L p m)"
  by (simp add: slot_def bt_wf_filter)

section \<open>Environment and well-formed bindings\<close>

text \<open>The parameters: digests of the documented lengths, an allocated home format, and a CBOR
  decoder that inverts the encoder on the values the code can hold.\<close>

definition env_ok :: "digests \<Rightarrow> u8 \<Rightarrow> (bytes \<Rightarrow> Value option) \<Rightarrow> bool" where
  "env_ok D home dec \<longleftrightarrow> digests_ok D \<and> digest_len_for_format home \<noteq> None \<and> dec_ok dec"

definition bindings_ok :: "(string, hash) btree \<Rightarrow> bool" where
  "bindings_ok m \<longleftrightarrow> bt_wf m \<and> (\<forall>t \<in> set m. hash_ok (snd t) \<and> length (fst t) < 2 ^ 64)"

lemma node_entity:
  assumes "env_ok D home dec"
  obtains e where "entity_new D home TYPE_TREE_SNAPSHOT_NODE (to_ecf_bytes n) = Inr e"
    "data e = to_ecf_bytes n" "content_hash e = node_hash D home n" "hash_ok (node_hash D home n)"
proof -
  have "to_ecf_bytes n \<noteq> []" by (simp add: to_ecf_bytes_def to_ecf_def hd_encode_value)
  moreover have "TYPE_TREE_SNAPSHOT_NODE \<noteq> []" "TYPE_TREE_SNAPSHOT_NODE \<noteq> TYPE_PEER"
    by (simp_all add: TYPE_TREE_SNAPSHOT_NODE_def TYPE_PEER_def)
  moreover obtain h where "compute_format D TYPE_TREE_SNAPSHOT_NODE (to_ecf_bytes n) home = Inr h" "hash_ok h"
    using assms unfolding env_ok_def
    by (auto simp: compute_format_def Let_def digest_len_for_format_def hash_ok_def Hash_new_def digests_ok_def
        format_defs split: if_splits)
  ultimately have "entity_new D home TYPE_TREE_SNAPSHOT_NODE (to_ecf_bytes n) =
      Inr \<lparr>entity_type = TYPE_TREE_SNAPSHOT_NODE, data = to_ecf_bytes n, content_hash = h\<rparr>" "hash_ok h"
    by (simp_all add: entity_new_def new_with_format_def)
  then show ?thesis using that by (simp add: node_hash_def)
qed

lemma slot_subset: "set (slot D L p m) \<subseteq> set m"
  by (auto simp: slot_def)

lemma bindings_ok_slot: "bindings_ok m \<Longrightarrow> bindings_ok (slot D L p m)"
  using slot_subset by (fastforce simp: bindings_ok_def)

lemma bindings_ok_insert:
  "bindings_ok m \<Longrightarrow> hash_ok v \<Longrightarrow> length k < 2 ^ 64 \<Longrightarrow> bindings_ok (bt_insert k v m)"
  using set_bt_insert[of k v m] by (auto simp: bindings_ok_def)

lemma bindings_ok_remove: "bindings_ok m \<Longrightarrow> bindings_ok (bt_remove k m)"
  using set_bt_remove_subset by (fastforce simp: bindings_ok_def)

lemma length_node_data: "length (sn_data (node_of f)) \<le> 32"
  using length_filter_le[of "\<lambda>x. f x \<noteq> None" "[0..<32]"] by (simp add: node_of_def length_map_filter del: upt.simps)

lemma canon_node_ok:
  assumes "env_ok D home dec" "bindings_ok m"
  shows "node_ok (canon_node D home L m) \<and> ecf_wf (node_value (canon_node D home L m))"
proof (cases "L < 52")
  case True
  let ?n = "canon_node D home L m"
  have ent: "entry_ok e \<and> ecf_wf (entry_value e)" if e: "e \<in> set (sn_data ?n)" for e
  proof -
    from e obtain p where "entry_for (link_of D home L) (slot D L p m) = Some e"
      by (auto simp: canon_node_eq[OF True] set_node_data)
    then consider "e = Bucket (slot D L p m)" "length (slot D L p m) \<le> 3" | "e = Link (link_of D home L (slot D L p m))"
      by (auto simp: entry_for_def trie_consts split: if_splits)
    then show ?thesis
    proof cases
      case 1
      with bindings_ok_slot[OF assms(2), of D L p] show ?thesis
        by (force simp: bindings_ok_def tuple_value_def text_val_def intro: length_to_bytes_small)
    next
      case 2
      then have "hash_ok (link_of D home L (slot D L p m))"
        using node_entity[OF assms(1)] unfolding link_of_def by metis
      with 2 show ?thesis by (simp add: length_to_bytes_small)
    qed
  qed
  moreover have "length (sn_data ?n) \<le> 32"
    by (simp add: canon_node_eq[OF True] length_node_data)
  ultimately show ?thesis
    by (auto simp: node_ok_def node_value_def text_val_def trie_consts)
next
  case False
  then show ?thesis
    by (subst (1 2) canon_node.simps) (simp add: node_ok_def node_empty_def node_value_def text_val_def trie_consts)
qed

context append_only_store
begin

lemma store_node:
  assumes "env_ok D home dec" "ok s" "node_ok n" "ecf_wf (node_value n)"
    and "store_trie_node D home ops s n = (r, s')"
  shows "ok s' \<and> ext ops s s' \<and>
    (case r of Inr h \<Rightarrow> h = node_hash D home n \<and> load_trie_node dec ops s' h = Some n | Inl e \<Rightarrow> \<exists>msg. e = TrieErr msg)"
proof -
  obtain e where e: "entity_new D home TYPE_TREE_SNAPSHOT_NODE (to_ecf_bytes n) = Inr e"
    "data e = to_ecf_bytes n" "content_hash e = node_hash D home n"
    using node_entity[OF assms(1)] by metis
  obtain q t where q: "co_put ops e s = (q, t)" by force
  have "node_from_cbor dec (to_ecf_bytes n) = Some n"
    using assms(1,3,4) by (intro node_roundtrip) (auto simp: env_ok_def dec_ok_def to_ecf_bytes_def)
  with append[OF assms(2) q] assms(5) e q show ?thesis
    by (auto simp: store_trie_node_def load_trie_node_def split: sum.splits StoreError.splits)
qed

end

section \<open>Lists of bindings\<close>

abbreviation keys :: "('k \<times> 'v) list \<Rightarrow> 'k set" where "keys m \<equiv> fst ` set m"

lemma tuple_pos_None: "tuple_pos g k = None \<longleftrightarrow> k \<notin> keys g"
  by (auto simp: tuple_pos_def find_None_iff set_conv_nth)

lemma tuple_pos_Some: "tuple_pos g k = Some pos \<Longrightarrow> pos < length g \<and> fst (g ! pos) = k"
  by (auto simp: tuple_pos_def find_Some_iff)

lemma update_is_insert:
  "bt_wf g \<Longrightarrow> pos < length g \<Longrightarrow> fst (g ! pos) = k \<Longrightarrow> g[pos := (k, v)] = bt_insert k v g"
proof (induction g arbitrary: pos)
  case (Cons a g)
  obtain x y where a: "a = (x, y)" by force
  show ?case
  proof (cases pos)
    case 0
    with Cons a show ?thesis by simp
  next
    case (Suc n)
    then have "k \<in> keys g" using Cons.prems by auto
    then have "x < k" using Cons.prems(1) by (auto simp: a bt_wf_Cons)
    with Suc Cons a show ?thesis by (auto simp: bt_wf_Cons)
  qed
qed simp

lemma remove_nth_is_remove:
  "bt_wf g \<Longrightarrow> pos < length g \<Longrightarrow> fst (g ! pos) = k \<Longrightarrow> take pos g @ drop (Suc pos) g = bt_remove k g"
proof (induction g arbitrary: pos)
  case (Cons a g)
  obtain x y where a: "a = (x, y)" by force
  show ?case
  proof (cases pos)
    case (Suc n)
    then have "k \<in> keys g" using Cons.prems by auto
    then have "x < k" using Cons.prems(1) by (auto simp: a bt_wf_Cons)
    with Suc Cons a show ?thesis by (auto simp: bt_wf_Cons)
  qed (use Cons a in simp)
qed simp

lemma mset_bt_insert: "k \<notin> keys g \<Longrightarrow> mset (bt_insert k v g) = add_mset (k, v) (mset g)"
proof (induction g)
  case (Cons a g)
  then show ?case by (cases a) auto
qed simp

lemma sort_snoc_is_insert:
  assumes "bt_wf g" "k \<notin> keys g"
  shows "sort_key fst (g @ [(k, v)]) = bt_insert k v g"
proof (rule sort_key_inj_key_eq)
  show "mset (g @ [(k, v)]) = mset (bt_insert k v g)" using assms by (simp add: mset_bt_insert)
  show "inj_on fst (set (g @ [(k, v)]))"
    using assms bt_wf_distinct[of g] by (auto simp: distinct_map image_iff)
  show "sorted (map fst (bt_insert k v g))" using bt_wf_insert[OF assms(1)] by (simp add: bt_wf_def strict_sorted_iff)
qed

lemma length_bt_insert: "bt_wf g \<Longrightarrow> length (bt_insert k v g) = (if k \<in> keys g then length g else Suc (length g))"
proof (induction g)
  case (Cons a g)
  then show ?case by (cases a) (auto simp: bt_wf_Cons)
qed simp

lemma fold_insert_append:
  "bt_wf (m @ g) \<Longrightarrow> fold (\<lambda>(k, v). bt_insert k v) g m = m @ g"
proof (induction g arbitrary: m)
  case (Cons a g)
  obtain k v where a: "a = (k, v)" by force
  have "bt_insert k v m = m @ [(k, v)]"
  proof -
    have "\<forall>x \<in> keys m. x < k" using Cons.prems by (auto simp: a bt_wf_def sorted_wrt_append)
    then show ?thesis by (induction m) auto
  qed
  with Cons a show ?case by simp
qed simp

section \<open>Agreement of keys on slices\<close>

definition agree :: "digests \<Rightarrow> nat \<Rightarrow> string set \<Rightarrow> bool" where
  "agree D L X \<longleftrightarrow> (\<forall>a \<in> X. \<forall>b \<in> X. \<forall>i < L. key_slice D i a = key_slice D i b)"

lemma agree_0 [simp]: "agree D 0 X" by (simp add: agree_def)

lemma agree_mono: "agree D L X \<Longrightarrow> Y \<subseteq> X \<Longrightarrow> agree D L Y" by (auto simp: agree_def)

lemma agree_Suc:
  "agree D L X \<Longrightarrow> Y \<subseteq> X \<Longrightarrow> (\<And>y. y \<in> Y \<Longrightarrow> key_slice D L y = p) \<Longrightarrow> agree D (Suc L) Y"
  by (auto simp: agree_def less_Suc_eq)

lemma keys_slot: "keys (slot D L p m) = {k \<in> keys m. key_slice D L k = p}"
  by (auto simp: slot_def)

lemma slice_bounded: "L < 52 \<Longrightarrow> key_slice D L k < 32"
  using bit_slice_at_None[of "key_hash D k" L] slice_bound by (cases "bit_slice_at (key_hash D k) L") (auto simp: key_slice_def)

lemma slice_Some: "L < 52 \<Longrightarrow> \<exists>p. bit_slice_at (key_hash D k) L = Some p \<and> unat p = key_slice D L k \<and> unat p < 32"
  using bit_slice_at_None[of "key_hash D k" L] slice_bound by (cases "bit_slice_at (key_hash D k) L") (auto simp: key_slice_def)

lemma agree_all_equal:
  assumes "digests_ok D" "agree D 52 X" "inj_on (key_hash D) X" "a \<in> X" "b \<in> X"
  shows "a = b"
proof -
  have "bit_slice_at (key_hash D a) L = bit_slice_at (key_hash D b) L" if L: "L < 52" for L
  proof -
    have "key_slice D L a = key_slice D L b" using assms(2,4,5) L unfolding agree_def by blast
    moreover obtain x where "bit_slice_at (key_hash D a) L = Some x" "unat x = key_slice D L a"
      using slice_Some[OF L, of D a] by (elim exE conjE) blast
    moreover obtain y where "bit_slice_at (key_hash D b) L = Some y" "unat y = key_slice D L b"
      using slice_Some[OF L, of D b] by (elim exE conjE) blast
    ultimately show ?thesis by (simp add: word_unat_eq_iff)
  qed
  then have "key_hash D a = key_hash D b"
    using assms(1) by (intro slices_determine_hash) (simp_all add: key_hash_def digests_ok_def format_defs)
  with assms show ?thesis by (auto dest: inj_onD)
qed

lemma two_keys_level:
  assumes "digests_ok D" "agree D (Suc L) X" "inj_on (key_hash D) X" "a \<in> X" "b \<in> X" "a \<noteq> b" "L < 52"
  shows "Suc L < 52"
  using agree_all_equal[OF assms(1) _ assms(3,4,5)] assms(2,6,7) by (cases "Suc L = 52") auto

section \<open>Replacing one entry of a canonical node\<close>

lemma node_of_cong: "(\<And>p. p < 32 \<Longrightarrow> f p = g p) \<Longrightarrow> node_of f = node_of g"
proof -
  assume *: "\<And>p. p < 32 \<Longrightarrow> f p = g p"
  have "map (\<lambda>p. f p \<noteq> None) [0..<32] = map (\<lambda>p. g p \<noteq> None) [0..<32]" using * by (intro map_cong) auto
  moreover have "List.map_filter f [0..<32] = List.map_filter g [0..<32]" using * by (intro map_filter_cong) auto
  ultimately show ?thesis by (simp only: node_of_def)
qed

definition entries :: "digests \<Rightarrow> u8 \<Rightarrow> nat \<Rightarrow> (string, hash) btree \<Rightarrow> nat \<Rightarrow> Entry option" where
  "entries D home L m p = entry_for (link_of D home L) (slot D L p m)"

lemma canon_entries: "L < 52 \<Longrightarrow> canon_node D home L m = node_of (entries D home L m)"
  by (simp add: canon_node_eq entries_def[abs_def])

lemma canon_upd:
  assumes "L < 52" "\<And>q. q < 32 \<Longrightarrow> q \<noteq> p \<Longrightarrow> slot D L q m' = slot D L q m"
  shows "canon_node D home L m' = node_of ((entries D home L m)(p := entry_for (link_of D home L) (slot D L p m')))"
  unfolding canon_entries[OF assms(1)] using assms(2) by (intro node_of_cong) (simp add: entries_def)

lemma stored_upd:
  assumes "stored D home dec ops s L m" "ext ops s s'" "\<And>q. q < 32 \<Longrightarrow> q \<noteq> p \<Longrightarrow> slot D L q m' = slot D L q m"
    and "length (slot D L p m') \<le> BUCKET_SIZE \<or>
      load_trie_node dec ops s' (link_of D home L (slot D L p m')) = Some (canon_node D home (Suc L) (slot D L p m')) \<and>
      stored D home dec ops s' (Suc L) (slot D L p m')"
  shows "stored D home dec ops s' L m'"
  unfolding stored_iff[of _ _ _ _ _ L m']
  using assms(3,4) stored_ext[OF assms(1,2)] unfolding stored_iff[of _ _ _ _ _ L m] by metis

end
