(* ===== verification/Trie_Put.thy ===== *)
theory Trie_Put
  imports Trie_Canon
begin

text \<open>
  \<open>put_at_node\<close> takes the canonical trie of a map to the canonical trie of the updated map, over any
  append-only store, and panics only when four different keys have the same 256-bit key hash.
\<close>

unbundle bit_operations_syntax

section \<open>Put keeps the trie canonical\<close>

definition put_pre ::
    "digests \<Rightarrow> u8 \<Rightarrow> (bytes \<Rightarrow> Value option) \<Rightarrow> 's content_ops \<Rightarrow> ('s \<Rightarrow> bool) \<Rightarrow> nat \<Rightarrow> 's \<Rightarrow> (string, hash) btree \<Rightarrow> string \<Rightarrow> hash \<Rightarrow> bool" where
  "put_pre D home dec ops ok L s m k v \<longleftrightarrow>
     ok s \<and> bindings_ok m \<and> stored D home dec ops s L m \<and> hash_ok v \<and> length k < 2 ^ 64 \<and> L < 52 \<and>
     agree D L (insert k (keys m)) \<and> inj_on (key_hash D) (insert k (keys m))"

definition put_post ::
    "digests \<Rightarrow> u8 \<Rightarrow> (bytes \<Rightarrow> Value option) \<Rightarrow> 's content_ops \<Rightarrow> ('s \<Rightarrow> bool) \<Rightarrow> nat \<Rightarrow> 's \<Rightarrow> (string, hash) btree \<Rightarrow>
     (trie_error + snapshot_node) \<times> 's \<Rightarrow> bool" where
  "put_post D home dec ops ok L s m res \<longleftrightarrow>
     (case res of (r, s') \<Rightarrow> ok s' \<and> ext ops s s' \<and>
       (case r of Inr n \<Rightarrow> n = canon_node D home L m \<and> stored D home dec ops s' L m | Inl e \<Rightarrow> \<exists>msg. e = TrieErr msg))"

lemma put_post_Inl: "put_post D home dec ops ok L s m (Inl e, s') \<longleftrightarrow> ok s' \<and> ext ops s s' \<and> (\<exists>msg. e = TrieErr msg)"
  by (simp add: put_post_def)

lemma put_post_Inr:
  "put_post D home dec ops ok L s m (Inr n, s') \<longleftrightarrow>
     ok s' \<and> ext ops s s' \<and> n = canon_node D home L m \<and> stored D home dec ops s' L m"
  by (auto simp: put_post_def)

lemma and_then_post:
  assumes "put_post D home dec ops ok L s m r"
    and "\<And>n s'. r = (Inr n, s') \<Longrightarrow> ok s' \<Longrightarrow> ext ops s s' \<Longrightarrow> n = canon_node D home L m \<Longrightarrow> stored D home dec ops s' L m \<Longrightarrow>
      put_post D home dec ops ok L' s m' (f n s')"
  shows "put_post D home dec ops ok L' s m' (and_then r f)"
  using assms by (cases r; cases "fst r") (auto simp: put_post_def)

lemma put_post_ext: "put_post D home dec ops ok L s' m r \<Longrightarrow> ext ops s s' \<Longrightarrow> put_post D home dec ops ok L s m r"
  by (auto simp: put_post_def intro: ext_trans split: prod.splits)

lemma put_pre_slot:
  assumes "put_pre D home dec ops ok L s m k v" "env_ok D home dec" "X = slot D L (key_slice D L k) m" "x \<in> keys X" "x \<noteq> k"
  shows "bindings_ok X" "Suc L < 52" "agree D (Suc L) (insert k (keys X))" "inj_on (key_hash D) (insert k (keys X))"
proof -
  have sub: "insert k (keys X) \<subseteq> insert k (keys m)" by (auto simp: assms(3) keys_slot)
  show ag: "agree D (Suc L) (insert k (keys X))"
    using assms(1) sub by (intro agree_Suc[where X = "insert k (keys m)" and p = "key_slice D L k"])
      (auto simp: put_pre_def assms(3) keys_slot)
  show inj: "inj_on (key_hash D) (insert k (keys X))" using assms(1) sub by (auto simp: put_pre_def intro: inj_on_subset)
  show "Suc L < 52"
    using assms(1,2,4,5) by (intro two_keys_level[OF _ ag inj, of x k]) (auto simp: env_ok_def put_pre_def)
  show "bindings_ok X" using assms(1,3) by (simp add: put_pre_def bindings_ok_slot)
qed

context append_only_store
begin

lemma put_tuples_correct:
  assumes env: "env_ok D home dec"
    and put: "\<And>s m k v. put_pre D home dec ops ok L s m k v \<Longrightarrow>
      put_post D home dec ops ok L s (bt_insert k v m) (put_at_node D home dec ops s (canon_node D home L m) (key_hash D k) L k v)"
    and "ok s" "bindings_ok m" "stored D home dec ops s L m" "bindings_ok ts" "L < 52"
    and "agree D L (keys ts \<union> keys m)" "inj_on (key_hash D) (keys ts \<union> keys m)"
  shows "put_post D home dec ops ok L s (fold (\<lambda>(k, v). bt_insert k v) ts m)
     (put_tuples D home dec ops s (canon_node D home L m) L ts)"
  using assms(3-)
proof (induction ts arbitrary: s m)
  case Nil
  then show ?case by (simp add: put_post_Inr)
next
  case (Cons t ts)
  obtain k v where t: "t = (k, v)" by force
  have ts: "bindings_ok ts" "hash_ok v" "length k < 2 ^ 64" using Cons.prems by (auto simp: t bindings_ok_def bt_wf_Cons)
  have "put_pre D home dec ops ok L s m k v"
    using Cons.prems ts by (auto simp: put_pre_def t intro: agree_mono inj_on_subset)
  from put[OF this] show ?case unfolding t put_tuples.simps
  proof (rule and_then_post, goal_cases)
    case (1 n s')
    have "put_post D home dec ops ok L s' (fold (\<lambda>(k, v). bt_insert k v) ts (bt_insert k v m))
        (put_tuples D home dec ops s' (canon_node D home L (bt_insert k v m)) L ts)"
      using 1 Cons.prems ts by (intro Cons.IH) (auto simp: t bindings_ok_insert bt_simps Un_commute insert_commute)
    then show ?case using 1 put_post_ext by simp
  qed
qed

text \<open>Linking the stored sub-node of the changed position.\<close>

lemma store_link:
  assumes env: "env_ok D home dec" and "L < 52" and p: "p < 32" and "ok s" "bindings_ok m'"
    and "stored D home dec ops s0 L m" "ext ops s0 s" "entries D home L m p = Some e"
    and sl: "\<And>q. q < 32 \<Longrightarrow> q \<noteq> p \<Longrightarrow> slot D L q m' = slot D L q m"
    and big: "BUCKET_SIZE < length (slot D L p m')" and st: "stored D home dec ops s (Suc L) (slot D L p m')"
  shows "put_post D home dec ops ok L s m'
    (and_then (store_trie_node D home ops s (canon_node D home (Suc L) (slot D L p m')))
       (\<lambda>h s1. (Inr (with_entry (canon_node D home L m) (rank (entries D home L m) p) (Link h)), s1)))"
proof -
  let ?g = "slot D L p m'"
  obtain r s1 where r: "store_trie_node D home ops s (canon_node D home (Suc L) ?g) = (r, s1)" by force
  have w: "node_ok (canon_node D home (Suc L) ?g)" "ecf_wf (node_value (canon_node D home (Suc L) ?g))"
    using canon_node_ok[OF env bindings_ok_slot[OF assms(5)]] by blast+
  note store = store_node[OF env assms(4) w r]
  show ?thesis
  proof (cases r)
    case (Inl e)
    with store r show ?thesis by (simp add: put_post_Inl)
  next
    case (Inr h)
    then have h: "h = link_of D home L ?g" "load_trie_node dec ops s1 h = Some (canon_node D home (Suc L) ?g)"
      using store by (auto simp: link_of_def)
    have "with_entry (canon_node D home L m) (rank (entries D home L m) p) (Link h) =
        node_of ((entries D home L m)(p \<mapsto> Link h))"
      unfolding with_entry_def canon_entries[OF assms(2)] using node_of_update[of p "entries D home L m" e, OF p assms(8)] by simp
    also have "\<dots> = canon_node D home L m'"
      using big h(1) by (subst canon_upd[OF assms(2) sl]) (auto simp: entry_for_def)
    finally have c: "with_entry (canon_node D home L m) (rank (entries D home L m) p) (Link h) = canon_node D home L m'" .
    have "stored D home dec ops s1 L m'"
    proof (rule stored_upd[OF assms(6), where p = p])
      show "ext ops s0 s1" by (rule ext_trans[OF assms(7)]) (use store in simp)
      show "slot D L q m' = slot D L q m" if "q < 32" "q \<noteq> p" for q using that by (rule sl)
      show "length ?g \<le> BUCKET_SIZE \<or> load_trie_node dec ops s1 (link_of D home L ?g) = Some (canon_node D home (Suc L) ?g) \<and>
          stored D home dec ops s1 (Suc L) ?g"
        using h stored_ext[OF st] store by auto
    qed
    with c store r Inr show ?thesis by (simp add: put_post_Inr)
  qed
qed

end

lemma entry_for_cases:
  "entry_for l g = None \<longleftrightarrow> g = []"
  "entry_for l g = Some (Bucket b) \<longleftrightarrow> g = b \<and> g \<noteq> [] \<and> length g \<le> BUCKET_SIZE"
  "entry_for l g = Some (Link h) \<longleftrightarrow> BUCKET_SIZE < length g \<and> h = l g"
  by (auto simp: entry_for_def trie_consts)

lemma canon_empty: "canon_node D home L [] = node_empty"
proof (cases "L < 52")
  case True
  then show ?thesis by (simp add: canon_node_eq slot_def entry_for_def node_of_empty)
next
  case False
  then show ?thesis by (subst canon_node.simps) simp
qed

lemma stored_empty: "stored D home dec ops s L []"
  by (subst stored_iff) (simp add: slot_def)

lemma entries_Some: "slot D L p m \<noteq> [] \<Longrightarrow> \<exists>e. entries D home L m p = Some e"
  using entry_for_cases(1)[of "link_of D home L" "slot D L p m"] by (simp add: entries_def)

text \<open>What the code reads at the position of a key.\<close>

lemma canon_position:
  assumes "L < 52"
  obtains p where "bit_slice_at (key_hash D k) L = Some p" "unat p = key_slice D L k"
    "position (sn_map (canon_node D home L m)) p =
       (slot D L (key_slice D L k) m \<noteq> [], rank (entries D home L m) (key_slice D L k))"
proof -
  obtain p where p: "bit_slice_at (key_hash D k) L = Some p" "unat p = key_slice D L k" "unat p < 32"
    using slice_Some[OF assms] by blast
  have "position (sn_map (canon_node D home L m)) p = (entries D home L m (unat p) \<noteq> None, rank (entries D home L m) (unat p))"
    unfolding canon_entries[OF assms] using p(3) by (rule position_node_of)
  moreover have "entries D home L m q \<noteq> None \<longleftrightarrow> slot D L q m \<noteq> []" for q
    unfolding entries_def entry_for_cases(1) by (rule refl)
  ultimately show ?thesis using p by (intro that[of p]) simp_all
qed

lemma canon_nth:
  assumes "L < 52" "p < 32" "entries D home L m p = Some e"
  shows "\<not> length (sn_data (canon_node D home L m)) \<le> rank (entries D home L m) p"
    "sn_data (canon_node D home L m) ! rank (entries D home L m) p = e"
  using node_of_nth[of p "entries D home L m" e, OF assms(2,3)] by (simp_all add: canon_entries[OF assms(1)])

lemma canon_with_entry:
  assumes "L < 52" "p < 32" "slot D L p m \<noteq> []" "entry_for (link_of D home L) (slot D L p m') = Some e"
    and "\<And>q. q < 32 \<Longrightarrow> q \<noteq> p \<Longrightarrow> slot D L q m' = slot D L q m"
  shows "with_entry (canon_node D home L m) (rank (entries D home L m) p) e = canon_node D home L m'"
proof -
  obtain e0 where e0: "entries D home L m p = Some e0" using assms(3) entries_Some by blast
  have "with_entry (canon_node D home L m) (rank (entries D home L m) p) e = node_of ((entries D home L m)(p \<mapsto> e))"
    using node_of_update[of p "entries D home L m" e0, OF assms(2) e0] by (simp add: with_entry_def canon_entries[OF assms(1)])
  also have "\<dots> = canon_node D home L m'"
    using canon_upd[OF assms(1) assms(5), of p home] by (simp add: assms(4))
  finally show ?thesis .
qed

lemma slot_insert_same:
  "bt_wf m \<Longrightarrow> slot D L (key_slice D L k) (bt_insert k v m) = bt_insert k v (slot D L (key_slice D L k) m)"
  by (simp add: slot_bt_insert)

lemma slot_insert_other:
  "bt_wf m \<Longrightarrow> q \<noteq> key_slice D L k \<Longrightarrow> slot D L q (bt_insert k v m) = slot D L q m"
  by (simp add: slot_bt_insert)

lemma bt_insert_not_Nil [simp]: "bt_insert k v g \<noteq> []"
  by (cases g) (auto split: if_splits)

lemma keys_length: "bt_wf g \<Longrightarrow> card (keys g) = length g"
  using bt_wf_distinct[of g] distinct_card[of "map fst g"] by simp

text \<open>One level of \<open>put_at_node\<close> on a canonical node, by the bindings at the key's position.\<close>

definition put_below ::
    "digests \<Rightarrow> u8 \<Rightarrow> (bytes \<Rightarrow> Value option) \<Rightarrow> 's content_ops \<Rightarrow> nat \<Rightarrow> (string, hash) btree \<Rightarrow> string \<Rightarrow> hash \<Rightarrow> 's \<Rightarrow> snapshot_node \<Rightarrow>
     (trie_error + snapshot_node) \<times> 's" where
  "put_below D home dec ops L m k v s sub =
     and_then (put_at_node D home dec ops s sub (key_hash D k) (Suc L) k v)
       (\<lambda>sub' s1. and_then (store_trie_node D home ops s1 sub')
         (\<lambda>h s2. (Inr (with_entry (canon_node D home L m) (rank (entries D home L m) (key_slice D L k)) (Link h)), s2)))"

lemma put_at_canon:
  assumes "L < 52" "bt_wf m" and g: "g = slot D L (key_slice D L k) m"
  shows "put_at_node D home dec ops s (canon_node D home L m) (key_hash D k) L k v =
    (if length (bt_insert k v g) \<le> BUCKET_SIZE then (Inr (canon_node D home L (bt_insert k v m)), s)
     else if length g \<le> BUCKET_SIZE
     then and_then (put_tuples D home dec ops s node_empty (Suc L) g) (\<lambda>sub s1. put_below D home dec ops L m k v s1 sub)
     else case load_trie_node dec ops s (link_of D home L g) of
            None \<Rightarrow> (Inl (TrieErr ''missing sub-node''), s)
          | Some sub \<Rightarrow> put_below D home dec ops L m k v s sub)"
proof -
  let ?p = "key_slice D L k" and ?g' = "bt_insert k v g"
  have p32: "?p < 32" by (rule slice_bounded[OF assms(1)])
  have gwf: "bt_wf g" using assms(2) by (simp add: g)
  obtain p where p: "bit_slice_at (key_hash D k) L = Some p" "unat p = ?p"
    "position (sn_map (canon_node D home L m)) p = (g \<noteq> [], rank (entries D home L m) ?p)"
    using canon_position[OF assms(1)] g by metis
  have same: "slot D L ?p (bt_insert k v m) = ?g'" using slot_insert_same[OF assms(2)] by (simp add: g)
  note other = slot_insert_other[OF assms(2), of _ D L k v]
  have replace: "with_entry (canon_node D home L m) (rank (entries D home L m) ?p) (Bucket ?g') = canon_node D home L (bt_insert k v m)"
    if "g \<noteq> []" "length ?g' \<le> BUCKET_SIZE"
    using that other by (intro canon_with_entry[OF assms(1) p32]) (simp_all add: g[symmetric] same entry_for_def)
  consider (new) "g = []" | (bucket) "g \<noteq> []" "length g \<le> BUCKET_SIZE" | (link) "BUCKET_SIZE < length g" by linarith
  then show ?thesis
  proof cases
    case new
    then have "entries D home L m ?p = None" by (simp add: entries_def entry_for_def g[symmetric])
    note ins = node_of_insert[of ?p "entries D home L m", OF p32 this]
    have "canon_node D home L (bt_insert k v m) = node_of ((entries D home L m)(?p \<mapsto> Bucket [(k, v)]))"
      using canon_upd[OF assms(1) other, of ?p home] new by (simp add: same entry_for_def trie_consts)
    with ins new p show ?thesis by (simp add: canon_entries[OF assms(1)] trie_consts not_less)
  next
    case bucket
    then have ent: "entries D home L m ?p = Some (Bucket g)" by (simp add: entries_def entry_for_cases g[symmetric])
    note nth = canon_nth[OF assms(1) p32 ent]
    show ?thesis
    proof (cases "tuple_pos g k")
      case (Some i)
      note i = tuple_pos_Some[OF Some]
      have "g[i := (fst (g ! i), v)] = ?g'" using update_is_insert[OF gwf] i by metis
      moreover have "length ?g' = length g" using i nth_mem[of i g] by (auto simp: length_bt_insert[OF gwf])
      ultimately show ?thesis using bucket p nth Some replace by simp
    next
      case None
      then have k: "k \<notin> keys g" by (simp add: tuple_pos_None)
      then have len: "length ?g' = Suc (length g)" by (simp add: length_bt_insert[OF gwf])
      show ?thesis
        using bucket p nth None len replace sort_snoc_is_insert[OF gwf k] by (simp add: put_below_def trie_consts)
    qed
  next
    case link
    then have "entries D home L m ?p = Some (Link (link_of D home L g))" by (simp add: entries_def entry_for_cases g[symmetric])
    note nth = canon_nth[OF assms(1) p32 this]
    have "\<not> length ?g' \<le> BUCKET_SIZE" using link by (simp add: length_bt_insert[OF gwf])
    with link p nth show ?thesis
      by (cases "load_trie_node dec ops s (link_of D home L g)") (auto simp: put_below_def)
  qed
qed

context append_only_store
begin

lemma put_below_post:
  assumes env: "env_ok D home dec" and pre: "put_pre D home dec ops ok L s0 m k v" and g: "g = slot D L (key_slice D L k) m"
    and IH: "\<And>s m k v. put_pre D home dec ops ok (Suc L) s m k v \<Longrightarrow>
      put_post D home dec ops ok (Suc L) s (bt_insert k v m)
        (put_at_node D home dec ops s (canon_node D home (Suc L) m) (key_hash D k) (Suc L) k v)"
    and big: "BUCKET_SIZE < length (bt_insert k v g)" "g \<noteq> []" and s: "ok s" "ext ops s0 s" "stored D home dec ops s (Suc L) g"
  shows "put_post D home dec ops ok L s0 (bt_insert k v m) (put_below D home dec ops L m k v s (canon_node D home (Suc L) g))"
proof -
  have L: "L < 52" and m: "bindings_ok m" "bt_wf m" and st: "stored D home dec ops s0 L m" and v: "hash_ok v" "length k < 2 ^ 64"
    using pre by (auto simp: put_pre_def bindings_ok_def)
  have gwf: "bt_wf g" using m by (simp add: g)
  have "\<not> keys (bt_insert k v g) \<subseteq> {k}"
    using big(1) card_mono[of "{k}" "keys (bt_insert k v g)"] keys_length[OF bt_wf_insert[OF gwf, of k v]] by (auto simp: trie_consts)
  then obtain x where x: "x \<in> keys g" "x \<noteq> k" by (auto simp: keys_bt_insert)
  note sub = put_pre_slot[OF pre env g x]
  have "put_pre D home dec ops ok (Suc L) s g k v" using sub s v by (simp add: put_pre_def)
  from put_post_ext[OF IH[OF this] s(2)] show ?thesis unfolding put_below_def
  proof (rule and_then_post, goal_cases)
    case (1 sub s1)
    let ?p = "key_slice D L k"
    obtain e where "entries D home L m ?p = Some e" using big(2) g entries_Some by blast
    then have "put_post D home dec ops ok L s1 (bt_insert k v m)
        (and_then (store_trie_node D home ops s1 (canon_node D home (Suc L) (slot D L ?p (bt_insert k v m))))
          (\<lambda>h s2. (Inr (with_entry (canon_node D home L m) (rank (entries D home L m) ?p) (Link h)), s2)))"
      using 1 slot_insert_same[OF m(2)] slot_insert_other[OF m(2)] bindings_ok_insert[OF m(1) v] big(1)
      by (intro store_link[OF env L slice_bounded[OF L] _ _ st]) (auto simp: g)
    then show ?case using 1 put_post_ext slot_insert_same[OF m(2)] by (simp add: g)
  qed
qed

lemma put_correct:
  assumes env: "env_ok D home dec"
  shows "put_pre D home dec ops ok L s m k v \<Longrightarrow>
    put_post D home dec ops ok L s (bt_insert k v m) (put_at_node D home dec ops s (canon_node D home L m) (key_hash D k) L k v)"
proof (induction "52 - L" arbitrary: L s m k v)
  case 0
  then show ?case by (simp add: put_pre_def)
next
  case (Suc n)
  have IH: "put_pre D home dec ops ok (Suc L) s m k v \<Longrightarrow>
    put_post D home dec ops ok (Suc L) s (bt_insert k v m)
      (put_at_node D home dec ops s (canon_node D home (Suc L) m) (key_hash D k) (Suc L) k v)" for s m k v
    using Suc.hyps(2) by (intro Suc.hyps(1)) auto
  note pre = Suc.prems
  have L: "L < 52" and m: "bt_wf m" and s: "ok s" "stored D home dec ops s L m" using pre by (auto simp: put_pre_def bindings_ok_def)
  define g where "g = slot D L (key_slice D L k) m"
  have gwf: "bt_wf g" using m by (simp add: g_def)
  note unfold = put_at_canon[OF L m g_def, of home dec ops s v] and below = put_below_post[OF env pre g_def IH]
  consider (small) "length (bt_insert k v g) \<le> BUCKET_SIZE"
    | (full) "BUCKET_SIZE < length (bt_insert k v g)" "length g \<le> BUCKET_SIZE" | (link) "BUCKET_SIZE < length g" by linarith
  then show ?case
  proof cases
    case small
    have "stored D home dec ops s L (bt_insert k v m)"
      by (rule stored_upd[OF s(2) ext_refl, where p = "key_slice D L k"])
        (simp_all add: slot_insert_same[OF m] slot_insert_other[OF m] g_def[symmetric] small)
    with small s(1) show ?thesis unfolding unfold by (simp add: put_post_Inr)
  next
    case full
    then have g: "g \<noteq> []" "k \<notin> keys g" by (auto simp: trie_consts length_bt_insert[OF gwf] split: if_splits)
    note sub = put_pre_slot[OF pre env g_def, of "fst (hd g)"]
    have hd: "fst (hd g) \<in> keys g" "fst (hd g) \<noteq> k" using g by auto
    have "put_post D home dec ops ok (Suc L) s (fold (\<lambda>(k, v). bt_insert k v) g [])
        (put_tuples D home dec ops s (canon_node D home (Suc L) []) (Suc L) g)"
      using sub[OF hd] s(1) stored_empty
      by (intro put_tuples_correct[OF env IH]) (auto simp: bindings_ok_def[of "[]"] intro: agree_mono inj_on_subset)
    then have "put_post D home dec ops ok (Suc L) s g (put_tuples D home dec ops s node_empty (Suc L) g)"
      using fold_insert_append[of "[]" g] gwf by (simp add: canon_empty)
    then show ?thesis
      unfolding unfold using full g(1) below by (simp add: not_le) (erule and_then_post, simp)
  next
    case link
    have "BUCKET_SIZE < length (bt_insert k v g)" "g \<noteq> []" using link by (auto simp: length_bt_insert[OF gwf])
    moreover have "load_trie_node dec ops s (link_of D home L g) = Some (canon_node D home (Suc L) g)" "stored D home dec ops s (Suc L) g"
      using s(2) link L slice_bounded[OF L] unfolding stored_iff[of _ _ _ _ _ L] g_def by (auto simp: not_le[symmetric])
    ultimately show ?thesis using below[OF _ _ _ s(1) ext_refl] link unfolding unfold by (auto simp: not_le)
  qed
qed

end

end
