(* ===== verification/Trie_Remove.thy ===== *)
theory Trie_Remove
  imports Trie_Put
begin

text \<open>
  Lookup, collection, counting and flattening of canonical tries; \<open>remove_at_node\<close> keeps the trie
  canonical, collapsing a sub-node that falls to three bindings.
\<close>

unbundle bit_operations_syntax

section \<open>Reading a canonical trie\<close>

definition good :: "digests \<Rightarrow> nat \<Rightarrow> (string, hash) btree \<Rightarrow> bool" where
  "good D L m \<longleftrightarrow> bindings_ok m \<and> L < 52 \<and> agree D L (keys m) \<and> inj_on (key_hash D) (keys m)"

lemma good_slot:
  assumes "env_ok D home dec" "good D L m" "BUCKET_SIZE < length (slot D L p m)"
  shows "good D (Suc L) (slot D L p m)"
proof -
  let ?g = "slot D L p m"
  have sub: "keys ?g \<subseteq> keys m" by (auto simp: keys_slot)
  have ag: "agree D (Suc L) (keys ?g)" and inj: "inj_on (key_hash D) (keys ?g)"
    using assms(2) sub by (auto simp: good_def keys_slot intro: agree_Suc inj_on_subset)
  obtain a b r where ab: "?g = a # b # r"
    using assms(3) by (cases ?g; cases "tl ?g") (auto simp: trie_consts)
  have "distinct (map fst ?g)" using assms(2) by (simp add: good_def bindings_ok_def bt_wf_distinct)
  then have "fst a \<noteq> fst b" by (simp add: ab)
  then have "Suc L < 52"
    using assms(1,2) by (intro two_keys_level[OF _ ag inj, of "fst a" "fst b"]) (auto simp: env_ok_def good_def ab)
  with ag inj assms(2) show ?thesis by (simp add: good_def bindings_ok_slot)
qed

lemma stored_slot:
  assumes "stored D home dec ops s L m" "L < 52" "p < 32" "BUCKET_SIZE < length (slot D L p m)"
  shows "load_trie_node dec ops s (link_of D home L (slot D L p m)) = Some (canon_node D home (Suc L) (slot D L p m))"
    "stored D home dec ops s (Suc L) (slot D L p m)"
  using assms unfolding stored_iff[of _ _ _ _ _ L m] by (auto simp: not_le[symmetric])

lemma map_of_filter_key: "map_of (filter (\<lambda>t. P (fst t)) m) k = (if P k then map_of m k else None)"
  by (induction m) auto

lemma map_of_slot: "map_of (slot D L (key_slice D L k) m) k = map_of m k"
  using map_of_filter_key[of "\<lambda>x. key_slice D L x = key_slice D L k" m k] by (simp add: slot_def)

lemma find_map_of: "find (\<lambda>t. fst t = k) g = map_option (\<lambda>h. (k, h)) (map_of g k)"
  by (induction g) auto

lemma trie_step_canon:
  assumes "L < 52" "g = slot D L (key_slice D L k) m"
  shows "trie_step D (canon_node D home L m) k L =
    Inr (if BUCKET_SIZE < length g then Descend (link_of D home L g)
         else case map_of m k of Some h \<Rightarrow> Found h | None \<Rightarrow> Absent)"
proof -
  obtain p where p: "bit_slice_at (key_hash D k) L = Some p" "unat p = key_slice D L k" "unat p < 32"
    using slice_Some[OF assms(1)] by blast
  let ?f = "entries D home L m"
  have pos: "position (sn_map (node_of ?f)) p = (?f (unat p) \<noteq> None, rank ?f (unat p))" using p(3) by (rule position_node_of)
  have fp: "?f (unat p) = entry_for (link_of D home L) g" by (simp add: entries_def assms(2) p(2))
  have mo: "map_of g k = map_of m k" by (simp add: assms(2) map_of_slot)
  show ?thesis
  proof (cases "?f (unat p)")
    case None
    then have "g = []" using fp by (simp add: entry_for_cases)
    with None mo show ?thesis by (simp add: trie_step_def canon_entries assms(1) p(1) pos)
  next
    case (Some e)
    note nth = node_of_nth[of "unat p" ?f e, OF p(3) Some]
    show ?thesis
      using Some fp nth mo
      by (cases e) (auto simp: trie_step_def canon_entries assms(1) p(1) pos entry_for_cases find_map_of split: option.splits)
  qed
qed

lemma trie_get_loop_correct:
  assumes env: "env_ok D home dec"
  shows "good D L m \<Longrightarrow> stored D home dec ops s L m \<Longrightarrow>
    trie_get_loop D dec ops s (canon_node D home L m) k L = Inr (map_of m k)"
proof (induction "52 - L" arbitrary: L m)
  case 0
  then show ?case by (simp add: good_def)
next
  case (Suc n)
  have L: "L < 52" using Suc.prems by (simp add: good_def)
  let ?g = "slot D L (key_slice D L k) m"
  note step = trie_step_canon[OF L refl, of D home m k]
  show ?case
  proof (cases "BUCKET_SIZE < length ?g")
    case True
    note sub = stored_slot[OF Suc.prems(2) L slice_bounded[OF L] True]
    have "trie_get_loop D dec ops s (canon_node D home (Suc L) ?g) k (Suc L) = Inr (map_of ?g k)"
      using Suc.hyps(2) good_slot[OF env Suc.prems(1) True] sub(2) by (intro Suc.hyps(1)) auto
    then show ?thesis
      by (subst trie_get_loop.simps) (simp add: step True sub(1) map_of_slot)
  next
    case False
    then show ?thesis by (subst trie_get_loop.simps) (simp add: step split: option.splits)
  qed
qed

section \<open>Walking a canonical trie\<close>

text \<open>The walks over a list of entries meet the tuples \<open>X\<close>, in this order.\<close>

definition add_count :: "nat \<Rightarrow> (trie_error + nat) option \<Rightarrow> (trie_error + nat) option" where
  "add_count c x = Option.bind x (\<lambda>r. Some (case r of Inl err \<Rightarrow> Inl err | Inr n \<Rightarrow> Inr (c + n)))"

lemma add_count_simps [simp]: "add_count 0 x = x" "add_count a (add_count b x) = add_count (a + b) x"
  "add_count c (Some (Inr n)) = Some (Inr (c + n))"
  by (cases x; cases "the x"; simp add: add_count_def)+

definition yields :: "(bytes \<Rightarrow> Value option) \<Rightarrow> 's content_ops \<Rightarrow> 's \<Rightarrow> Entry list \<Rightarrow> (string \<times> hash) list \<Rightarrow> bool" where
  "yields dec ops s es X \<longleftrightarrow>
     (\<forall>rest out. flatten_entries_into dec ops s (es @ rest) out = flatten_entries_into dec ops s rest (out @ X)) \<and>
     (\<forall>rest out. collect_bindings_into dec ops s (es @ rest) out =
        collect_bindings_into dec ops s rest (fold (\<lambda>(k, h). bt_insert k h) X out)) \<and>
     (\<forall>rest. count_list_entries dec ops s (es @ rest) =
        add_count (length X) (count_list_entries dec ops s rest))"

lemma walk_Nil:
  "flatten_entries_into dec ops s [] out = Some (Inr out)" "collect_bindings_into dec ops s [] acc = Some acc"
  "count_list_entries dec ops s [] = Some (Inr 0)"
  by (simp_all add: flatten_entries_into.simps collect_bindings_into.simps count_list_entries.simps)

lemma yields_Nil: "yields dec ops s [] []"
  by (simp add: yields_def)

lemma yields_append: "yields dec ops s es X \<Longrightarrow> yields dec ops s es' X' \<Longrightarrow> yields dec ops s (es @ es') (X @ X')"
  by (simp add: yields_def)

lemma yields_Bucket: "yields dec ops s [Bucket b] b"
  unfolding yields_def
  by (simp add: flatten_entries_into.simps[of _ _ _ "Bucket b # _"] collect_bindings_into.simps[of _ _ _ "Bucket b # _"]
      count_list_entries.simps[of _ _ _ "Bucket b # _"] add_count_def)

lemma yields_all: "yields dec ops s es X \<Longrightarrow>
    flatten_entries_into dec ops s es out = Some (Inr (out @ X)) \<and>
    collect_bindings_into dec ops s es acc = Some (fold (\<lambda>(k, h). bt_insert k h) X acc) \<and>
    count_list_entries dec ops s es = Some (Inr (length X))"
proof -
  assume y: "yields dec ops s es X"
  then show ?thesis
    unfolding yields_def using walk_Nil by (metis (no_types, lifting) add_0_right add_count_simps(3) append_Nil2)
qed

lemma yields_Link:
  assumes "load_trie_node dec ops s h = Some n" "yields dec ops s (sn_data n) X"
  shows "yields dec ops s [Link h] X"
proof -
  note all = yields_all[OF assms(2)]
  show ?thesis
    unfolding yields_def using all assms(1)
    by (simp add: flatten_entries_into.simps[of _ _ _ "Link h # _"] collect_bindings_into.simps[of _ _ _ "Link h # _"]
        count_list_entries.simps[of _ _ _ "Link h # _"] add_count_def)
qed

lemma mset_slots:
  "(\<And>t. t \<in> set m \<Longrightarrow> f t < n) \<Longrightarrow> mset (concat (map (\<lambda>p. filter (\<lambda>t. f t = p) m) [0..<n])) = mset m"
proof (induction m)
  case (Cons t m)
  have "mset (concat (map (\<lambda>p. filter (\<lambda>x. f x = p) (t # m)) ps)) =
      mset (concat (map (\<lambda>p. filter (\<lambda>x. f x = p) m) ps)) + (if f t \<in> set ps then {#t#} else {#})" if "distinct ps" for ps
    using that by (induction ps) auto
  from this[of "[0..<n]"] Cons show ?case by simp
qed simp

lemma canon_yields:
  assumes env: "env_ok D home dec"
  shows "good D L m \<Longrightarrow> stored D home dec ops s L m \<Longrightarrow> \<exists>X. yields dec ops s (sn_data (canon_node D home L m)) X \<and> mset X = mset m"
proof (induction "52 - L" arbitrary: L m)
  case 0
  then show ?case by (simp add: good_def)
next
  case (Suc n)
  have L: "L < 52" using Suc.prems by (simp add: good_def)
  have one: "\<exists>X. yields dec ops s (case entries D home L m p of None \<Rightarrow> [] | Some e \<Rightarrow> [e]) X \<and> mset X = mset (slot D L p m)"
    if p: "p < 32" for p
  proof -
    let ?g = "slot D L p m"
    show ?thesis
    proof (cases "BUCKET_SIZE < length ?g")
      case True
      note sub = stored_slot[OF Suc.prems(2) L p True]
      obtain X where "yields dec ops s (sn_data (canon_node D home (Suc L) ?g)) X" "mset X = mset ?g"
        using Suc.hyps(1)[OF _ good_slot[OF env Suc.prems(1) True] sub(2)] Suc.hyps(2) L by (metis Suc_diff_Suc nat.inject)
      moreover have "entries D home L m p = Some (Link (link_of D home L ?g))" using True by (auto simp: entries_def entry_for_def)
      ultimately show ?thesis using yields_Link[OF sub(1)] by auto
    next
      case False
      then show ?thesis
        using yields_Nil yields_Bucket[of dec ops s ?g] by (cases "?g = []") (auto simp: entries_def entry_for_def)
    qed
  qed
  have "\<exists>X. yields dec ops s (List.map_filter (entries D home L m) ps) X \<and> mset X = mset (concat (map (\<lambda>p. slot D L p m) ps))"
    if "\<forall>p \<in> set ps. p < 32" for ps
    using that
  proof (induction ps)
    case Nil
    then show ?case using yields_Nil by (auto simp: map_filter_simps)
  next
    case (Cons p ps)
    then obtain X Y where X: "yields dec ops s (List.map_filter (entries D home L m) ps) X" "mset X = mset (concat (map (\<lambda>p. slot D L p m) ps))"
      and Y: "yields dec ops s (case entries D home L m p of None \<Rightarrow> [] | Some e \<Rightarrow> [e]) Y" "mset Y = mset (slot D L p m)"
      using one[of p] by auto
    have "List.map_filter (entries D home L m) (p # ps) =
        (case entries D home L m p of None \<Rightarrow> [] | Some e \<Rightarrow> [e]) @ List.map_filter (entries D home L m) ps"
      by (simp add: map_filter_simps split: option.splits)
    with yields_append[OF Y(1) X(1)] X(2) Y(2) show ?case by (intro exI[of _ "Y @ X"]) simp
  qed
  from this[of "[0..<32]"] obtain X where "yields dec ops s (sn_data (canon_node D home L m)) X"
    "mset X = mset (concat (map (\<lambda>p. slot D L p m) [0..<32]))"
    using L by (auto simp: canon_entries node_of_def simp del: upt_rec_numeral)
  moreover have "mset (concat (map (\<lambda>p. slot D L p m) [0..<32])) = mset m"
    unfolding slot_def using slice_bounded[OF L] by (intro mset_slots)
  ultimately show ?case by auto
qed

section \<open>Remove keeps the trie canonical\<close>

lemma filter_bt_remove:
  "bt_wf m \<Longrightarrow> filter (\<lambda>t. P (fst t)) (bt_remove k m) = (if P k then bt_remove k (filter (\<lambda>t. P (fst t)) m) else filter (\<lambda>t. P (fst t)) m)"
proof (induction m)
  case (Cons a m)
  obtain x y where a: "a = (x, y)" by force
  with Cons show ?case by (auto simp: bt_wf_Cons)
qed simp

lemma slot_bt_remove:
  "bt_wf m \<Longrightarrow> slot D L p (bt_remove k m) = (if key_slice D L k = p then bt_remove k (slot D L p m) else slot D L p m)"
  unfolding slot_def by (rule filter_bt_remove)

lemma length_bt_remove: "length (bt_remove k g) = (if k \<in> keys g then length g - 1 else length g)"
proof (induction g)
  case (Cons a g)
  then show ?case by (cases a; cases g) auto
qed simp

lemma length_bt_remove_le: "length (bt_remove k g) \<le> length g"
  by (simp add: length_bt_remove)

lemma bt_remove_absent: "k \<notin> keys g \<Longrightarrow> bt_remove k g = g"
proof (induction g)
  case (Cons a g)
  then show ?case by (cases a) auto
qed simp

lemma good_remove: "good D L m \<Longrightarrow> good D L (bt_remove k m)"
proof -
  assume "good D L m"
  moreover have "keys (bt_remove k m) \<subseteq> keys m" using set_bt_remove_subset[of k m] by blast
  ultimately show ?thesis by (auto simp: good_def bindings_ok_remove intro: agree_mono inj_on_subset)
qed

lemma sort_perm_is_map:
  assumes "bt_wf m" "mset ts = mset m"
  shows "sort_key fst ts = m"
proof (rule sort_key_inj_key_eq)
  show "mset ts = mset m" by fact
  show "inj_on fst (set ts)" using bt_wf_distinct[OF assms(1)] mset_eq_setD[OF assms(2)] by (simp add: distinct_map)
  show "sorted (map fst m)" using assms(1) by (simp add: bt_wf_def strict_sorted_iff)
qed

definition remove_post ::
    "digests \<Rightarrow> u8 \<Rightarrow> (bytes \<Rightarrow> Value option) \<Rightarrow> 's content_ops \<Rightarrow> ('s \<Rightarrow> bool) \<Rightarrow> nat \<Rightarrow> 's \<Rightarrow> (string, hash) btree \<Rightarrow> string \<Rightarrow> bool \<Rightarrow>
     (trie_error + RemoveOutcome) \<times> 's \<Rightarrow> bool" where
  "remove_post D home dec ops ok L s m k is_root res \<longleftrightarrow>
     (case res of (r, s') \<Rightarrow> ok s' \<and> ext ops s s' \<and>
       (case r of
          Inl e \<Rightarrow> \<exists>msg. e = TrieErr msg
        | Inr Unchanged \<Rightarrow> k \<notin> keys m
        | Inr (Changed n) \<Rightarrow> k \<in> keys m \<and> n = canon_node D home L (bt_remove k m) \<and>
            stored D home dec ops s' L (bt_remove k m) \<and> (is_root \<or> BUCKET_SIZE < length (bt_remove k m))
        | Inr (Inline ts) \<Rightarrow> k \<in> keys m \<and> \<not> is_root \<and> length (bt_remove k m) \<le> BUCKET_SIZE \<and> mset ts = mset (bt_remove k m)))"

lemma finish_remove_post:
  assumes env: "env_ok D home dec" and "good D L m" "ok s" "ext ops s0 s" "k \<in> keys m"
    and st: "stored D home dec ops s L (bt_remove k m)"
  shows "\<exists>r. finish_remove dec ops is_root s (canon_node D home L (bt_remove k m)) = Some r \<and> remove_post D home dec ops ok L s0 m k is_root r"
proof -
  obtain X where X: "yields dec ops s (sn_data (canon_node D home L (bt_remove k m))) X" "mset X = mset (bt_remove k m)"
    using canon_yields[OF env good_remove[OF assms(2)] st] by blast
  note all = yields_all[OF X(1)]
  have "length X = length (bt_remove k m)" using X(2) by (metis size_mset)
  then show ?thesis
    using all assms X(2)
    by (cases is_root)
       (auto simp: finish_remove_def count_entries_def flatten_entries_def remove_post_def trie_consts)
qed

lemma canon_without_entry:
  assumes "L < 52" "unat p < 32" "slot D L (unat p) m \<noteq> []" "slot D L (unat p) m' = []"
    and "\<And>q. q < 32 \<Longrightarrow> q \<noteq> unat p \<Longrightarrow> slot D L q m' = slot D L q m"
  shows "without_entry (canon_node D home L m) p (rank (entries D home L m) (unat p)) = canon_node D home L m'"
proof -
  obtain e where e: "entries D home L m (unat p) = Some e" using assms(3) entries_Some by blast
  have "without_entry (canon_node D home L m) p (rank (entries D home L m) (unat p)) = node_of ((entries D home L m)(unat p := None))"
    using node_of_remove[of "unat p" "entries D home L m" e, OF assms(2) e]
    by (simp add: without_entry_def canon_entries[OF assms(1)])
  also have "\<dots> = canon_node D home L m'"
    using canon_upd[OF assms(1) assms(5), of "unat p" home] by (simp add: assms(4) entry_for_def)
  finally show ?thesis .
qed

lemma bt_remove_Nil_iff: "k \<in> keys g \<Longrightarrow> bt_remove k g = [] \<longleftrightarrow> length g = 1"
proof -
  assume k: "k \<in> keys g"
  then have "length g \<noteq> 0" by auto
  with k length_bt_remove[of k g] show ?thesis unfolding length_0_conv[symmetric] by (cases "length g") simp_all
qed

text \<open>One level of \<open>remove_at_node\<close> on a canonical node.\<close>

lemma remove_at_canon:
  assumes "L < 52" "bt_wf m" and g: "g = slot D L (key_slice D L k) m"
  obtains p where "unat p = key_slice D L k"
    "remove_at_node D home dec ops s (canon_node D home L m) (key_hash D k) L k is_root =
      (if length g \<le> BUCKET_SIZE
       then if k \<in> keys m then finish_remove dec ops is_root s (canon_node D home L (bt_remove k m)) else Some (Inr Unchanged, s)
       else case load_trie_node dec ops s (link_of D home L g) of
              None \<Rightarrow> Some (Inl (TrieErr ''missing sub-node''), s)
            | Some sub \<Rightarrow>
                Option.bind (remove_at_node D home dec ops s sub (key_hash D k) (Suc L) k False)
                  (relink D home dec ops is_root (canon_node D home L m) p (rank (entries D home L m) (key_slice D L k))))"
proof -
  let ?p = "key_slice D L k" and ?g' = "bt_remove k g" and ?m' = "bt_remove k m"
  have p32: "?p < 32" by (rule slice_bounded[OF assms(1)])
  have gwf: "bt_wf g" using assms(2) by (simp add: g)
  obtain p where p: "bit_slice_at (key_hash D k) L = Some p" "unat p = ?p"
    "position (sn_map (canon_node D home L m)) p = (g \<noteq> [], rank (entries D home L m) ?p)"
    using canon_position[OF assms(1)] g by metis
  have same: "slot D L ?p ?m' = ?g'" and other: "\<And>q. q \<noteq> ?p \<Longrightarrow> slot D L q ?m' = slot D L q m"
    using assms(2) by (simp_all add: slot_bt_remove g)
  have kg: "k \<in> keys g \<longleftrightarrow> k \<in> keys m" by (auto simp: g keys_slot)
  consider (none) "g = []" | (bucket) "g \<noteq> []" "length g \<le> BUCKET_SIZE" | (link) "BUCKET_SIZE < length g" by linarith
  then show ?thesis
  proof cases
    case none
    with p kg show ?thesis by (intro that[of p]) (auto simp: trie_consts)
  next
    case bucket
    then have "entries D home L m ?p = Some (Bucket g)" by (simp add: entries_def entry_for_cases g[symmetric])
    note nth = canon_nth[OF assms(1) p32 this]
    show ?thesis
    proof (cases "tuple_pos g k")
      case None
      then have "k \<notin> keys g" by (simp add: tuple_pos_None)
      with bucket p nth kg None show ?thesis by (intro that[of p]) auto
    next
      case (Some i)
      note i = tuple_pos_Some[OF Some]
      then have k: "k \<in> keys g" by auto
      have cut: "take i g @ drop (Suc i) g = ?g'" using remove_nth_is_remove[OF gwf] i by blast
      have "length ?g' \<le> BUCKET_SIZE" using bucket length_bt_remove_le[of k g] by linarith
      then have "?g' \<noteq> [] \<Longrightarrow> with_entry (canon_node D home L m) (rank (entries D home L m) ?p) (Bucket ?g') = canon_node D home L ?m'"
        using bucket(1) other by (intro canon_with_entry[OF assms(1) p32]) (simp_all add: g[symmetric] same entry_for_def)
      moreover have "?g' = [] \<Longrightarrow> without_entry (canon_node D home L m) p (rank (entries D home L m) ?p) = canon_node D home L ?m'"
        using bucket(1) other p32 canon_without_entry[OF assms(1), of p D m ?m' home] by (simp add: g[symmetric] same p(2))
      ultimately show ?thesis
        using p nth Some bucket k kg cut bt_remove_Nil_iff[OF k] by (intro that[of p]) auto
    qed
  next
    case link
    then have "entries D home L m ?p = Some (Link (link_of D home L g))" by (simp add: entries_def entry_for_cases g[symmetric])
    note nth = canon_nth[OF assms(1) p32 this]
    with link p have "remove_at_node D home dec ops s (canon_node D home L m) (key_hash D k) L k is_root =
       (case load_trie_node dec ops s (link_of D home L g) of
              None \<Rightarrow> Some (Inl (TrieErr ''missing sub-node''), s)
            | Some sub \<Rightarrow>
                Option.bind (remove_at_node D home dec ops s sub (key_hash D k) (Suc L) k False)
                  (relink D home dec ops is_root (canon_node D home L m) p (rank (entries D home L m) ?p)))"
      by (cases "load_trie_node dec ops s (link_of D home L g)") auto
    with link p(2) show ?thesis by (intro that[of p]) simp_all
  qed
qed

context append_only_store
begin

lemma relink_post:
  assumes env: "env_ok D home dec" and "good D L m" and g: "g = slot D L (key_slice D L k) m" "BUCKET_SIZE < length g"
    and p: "unat p = key_slice D L k" and st: "stored D home dec ops s0 L m"
    and res: "remove_post D home dec ops ok (Suc L) s0 g k False (r, s)"
  shows "\<exists>r'. relink D home dec ops is_root (canon_node D home L m) p (rank (entries D home L m) (key_slice D L k)) (r, s) = Some r' \<and>
    remove_post D home dec ops ok L s0 m k is_root r'"
proof -
  let ?p = "key_slice D L k" and ?g' = "bt_remove k g" and ?m' = "bt_remove k m"
  have L: "L < 52" and m: "bindings_ok m" "bt_wf m" using assms(2) by (auto simp: good_def bindings_ok_def)
  have p32: "?p < 32" by (rule slice_bounded[OF L])
  have s: "ok s" "ext ops s0 s" using res by (simp_all add: remove_post_def)
  have same: "slot D L ?p ?m' = ?g'" and other: "\<And>q. q < 32 \<Longrightarrow> q \<noteq> ?p \<Longrightarrow> slot D L q ?m' = slot D L q m"
    using m(2) by (simp_all add: slot_bt_remove g(1))
  have kg: "k \<in> keys g \<longleftrightarrow> k \<in> keys m" by (auto simp: g(1) keys_slot)
  have gn: "slot D L ?p m \<noteq> []" using g by auto
  note finish = finish_remove_post[OF env assms(2)]
  show ?thesis
  proof (cases r)
    case (Inl err)
    with res show ?thesis by (simp add: remove_post_def relink_def)
  next
    case (Inr out)
    show ?thesis
    proof (cases out)
      case Unchanged
      with Inr res kg show ?thesis by (simp add: remove_post_def relink_def)
    next
      case (Changed n)
      then have n: "n = canon_node D home (Suc L) ?g'" "stored D home dec ops s (Suc L) ?g'" "BUCKET_SIZE < length ?g'" "k \<in> keys m"
        using Inr res kg by (auto simp: remove_post_def)
      obtain e where "entries D home L m ?p = Some e" using gn entries_Some by blast
      from store_link[OF env L p32 s(1) bindings_ok_remove[OF m(1)] st s(2) this other] n
      have link: "put_post D home dec ops ok L s ?m' (and_then (store_trie_node D home ops s n)
            (\<lambda>h s2. (Inr (with_entry (canon_node D home L m) (rank (entries D home L m) ?p) (Link h)), s2)))"
        by (simp add: same)
      obtain q s2 where q: "store_trie_node D home ops s n = (q, s2)" by force
      show ?thesis
      proof (cases q)
        case (Inl err)
        with link q s(2) Inr Changed show ?thesis by (auto simp: put_post_Inl remove_post_def relink_def intro: ext_trans)
      next
        case (Inr h2)
        with link q have s2: "ok s2" "ext ops s0 s2" "stored D home dec ops s2 L ?m'"
          "with_entry (canon_node D home L m) (rank (entries D home L m) ?p) (Link h2) = canon_node D home L ?m'"
          using s(2) by (auto simp: put_post_Inr intro: ext_trans)
        with q Inr \<open>r = Inr out\<close> Changed finish[of ok s2 ops s0 k, OF s2(1,2) n(4) s2(3)] show ?thesis by (simp add: relink_def)
      qed
    next
      case (Inline ts)
      then have ts: "length ?g' \<le> BUCKET_SIZE" "mset ts = mset ?g'" "k \<in> keys g" using Inr res by (auto simp: remove_post_def)
      have "sort_key fst ts = ?g'" using m(2) ts(2) by (simp add: sort_perm_is_map g(1))
      moreover have "?g' \<noteq> []" using bt_remove_Nil_iff[OF ts(3)] g(2) by (auto simp: trie_consts)
      moreover from this ts(2) have "ts \<noteq> []" by auto
      ultimately have "(if ts = [] then without_entry (canon_node D home L m) p (rank (entries D home L m) ?p)
          else with_entry (canon_node D home L m) (rank (entries D home L m) ?p) (Bucket (sort_key fst ts))) = canon_node D home L ?m'"
        using canon_with_entry[OF L p32 gn _ other, of home "Bucket ?g'"] ts(1) by (simp add: same entry_for_def)
      moreover have "stored D home dec ops s L ?m'"
        by (rule stored_upd[OF st s(2), where p = ?p]) (simp_all add: other same ts(1))
      ultimately show ?thesis
        using Inline Inr finish[of ok s ops s0 k, OF s] ts(3) kg by (simp add: relink_def)
    qed
  qed
qed

lemma remove_correct:
  assumes env: "env_ok D home dec"
  shows "good D L m \<Longrightarrow> ok s \<Longrightarrow> stored D home dec ops s L m \<Longrightarrow>
    \<exists>r. remove_at_node D home dec ops s (canon_node D home L m) (key_hash D k) L k is_root = Some r \<and>
        remove_post D home dec ops ok L s m k is_root r"
proof (induction "52 - L" arbitrary: L m is_root)
  case 0
  then show ?case by (simp add: good_def)
next
  case (Suc n)
  have L: "L < 52" and m: "bt_wf m" using Suc.prems by (auto simp: good_def bindings_ok_def)
  define g where "g = slot D L (key_slice D L k) m"
  obtain p where p: "unat p = key_slice D L k"
    "remove_at_node D home dec ops s (canon_node D home L m) (key_hash D k) L k is_root =
      (if length g \<le> BUCKET_SIZE
       then if k \<in> keys m then finish_remove dec ops is_root s (canon_node D home L (bt_remove k m)) else Some (Inr Unchanged, s)
       else case load_trie_node dec ops s (link_of D home L g) of
              None \<Rightarrow> Some (Inl (TrieErr ''missing sub-node''), s)
            | Some sub \<Rightarrow>
                Option.bind (remove_at_node D home dec ops s sub (key_hash D k) (Suc L) k False)
                  (relink D home dec ops is_root (canon_node D home L m) p (rank (entries D home L m) (key_slice D L k))))"
    using remove_at_canon[OF L m g_def] by metis
  show ?case
  proof (cases "length g \<le> BUCKET_SIZE")
    case True
    have "stored D home dec ops s L (bt_remove k m)"
      by (rule stored_upd[OF Suc.prems(3) ext_refl, where p = "key_slice D L k"])
        (use le_trans[OF length_bt_remove_le True, of k] in \<open>simp_all add: slot_bt_remove[OF m] g_def\<close>)
    with True p(2) Suc.prems finish_remove_post[of D home dec L m ok s ops s k is_root, OF env Suc.prems(1,2) ext_refl] show ?thesis
      by (cases "k \<in> keys m") (simp_all add: remove_post_def)
  next
    case False
    then have big: "BUCKET_SIZE < length g" by simp
    note sub = stored_slot[OF Suc.prems(3) L slice_bounded[OF L, of D k], folded g_def, OF big]
    obtain r s1 where r: "remove_at_node D home dec ops s (canon_node D home (Suc L) g) (key_hash D k) (Suc L) k False = Some (r, s1)"
      "remove_post D home dec ops ok (Suc L) s g k False (r, s1)"
      using Suc.hyps(1)[OF _ good_slot[OF env Suc.prems(1)] Suc.prems(2)] big sub(2) Suc.hyps(2) L
      by (metis Suc_diff_Suc g_def nat.inject old.prod.exhaust)
    with False p sub(1) relink_post[OF env Suc.prems(1) g_def big p(1) Suc.prems(3) r(2)] show ?thesis by simp
  qed
qed

end

end
