(* ===== verification/Trie_Main.thy ===== *)
theory Trie_Main
  imports Trie_Remove
begin

text \<open>
  The trie operations as operations on an abstract map, whatever the order of edits, on the
  in-memory store: a run on the store that reports collisions is a run on the store itself.
\<close>

unbundle bit_operations_syntax

section \<open>A guarded run is a run\<close>

definition agrees :: "('e + 'a) \<times> 's \<Rightarrow> ('e + 'a) \<times> 's \<Rightarrow> bool" where
  "agrees r r' \<longleftrightarrow> (\<forall>a s. r = (Inr a, s) \<longrightarrow> r' = (Inr a, s))"

lemma agrees_refl [simp]: "agrees r r" by (simp add: agrees_def)

lemma agrees_and_then:
  "agrees r r' \<Longrightarrow> (\<And>a s. r = (Inr a, s) \<Longrightarrow> agrees (f a s) (f' a s)) \<Longrightarrow> agrees (and_then r f) (and_then r' f')"
  by (auto simp: agrees_def and_then_def split: prod.splits sum.splits)

lemma agrees_store: "agrees (store_trie_node D home (guard ops) s n) (store_trie_node D home ops s n)"
  by (auto simp: agrees_def store_trie_node_def guard_def split: sum.splits prod.splits StoreError.splits if_splits)

lemma put_guard:
  "agrees (put_at_node D home dec (guard ops) s node hb L k v) (put_at_node D home dec ops s node hb L k v)"
  "agrees (put_tuples D home dec (guard ops) s node L ts) (put_tuples D home dec ops s node L ts)"
proof (induction D home dec "guard ops" s node hb L k v and D home dec "guard ops" s node L ts
    rule: put_at_node_put_tuples.induct)
  case (1 D home dec s node hb L k v)
  show ?case
  proof (cases "bit_slice_at hb L")
    case None
    then show ?thesis by (subst (1 2) put_at_node.simps) simp
  next
    case (Some p)
    obtain b idx where pos: "position (sn_map node) p = (b, idx)" by force
    note IH = 1[OF Some refl pos[symmetric]]
    show ?thesis
    proof (cases "b \<and> idx < length (sn_data node)")
      case False
      then show ?thesis by (subst (1 2) put_at_node.simps) (auto simp: Some pos)
    next
      case True
      then have b: "b" "\<not> length (sn_data node) \<le> idx" by auto
      show ?thesis
      proof (cases "sn_data node ! idx")
        case (Bucket tuples)
        then show ?thesis
          using IH(1,2)[OF _ b(2) Bucket] b
          by (subst (1 2) put_at_node.simps)
            (auto simp: Some pos simp del: put_at_node.simps intro!: agrees_and_then agrees_store split: option.split)
      next
        case (Link h)
        then show ?thesis
          using IH(3)[OF _ b(2) Link] b
          by (subst (1 2) put_at_node.simps)
            (auto simp: Some pos simp del: put_at_node.simps intro!: agrees_and_then agrees_store split: option.split)
      qed
    qed
  qed
next
  case (3 D home dec s sub level k v tuples)
  then show ?case by (auto simp del: put_at_node.simps intro!: agrees_and_then)
qed simp

lemma count_load:
  "count_list_entries dec ops s es = Some r \<Longrightarrow> load_trie_node dec ops s = load_trie_node dec ops' s \<Longrightarrow>
     count_list_entries dec ops' s es = Some r"
proof (induction arbitrary: ops' rule: count_list_entries.raw_induct[rotated 1, consumes 1])
  case (1 f dec ops s es r)
  show ?case
  proof (cases es)
    case Nil
    with 1(2) show ?thesis by (subst count_list_entries.simps) simp
  next
    case (Cons e rest)
    show ?thesis
    proof (cases e)
      case (Bucket b)
      obtain r0 where "f dec ops s rest = Some r0" "r = (case r0 of Inl err \<Rightarrow> Inl err | Inr n \<Rightarrow> Inr (length b + n))"
        using 1(2) by (auto simp: Cons Bucket Option.bind_eq_Some_conv)
      with 1(1)[OF this(1) 1(3)] Cons Bucket show ?thesis by (subst count_list_entries.simps) simp
    next
      case (Link h)
      show ?thesis
      proof (cases "load_trie_node dec ops s h")
        case None
        with 1(2,3) Cons Link show ?thesis by (subst count_list_entries.simps) simp
      next
        case (Some sub)
        with 1(2) Cons Link obtain r0 where r0: "f dec ops s (sn_data sub) = Some r0"
          and r: "(case r0 of Inl err \<Rightarrow> Some (Inl err) | Inr a \<Rightarrow>
             Option.bind (f dec ops s rest) (\<lambda>r. Some (case r of Inl err \<Rightarrow> Inl err | Inr n \<Rightarrow> Inr (a + n)))) = Some r"
          by (auto simp: Option.bind_eq_Some_conv)
        note c0 = 1(1)[OF r0 1(3)]
        show ?thesis
        proof (cases r0)
          case (Inl err)
          with r c0 Some 1(3) Cons Link show ?thesis by (subst count_list_entries.simps) auto
        next
          case (Inr a)
          with r obtain r1 where r1: "f dec ops s rest = Some r1" "r = (case r1 of Inl err \<Rightarrow> Inl err | Inr n \<Rightarrow> Inr (a + n))"
            by (auto simp: Option.bind_eq_Some_conv)
          with 1(1)[OF r1(1) 1(3)] c0 Inr Some 1(3) Cons Link show ?thesis by (subst count_list_entries.simps) simp
        qed
      qed
    qed
  qed
qed

lemma flatten_load:
  "flatten_entries_into dec ops s es out = Some r \<Longrightarrow> load_trie_node dec ops s = load_trie_node dec ops' s \<Longrightarrow>
     flatten_entries_into dec ops' s es out = Some r"
proof (induction arbitrary: ops' rule: flatten_entries_into.raw_induct[rotated 1, consumes 1])
  case (1 f dec ops s es out r)
  show ?case
  proof (cases es)
    case Nil
    with 1(2) show ?thesis by (subst flatten_entries_into.simps) simp
  next
    case (Cons e rest)
    show ?thesis
    proof (cases e)
      case (Bucket b)
      with 1(2) Cons have "f dec ops s rest (out @ b) = Some r" by simp
      with 1(1)[OF this 1(3)] Cons Bucket show ?thesis by (subst flatten_entries_into.simps) simp
    next
      case (Link h)
      show ?thesis
      proof (cases "load_trie_node dec ops s h")
        case None
        with 1(2,3) Cons Link show ?thesis by (subst flatten_entries_into.simps) simp
      next
        case (Some sub)
        with 1(2) Cons Link obtain r0 where r0: "f dec ops s (sn_data sub) out = Some r0"
          and r: "(case r0 of Inl err \<Rightarrow> Some (Inl err) | Inr out' \<Rightarrow> f dec ops s rest out') = Some r"
          by (auto simp: Option.bind_eq_Some_conv)
        note c0 = 1(1)[OF r0 1(3)]
        show ?thesis
        proof (cases r0)
          case (Inl err)
          with r c0 Some 1(3) Cons Link show ?thesis by (subst flatten_entries_into.simps) auto
        next
          case (Inr out')
          with r have r1: "f dec ops s rest out' = Some r" by simp
          with 1(1)[OF r1 1(3)] c0 Inr Some 1(3) Cons Link show ?thesis by (subst flatten_entries_into.simps) simp
        qed
      qed
    qed
  qed
qed

lemma option_eqI: "(\<And>x. a = Some x \<Longrightarrow> b = Some x) \<Longrightarrow> (\<And>x. b = Some x \<Longrightarrow> a = Some x) \<Longrightarrow> a = b"
  by (cases a; cases b) auto

lemma walk_guard:
  "count_list_entries dec (guard ops) s es = count_list_entries dec ops s es"
  "flatten_entries_into dec (guard ops) s es out = flatten_entries_into dec ops s es out"
proof -
  have l: "load_trie_node dec (guard ops) s = load_trie_node dec ops s" by simp
  show "count_list_entries dec (guard ops) s es = count_list_entries dec ops s es"
    by (rule option_eqI) (erule count_load[OF _ l], erule count_load[OF _ l[symmetric]])
  show "flatten_entries_into dec (guard ops) s es out = flatten_entries_into dec ops s es out"
    by (rule option_eqI) (erule flatten_load[OF _ l], erule flatten_load[OF _ l[symmetric]])
qed

lemma finish_guard: "finish_remove dec (guard ops) is_root s n = finish_remove dec ops is_root s n"
  unfolding finish_remove_def count_entries_def flatten_entries_def walk_guard ..

lemma relink_guard:
  "relink D home dec (guard ops) is_root node p idx res = Some (Inr x, s') \<Longrightarrow> relink D home dec ops is_root node p idx res = Some (Inr x, s')"
proof -
  assume a: "relink D home dec (guard ops) is_root node p idx res = Some (Inr x, s')"
  obtain r s1 where res: "res = (r, s1)" by force
  show ?thesis
    using a agrees_store[of D home ops s1] unfolding res relink_def finish_guard
    by (auto simp: agrees_def split: sum.splits RemoveOutcome.splits prod.splits)
qed

lemma remove_guard:
  "remove_at_node D home dec (guard ops) s node hb L k is_root = Some (Inr x, s') \<Longrightarrow>
     remove_at_node D home dec ops s node hb L k is_root = Some (Inr x, s')"
proof (induction D home dec "guard ops" s node hb L k is_root arbitrary: x s' rule: remove_at_node.induct)
  case (1 D home dec s node hb L k is_root)
  show ?case
  proof (cases "bit_slice_at hb L")
    case None
    with 1(2) show ?thesis by (subst (asm) remove_at_node.simps) simp
  next
    case (Some p)
    obtain b idx where pos: "position (sn_map node) p = (b, idx)" by force
    note IH = 1(1)[OF Some refl pos[symmetric]]
    show ?thesis
    proof (cases "b \<and> idx < length (sn_data node)")
      case False
      with 1(2) show ?thesis
        by (subst (asm) remove_at_node.simps, subst remove_at_node.simps) (auto simp: Some pos split: if_splits)
    next
      case True
      then have b: "b" "\<not> length (sn_data node) \<le> idx" by auto
      show ?thesis
      proof (cases "sn_data node ! idx")
        case (Bucket tuples)
        with 1(2) b show ?thesis
          by (subst (asm) remove_at_node.simps, subst remove_at_node.simps)
            (cases "tuple_pos tuples k"; simp add: Some pos finish_guard)
      next
        case (Link h)
        show ?thesis
        proof (cases "load_trie_node dec ops s h")
          case None
          with 1(2) b Link show ?thesis by (subst (asm) remove_at_node.simps) (simp add: Some pos)
        next
          case (Some sub)
          have step: "remove_at_node D home dec o' s node hb L k is_root =
              Option.bind (remove_at_node D home dec o' s sub hb (L + 1) k False) (relink D home dec o' is_root node p idx)"
            if "load_trie_node dec o' = load_trie_node dec ops" for o'
            using b Link Some that by (subst remove_at_node.simps) (simp add: \<open>bit_slice_at hb L = Some p\<close> pos del: remove_at_node.simps)
          from 1(2) obtain q s1 where q: "remove_at_node D home dec (guard ops) s sub hb (L + 1) k False = Some (q, s1)"
            and x: "relink D home dec (guard ops) is_root node p idx (q, s1) = Some (Inr x, s')"
            unfolding step[of "guard ops", OF guard_get(3)] by (auto simp: Option.bind_eq_Some_conv simp del: remove_at_node.simps)
          from x obtain y where y: "q = Inr y" by (cases q) (auto simp: relink_def)
          have "remove_at_node D home dec ops s sub hb (L + 1) k False = Some (Inr y, s1)"
            using IH[OF _ b(2) Link _ q[unfolded y]] b(1) Some by simp
          with relink_guard[OF x] y show ?thesis unfolding step[of ops, OF refl] by simp
        qed
      qed
    qed
  qed
qed

section \<open>The trie as an abstract map\<close>

definition trie_root :: "digests \<Rightarrow> u8 \<Rightarrow> (string, hash) btree \<Rightarrow> hash" where
  "trie_root D home m = node_hash D home (canon_node D home 0 m)"

text \<open>In state \<open>s\<close> the hash \<open>h\<close> is the rt of the canonical trie of \<open>m\<close>, all of it stored.\<close>

definition represents ::
    "digests \<Rightarrow> u8 \<Rightarrow> (bytes \<Rightarrow> Value option) \<Rightarrow> 's content_ops \<Rightarrow> 's \<Rightarrow> hash \<Rightarrow> (string, hash) btree \<Rightarrow> bool" where
  "represents D home dec ops s h m \<longleftrightarrow>
     h = trie_root D home m \<and> load_trie_node dec ops s h = Some (canon_node D home 0 m) \<and>
     stored D home dec ops s 0 m \<and> good D 0 m"

definition trie_of ::
    "digests \<Rightarrow> u8 \<Rightarrow> (bytes \<Rightarrow> Value option) \<Rightarrow> 's content_ops \<Rightarrow> 's \<Rightarrow> hash option \<Rightarrow> (string, hash) btree \<Rightarrow> bool" where
  "trie_of D home dec ops s rt m \<longleftrightarrow> (case rt of None \<Rightarrow> m = [] | Some h \<Rightarrow> represents D home dec ops s h m)"

lemma represents_ext: "represents D home dec ops s h m \<Longrightarrow> ext ops s s' \<Longrightarrow> represents D home dec ops s' h m"
  by (auto simp: represents_def intro: stored_ext load_ext)

lemma represents_guard: "represents D home dec (guard ops) s h m \<longleftrightarrow> represents D home dec ops s h m"
proof -
  have "stored D home dec (guard ops) s L m \<longleftrightarrow> stored D home dec ops s L m" for L m
  proof (induction D home dec "guard ops" s L m rule: stored.induct)
    case (1 D home dec s L m)
    then show ?case by (subst (1 2) stored.simps) (auto simp: Let_def)
  qed
  then show ?thesis by (simp add: represents_def)
qed

lemma trie_of_good: "trie_of D home dec ops s rt m \<Longrightarrow> good D 0 m \<and> stored D home dec ops s 0 m"
  by (auto simp: trie_of_def represents_def good_def bindings_ok_def stored_empty split: option.splits)

lemma trie_of_load: "trie_of D home dec ops s rt m \<Longrightarrow> load_or_empty dec ops s rt = canon_node D home 0 m"
  by (auto simp: trie_of_def represents_def load_or_empty_def canon_empty split: option.splits)

context append_only_store
begin

lemma store_root:
  assumes "env_ok D home dec" "ok s" "good D 0 m" "stored D home dec ops s 0 m"
    and "store_trie_node D home ops s (canon_node D home 0 m) = (r, s')"
  shows "ok s' \<and> ext ops s s' \<and> (case r of Inr h \<Rightarrow> represents D home dec ops s' h m | Inl e \<Rightarrow> \<exists>msg. e = TrieErr msg)"
proof -
  have "node_ok (canon_node D home 0 m)" "ecf_wf (node_value (canon_node D home 0 m))"
    using canon_node_ok[OF assms(1)] assms(3) by (auto simp: good_def)
  from store_node[OF assms(1,2) this assms(5)] show ?thesis
    using assms(3,4) stored_ext by (auto simp: represents_def trie_root_def split: sum.splits)
qed

lemma trie_put_step:
  assumes env: "env_ok D home dec" and "ok s" "trie_of D home dec ops s rt m" "hash_ok v" "length k < 2 ^ 64"
    and inj: "inj_on (key_hash D) (insert k (keys m))"
    and run: "trie_put D home dec ops s rt k v = (r, s')"
  shows "ok s' \<and> ext ops s s' \<and>
    (case r of Inr h \<Rightarrow> represents D home dec ops s' h (bt_insert k v m) | Inl e \<Rightarrow> \<exists>msg. e = TrieErr msg)"
proof -
  have good: "good D 0 m" "stored D home dec ops s 0 m" using trie_of_good[OF assms(3)] by auto
  have "put_pre D home dec ops ok 0 s m k v" using good assms by (simp add: put_pre_def good_def)
  note post = put_correct[OF env this]
  have good': "good D 0 (bt_insert k v m)"
    using good(1) inj assms(4,5) by (simp add: good_def bindings_ok_insert keys_bt_insert)
  obtain q s1 where q: "put_at_node D home dec ops s (canon_node D home 0 m) (key_hash D k) 0 k v = (q, s1)" by force
  show ?thesis
  proof (cases q)
    case (Inl e)
    with run post q show ?thesis by (auto simp: trie_put_def trie_of_load[OF assms(3)] put_post_Inl)
  next
    case (Inr n)
    with post q have s1: "ok s1" "ext ops s s1" "n = canon_node D home 0 (bt_insert k v m)" "stored D home dec ops s1 0 (bt_insert k v m)"
      by (auto simp: put_post_Inr)
    have "store_trie_node D home ops s1 n = (r, s')" using run q Inr by (simp add: trie_put_def trie_of_load[OF assms(3)])
    from store_root[OF env s1(1) good' s1(4) this[unfolded s1(3)]] s1(2) show ?thesis by (auto intro: ext_trans)
  qed
qed

lemma trie_remove_step:
  assumes env: "env_ok D home dec" and "ok s" "trie_of D home dec ops s rt m"
  shows "\<exists>r s'. trie_remove D home dec ops s rt k = Some (r, s') \<and> ok s' \<and> ext ops s s' \<and>
    (case r of Inr h \<Rightarrow> represents D home dec ops s' h (bt_remove k m) | Inl e \<Rightarrow> \<exists>msg. e = TrieErr msg)"
proof -
  have good: "good D 0 m" "stored D home dec ops s 0 m" using trie_of_good[OF assms(3)] by auto
  obtain q s1 where q: "remove_at_node D home dec ops s (canon_node D home 0 m) (key_hash D k) 0 k True = Some (q, s1)"
    and post: "remove_post D home dec ops ok 0 s m k True (q, s1)"
    using remove_correct[OF env good(1) assms(2) good(2), of k True] by auto
  then have s1: "ok s1" "ext ops s s1" by (simp_all add: remove_post_def)
  show ?thesis
  proof (cases q)
    case (Inl e)
    with q post show ?thesis by (simp add: trie_remove_def trie_of_load[OF assms(3)] remove_post_def)
  next
    case (Inr out)
    have "\<exists>n. trie_remove D home dec ops s rt k = Some (store_trie_node D home ops s1 n) \<and>
        n = canon_node D home 0 (bt_remove k m) \<and> stored D home dec ops s1 0 (bt_remove k m)"
      using q post Inr good(2) s1(2)
      by (cases out) (auto simp: trie_remove_def trie_of_load[OF assms(3)] remove_post_def bt_remove_absent intro: stored_ext)
    then obtain n where n: "trie_remove D home dec ops s rt k = Some (store_trie_node D home ops s1 n)"
      "n = canon_node D home 0 (bt_remove k m)" "stored D home dec ops s1 0 (bt_remove k m)" by blast
    obtain r s' where r: "store_trie_node D home ops s1 n = (r, s')" by force
    from store_root[OF env s1(1) good_remove[OF good(1)] n(3) r[unfolded n(2)]] n(1) r s1(2)
    show ?thesis by (auto intro: ext_trans)
  qed
qed

lemma build_trie_step:
  assumes env: "env_ok D home dec" and "ok s" "bindings_ok m" "inj_on (key_hash D) (keys m)"
    and run: "build_trie D home dec ops s m = (r, s')"
  shows "ok s' \<and> ext ops s s' \<and> (case r of Inr h \<Rightarrow> represents D home dec ops s' h m | Inl e \<Rightarrow> \<exists>msg. e = TrieErr msg)"
proof -
  have post: "put_post D home dec ops ok 0 s (fold (\<lambda>(k, v). bt_insert k v) m []) (put_tuples D home dec ops s (canon_node D home 0 []) 0 m)"
    using assms(2-4) by (intro put_tuples_correct[OF env put_correct[OF env]]) (auto simp: stored_empty bindings_ok_def)
  have m: "fold (\<lambda>(k, v). bt_insert k v) m [] = m" using fold_insert_append[of "[]" m] assms(3) by (simp add: bindings_ok_def)
  obtain q s1 where q: "put_tuples D home dec ops s node_empty 0 m = (q, s1)" by force
  show ?thesis
  proof (cases q)
    case (Inl e)
    with run post q show ?thesis by (auto simp: build_trie_def canon_empty put_post_Inl)
  next
    case (Inr n)
    with post q m have s1: "ok s1" "ext ops s s1" "n = canon_node D home 0 m" "stored D home dec ops s1 0 m"
      by (auto simp: put_post_Inr canon_empty)
    have "good D 0 m" using assms(3,4) by (simp add: good_def)
    moreover have "store_trie_node D home ops s1 n = (r, s')" using run q Inr by (simp add: build_trie_def)
    ultimately show ?thesis using store_root[OF env s1(1) _ s1(4)] s1(2,3) by (auto intro: ext_trans)
  qed
qed

end

section \<open>Sequences of edits\<close>

text \<open>An edit binds a key (\<open>Some\<close>) or removes it (\<open>None\<close>); the driver threads rt and store.\<close>

type_synonym edit = "string \<times> hash option"

definition apply_edit :: "edit \<Rightarrow> (string, hash) btree \<Rightarrow> (string, hash) btree" where
  "apply_edit e m = (case e of (k, Some v) \<Rightarrow> bt_insert k v m | (k, None) \<Rightarrow> bt_remove k m)"

definition run_edit ::
    "digests \<Rightarrow> u8 \<Rightarrow> (bytes \<Rightarrow> Value option) \<Rightarrow> 's content_ops \<Rightarrow> 's \<Rightarrow> hash option \<Rightarrow> edit \<Rightarrow> ((trie_error + hash) \<times> 's) option" where
  "run_edit D home dec ops s rt e =
     (case e of (k, Some v) \<Rightarrow> Some (trie_put D home dec ops s rt k v) | (k, None) \<Rightarrow> trie_remove D home dec ops s rt k)"

fun run_edits ::
    "digests \<Rightarrow> u8 \<Rightarrow> (bytes \<Rightarrow> Value option) \<Rightarrow> 's content_ops \<Rightarrow> 's \<Rightarrow> hash option \<Rightarrow> edit list \<Rightarrow> ((trie_error + hash option) \<times> 's) option" where
  "run_edits D home dec ops s rt [] = Some (Inr rt, s)"
| "run_edits D home dec ops s rt (e # es) =
     (case run_edit D home dec ops s rt e of
        None \<Rightarrow> None
      | Some (Inl err, s') \<Rightarrow> Some (Inl err, s')
      | Some (Inr h, s') \<Rightarrow> run_edits D home dec ops s' (Some h) es)"

definition edit_ok :: "edit \<Rightarrow> bool" where
  "edit_ok e \<longleftrightarrow> length (fst e) < 2 ^ 64 \<and> (case snd e of None \<Rightarrow> True | Some v \<Rightarrow> hash_ok v)"

lemma keys_apply_edit: "keys (apply_edit e m) \<subseteq> insert (fst e) (keys m)"
proof -
  obtain k v where e: "e = (k, v)" by force
  show ?thesis using image_mono[OF set_bt_remove_subset[of k m], of fst] by (cases v) (auto simp: e apply_edit_def keys_bt_insert)
qed

context append_only_store
begin

lemma run_edit_step:
  assumes "env_ok D home dec" "ok s" "trie_of D home dec ops s rt m" "edit_ok e" "inj_on (key_hash D) (insert (fst e) (keys m))"
  shows "\<exists>r s'. run_edit D home dec ops s rt e = Some (r, s') \<and> ok s' \<and> ext ops s s' \<and>
    (case r of Inr h \<Rightarrow> trie_of D home dec ops s' (Some h) (apply_edit e m) | Inl x \<Rightarrow> \<exists>msg. x = TrieErr msg)"
proof -
  obtain k v where e: "e = (k, v)" by force
  show ?thesis
  proof (cases v)
    case None
    have ae: "trie_of D home dec ops s' (Some h) (apply_edit e m) = represents D home dec ops s' h (bt_remove k m)" for s' h
      by (simp add: e None apply_edit_def trie_of_def)
    from trie_remove_step[OF assms(1-3), of k] show ?thesis unfolding ae by (simp add: e None run_edit_def)
  next
    case (Some w)
    obtain r s' where run: "trie_put D home dec ops s rt k w = (r, s')" by force
    have "hash_ok w" "length k < 2 ^ 64" using assms(4) by (simp_all add: e Some edit_ok_def)
    moreover have ae: "trie_of D home dec ops s' (Some h) (apply_edit e m) = represents D home dec ops s' h (bt_insert k w m)" for s' h
      by (simp add: e Some apply_edit_def trie_of_def)
    ultimately show ?thesis
      using trie_put_step[OF assms(1-3) _ _ _ run] assms(5) run unfolding ae by (simp add: e Some run_edit_def)
  qed
qed

lemma run_edits_correct:
  assumes env: "env_ok D home dec"
  shows "ok s \<Longrightarrow> trie_of D home dec ops s rt m \<Longrightarrow> (\<forall>e \<in> set es. edit_ok e) \<Longrightarrow>
    inj_on (key_hash D) (fst ` set es \<union> keys m) \<Longrightarrow>
    \<exists>r s'. run_edits D home dec ops s rt es = Some (r, s') \<and> ok s' \<and>
      (case r of Inr rt' \<Rightarrow> trie_of D home dec ops s' rt' (fold apply_edit es m) | Inl x \<Rightarrow> \<exists>msg. x = TrieErr msg)"
proof (induction es arbitrary: s rt m)
  case (Cons e es)
  have "inj_on (key_hash D) (insert (fst e) (keys m))" using Cons.prems(4) by (rule inj_on_subset) auto
  from run_edit_step[OF env Cons.prems(1,2) _ this] Cons.prems(3)
  obtain r s' where r: "run_edit D home dec ops s rt e = Some (r, s')" "ok s'"
    "case r of Inr h \<Rightarrow> trie_of D home dec ops s' (Some h) (apply_edit e m) | Inl x \<Rightarrow> \<exists>msg. x = TrieErr msg"
    by (metis list.set_intros(1))
  show ?case
  proof (cases r)
    case (Inl x)
    with r show ?thesis by simp
  next
    case (Inr h)
    have "inj_on (key_hash D) (fst ` set es \<union> keys (apply_edit e m))"
      using Cons.prems(4) by (rule inj_on_subset) (use keys_apply_edit[of e m] in auto)
    with r Inr Cons.prems(3) Cons.IH[of s' "Some h" "apply_edit e m"] show ?thesis unfolding fold_Cons comp_apply by simp
  qed
qed simp

end

lemma run_edit_guard:
  "run_edit D home dec (guard ops) s rt e = Some (Inr h, s') \<Longrightarrow> run_edit D home dec ops s rt e = Some (Inr h, s')"
proof -
  assume a: "run_edit D home dec (guard ops) s rt e = Some (Inr h, s')"
  obtain k v where e: "e = (k, v)" by force
  have rt: "load_or_empty dec (guard ops) s rt = load_or_empty dec ops s rt" unfolding load_or_empty_def guard_get ..
  have put: "agrees (trie_put D home dec (guard ops) s rt k w) (trie_put D home dec ops s rt k w)" for w
    unfolding trie_put_def rt by (intro agrees_and_then put_guard agrees_store)
  show ?thesis
  proof (cases v)
    case None
    with a obtain q s1 where q: "remove_at_node D home dec (guard ops) s (load_or_empty dec ops s rt) (key_hash D k) 0 k True = Some (q, s1)"
      and x: "(case q of Inl err \<Rightarrow> (Inl err, s1) | Inr Unchanged \<Rightarrow> store_trie_node D home (guard ops) s1 (load_or_empty dec ops s rt)
        | Inr (Changed n) \<Rightarrow> store_trie_node D home (guard ops) s1 n | Inr (Inline _) \<Rightarrow> (Inl TriePanic, s1)) = (Inr h, s')"
      unfolding e run_edit_def trie_remove_def rt Let_def
      by (auto simp: Option.bind_eq_Some_conv simp del: remove_at_node.simps)
    from x obtain y where y: "q = Inr y" by (cases q) auto
    from remove_guard[OF q[unfolded y]] x y agrees_store[of D home ops s1] None e show ?thesis
      by (auto simp: run_edit_def trie_remove_def agrees_def simp del: remove_at_node.simps split: RemoveOutcome.splits)
  next
    case (Some w)
    with a put[of w] e show ?thesis by (simp add: run_edit_def agrees_def)
  qed
qed

lemma run_edits_guard:
  "run_edits D home dec (guard ops) s rt es = Some (Inr x, s') \<Longrightarrow> run_edits D home dec ops s rt es = Some (Inr x, s')"
proof (induction es arbitrary: s rt)
  case (Cons e es)
  obtain h s1 where h: "run_edit D home dec (guard ops) s rt e = Some (Inr h, s1)"
    using Cons.prems by (auto split: option.splits sum.splits prod.splits)
  with Cons run_edit_guard[OF h] show ?case by simp
qed simp

section \<open>The parameters can be met\<close>

definition toy_digests :: digests where
  "toy_digests = \<lparr>sha256 = (\<lambda>x. take 32 (x @ replicate 32 0)), sha384 = (\<lambda>x. take 48 (x @ replicate 48 0))\<rparr>"

lemma toy_env: "env_ok toy_digests 0 some_decoder"
  by (auto simp: env_ok_def some_decoder_ok digests_ok_def toy_digests_def digest_len_for_format_def format_defs)

lemma toy_key_hash: "key_hash toy_digests [c] = (of_char c :: u8) # replicate 31 0"
  by (simp add: key_hash_def toy_digests_def str_bytes_def numeral_eq_Suc)

lemma run_edits_root:
  "run_edits D home dec ops s rt es = Some (Inr rt', s') \<Longrightarrow> es \<noteq> [] \<or> rt \<noteq> None \<Longrightarrow> rt' \<noteq> None"
  by (induction es arbitrary: s rt) (auto split: option.splits sum.splits prod.splits)

lemma store_in_empty:
  "env_ok D home dec \<Longrightarrow> \<exists>h s. store_trie_node D home (guard mem_ops) [] n = (Inr h, s)"
  by (erule node_entity[of _ _ _ n]) (simp add: store_trie_node_def guard_def mem_ops_def mcs_put_def mcs_get_def)

lemma put_in_empty:
  "\<exists>n. put_at_node D home dec ops s node_empty (key_hash D k) 0 k v = (Inr n, s)"
proof -
  obtain p where p: "bit_slice_at (key_hash D k) 0 = Some p" using bit_slice_at_None[of "key_hash D k" 0] by fastforce
  have "position 0 p = (False, 0)" by (simp add: position_def count_ones_def)
  with p show ?thesis by (simp add: node_empty_def)
qed

lemma toy_bindings: "bindings_ok [(''a'', hash_zero)]"
  by (simp add: bindings_ok_def bt_wf_def hash_ok_def hash_zero_def Hash_new_def digest_len_for_format_def format_defs)

lemma toy_build: "\<exists>h s. build_trie toy_digests 0 some_decoder (guard mem_ops) [] [(''a'', hash_zero)] = (Inr h, s)"
proof -
  obtain n where n: "put_at_node toy_digests 0 some_decoder (guard mem_ops) [] node_empty (key_hash toy_digests ''a'') 0 ''a'' hash_zero = (Inr n, [])"
    using put_in_empty[of toy_digests 0 some_decoder "guard mem_ops" "[]" "''a''" hash_zero] by (elim exE) blast
  obtain h s where "store_trie_node toy_digests 0 (guard mem_ops) [] n = (Inr h, s)" using store_in_empty[OF toy_env] by blast
  with n show ?thesis by (simp add: build_trie_def del: put_at_node.simps)
qed

section \<open>Properties\<close>

text \<open>C37. The root of a snapshot trie depends on the bindings alone.  Any sequence of puts and
  removes from an empty store returns without a panic; unless two different nodes with the same
  content hash are met, the root is the hash of the canonical trie of the resulting map, whatever
  edits led to it, and the whole trie is stored.  The keys must have different 256-bit key hashes.\<close>

theorem trie_history_independent:
  assumes "env_ok D home dec" "\<forall>e \<in> set es. edit_ok e" "inj_on (key_hash D) (fst ` set es)"
  shows "\<exists>r s. run_edits D home dec (guard mem_ops) [] None es = Some (r, s) \<and> r \<noteq> Inl TriePanic \<and>
    (\<forall>rt. r = Inr rt \<longrightarrow>
       run_edits D home dec mem_ops [] None es = Some (Inr rt, s) \<and>
       (es = [] \<or> rt = Some (trie_root D home (fold apply_edit es []))) \<and>
       trie_of D home dec mem_ops s rt (fold apply_edit es []))"
proof -
  obtain r s where r: "run_edits D home dec (guard mem_ops) [] None es = Some (r, s)"
    "case r of Inr rt \<Rightarrow> trie_of D home dec (guard mem_ops) s rt (fold apply_edit es []) | Inl x \<Rightarrow> \<exists>msg. x = TrieErr msg"
    using mem.guarded.run_edits_correct[OF assms(1), of "[]" None "[]" es] assms(2,3) by (auto simp: trie_of_def)
  have tr: "trie_of D home dec mem_ops s rt (fold apply_edit es [])" if "r = Inr rt" for rt
    using r(2) that by (auto simp: trie_of_def represents_guard split: option.splits)
  have "es = [] \<or> rt = Some (trie_root D home (fold apply_edit es []))" if "r = Inr rt" for rt
    using run_edits_root[of D home dec "guard mem_ops" "[]" None es rt s] r(1) tr[OF that] that
    by (auto simp: trie_of_def represents_def split: option.splits)
  with r tr run_edits_guard show ?thesis by (intro exI[of _ r] exI[of _ s]) (auto split: sum.splits)
qed

theorem trie_history_independent_witness:
  "\<exists>s. run_edits toy_digests 0 some_decoder mem_ops [] None [(''a'', Some hash_zero)] =
     Some (Inr (Some (trie_root toy_digests 0 [(''a'', hash_zero)])), s)"
proof -
  let ?es = "[(''a'', Some hash_zero)]"
  have z: "hash_ok hash_zero" using toy_bindings by (simp add: bindings_ok_def)
  have "\<forall>e \<in> set ?es. edit_ok e" "inj_on (key_hash toy_digests) (fst ` set ?es)" by (simp_all add: edit_ok_def z)
  from trie_history_independent[OF toy_env this] obtain r s where
    r: "run_edits toy_digests 0 some_decoder (guard mem_ops) [] None ?es = Some (r, s)"
      "\<forall>rt. r = Inr rt \<longrightarrow> run_edits toy_digests 0 some_decoder mem_ops [] None ?es = Some (Inr rt, s) \<and>
         rt = Some (trie_root toy_digests 0 [(''a'', hash_zero)])"
    by (auto simp: apply_edit_def)
  obtain n where n: "put_at_node toy_digests 0 some_decoder (guard mem_ops) [] node_empty (key_hash toy_digests ''a'') 0 ''a'' hash_zero = (Inr n, [])"
    using put_in_empty[of toy_digests 0 some_decoder "guard mem_ops" "[]" "''a''" hash_zero] by (elim exE) blast
  obtain h s' where "store_trie_node toy_digests 0 (guard mem_ops) [] n = (Inr h, s')" using store_in_empty[OF toy_env] by blast
  then have "\<exists>rt. r = Inr rt" using r(1) n by (auto simp: run_edit_def trie_put_def load_or_empty_def simp del: put_at_node.simps)
  with r(2) show ?thesis by blast
qed

text \<open>C38. Reading a stored trie gives the map back: every lookup returns the binding of the key or
  none, and collecting all bindings returns the map itself, so that different maps have different
  roots in one store.\<close>

theorem trie_read_correct:
  assumes "env_ok D home dec" "represents D home dec ops s h m"
  shows "trie_get D dec ops s h k = Inr (map_of m k) \<and> collect_all_bindings dec ops s h = Some m"
proof -
  have load: "load_trie_node dec ops s h = Some (canon_node D home 0 m)" and st: "stored D home dec ops s 0 m" and good: "good D 0 m"
    using assms(2) unfolding represents_def by blast+
  obtain X where X: "yields dec ops s (sn_data (canon_node D home 0 m)) X" "mset X = mset m"
    using canon_yields[OF assms(1) good st] by blast
  have m: "bt_wf m" using good by (simp add: good_def bindings_ok_def)
  have "distinct (map fst X)"
    using bt_wf_distinct[OF m] X(2) by (metis mset_eq_imp_distinct_iff mset_map)
  then have "map_of (rev X) = map_of m"
    using bt_wf_distinct[OF m] mset_eq_setD[OF X(2)] map_of_inject_set[of "rev X" m] by (simp add: rev_map[symmetric])
  then have "map_of (fold (\<lambda>(k, h). bt_insert k h) X []) = map_of m"
    using bt.fold_insert_get[of "[]" X] by simp
  then have "fold (\<lambda>(k, h). bt_insert k h) X [] = m"
    using m bt.fold_insert_wf[of "[]" X] by (intro bt_ext) auto
  with yields_all[OF X(1)] load have "collect_all_bindings dec ops s h = Some m" by (simp add: collect_all_bindings_def)
  moreover have "trie_get D dec ops s h k = Inr (map_of m k)"
    using trie_get_loop_correct[OF assms(1) good st] load by (simp add: trie_get_def del: trie_get_loop.simps)
  ultimately show ?thesis by simp
qed

theorem trie_read_correct_witness:
  "\<exists>s h. trie_get toy_digests some_decoder mem_ops s h ''a'' = Inr (Some hash_zero) \<and>
     trie_get toy_digests some_decoder mem_ops s h ''b'' = Inr None"
proof -
  from toy_build obtain h s where h: "build_trie toy_digests 0 some_decoder (guard mem_ops) [] [(''a'', hash_zero)] = (Inr h, s)" by blast
  from mem.guarded.build_trie_step[OF toy_env bt_wf_Nil toy_bindings _ h] have "represents toy_digests 0 some_decoder mem_ops s h [(''a'', hash_zero)]"
    by (simp add: represents_guard)
  from trie_read_correct[OF toy_env this, of "''a''"] trie_read_correct[OF toy_env this, of "''b''"] show ?thesis by auto
qed

text \<open>C39. Building a trie from a map is the same as inserting its bindings one by one: the root is
  that of the canonical trie, which is stored, unless two different nodes with one content hash are
  met.\<close>

theorem build_trie_correct:
  assumes "env_ok D home dec" "bt_wf s" "bindings_ok m" "inj_on (key_hash D) (fst ` set m)"
    and "build_trie D home dec (guard mem_ops) s m = (Inr h, s')"
  shows "build_trie D home dec mem_ops s m = (Inr h, s') \<and> h = trie_root D home m \<and>
    represents D home dec mem_ops s' h m \<and> ext mem_ops s s'"
proof -
  have "represents D home dec mem_ops s' h m \<and> ext mem_ops s s'"
    using mem.guarded.build_trie_step[OF assms] by (simp add: represents_guard)
  moreover have "agrees (build_trie D home dec (guard mem_ops) s m) (build_trie D home dec mem_ops s m)"
    unfolding build_trie_def by (intro agrees_and_then put_guard agrees_store)
  ultimately show ?thesis using assms(5) unfolding agrees_def represents_def by blast
qed

theorem build_trie_correct_witness:
  "\<exists>s. build_trie toy_digests 0 some_decoder mem_ops [] [(''a'', hash_zero)] = (Inr (trie_root toy_digests 0 [(''a'', hash_zero)]), s)"
proof -
  from toy_build obtain h s where h: "build_trie toy_digests 0 some_decoder (guard mem_ops) [] [(''a'', hash_zero)] = (Inr h, s)" by blast
  from build_trie_correct[OF toy_env bt_wf_Nil toy_bindings _ h] show ?thesis by auto
qed

end
