(* ===== verification/Trie_Walk.thy ===== *)
theory Trie_Walk
  imports Trie_Ops
begin

text \<open>
  The walks that collect what a snapshot trie reaches (\<^verbatim>\<open>core/tree/src/trie.rs\<close>): the closure of
  hashes and the entities to transfer.  The recursion over links with a set of visited hashes is
  written as a loop over the entries still to visit, in the same order: the entries of a sub-node
  come before the rest.  It ends because every step into a node marks a stored hash.
\<close>

section \<open>Closures\<close>

lemma unvisited_less:
  assumes "load_trie_node dec mem_ops cs h = Some n" "h \<notin> out"
  shows "card (fst ` set cs - insert h out) < card (fst ` set cs - out)"
proof (rule psubset_card_mono)
  have "h \<in> fst ` set cs"
    using assms(1) map_of_eq_None_iff[of cs h] by (auto simp: load_trie_node_def mem_ops_def mcs_get_def split: option.splits)
  with assms(2) show "fst ` set cs - insert h out \<subset> fst ` set cs - out" by auto
qed simp

lemma unvisited_le: "out \<subseteq> out' \<Longrightarrow> card (fst ` set cs - out') \<le> card (fst ` set cs - out)"
  by (intro card_mono) auto

function closure_loop :: "(bytes \<Rightarrow> Value option) \<Rightarrow> content_store \<Rightarrow> Entry list \<Rightarrow> hash set \<Rightarrow> hash set" where
  "closure_loop dec cs [] out = out"
| "closure_loop dec cs (Bucket tuples # es) out = closure_loop dec cs es (out \<union> snd ` set tuples)"
| "closure_loop dec cs (Link h # es) out =
     (if h \<in> out then closure_loop dec cs es out
      else case load_trie_node dec mem_ops cs h of
             None \<Rightarrow> closure_loop dec cs es (insert h out)
           | Some node \<Rightarrow> closure_loop dec cs (sn_data node @ es) (insert h out))"
  by pat_completeness auto

termination
proof (relation "measures [\<lambda>(_, cs, _, out). card (fst ` set cs - out), \<lambda>(_, _, es, _). length es]", goal_cases)
  case 1
  then show ?case by simp
next
  case (2 dec cs tuples es out)
  show ?case using unvisited_le[of out "out \<union> snd ` set tuples" cs] by auto
next
  case (3 dec cs h es out)
  then show ?case by simp
next
  case (4 dec cs h es out)
  show ?case using unvisited_le[OF subset_insertI, of cs h out] by (auto simp: order.strict_iff_order)
next
  case (5 dec cs h es out n)
  then show ?case using unvisited_less by simp
qed

definition collect_closure_into :: "(bytes \<Rightarrow> Value option) \<Rightarrow> content_store \<Rightarrow> hash \<Rightarrow> hash set \<Rightarrow> hash set" where
  "collect_closure_into dec cs node_hash out = closure_loop dec cs [Link node_hash] out"

definition collect_node_closure :: "(bytes \<Rightarrow> Value option) \<Rightarrow> content_store \<Rightarrow> hash \<Rightarrow> hash set" where
  "collect_node_closure dec cs root_hash = collect_closure_into dec cs root_hash {}"

definition collect_hashes_recursive :: "(bytes \<Rightarrow> Value option) \<Rightarrow> content_store \<Rightarrow> hash \<Rightarrow> hash set \<Rightarrow> hash set" where
  "collect_hashes_recursive dec cs node_hash result = closure_loop dec cs [Link node_hash] result"

definition collect_all_hashes :: "(bytes \<Rightarrow> Value option) \<Rightarrow> content_store \<Rightarrow> hash \<Rightarrow> hash set" where
  "collect_all_hashes dec cs node_hash = collect_hashes_recursive dec cs node_hash {}"

definition collect_reachable_hashes :: "(bytes \<Rightarrow> Value option) \<Rightarrow> content_store \<Rightarrow> hash \<Rightarrow> hash set \<Rightarrow> hash set" where
  "collect_reachable_hashes dec cs node_hash collected = closure_loop dec cs [Link node_hash] collected"

text \<open>The loop over the values of a bucket in \<^verbatim>\<open>collect_trie_entities_except\<close>.\<close>

fun collect_values ::
    "content_store \<Rightarrow> hash set \<Rightarrow> (string \<times> hash) list \<Rightarrow> (hash, entity) btree \<Rightarrow> (hash, entity) btree" where
  "collect_values cs skip [] collected = collected"
| "collect_values cs skip ((k, h) # tuples) collected =
     (if h \<notin> skip \<and> map_of collected h = None then
        (case mcs_get h cs of
           Some ent \<Rightarrow> collect_values cs skip tuples (bt_insert h ent collected)
         | None \<Rightarrow> collect_values cs skip tuples collected)
      else collect_values cs skip tuples collected)"

lemma collect_values_keys: "fst ` set collected \<subseteq> fst ` set (collect_values cs skip tuples collected)"
proof (induction cs skip tuples collected rule: collect_values.induct)
  case (2 cs skip k h tuples collected)
  then show ?case by (auto simp: keys_bt_insert split: option.splits)
qed simp

lemma unvisited_insert:
  assumes "mcs_get h cs = Some ent" "map_of collected h = None"
  shows "card (fst ` set cs - fst ` set (bt_insert h ent collected)) < card (fst ` set cs - fst ` set collected)"
proof (rule psubset_card_mono)
  have "h \<in> fst ` set cs" "h \<notin> fst ` set collected"
    using assms by (auto simp: mcs_get_def map_of_eq_None_iff dest: map_of_SomeD) (metis fst_conv image_eqI map_of_SomeD)
  then show "fst ` set cs - fst ` set (bt_insert h ent collected) \<subset> fst ` set cs - fst ` set collected"
    by (auto simp: keys_bt_insert)
qed simp

function entities_loop ::
    "(bytes \<Rightarrow> Value option) \<Rightarrow> content_store \<Rightarrow> hash set \<Rightarrow> Entry list \<Rightarrow> (hash, entity) btree \<Rightarrow> (hash, entity) btree" where
  "entities_loop dec cs skip [] collected = collected"
| "entities_loop dec cs skip (Bucket tuples # es) collected =
     entities_loop dec cs skip es (collect_values cs skip tuples collected)"
| "entities_loop dec cs skip (Link h # es) collected =
     (if h \<in> skip \<or> map_of collected h \<noteq> None then entities_loop dec cs skip es collected
      else case mcs_get h cs of
             None \<Rightarrow> entities_loop dec cs skip es collected
           | Some ent \<Rightarrow>
               (case node_from_cbor dec (data ent) of
                  None \<Rightarrow> entities_loop dec cs skip es (bt_insert h ent collected)
                | Some node \<Rightarrow> entities_loop dec cs skip (sn_data node @ es) (bt_insert h ent collected)))"
  by pat_completeness auto

termination
proof (relation "measures [\<lambda>(_, cs, _, _, collected). card (fst ` set cs - fst ` set collected), \<lambda>(_, _, _, es, _). length es]", goal_cases)
  case 1
  then show ?case by simp
next
  case (2 dec cs skip tuples es collected)
  show ?case using unvisited_le[OF collect_values_keys[of collected cs skip tuples], of cs] by (auto simp: order.strict_iff_order)
qed (simp_all add: unvisited_insert)

definition collect_trie_entities_except ::
    "(bytes \<Rightarrow> Value option) \<Rightarrow> content_store \<Rightarrow> hash \<Rightarrow> hash set \<Rightarrow> (hash, entity) btree \<Rightarrow> (hash, entity) btree" where
  "collect_trie_entities_except dec cs node_hash skip collected = entities_loop dec cs skip [Link node_hash] collected"

definition join_path :: "string \<Rightarrow> string \<Rightarrow> string" where
  "join_path pre suf = (if pre = [] then suf else if suf = [] then pre else pre @ ''/'' @ suf)"

section \<open>What a closure should hold\<close>

definition trie_edge :: "(bytes \<Rightarrow> Value option) \<Rightarrow> content_store \<Rightarrow> (hash \<times> hash) set" where
  "trie_edge dec cs = {(h, h'). \<exists>n. load_trie_node dec mem_ops cs h = Some n \<and> Link h' \<in> set (sn_data n)}"

definition trie_values :: "(bytes \<Rightarrow> Value option) \<Rightarrow> content_store \<Rightarrow> hash \<Rightarrow> hash set" where
  "trie_values dec cs h =
     {v. \<exists>n ts. load_trie_node dec mem_ops cs h = Some n \<and> Bucket ts \<in> set (sn_data n) \<and> v \<in> snd ` set ts}"

definition nodes_below :: "(bytes \<Rightarrow> Value option) \<Rightarrow> content_store \<Rightarrow> hash \<Rightarrow> hash set" where
  "nodes_below dec cs h = {h'. (h, h') \<in> (trie_edge dec cs)\<^sup>*}"

definition values_below :: "(bytes \<Rightarrow> Value option) \<Rightarrow> content_store \<Rightarrow> hash \<Rightarrow> hash set" where
  "values_below dec cs h = (\<Union>n \<in> nodes_below dec cs h. trie_values dec cs n)"

fun entry_reach :: "(bytes \<Rightarrow> Value option) \<Rightarrow> content_store \<Rightarrow> Entry \<Rightarrow> hash set" where
  "entry_reach dec cs (Bucket ts) = snd ` set ts"
| "entry_reach dec cs (Link h) = nodes_below dec cs h \<union> values_below dec cs h"

lemma entry_reach_sub:
  assumes "load_trie_node dec mem_ops cs h = Some n" "e \<in> set (sn_data n)"
  shows "entry_reach dec cs e \<subseteq> nodes_below dec cs h \<union> values_below dec cs h"
proof (cases e)
  case (Bucket ts)
  have "h \<in> nodes_below dec cs h" by (simp add: nodes_below_def)
  then show ?thesis using assms Bucket by (auto simp: values_below_def trie_values_def)
next
  case (Link h')
  then have "(h, h') \<in> trie_edge dec cs" using assms by (auto simp: trie_edge_def)
  then have "nodes_below dec cs h' \<subseteq> nodes_below dec cs h" by (auto simp: nodes_below_def)
  then show ?thesis using Link by (auto simp: values_below_def)
qed

lemma closure_loop_sound:
  "closure_loop dec cs es out \<subseteq> out \<union> (\<Union>e \<in> set es. entry_reach dec cs e)"
proof (induction dec cs es out rule: closure_loop.induct)
  case (3 dec cs h es out)
  have h: "h \<in> nodes_below dec cs h" by (simp add: nodes_below_def)
  show ?case
  proof (cases "h \<in> out")
    case True
    with 3(1) show ?thesis by auto
  next
    case False
    show ?thesis
    proof (cases "load_trie_node dec mem_ops cs h")
      case None
      with 3(2)[OF False None] False h show ?thesis by auto
    next
      case (Some n)
      have "(\<Union>e \<in> set (sn_data n). entry_reach dec cs e) \<subseteq> nodes_below dec cs h \<union> values_below dec cs h"
        using entry_reach_sub[OF Some] by blast
      with 3(3)[OF False Some] False Some h show ?thesis by fastforce
    qed
  qed
qed auto

text \<open>Progress of the loop: \<open>V\<close> are the nodes entered, an entry is done when its link is entered or its
  values are collected.\<close>

fun entry_done :: "hash set \<Rightarrow> hash set \<Rightarrow> Entry \<Rightarrow> bool" where
  "entry_done V out (Bucket ts) \<longleftrightarrow> snd ` set ts \<subseteq> out"
| "entry_done V out (Link h) \<longleftrightarrow> h \<in> V"

lemma entry_done_mono: "entry_done V out e \<Longrightarrow> V \<subseteq> V' \<Longrightarrow> out \<subseteq> out' \<Longrightarrow> entry_done V' out' e"
  by (cases e) auto

fun entry_in :: "hash set \<Rightarrow> hash set \<Rightarrow> Entry \<Rightarrow> bool" where
  "entry_in N U (Bucket ts) \<longleftrightarrow> snd ` set ts \<subseteq> U"
| "entry_in N U (Link h) \<longleftrightarrow> h \<in> N"

definition entered_ok :: "(bytes \<Rightarrow> Value option) \<Rightarrow> content_store \<Rightarrow> hash set \<Rightarrow> hash set \<Rightarrow> (Entry \<Rightarrow> bool) \<Rightarrow> bool" where
  "entered_ok dec cs V out P \<longleftrightarrow>
     V \<subseteq> out \<and> (\<forall>h \<in> V. \<forall>n. load_trie_node dec mem_ops cs h = Some n \<longrightarrow> (\<forall>e \<in> set (sn_data n). P e))"

lemma closure_loop_complete:
  assumes "\<forall>h \<in> N. \<forall>n. load_trie_node dec mem_ops cs h = Some n \<longrightarrow> (\<forall>e \<in> set (sn_data n). entry_in N U e)" "N \<inter> U = {}"
  shows "\<forall>e \<in> set es. entry_in N U e \<Longrightarrow> V \<subseteq> N \<Longrightarrow> out \<inter> N \<subseteq> V \<Longrightarrow>
    entered_ok dec cs V out (\<lambda>e. e \<in> set es \<or> entry_done V out e) \<Longrightarrow>
    \<exists>V'. V \<subseteq> V' \<and> (let F = closure_loop dec cs es out in
      out \<subseteq> F \<and> (\<forall>e \<in> set es. entry_done V' F e) \<and> entered_ok dec cs V' F (entry_done V' F))"
  using assms
proof (induction dec cs es out arbitrary: V rule: closure_loop.induct)
  case (1 dec cs out)
  then show ?case by (intro exI[of _ V]) simp
next
  case (2 dec cs ts es out)
  have "entered_ok dec cs V (out \<union> snd ` set ts) (\<lambda>e. e \<in> set es \<or> entry_done V (out \<union> snd ` set ts) e)"
    using 2(5) unfolding entered_ok_def by (fastforce intro: entry_done_mono)
  moreover have "(out \<union> snd ` set ts) \<inter> N \<subseteq> V" using 2(2,4,7) by auto
  ultimately obtain V' where "V \<subseteq> V'" "let F = closure_loop dec cs es (out \<union> snd ` set ts) in
      out \<union> snd ` set ts \<subseteq> F \<and> (\<forall>e \<in> set es. entry_done V' F e) \<and> entered_ok dec cs V' F (entry_done V' F)"
    using 2(1)[of V] 2(2,3,6,7) by auto
  then show ?case by (intro exI[of _ V']) (auto simp: Let_def)
next
  case (3 dec cs h es out)
  show ?case
  proof (cases "h \<in> out")
    case True
    then have hV: "h \<in> V" using 3(4,6) by auto
    then have "entered_ok dec cs V out (\<lambda>e. e \<in> set es \<or> entry_done V out e)"
      using 3(7) unfolding entered_ok_def by fastforce
    with 3(1)[OF True, of V] 3(4-6,8,9) hV True show ?thesis by (auto simp: Let_def)
  next
    case False
    let ?es = "case load_trie_node dec mem_ops cs h of None \<Rightarrow> es | Some n \<Rightarrow> sn_data n @ es"
    have "entered_ok dec cs (insert h V) (insert h out) (\<lambda>e. e \<in> set ?es \<or> entry_done (insert h V) (insert h out) e)"
      using 3(7) unfolding entered_ok_def by (fastforce intro: entry_done_mono split: option.splits)
    moreover have "\<forall>e \<in> set ?es. entry_in N U e" using 3(4,8) by (auto split: option.splits)
    moreover have "insert h V \<subseteq> N" "insert h out \<inter> N \<subseteq> insert h V" using 3(4-6) by auto
    ultimately obtain V' where "insert h V \<subseteq> V'" "let F = closure_loop dec cs ?es (insert h out) in
        insert h out \<subseteq> F \<and> (\<forall>e \<in> set ?es. entry_done V' F e) \<and> entered_ok dec cs V' F (entry_done V' F)"
      using 3(2)[OF False, of "insert h V"] 3(3)[OF False, of _ "insert h V"] 3(8,9)
      by (cases "load_trie_node dec mem_ops cs h") auto
    with False show ?thesis
      by (intro exI[of _ V']) (cases "load_trie_node dec mem_ops cs h"; auto simp: Let_def)
  qed
qed

section \<open>Properties\<close>

text \<open>C40. The closure of a trie root holds only hashes of nodes and values below the root, and all of
  them when no bound value is itself the hash of a node of the trie.\<close>

theorem collect_node_closure_correct:
  "collect_node_closure dec cs h \<subseteq> nodes_below dec cs h \<union> values_below dec cs h \<and>
   (nodes_below dec cs h \<inter> values_below dec cs h = {} \<longrightarrow>
      collect_node_closure dec cs h = nodes_below dec cs h \<union> values_below dec cs h)"
proof (intro conjI impI)
  show sub: "collect_node_closure dec cs h \<subseteq> nodes_below dec cs h \<union> values_below dec cs h"
    using closure_loop_sound[of dec cs "[Link h]" "{}"] by (simp add: collect_node_closure_def collect_closure_into_def del: closure_loop.simps)
  assume disj: "nodes_below dec cs h \<inter> values_below dec cs h = {}"
  let ?N = "nodes_below dec cs h" and ?F = "closure_loop dec cs [Link h] {}"
  have "\<forall>x \<in> ?N. \<forall>n. load_trie_node dec mem_ops cs x = Some n \<longrightarrow> (\<forall>e \<in> set (sn_data n). entry_in ?N (values_below dec cs h) e)"
  proof (intro ballI allI impI)
    fix x n e assume a: "x \<in> ?N" "load_trie_node dec mem_ops cs x = Some n" "e \<in> set (sn_data n)"
    show "entry_in ?N (values_below dec cs h) e"
    proof (cases e)
      case (Link y)
      then have "(x, y) \<in> trie_edge dec cs" using a by (auto simp: trie_edge_def)
      then show ?thesis using a(1) Link by (auto simp: nodes_below_def)
    qed (use a in \<open>auto simp: values_below_def trie_values_def\<close>)
  qed
  from closure_loop_complete[OF this disj, of "[Link h]" "{}" "{}"]
  obtain V where V: "h \<in> V" "entered_ok dec cs V ?F (entry_done V ?F)"
    by (auto simp: entered_ok_def nodes_below_def Let_def simp del: closure_loop.simps)
  have "?N \<subseteq> V"
  proof
    fix x assume "x \<in> ?N"
    then have "(h, x) \<in> (trie_edge dec cs)\<^sup>*" by (simp add: nodes_below_def)
    then show "x \<in> V"
      by (induction rule: rtrancl_induct) (use V in \<open>fastforce simp: trie_edge_def entered_ok_def\<close>)+
  qed
  with V(2) have "?N \<subseteq> ?F" "values_below dec cs h \<subseteq> ?F"
    unfolding entered_ok_def values_below_def trie_values_def by fastforce+
  with sub show "collect_node_closure dec cs h = ?N \<union> values_below dec cs h"
    by (simp add: collect_node_closure_def collect_closure_into_def del: closure_loop.simps) blast
qed

text \<open>Three stored entities: node 1 binds \<^verbatim>\<open>x\<close> to the hash of node 2 and also links to node 2, node 2
  binds \<^verbatim>\<open>y\<close> to entity 9.\<close>

definition ex_hash :: "u8 \<Rightarrow> hash" where "ex_hash i = Hash 0 (replicate 32 i)"

definition ex_store :: content_store where
  "ex_store = map (\<lambda>i. (ex_hash i, \<lparr>entity_type = ''t'', data = [i], content_hash = ex_hash i\<rparr>)) [1, 2, 9]"

definition ex_dec :: "bytes \<Rightarrow> Value option" where
  "ex_dec b =
     (if b = [1] then Some (node_value \<lparr>sn_map = 3, sn_data = [Bucket [(''x'', ex_hash 2)], Link (ex_hash 2)]\<rparr>)
      else if b = [2] then Some (node_value \<lparr>sn_map = 1, sn_data = [Bucket [(''y'', ex_hash 9)]]\<rparr>)
      else None)"

lemma ex_load:
  "load_trie_node ex_dec mem_ops ex_store (ex_hash 1) = Some \<lparr>sn_map = 3, sn_data = [Bucket [(''x'', ex_hash 2)], Link (ex_hash 2)]\<rparr>"
  "load_trie_node ex_dec mem_ops ex_store (ex_hash 2) = Some \<lparr>sn_map = 1, sn_data = [Bucket [(''y'', ex_hash 9)]]\<rparr>"
  by code_simp+

theorem collect_node_closure_correct_witness:
  "collect_node_closure ex_dec ex_store (ex_hash 2) = {ex_hash 2, ex_hash 9}"
proof -
  have "(ex_hash 2, x) \<notin> trie_edge ex_dec ex_store" for x by (simp add: trie_edge_def ex_load)
  then have n: "nodes_below ex_dec ex_store (ex_hash 2) = {ex_hash 2}"
    unfolding nodes_below_def by (auto elim: converse_rtranclE)
  then have v: "values_below ex_dec ex_store (ex_hash 2) = {ex_hash 9}"
    by (auto simp: values_below_def trie_values_def ex_load)
  have "ex_hash 2 \<noteq> ex_hash 9" by code_simp
  with n v collect_node_closure_correct[of ex_dec ex_store "ex_hash 2"] show ?thesis by auto
qed

text \<open>A bound value that is the hash of a node of the same trie is marked as visited without being
  entered: the closure of the root, and the entities collected for a transfer, then miss what is
  below that node.\<close>

theorem closure_misses_shared_node:
  "ex_hash 9 \<in> values_below ex_dec ex_store (ex_hash 1) \<and>
   ex_hash 9 \<notin> collect_node_closure ex_dec ex_store (ex_hash 1) \<and>
   map_of (collect_trie_entities_except ex_dec ex_store (ex_hash 1) {} []) (ex_hash 2) \<noteq> None \<and>
   map_of (collect_trie_entities_except ex_dec ex_store (ex_hash 1) {} []) (ex_hash 9) = None"
proof (intro conjI)
  have "(ex_hash 1, ex_hash 2) \<in> trie_edge ex_dec ex_store" by (auto simp: trie_edge_def ex_load)
  then have "ex_hash 2 \<in> nodes_below ex_dec ex_store (ex_hash 1)" by (simp add: nodes_below_def r_into_rtrancl)
  moreover have "ex_hash 9 \<in> trie_values ex_dec ex_store (ex_hash 2)" by (simp add: trie_values_def ex_load)
  ultimately show "ex_hash 9 \<in> values_below ex_dec ex_store (ex_hash 1)" unfolding values_below_def by blast
  have ne: "ex_hash 9 \<noteq> ex_hash 1" "ex_hash 9 \<noteq> ex_hash 2" "ex_hash 1 \<noteq> ex_hash 2" by code_simp+
  show "ex_hash 9 \<notin> collect_node_closure ex_dec ex_store (ex_hash 1)"
    using ne by (simp add: collect_node_closure_def collect_closure_into_def ex_load)
  show "map_of (collect_trie_entities_except ex_dec ex_store (ex_hash 1) {} []) (ex_hash 2) \<noteq> None" by code_simp
  show "map_of (collect_trie_entities_except ex_dec ex_store (ex_hash 1) {} []) (ex_hash 9) = None" by code_simp
qed

end
