(* ===== verification/Peer_Identity.thy ===== *)
theory Peer_Identity
  imports Cap_Token
begin

text \<open>
  Peer identities and signatures (\<^verbatim>\<open>core/crypto/src/lib.rs\<close> and the peer and signature payloads of
  \<^verbatim>\<open>core/types/src/lib.rs\<close>).  The curve implementations (\<^verbatim>\<open>ed25519_dalek\<close>, \<^verbatim>\<open>ed448_goldilocks\<close>)
  and the Base58 codec (\<^verbatim>\<open>bs58\<close>) are third-party crates and form the parameter \<open>crypto\<close>;
  \<open>base58_ok\<close> is the documented behaviour of the codec.  A byte array of fixed length is a byte
  list; the conversions that check a length are written out.
\<close>

section \<open>Key types and signatures\<close>

record crypto =
  ed25519_key :: "bytes \<Rightarrow> bool"
  ed25519_verify :: "bytes \<Rightarrow> bytes \<Rightarrow> bytes \<Rightarrow> bool"
  ed448_key :: "bytes \<Rightarrow> bool"
  ed448_sig :: "bytes \<Rightarrow> bool"
  ed448_verify :: "bytes \<Rightarrow> bytes \<Rightarrow> bytes \<Rightarrow> bool"
  base58 :: "bytes \<Rightarrow> string"
  unbase58 :: "string \<Rightarrow> bytes option"

definition base58_ok :: "crypto \<Rightarrow> bool" where
  "base58_ok C \<longleftrightarrow> (\<forall>b. unbase58 C (base58 C b) = Some b)"

definition KEY_TYPE_ED25519 :: u8 where "KEY_TYPE_ED25519 = 0x01"
definition KEY_TYPE_ED448 :: u8 where "KEY_TYPE_ED448 = 0x02"
definition KEY_TYPE_EXPERIMENTAL_TEST :: u8 where "KEY_TYPE_EXPERIMENTAL_TEST = 0xFE"
definition HASH_TYPE_IDENTITY :: u8 where "HASH_TYPE_IDENTITY = 0x00"
definition HASH_TYPE_SHA256 :: u8 where "HASH_TYPE_SHA256 = 0x01"
definition ED25519_PUBLIC_KEY_LEN :: nat where "ED25519_PUBLIC_KEY_LEN = 32"
definition ED448_PUBLIC_KEY_LEN :: nat where "ED448_PUBLIC_KEY_LEN = 57"
definition ED448_SIGNATURE_LEN :: nat where "ED448_SIGNATURE_LEN = 114"
definition EXPERIMENTAL_TEST_PUBLIC_KEY_LEN :: nat where "EXPERIMENTAL_TEST_PUBLIC_KEY_LEN = 64"

lemmas key_defs = KEY_TYPE_ED25519_def KEY_TYPE_ED448_def KEY_TYPE_EXPERIMENTAL_TEST_def
  HASH_TYPE_IDENTITY_def HASH_TYPE_SHA256_def ED25519_PUBLIC_KEY_LEN_def ED448_PUBLIC_KEY_LEN_def
  ED448_SIGNATURE_LEN_def EXPERIMENTAL_TEST_PUBLIC_KEY_LEN_def

datatype CryptoError =
    InvalidSignature
  | InvalidPublicKey
  | InvalidPeerId string
  | UnsupportedKeyType u8
  | IdentityError string
  | IoError string

datatype KeyType = Ed25519 | Ed448 | ExperimentalTest

definition kt_byte :: "KeyType \<Rightarrow> u8" where
  "kt_byte k = (case k of Ed25519 \<Rightarrow> KEY_TYPE_ED25519 | Ed448 \<Rightarrow> KEY_TYPE_ED448
     | ExperimentalTest \<Rightarrow> KEY_TYPE_EXPERIMENTAL_TEST)"

definition kt_label :: "KeyType \<Rightarrow> string" where
  "kt_label k = (case k of Ed25519 \<Rightarrow> ''ed25519'' | Ed448 \<Rightarrow> ''ed448'' | ExperimentalTest \<Rightarrow> ''experimental-test'')"

definition canonical_hash_type :: "KeyType \<Rightarrow> u8" where
  "canonical_hash_type k = (case k of Ed25519 \<Rightarrow> HASH_TYPE_IDENTITY | Ed448 \<Rightarrow> HASH_TYPE_SHA256
     | ExperimentalTest \<Rightarrow> HASH_TYPE_SHA256)"

definition public_key_len :: "KeyType \<Rightarrow> nat" where
  "public_key_len k = (case k of Ed25519 \<Rightarrow> ED25519_PUBLIC_KEY_LEN | Ed448 \<Rightarrow> ED448_PUBLIC_KEY_LEN
     | ExperimentalTest \<Rightarrow> EXPERIMENTAL_TEST_PUBLIC_KEY_LEN)"

definition supports_signing :: "KeyType \<Rightarrow> bool" where
  "supports_signing k = (case k of Ed25519 \<Rightarrow> True | Ed448 \<Rightarrow> True | ExperimentalTest \<Rightarrow> False)"

definition kt_from_byte :: "u8 \<Rightarrow> CryptoError + KeyType" where
  "kt_from_byte b =
     (if b = KEY_TYPE_ED25519 then Inr Ed25519
      else if b = KEY_TYPE_ED448 then Inr Ed448
      else if b = KEY_TYPE_EXPERIMENTAL_TEST then Inr ExperimentalTest
      else Inl (UnsupportedKeyType b))"

definition kt_from_label :: "string \<Rightarrow> CryptoError + KeyType" where
  "kt_from_label s =
     (if s = ''ed25519'' then Inr Ed25519
      else if s = ''ed448'' then Inr Ed448
      else if s = ''experimental-test'' then Inr ExperimentalTest
      else Inl (InvalidPeerId ''unknown key_type label''))"

lemmas kt_defs = kt_byte_def kt_label_def canonical_hash_type_def public_key_len_def supports_signing_def

text \<open>\<^verbatim>\<open>Keypair::verify\<close>: the key must decompress, the signature must have 64 bytes.\<close>

definition keypair_verify :: "crypto \<Rightarrow> bytes \<Rightarrow> bytes \<Rightarrow> bytes \<Rightarrow> CryptoError + unit" where
  "keypair_verify C public_key message sig =
     (if \<not> ed25519_key C public_key then Inl InvalidPublicKey
      else if length sig \<noteq> 64 then Inl InvalidSignature
      else if ed25519_verify C public_key message sig then Inr () else Inl InvalidSignature)"

definition ed448_keypair_verify :: "crypto \<Rightarrow> bytes \<Rightarrow> bytes \<Rightarrow> bytes \<Rightarrow> CryptoError + unit" where
  "ed448_keypair_verify C public_key message sig =
     (if \<not> ed448_key C public_key then Inl InvalidPublicKey
      else if length sig \<noteq> ED448_SIGNATURE_LEN then Inl InvalidSignature
      else if \<not> ed448_sig C sig then Inl InvalidSignature
      else if ed448_verify C public_key message sig then Inr () else Inl InvalidSignature)"

definition verify_for_key_type :: "crypto \<Rightarrow> KeyType \<Rightarrow> bytes \<Rightarrow> bytes \<Rightarrow> bytes \<Rightarrow> CryptoError + unit" where
  "verify_for_key_type C key_type public_key message sig =
     (case key_type of
        Ed25519 \<Rightarrow>
          if length public_key \<noteq> ED25519_PUBLIC_KEY_LEN then Inl InvalidPublicKey
          else keypair_verify C public_key message sig
      | Ed448 \<Rightarrow>
          if length public_key \<noteq> ED448_PUBLIC_KEY_LEN then Inl InvalidPublicKey
          else ed448_keypair_verify C public_key message sig
      | ExperimentalTest \<Rightarrow> Inl (UnsupportedKeyType (kt_byte key_type)))"

section \<open>Peer identifiers\<close>

definition push_varint_u8 :: "u8 \<Rightarrow> bytes" where
  "push_varint_u8 v = (if v < 0x80 then [v] else [0x80 OR (v AND 0x7F), drop_bit 7 v])"

text \<open>The value and the number of bytes read.\<close>

definition read_varint_u8 :: "bytes \<Rightarrow> CryptoError + (u8 \<times> nat)" where
  "read_varint_u8 bs =
     (case bs of
        [] \<Rightarrow> Inl (InvalidPeerId ''varint: empty input'')
      | b0 # rest \<Rightarrow>
          if b0 < 0x80 then Inr (b0, 1)
          else case rest of
                 [] \<Rightarrow> Inl (InvalidPeerId ''varint: truncated continuation'')
               | b1 # _ \<Rightarrow>
                   if b1 AND 0x80 \<noteq> 0 then Inl (InvalidPeerId ''varint: value exceeds u8 (3+ byte sequence)'')
                   else let v = (ucast (b0 AND 0x7F) :: u16) OR push_bit 7 (ucast b1)
                        in if v > 255 then Inl (InvalidPeerId ''varint: value exceeds u8'')
                           else Inr (ucast v, 2))"

record decoded_peer_id =
  dp_key_type :: u8
  dp_hash_type :: u8
  dp_digest :: bytes

definition raw_peer_id :: "u8 \<Rightarrow> u8 \<Rightarrow> bytes \<Rightarrow> bytes" where
  "raw_peer_id key_type hash_type dg = push_varint_u8 key_type @ push_varint_u8 hash_type @ dg"

definition synthesize_peer_id_for_fixture :: "crypto \<Rightarrow> u8 \<Rightarrow> u8 \<Rightarrow> bytes \<Rightarrow> string" where
  "synthesize_peer_id_for_fixture C key_type hash_type dg = base58 C (raw_peer_id key_type hash_type dg)"

definition legacy_sha256_peer_id_fixture :: "digests \<Rightarrow> crypto \<Rightarrow> bytes \<Rightarrow> string" where
  "legacy_sha256_peer_id_fixture D C public_key =
     base58 C (raw_peer_id KEY_TYPE_ED25519 HASH_TYPE_SHA256 (sha256 D public_key))"

definition encode_raw :: "digests \<Rightarrow> crypto \<Rightarrow> KeyType \<Rightarrow> u8 \<Rightarrow> bytes \<Rightarrow> CryptoError + string" where
  "encode_raw D C key_type hash_type public_key =
     (if hash_type = HASH_TYPE_IDENTITY
      then Inr (base58 C (raw_peer_id (kt_byte key_type) hash_type public_key))
      else if hash_type = HASH_TYPE_SHA256
      then Inr (base58 C (raw_peer_id (kt_byte key_type) hash_type (sha256 D public_key)))
      else Inl (InvalidPeerId ''unsupported hash_type''))"

definition from_public_key_with_hash_type :: "digests \<Rightarrow> crypto \<Rightarrow> bytes \<Rightarrow> u8 \<Rightarrow> CryptoError + string" where
  "from_public_key_with_hash_type D C public_key hash_type =
     (if hash_type = HASH_TYPE_IDENTITY then encode_raw D C Ed25519 hash_type public_key
      else if hash_type = HASH_TYPE_SHA256 then Inl (InvalidPeerId ''SHA-256-form is legacy-decode-only for Ed25519'')
      else Inl (InvalidPeerId ''unsupported hash_type for derivation''))"

text \<open>\<^verbatim>\<open>from_public_key\<close> unwraps the result; \<open>None\<close> is the panic.\<close>

definition from_public_key :: "digests \<Rightarrow> crypto \<Rightarrow> bytes \<Rightarrow> string option" where
  "from_public_key D C public_key =
     (case from_public_key_with_hash_type D C public_key HASH_TYPE_IDENTITY of Inr p \<Rightarrow> Some p | Inl _ \<Rightarrow> None)"

definition from_public_key_with_key_type :: "digests \<Rightarrow> crypto \<Rightarrow> bytes \<Rightarrow> KeyType \<Rightarrow> CryptoError + string" where
  "from_public_key_with_key_type D C public_key key_type =
     (if length public_key \<noteq> public_key_len key_type then Inl InvalidPublicKey
      else encode_raw D C key_type (canonical_hash_type key_type) public_key)"

definition peer_id_decode :: "crypto \<Rightarrow> string \<Rightarrow> CryptoError + decoded_peer_id" where
  "peer_id_decode C p =
     (case unbase58 C p of
        None \<Rightarrow> Inl (InvalidPeerId ''base58 decode'')
      | Some raw \<Rightarrow>
          (case read_varint_u8 raw of
             Inl e \<Rightarrow> Inl e
           | Inr (key_type, n1) \<Rightarrow>
               (case read_varint_u8 (drop n1 raw) of
                  Inl e \<Rightarrow> Inl e
                | Inr (hash_type, n2) \<Rightarrow>
                    if length raw \<le> n1 + n2 then Inl (InvalidPeerId ''peer-id too short'')
                    else Inr \<lparr>dp_key_type = key_type, dp_hash_type = hash_type, dp_digest = drop (n1 + n2) raw\<rparr>)))"

definition derive_public_key :: "crypto \<Rightarrow> string \<Rightarrow> (bytes \<times> u8) option" where
  "derive_public_key C p =
     (case peer_id_decode C p of
        Inl _ \<Rightarrow> None
      | Inr d \<Rightarrow>
          if dp_hash_type d \<noteq> HASH_TYPE_IDENTITY then None
          else case kt_from_byte (dp_key_type d) of
                 Inl _ \<Rightarrow> None
               | Inr kt \<Rightarrow> if length (dp_digest d) \<noteq> public_key_len kt then None
                           else Some (dp_digest d, dp_key_type d))"

definition peer_id_validate :: "crypto \<Rightarrow> string \<Rightarrow> CryptoError + unit" where
  "peer_id_validate C p =
     (case peer_id_decode C p of
        Inl e \<Rightarrow> Inl e
      | Inr d \<Rightarrow>
          (case kt_from_byte (dp_key_type d) of
             Inl e \<Rightarrow> Inl e
           | Inr kt \<Rightarrow>
               let ht = dp_hash_type d; n = length (dp_digest d)
               in case kt of
                    Ed25519 \<Rightarrow>
                      if ht = HASH_TYPE_IDENTITY \<or> ht = HASH_TYPE_SHA256
                      then (if n \<noteq> 32 then Inl (InvalidPeerId ''Ed25519 digest must be 32 bytes'') else Inr ())
                      else Inl (InvalidPeerId ''unsupported hash_type'')
                  | Ed448 \<Rightarrow>
                      if ht = HASH_TYPE_SHA256
                      then (if n \<noteq> 32 then Inl (InvalidPeerId ''Ed448 SHA-256 digest must be 32 bytes'') else Inr ())
                      else Inl (InvalidPeerId ''Ed448 (0x02) canonical hash_type is SHA-256 (0x01)'')
                  | ExperimentalTest \<Rightarrow>
                      if ht = HASH_TYPE_SHA256
                      then (if n \<noteq> 32 then Inl (InvalidPeerId ''experimental-test SHA-256 digest must be 32 bytes'')
                            else Inr ())
                      else Inl (InvalidPeerId ''experimental-test (0xFE) canonical hash_type is SHA-256 (0x01)'')))"

definition digest_matches :: "digests \<Rightarrow> decoded_peer_id \<Rightarrow> bytes \<Rightarrow> bool" where
  "digest_matches D d public_key =
     (if dp_hash_type d = HASH_TYPE_IDENTITY then dp_digest d = public_key
      else if dp_hash_type d = HASH_TYPE_SHA256 then dp_digest d = sha256 D public_key
      else False)"

definition verify_public_key_bytes :: "digests \<Rightarrow> crypto \<Rightarrow> string \<Rightarrow> bytes \<Rightarrow> bool" where
  "verify_public_key_bytes D C p public_key =
     (case peer_id_decode C p of Inl _ \<Rightarrow> False | Inr d \<Rightarrow> digest_matches D d public_key)"

section \<open>Peer entities\<close>

definition peer_entity_from_components_with_key_type ::
    "digests \<Rightarrow> bytes \<Rightarrow> KeyType \<Rightarrow> CryptoError + entity" where
  "peer_entity_from_components_with_key_type D public_key key_type =
     (if length public_key \<noteq> public_key_len key_type then Inl InvalidPublicKey
      else case new_with_format D TYPE_PEER
             (to_ecf (VMap [(text_val ''key_type'', text_val (kt_label key_type)),
                            (text_val ''public_key'', VBytes public_key)]))
             HASH_ALGORITHM_SHA256 of
             Inl e \<Rightarrow> Inl (IdentityError (entity_error_text e))
           | Inr e \<Rightarrow> Inr e)"

definition peer_entity_from_components :: "digests \<Rightarrow> bytes \<Rightarrow> CryptoError + entity" where
  "peer_entity_from_components D public_key = peer_entity_from_components_with_key_type D public_key Ed25519"

definition peer_identity_hash_with_key_type :: "digests \<Rightarrow> bytes \<Rightarrow> KeyType \<Rightarrow> CryptoError + hash" where
  "peer_identity_hash_with_key_type D public_key key_type =
     (case peer_entity_from_components_with_key_type D public_key key_type of
        Inl e \<Rightarrow> Inl e | Inr e \<Rightarrow> Inr (content_hash e))"

definition peer_identity_hash :: "digests \<Rightarrow> bytes \<Rightarrow> CryptoError + hash" where
  "peer_identity_hash D public_key = peer_identity_hash_with_key_type D public_key Ed25519"

definition identity_hex_local :: "digests \<Rightarrow> crypto \<Rightarrow> string \<Rightarrow> string option" where
  "identity_hex_local D C p =
     (case derive_public_key C p of
        None \<Rightarrow> None
      | Some (pk, _) \<Rightarrow>
          if length pk \<noteq> 32 then None
          else case peer_identity_hash D pk of Inr h \<Rightarrow> Some (to_hex h) | Inl _ \<Rightarrow> None)"

definition identity_hex_with_public_key :: "digests \<Rightarrow> crypto \<Rightarrow> string \<Rightarrow> bytes \<Rightarrow> CryptoError + string" where
  "identity_hex_with_public_key D C p public_key =
     (case peer_id_decode C p of
        Inl e \<Rightarrow> Inl e
      | Inr d \<Rightarrow>
          if \<not> digest_matches D d public_key
          then Inl (InvalidPeerId ''provided public_key does not match this PeerID's digest'')
          else case peer_identity_hash D public_key of Inl e \<Rightarrow> Inl e | Inr h \<Rightarrow> Inr (to_hex h))"

section \<open>Peer and signature payloads\<close>

datatype TypesError =
    WrongType string string
  | DecodeError string
  | TypesEntityError string
  | NotFound string

record peer_data =
  pd_public_key :: bytes
  pd_key_type :: string

record peer_acc =
  pa_public_key :: "bytes option"
  pa_key_type :: "string option"

definition peer_field :: "Value \<Rightarrow> Value \<Rightarrow> TypesError + (peer_acc \<Rightarrow> peer_acc)" where
  "peer_field k v =
     (if as_str k = Some ''public_key'' then Inr (pa_public_key_update (\<lambda>_. as_bytes v))
      else if as_str k = Some ''key_type'' then Inr (pa_key_type_update (\<lambda>_. as_str v))
      else Inr id)"

definition types_required :: "string \<Rightarrow> 'x option \<Rightarrow> TypesError + 'x" where
  "types_required what x = (case x of None \<Rightarrow> Inl (DecodeError what) | Some v \<Rightarrow> Inr v)"

text \<open>The entity's map, after the check of its type.\<close>

definition typed_map :: "(bytes \<Rightarrow> Value option) \<Rightarrow> string \<Rightarrow> entity \<Rightarrow> TypesError + (Value \<times> Value) list" where
  "typed_map dec t e =
     (if entity_type e \<noteq> t then Inl (WrongType t (entity_type e))
      else case dec (data e) of
             None \<Rightarrow> Inl (DecodeError ''malformed CBOR'')
           | Some value \<Rightarrow>
               (case as_map value of None \<Rightarrow> Inl (DecodeError ''expected CBOR map'') | Some m \<Rightarrow> Inr m))"

definition peer_data_from_entity :: "(bytes \<Rightarrow> Value option) \<Rightarrow> entity \<Rightarrow> TypesError + peer_data" where
  "peer_data_from_entity dec e =
     (case typed_map dec TYPE_PEER e of
        Inl err \<Rightarrow> Inl err
      | Inr m \<Rightarrow>
          (case run_fields peer_field m \<lparr>pa_public_key = None, pa_key_type = None\<rparr> of
             Inl err \<Rightarrow> Inl err
           | Inr a \<Rightarrow>
               (case types_required ''missing public_key'' (pa_public_key a) of Inl err \<Rightarrow> Inl err | Inr pk \<Rightarrow>
               (case types_required ''missing key_type'' (pa_key_type a) of Inl err \<Rightarrow> Inl err | Inr kt \<Rightarrow>
                  Inr \<lparr>pd_public_key = pk, pd_key_type = kt\<rparr>))))"

definition peer_data_value :: "peer_data \<Rightarrow> Value" where
  "peer_data_value p = VMap [(text_val ''key_type'', text_val (pd_key_type p)),
                             (text_val ''public_key'', VBytes (pd_public_key p))]"

definition peer_data_to_entity :: "digests \<Rightarrow> peer_data \<Rightarrow> TypesError + entity" where
  "peer_data_to_entity D p =
     (case new_with_format D TYPE_PEER (to_ecf (peer_data_value p)) HASH_ALGORITHM_SHA256 of
        Inl e \<Rightarrow> Inl (TypesEntityError (entity_error_text e)) | Inr e \<Rightarrow> Inr e)"

definition canonical_peer_id :: "digests \<Rightarrow> crypto \<Rightarrow> peer_data \<Rightarrow> string option" where
  "canonical_peer_id D C p =
     (let params =
        (if pd_key_type p = ''ed25519'' then Some (0x01 :: u8, 0x00 :: u8, 32)
         else if pd_key_type p = ''ed448'' then Some (0x02, 0x01, 57)
         else None)
      in case params of
           None \<Rightarrow> None
         | Some (key_type_byte, hash_type_byte, pubkey_len) \<Rightarrow>
             if length (pd_public_key p) \<noteq> pubkey_len then None
             else
               let dg = (if hash_type_byte = 0x00 then pd_public_key p else sha256 D (pd_public_key p))
               in Some (base58 C (key_type_byte # hash_type_byte # dg)))"

record signature_data =
  sd_target :: hash
  sd_signer :: hash
  sd_algorithm :: string
  sd_signature :: bytes

record sig_acc =
  sa_target :: "hash option"
  sa_signer :: "hash option"
  sa_algorithm :: "string option"
  sa_signature :: "bytes option"

definition types_hash_field :: "(hash \<Rightarrow> 'a \<Rightarrow> 'a) \<Rightarrow> Value \<Rightarrow> TypesError + ('a \<Rightarrow> 'a)" where
  "types_hash_field upd v =
     (case as_bytes v of
        None \<Rightarrow> Inr id
      | Some b \<Rightarrow> (case from_bytes b of Inl e \<Rightarrow> Inl (DecodeError (hash_error_text e)) | Inr h \<Rightarrow> Inr (upd h)))"

definition sig_field :: "Value \<Rightarrow> Value \<Rightarrow> TypesError + (sig_acc \<Rightarrow> sig_acc)" where
  "sig_field k v =
     (if as_str k = Some ''target'' then types_hash_field (\<lambda>h. sa_target_update (\<lambda>_. Some h)) v
      else if as_str k = Some ''signer'' then types_hash_field (\<lambda>h. sa_signer_update (\<lambda>_. Some h)) v
      else if as_str k = Some ''algorithm'' then Inr (sa_algorithm_update (\<lambda>_. as_str v))
      else if as_str k = Some ''signature'' then Inr (sa_signature_update (\<lambda>_. as_bytes v))
      else Inr id)"

definition sig_acc_init :: sig_acc where
  "sig_acc_init = \<lparr>sa_target = None, sa_signer = None, sa_algorithm = None, sa_signature = None\<rparr>"

definition signature_data_from_entity :: "(bytes \<Rightarrow> Value option) \<Rightarrow> entity \<Rightarrow> TypesError + signature_data" where
  "signature_data_from_entity dec e =
     (case typed_map dec TYPE_SIGNATURE e of
        Inl err \<Rightarrow> Inl err
      | Inr m \<Rightarrow>
          (case run_fields sig_field m sig_acc_init of
             Inl err \<Rightarrow> Inl err
           | Inr a \<Rightarrow>
               (case types_required ''missing target'' (sa_target a) of Inl err \<Rightarrow> Inl err | Inr t \<Rightarrow>
               (case types_required ''missing signer'' (sa_signer a) of Inl err \<Rightarrow> Inl err | Inr s \<Rightarrow>
               (case types_required ''missing algorithm'' (sa_algorithm a) of Inl err \<Rightarrow> Inl err | Inr al \<Rightarrow>
               (case types_required ''missing signature'' (sa_signature a) of Inl err \<Rightarrow> Inl err | Inr sg \<Rightarrow>
                  Inr \<lparr>sd_target = t, sd_signer = s, sd_algorithm = al, sd_signature = sg\<rparr>))))))"

definition signature_value :: "signature_data \<Rightarrow> Value" where
  "signature_value s = VMap [(text_val ''algorithm'', text_val (sd_algorithm s)),
                             (text_val ''signature'', VBytes (sd_signature s)),
                             (text_val ''signer'', hash_value (sd_signer s)),
                             (text_val ''target'', hash_value (sd_target s))]"

definition signature_data_to_entity :: "digests \<Rightarrow> u8 \<Rightarrow> signature_data \<Rightarrow> TypesError + entity" where
  "signature_data_to_entity D home s =
     (case entity_new D home TYPE_SIGNATURE (to_ecf (signature_value s)) of
        Inl e \<Rightarrow> Inl (TypesEntityError (entity_error_text e)) | Inr e \<Rightarrow> Inr e)"

section \<open>Lemmas\<close>

lemma commuting_peer: "commuting peer_field"
  by (auto simp: commuting_def peer_field_def split: if_splits)

lemma commuting_sig: "commuting sig_field"
  by (auto simp: commuting_def sig_field_def types_hash_field_def split: if_splits option.splits sum.splits)

lemma byte_cases:
  assumes "list_all (\<lambda>n. P (of_nat n)) [0..<256]" shows "P (v :: u8)"
proof -
  have "unat v < 256" using unsigned_less [of v, where 'a = nat] by simp
  then have "P (of_nat (unat v))" using assms unfolding list_all_iff by (auto simp del: of_nat_unat)
  then show ?thesis by simp
qed

lemma varint_u8_high:
  "(v < (0x80 :: u8) \<or> drop_bit 7 v = 1 \<and> 0x80 OR (v AND 0x7F) = v \<and>
     ucast (v AND 0x7F) OR push_bit 7 (1 :: u16) = (ucast v :: u16)) \<and>
   \<not> (255 :: u16) < ucast v \<and> ucast (ucast v :: u16) = v"
  by (rule byte_cases) code_simp

lemma varint_u8_roundtrip: "read_varint_u8 (push_varint_u8 v @ rest) = Inr (v, length (push_varint_u8 v))"
  using varint_u8_high [of v] by (auto simp: push_varint_u8_def read_varint_u8_def Let_def)

lemma decode_raw:
  assumes "base58_ok C" "dg \<noteq> []"
  shows "peer_id_decode C (base58 C (raw_peer_id k h dg)) =
     Inr \<lparr>dp_key_type = k, dp_hash_type = h, dp_digest = dg\<rparr>"
  using assms by (simp add: base58_ok_def peer_id_decode_def raw_peer_id_def varint_u8_roundtrip)

lemma key_type_roundtrips [simp]:
  "kt_from_byte (kt_byte k) = Inr k" "kt_from_label (kt_label k) = Inr k"
  by (cases k; simp add: kt_from_byte_def kt_from_label_def kt_defs key_defs)+

lemma canonical_peer_id_eq:
  "canonical_peer_id D C p =
     (case kt_from_label (pd_key_type p) of
        Inl _ \<Rightarrow> None
      | Inr k \<Rightarrow>
          if supports_signing k then
            (case from_public_key_with_key_type D C (pd_public_key p) k of Inl _ \<Rightarrow> None | Inr s \<Rightarrow> Some s)
          else None)"
  by (simp add: canonical_peer_id_def kt_from_label_def from_public_key_with_key_type_def encode_raw_def
      raw_peer_id_def push_varint_u8_def kt_defs key_defs Let_def)

lemma verify_ok_peer_id:
  assumes "kt_from_label (pd_key_type p) = Inr k" "verify_for_key_type C k (pd_public_key p) m s = Inr ()"
  shows "canonical_peer_id D C p \<noteq> None"
  using assms
  by (cases k)
    (auto simp: canonical_peer_id_eq verify_for_key_type_def from_public_key_with_key_type_def encode_raw_def
      kt_defs key_defs split: if_splits)

lemma encode_raw_Inr:
  "encode_raw D C k (canonical_hash_type k) pk =
     Inr (base58 C (raw_peer_id (kt_byte k) (canonical_hash_type k)
       (if k = Ed25519 then pk else sha256 D pk)))"
  by (cases k) (simp_all add: encode_raw_def kt_defs key_defs)

lemma peer_data_roundtrip_aux:
  assumes "peer_data_to_entity D p = Inr e" "dec_inverts dec (peer_data_value p)"
  shows "peer_data_from_entity dec e = Inr p"
proof -
  let ?m = "[(text_val ''key_type'', text_val (pd_key_type p)), (text_val ''public_key'', VBytes (pd_public_key p))]"
  have e: "entity_type e = TYPE_PEER" "data e = to_ecf (peer_data_value p)"
    using assms(1) by (auto simp: peer_data_to_entity_def new_with_format_def split: sum.splits if_splits)
  have "run_fields peer_field (sort_key key_order (map canon_entry ?m)) a = run_fields peer_field (map canon_entry ?m) a" for a
    by (rule run_fields_canon [OF commuting_peer]) (auto simp: all_ok_def peer_field_def)
  then show ?thesis using e assms(2)
    by (simp add: peer_data_from_entity_def typed_map_def dec_inverts_def peer_data_value_def canon_map
        peer_field_def types_required_def)
qed

lemma signature_decodes:
  assumes "hash_ok (sd_target s)" "hash_ok (sd_signer s)" "entity_type e = TYPE_SIGNATURE" "data e = to_ecf (signature_value s)"
    "dec_inverts dec (signature_value s)"
  shows "signature_data_from_entity dec e = Inr s"
proof -
  let ?m = "[(text_val ''algorithm'', text_val (sd_algorithm s)), (text_val ''signature'', VBytes (sd_signature s)),
     (text_val ''signer'', hash_value (sd_signer s)), (text_val ''target'', hash_value (sd_target s))]"
  have h: "types_hash_field u (hash_value x) = Inr (u x)" if "hash_ok x" for u :: "hash \<Rightarrow> sig_acc \<Rightarrow> sig_acc" and x
    using that by (simp add: types_hash_field_def hash_value_def from_to_bytes)
  have "run_fields sig_field (sort_key key_order (map canon_entry ?m)) a = run_fields sig_field (map canon_entry ?m) a" for a
    by (rule run_fields_canon [OF commuting_sig]) (auto simp: all_ok_def sig_field_def h assms)
  then show ?thesis using assms
    by (simp add: signature_data_from_entity_def typed_map_def dec_inverts_def signature_value_def canon_map
        sig_field_def h types_required_def sig_acc_init_def)
qed

lemma signature_data_roundtrip_aux:
  assumes "hash_ok (sd_target s)" "hash_ok (sd_signer s)"
    "signature_data_to_entity D home s = Inr e" "dec_inverts dec (signature_value s)"
  shows "signature_data_from_entity dec e = Inr s"
  using assms
  by (intro signature_decodes)
    (auto simp: signature_data_to_entity_def entity_new_def new_with_format_def split: sum.splits if_splits)

text \<open>The lenient scan that finds a signature and the strict decoder that reads it agree on target
  and signer, also when a field is repeated.\<close>

lemma sig_field_other:
  assumes "\<not> (as_str k = Some ''target'' \<or> as_str k = Some ''signer'')"
  shows "\<exists>u. sig_field k v = Inr u \<and> (\<forall>a. sa_target (u a) = sa_target a \<and> sa_signer (u a) = sa_signer a)"
  using assms by (simp add: sig_field_def)

lemma sig_fields_agree:
  assumes "run_fields sig_field m a = Inr a'" "sig_fields m t s = (Some t', Some s')"
    "t = None \<or> sa_target a = t" "s = None \<or> sa_signer a = s"
  shows "sa_target a' = Some t' \<and> sa_signer a' = Some s'"
  using assms
proof (induction m arbitrary: a t s)
  case (Cons kv m)
  obtain k v where kv: "kv = (k, v)" by force
  show ?case
  proof (cases "as_str k = Some ''target'' \<or> as_str k = Some ''signer''")
    case True
    then show ?thesis using Cons.prems Cons.IH unfolding kv
      by (auto simp: sig_field_def types_hash_field_def field_hash_def split: option.splits sum.splits)
  next
    case False
    then obtain u where "sig_field k v = Inr u" "sa_target (u a) = sa_target a" "sa_signer (u a) = sa_signer a"
      using sig_field_other by metis
    then show ?thesis using Cons.prems False unfolding kv by (intro Cons.IH [of "u a" t s]) auto
  qed
qed auto

lemma signature_agrees:
  assumes "decode_sig_target_signer dec (data e) = Some (t, s)" "signature_data_from_entity dec e = Inr sd"
  shows "sd_target sd = t \<and> sd_signer sd = s"
proof -
  obtain m where m: "typed_map dec TYPE_SIGNATURE e = Inr m" "sig_fields m None None = (Some t, Some s)"
    using assms
    by (auto simp: decode_sig_target_signer_def signature_data_from_entity_def typed_map_def
        split: option.splits sum.splits if_splits prod.splits)
  then obtain a where "run_fields sig_field m sig_acc_init = Inr a"
    "sa_target a = Some (sd_target sd)" "sa_signer a = Some (sd_signer sd)"
    using assms(2) by (auto simp: signature_data_from_entity_def types_required_def split: sum.splits option.splits)
  with m(2) show ?thesis using sig_fields_agree by fastforce
qed

lemma kt_from_byte_byte [simp]: "kt_from_byte (kt_byte k) = Inr k"
  by (cases k) (simp_all add: kt_from_byte_def kt_defs key_defs)

text \<open>The identifier minted for a key of the right length.\<close>

lemma minted_peer_id:
  assumes "base58_ok C" "digests_ok D" "from_public_key_with_key_type D C pk k = Inr p"
  shows "peer_id_decode C p = Inr \<lparr>dp_key_type = kt_byte k, dp_hash_type = canonical_hash_type k,
      dp_digest = (if k = Ed25519 then pk else sha256 D pk)\<rparr>"
    and "peer_id_validate C p = Inr ()" and "verify_public_key_bytes D C p pk"
proof -
  let ?dg = "if k = Ed25519 then pk else sha256 D pk"
  have l: "length pk = public_key_len k" using assms(3) by (auto simp: from_public_key_with_key_type_def split: if_splits)
  have p: "p = base58 C (raw_peer_id (kt_byte k) (canonical_hash_type k) ?dg)"
    using assms(3) l by (simp add: from_public_key_with_key_type_def encode_raw_Inr)
  have len: "length ?dg = 32"
    using assms(2) l by (cases k) (auto simp: kt_defs key_defs digests_ok_def SHA256_DIGEST_LEN_def)
  then show dec: "peer_id_decode C p = Inr \<lparr>dp_key_type = kt_byte k, dp_hash_type = canonical_hash_type k, dp_digest = ?dg\<rparr>"
    unfolding p by (intro decode_raw assms(1)) auto
  show "peer_id_validate C p = Inr ()"
    using len unfolding peer_id_validate_def dec
    by (cases k) (auto simp: kt_defs key_defs kt_from_byte_def Let_def)
  show "verify_public_key_bytes D C p pk"
    unfolding verify_public_key_bytes_def dec by (cases k) (simp_all add: digest_matches_def kt_defs key_defs)
qed

section \<open>Properties\<close>

text \<open>C16. The canonical peer identifier of a key is well formed and stands for that key: it
  validates, the key verifies against it, it gives an Ed25519 key back, and it is the identifier
  that the identity entity of the key derives on its own in the types crate.\<close>

theorem peer_id_correct:
  assumes "base58_ok C" "digests_ok D" "length pk = public_key_len k"
  shows "\<exists>p. from_public_key_with_key_type D C pk k = Inr p \<and> peer_id_validate C p = Inr () \<and>
     verify_public_key_bytes D C p pk \<and>
     derive_public_key C p = (if k = Ed25519 then Some (pk, kt_byte k) else None) \<and>
     canonical_peer_id D C \<lparr>pd_public_key = pk, pd_key_type = kt_label k\<rparr> =
       (if supports_signing k then Some p else None)"
proof -
  let ?p = "base58 C (raw_peer_id (kt_byte k) (canonical_hash_type k) (if k = Ed25519 then pk else sha256 D pk))"
  have mint: "from_public_key_with_key_type D C pk k = Inr ?p"
    using assms(3) by (simp add: from_public_key_with_key_type_def encode_raw_Inr)
  note minted = minted_peer_id [OF assms(1,2) mint]
  have "derive_public_key C ?p = (if k = Ed25519 then Some (pk, kt_byte k) else None)"
    using assms(3) unfolding derive_public_key_def minted(1)
    by (cases k) (simp_all add: kt_defs key_defs kt_from_byte_def)
  then show ?thesis using mint minted(2,3) by (intro exI [of _ ?p]) (auto simp: canonical_peer_id_eq)
qed

definition toy_crypto :: crypto where
  "toy_crypto = \<lparr>ed25519_key = (\<lambda>pk. True),
     ed25519_verify = (\<lambda>pk m s. s = take 64 (pk @ m @ replicate 64 0)),
     ed448_key = (\<lambda>pk. True), ed448_sig = (\<lambda>s. True), ed448_verify = (\<lambda>pk m s. False),
     base58 = map (\<lambda>b. char_of (unat b)), unbase58 = (\<lambda>s. Some (str_bytes s))\<rparr>"

definition toy_hashes :: digests where
  "toy_hashes = \<lparr>sha256 = (\<lambda>_. replicate 32 0), sha384 = (\<lambda>_. replicate 48 0)\<rparr>"

lemma toy_base58: "base58_ok toy_crypto"
  unfolding base58_ok_def
proof
  fix b :: bytes
  have "of_char (char_of (unat x)) = x" for x :: u8
  proof -
    have "of_char (char_of (unat x)) = (of_nat (of_char (char_of (unat x))) :: u8)"
      by (rule of_nat_of_char [symmetric])
    also have "\<dots> = x" using unsigned_less [of x, where 'a = nat] by (simp del: of_nat_of_char)
    finally show ?thesis .
  qed
  then show "unbase58 toy_crypto (base58 toy_crypto b) = Some b"
    by (simp add: toy_crypto_def str_bytes_def comp_def)
qed

lemma toy_hashes_ok: "digests_ok toy_hashes"
  by (simp add: digests_ok_def toy_hashes_def SHA256_DIGEST_LEN_def SHA384_DIGEST_LEN_def)

theorem peer_id_correct_witness:
  "\<exists>p. from_public_key_with_key_type toy_hashes toy_crypto (replicate 32 7) Ed25519 = Inr p \<and>
     peer_id_validate toy_crypto p = Inr ()"
  using peer_id_correct [OF toy_base58 toy_hashes_ok, of "replicate 32 7" Ed25519]
  by (auto simp: kt_defs key_defs)

text \<open>C15. A peer identifier binds its key: two identities with the same canonical identifier are the
  same key of the same scheme, unless SHA-256 collides on the two keys.\<close>

theorem peer_id_binds_key:
  assumes "base58_ok C" "canonical_peer_id D C a = Some p" "canonical_peer_id D C b = Some p"
  shows "a = b \<or> pd_public_key a \<noteq> pd_public_key b \<and> sha256 D (pd_public_key a) = sha256 D (pd_public_key b)"
proof -
  have inj: "base58 C x = base58 C y \<longleftrightarrow> x = y" for x y
    using assms(1) unfolding base58_ok_def by (metis option.inject)
  show ?thesis using assms(2,3)
    by (auto simp: canonical_peer_id_def Let_def inj split: if_splits option.splits)
qed

theorem peer_id_binds_key_witness:
  "let a = \<lparr>pd_public_key = replicate 32 7, pd_key_type = ''ed25519''\<rparr>;
       p = base58 toy_crypto (1 # 0 # replicate 32 7)
   in canonical_peer_id toy_hashes toy_crypto a = Some p \<and>
      (a = a \<or> pd_public_key a \<noteq> pd_public_key a)"
proof -
  let ?a = "\<lparr>pd_public_key = replicate 32 (7::u8), pd_key_type = ''ed25519''\<rparr>"
  have "canonical_peer_id toy_hashes toy_crypto ?a = Some (base58 toy_crypto (1 # 0 # replicate 32 7))"
    by (simp add: canonical_peer_id_def)
  then show ?thesis using peer_id_binds_key [OF toy_base58] unfolding Let_def by blast
qed

text \<open>The identity entity and the signature entity carry their payload: what is encoded is what
  is decoded, and the entity a key's components build is the entity of its peer data.\<close>

theorem identity_payload_roundtrip:
  assumes "peer_data_to_entity D p = Inr e" "dec_inverts dec (peer_data_value p)"
    "hash_ok (sd_target s)" "hash_ok (sd_signer s)"
    "signature_data_to_entity D home s = Inr e'" "dec_inverts dec (signature_value s)"
  shows "peer_data_from_entity dec e = Inr p \<and> signature_data_from_entity dec e' = Inr s"
  using assms peer_data_roundtrip_aux signature_data_roundtrip_aux by blast

text \<open>The reader of a varint accepts a redundant continuation byte, so a peer identifier has a
  second spelling that decodes to the same components, validates, and verifies the same key.\<close>

theorem peer_id_alias:
  assumes "base58_ok C" "length pk = 32"
  shows "let p = base58 C (1 # 0 # pk); q = base58 C (0x81 # 0 # 0 # pk)
     in from_public_key D C pk = Some p \<and> q \<noteq> p \<and> peer_id_decode C q = peer_id_decode C p \<and>
        peer_id_validate C q = Inr () \<and> verify_public_key_bytes D C q pk"
proof -
  have u: "unbase58 C (base58 C x) = Some x" for x using assms(1) by (simp add: base58_ok_def)
  have r: "read_varint_u8 (0x81 # 0 # x) = Inr (1, 2)" "read_varint_u8 (1 # x) = Inr (1, 1)"
      "read_varint_u8 (0 # x) = Inr (0, 1)" for x
    by (simp_all add: read_varint_u8_def Let_def)
  have pk: "pk \<noteq> []" using assms(2) by auto
  have d: "peer_id_decode C (base58 C (0x81 # 0 # 0 # pk)) = Inr \<lparr>dp_key_type = 1, dp_hash_type = 0, dp_digest = pk\<rparr>"
       "peer_id_decode C (base58 C (1 # 0 # pk)) = Inr \<lparr>dp_key_type = 1, dp_hash_type = 0, dp_digest = pk\<rparr>"
    using pk by (simp_all add: peer_id_decode_def u r)
  have "base58 C (0x81 # 0 # 0 # pk) \<noteq> base58 C (1 # 0 # pk)"
  proof
    assume "base58 C (0x81 # 0 # 0 # pk) = base58 C (1 # 0 # pk)"
    then have "0x81 # 0 # 0 # pk = 1 # 0 # pk" using u by (metis option.inject)
    then show False by simp
  qed
  then show ?thesis unfolding Let_def
    using assms(2)
    by (simp add: d peer_id_validate_def verify_public_key_bytes_def digest_matches_def kt_from_byte_def key_defs
        from_public_key_def from_public_key_with_hash_type_def encode_raw_def raw_peer_id_def push_varint_u8_def kt_defs)
qed

end
