(* ===== verification/Chain_Verify.thy ===== *)
theory Chain_Verify
  imports Peer_Identity
begin

text \<open>
  Verification of requests and capability chains (\<^verbatim>\<open>core/protocol/src/verify.rs\<close>), the errors of the
  protocol layer (\<^verbatim>\<open>core/protocol/src/lib.rs\<close>), and the frame of a granter, which belongs to them
  (\<^verbatim>\<open>resolve_granter_peer_id\<close> of the capability crate).

  Parameters: \<open>D\<close> the digests, \<open>C\<close> the curves and Base58, \<open>dec\<close> the CBOR reader, \<open>ser\<close> the
  CBOR writer used to compare constraint values, \<open>now_ms\<close> the clock.  The resolvers and locators
  that the source takes as closures are function arguments.
\<close>

section \<open>Protocol errors\<close>

datatype ProtocolError =
    PE_HashMismatch
  | PE_MissingSignature
  | PE_InvalidSignature
  | PE_SignerMismatch
  | PE_GranteeMismatch
  | PE_ChainTooDeep
  | PE_NotLocalPeer
  | PE_MissingCapability
  | PE_MissingCapabilityEntity
  | PE_CapabilityExpired
  | PE_CapabilityNotYetValid
  | PE_PermissionDenied string
  | PE_MissingField string
  | PE_MissingEntity string
  | PE_AttenuationViolation
  | PE_Invalid string
  | PE_CapabilityInvalid string
  | PE_UnresolvableGrantee
  | PE_CapabilityRevoked
  | PE_UnsupportedContentHashFormat u8
  | PE_IncompatibleHashFormat
  | PE_IncompatibleProtocol
  | PE_InvalidRequest string
  | PE_UnsupportedKeyType u8
  | PE_CapabilityFormatCodeMismatch u8 u8
  | PE_AuthenticationFailed string
  | PE_InvalidNonce string
  | PE_IdentityMismatch string
  | PE_ConnectionError string

definition STATUS_BAD_REQUEST :: u32 where "STATUS_BAD_REQUEST = 400"
definition STATUS_AUTH_FAILED :: u32 where "STATUS_AUTH_FAILED = 401"
definition STATUS_FORBIDDEN :: u32 where "STATUS_FORBIDDEN = 403"

fun wire_status_code :: "ProtocolError \<Rightarrow> u32" where
  "wire_status_code PE_UnresolvableGrantee = STATUS_AUTH_FAILED"
| "wire_status_code (PE_AuthenticationFailed _) = STATUS_AUTH_FAILED"
| "wire_status_code (PE_InvalidNonce _) = STATUS_AUTH_FAILED"
| "wire_status_code (PE_IdentityMismatch _) = STATUS_AUTH_FAILED"
| "wire_status_code PE_CapabilityRevoked = STATUS_FORBIDDEN"
| "wire_status_code PE_MissingSignature = STATUS_FORBIDDEN"
| "wire_status_code PE_InvalidSignature = STATUS_FORBIDDEN"
| "wire_status_code PE_SignerMismatch = STATUS_FORBIDDEN"
| "wire_status_code PE_GranteeMismatch = STATUS_FORBIDDEN"
| "wire_status_code PE_NotLocalPeer = STATUS_FORBIDDEN"
| "wire_status_code PE_MissingCapability = STATUS_FORBIDDEN"
| "wire_status_code PE_MissingCapabilityEntity = STATUS_FORBIDDEN"
| "wire_status_code (PE_MissingEntity _) = STATUS_FORBIDDEN"
| "wire_status_code PE_CapabilityExpired = STATUS_FORBIDDEN"
| "wire_status_code PE_CapabilityNotYetValid = STATUS_FORBIDDEN"
| "wire_status_code PE_AttenuationViolation = STATUS_FORBIDDEN"
| "wire_status_code (PE_PermissionDenied _) = STATUS_FORBIDDEN"
| "wire_status_code (PE_CapabilityInvalid _) = STATUS_FORBIDDEN"
| "wire_status_code (PE_CapabilityFormatCodeMismatch _ _) = STATUS_FORBIDDEN"
| "wire_status_code _ = STATUS_BAD_REQUEST"

definition is_auth_error :: "ProtocolError \<Rightarrow> bool" where
  "is_auth_error e \<longleftrightarrow> wire_status_code e \<noteq> STATUS_BAD_REQUEST"

fun wire_error_code :: "ProtocolError \<Rightarrow> string option" where
  "wire_error_code (PE_UnsupportedKeyType _) = Some ''unsupported_key_type''"
| "wire_error_code (PE_UnsupportedContentHashFormat _) = Some ''unsupported_content_hash_format''"
| "wire_error_code PE_IncompatibleHashFormat = Some ''incompatible_hash_format''"
| "wire_error_code PE_IncompatibleProtocol = Some ''incompatible_protocol''"
| "wire_error_code (PE_InvalidRequest _) = Some ''invalid_request''"
| "wire_error_code PE_CapabilityRevoked = Some ''capability_revoked''"
| "wire_error_code PE_CapabilityExpired = Some ''capability_denied''"
| "wire_error_code PE_CapabilityNotYetValid = Some ''capability_not_yet_valid''"
| "wire_error_code (PE_AuthenticationFailed _) = Some ''authentication_failed''"
| "wire_error_code (PE_InvalidNonce _) = Some ''invalid_nonce''"
| "wire_error_code (PE_IdentityMismatch _) = Some ''identity_mismatch''"
| "wire_error_code (PE_CapabilityFormatCodeMismatch _ _) = Some ''capability_denied''"
| "wire_error_code (PE_MissingEntity _) = Some ''capability_denied''"
| "wire_error_code PE_UnresolvableGrantee = Some ''unresolvable_grantee''"
| "wire_error_code PE_ChainTooDeep = Some ''chain_depth_exceeded''"
| "wire_error_code PE_InvalidSignature = Some ''invalid_signature''"
| "wire_error_code PE_MissingSignature = Some ''missing_signature''"
| "wire_error_code PE_HashMismatch = Some ''hash_mismatch''"
| "wire_error_code _ = None"

text \<open>The texts that errors of the lower layers carry into a protocol error.\<close>

definition types_error_text :: "TypesError \<Rightarrow> string" where
  "types_error_text e = (case e of WrongType _ _ \<Rightarrow> ''wrong entity type'' | DecodeError s \<Rightarrow> s
     | TypesEntityError s \<Rightarrow> s | NotFound s \<Rightarrow> s)"

definition cap_error_text :: "CapabilityError \<Rightarrow> string" where
  "cap_error_text e = (case e of Denied s \<Rightarrow> s | CapInvalid s \<Rightarrow> s | DelegationError s \<Rightarrow> s
     | CapEntityError s \<Rightarrow> s | Expired \<Rightarrow> ''expired'')"

definition crypto_error_text :: "CryptoError \<Rightarrow> string" where
  "crypto_error_text e = (case e of InvalidPeerId s \<Rightarrow> s | IdentityError s \<Rightarrow> s | IoError s \<Rightarrow> s
     | InvalidSignature \<Rightarrow> ''invalid signature'' | InvalidPublicKey \<Rightarrow> ''invalid public key''
     | UnsupportedKeyType _ \<Rightarrow> ''unsupported key_type'')"

section \<open>Fields of requests and of chain links\<close>

definition MAX_CHAIN_DEPTH :: nat where "MAX_CHAIN_DEPTH = 64"

record execute_fields =
  ex_request_id :: string
  ex_uri :: string
  ex_operation :: string
  ex_author :: "hash option"
  ex_capability :: "hash option"

record execute_acc =
  xa_request_id :: "string option"
  xa_uri :: "string option"
  xa_operation :: "string option"
  xa_author :: "hash option"
  xa_capability :: "hash option"

text \<open>\<^verbatim>\<open>if let Some(b) = v.as_bytes() { x = Hash::from_bytes(b).ok() }\<close>.\<close>

definition lenient_hash :: "(hash option \<Rightarrow> 'a \<Rightarrow> 'a) \<Rightarrow> Value \<Rightarrow> 'a \<Rightarrow> 'a" where
  "lenient_hash upd v = (case as_bytes v of None \<Rightarrow> id | Some _ \<Rightarrow> upd (field_hash v))"

definition execute_field :: "Value \<Rightarrow> Value \<Rightarrow> ProtocolError + (execute_acc \<Rightarrow> execute_acc)" where
  "execute_field k v =
     (if as_str k = Some ''request_id'' then Inr (xa_request_id_update (\<lambda>_. as_str v))
      else if as_str k = Some ''uri'' then Inr (xa_uri_update (\<lambda>_. as_str v))
      else if as_str k = Some ''operation'' then Inr (xa_operation_update (\<lambda>_. as_str v))
      else if as_str k = Some ''author'' then Inr (lenient_hash (\<lambda>h. xa_author_update (\<lambda>_. h)) v)
      else if as_str k = Some ''capability'' then Inr (lenient_hash (\<lambda>h. xa_capability_update (\<lambda>_. h)) v)
      else Inr id)"

definition decode_map :: "(bytes \<Rightarrow> Value option) \<Rightarrow> string \<Rightarrow> bytes \<Rightarrow> ProtocolError + (Value \<times> Value) list" where
  "decode_map dec what d =
     and_then (ok_or (dec d) (PE_Invalid ''malformed CBOR''))
       (\<lambda>value. ok_or (as_map value) (PE_Invalid what))"

definition decode_execute_fields :: "(bytes \<Rightarrow> Value option) \<Rightarrow> bytes \<Rightarrow> ProtocolError + execute_fields" where
  "decode_execute_fields dec d =
     and_then (decode_map dec ''execute data must be a map'' d) (\<lambda>m.
     and_then (run_fields execute_field m
       \<lparr>xa_request_id = None, xa_uri = None, xa_operation = None, xa_author = None, xa_capability = None\<rparr>) (\<lambda>a.
     and_then (ok_or (xa_request_id a) (PE_MissingField ''request_id'')) (\<lambda>r.
     and_then (ok_or (xa_uri a) (PE_MissingField ''uri'')) (\<lambda>u.
     and_then (ok_or (xa_operation a) (PE_MissingField ''operation'')) (\<lambda>opn.
       Inr \<lparr>ex_request_id = r, ex_uri = u, ex_operation = opn, ex_author = xa_author a,
            ex_capability = xa_capability a\<rparr>)))))"

record chain_fields =
  cf_granter :: granter
  cf_grantee :: hash
  cf_parent :: "hash option"
  cf_not_before :: "u64 option"
  cf_expires_at :: "u64 option"

record chain_acc =
  ca_granter :: "granter option"
  ca_grantee :: "hash option"
  ca_parent :: "hash option"
  ca_not_before :: "u64 option"
  ca_expires_at :: "u64 option"

definition chain_field :: "Value \<Rightarrow> Value \<Rightarrow> ProtocolError + (chain_acc \<Rightarrow> chain_acc)" where
  "chain_field k v =
     (if as_str k = Some ''granter''
      then (case decode_granter v of
              Inl e \<Rightarrow> Inl (PE_Invalid (cap_error_text e)) | Inr g \<Rightarrow> Inr (ca_granter_update (\<lambda>_. Some g)))
      else if as_str k = Some ''grantee'' then Inr (lenient_hash (\<lambda>h. ca_grantee_update (\<lambda>_. h)) v)
      else if as_str k = Some ''parent'' then Inr (lenient_hash (\<lambda>h. ca_parent_update (\<lambda>_. h)) v)
      else if as_str k = Some ''not_before'' then Inr (ca_not_before_update (\<lambda>_. opt_u64 v))
      else if as_str k = Some ''expires_at'' then Inr (ca_expires_at_update (\<lambda>_. opt_u64 v))
      else Inr id)"

definition chain_acc_init :: chain_acc where
  "chain_acc_init = \<lparr>ca_granter = None, ca_grantee = None, ca_parent = None, ca_not_before = None, ca_expires_at = None\<rparr>"

definition decode_capability_chain_fields :: "(bytes \<Rightarrow> Value option) \<Rightarrow> bytes \<Rightarrow> ProtocolError + chain_fields" where
  "decode_capability_chain_fields dec d =
     and_then (decode_map dec ''capability data must be a map'' d) (\<lambda>m.
     and_then (run_fields chain_field m chain_acc_init) (\<lambda>a.
     and_then (ok_or (ca_granter a) (PE_MissingField ''granter'')) (\<lambda>g.
     and_then (ok_or (ca_grantee a) (PE_MissingField ''grantee'')) (\<lambda>ge.
       Inr \<lparr>cf_granter = g, cf_grantee = ge, cf_parent = ca_parent a, cf_not_before = ca_not_before a,
            cf_expires_at = ca_expires_at a\<rparr>))))"

section \<open>The chain walk and its consumers\<close>

datatype ChainWalkError = Unreachable | TooDeep

type_synonym link = "entity \<times> chain_fields"

function collect_chain ::
    "(bytes \<Rightarrow> Value option) \<Rightarrow> (hash \<Rightarrow> entity option) \<Rightarrow> hash \<Rightarrow> nat \<Rightarrow> ChainWalkError + link list" where
  "collect_chain dec resolve current_hash dp =
     (if dp > MAX_CHAIN_DEPTH then Inl TooDeep
      else case resolve current_hash of
             None \<Rightarrow> Inl Unreachable
           | Some e \<Rightarrow>
               (case decode_capability_chain_fields dec (data e) of
                  Inl _ \<Rightarrow> Inl Unreachable
                | Inr fs \<Rightarrow>
                    (case cf_parent fs of
                       None \<Rightarrow> Inr [(e, fs)]
                     | Some p \<Rightarrow>
                         (case collect_chain dec resolve p (dp + 1) of
                            Inl err \<Rightarrow> Inl err | Inr chain \<Rightarrow> Inr ((e, fs) # chain)))))"
  by pat_completeness auto
termination
  by (relation "measure (\<lambda>(_, _, _, dp). MAX_CHAIN_DEPTH + 1 - dp)") auto

definition collect_authority_chain ::
    "(bytes \<Rightarrow> Value option) \<Rightarrow> hash \<Rightarrow> (hash \<Rightarrow> entity option) \<Rightarrow> ChainWalkError + link list" where
  "collect_authority_chain dec leaf_hash resolve = collect_chain dec resolve leaf_hash 0"

definition explicitly_enumerates :: "string \<Rightarrow> string \<Rightarrow> bool" where
  "explicitly_enumerates resource_pattern target =
     (if CHR ''*'' \<in> set resource_pattern then False
      else if resource_pattern = target then True
      else let pre = (if ends_with resource_pattern ''/'' then resource_pattern else resource_pattern @ ''/'')
           in starts_with target pre)"

definition is_operator_class_for ::
    "(bytes \<Rightarrow> Value option) \<Rightarrow> hash \<Rightarrow> string \<Rightarrow> hash \<Rightarrow> (hash \<Rightarrow> entity option) \<Rightarrow> bool" where
  "is_operator_class_for dec leaf_hash target_pattern root_identity_hash resolve =
     (case collect_authority_chain dec leaf_hash resolve of
        Inl _ \<Rightarrow> False
      | Inr chain \<Rightarrow>
          if chain = [] then False
          else let root_fields = snd (last chain)
            in if cf_parent root_fields \<noteq> None then False
               else case cf_granter root_fields of
                      Multi _ \<Rightarrow> False
                    | Single h \<Rightarrow>
                        if h \<noteq> root_identity_hash then False
                        else list_all (\<lambda>(e, _).
                          case token_from_entity dec e of
                            Inl _ \<Rightarrow> False
                          | Inr token \<Rightarrow>
                              list_ex (\<lambda>g. list_ex (\<lambda>pat. explicitly_enumerates pat target_pattern)
                                (path_include (resources g))) (grants token)) chain)"

text \<open>The bundle is a hash map; its entries are kept in key order here, an order no caller observes.\<close>

type_synonym chain_bundle = "(hash, entity) btree"

fun bundle_signers ::
    "digests \<Rightarrow> crypto \<Rightarrow> (bytes \<Rightarrow> Value option) \<Rightarrow> (hash \<Rightarrow> entity option) \<Rightarrow> (string \<Rightarrow> hash option) \<Rightarrow> hash \<Rightarrow>
     hash list \<Rightarrow> chain_bundle \<Rightarrow> ChainWalkError + chain_bundle" where
  "bundle_signers D C dec resolve locate ch [] bundle = Inr bundle"
| "bundle_signers D C dec resolve locate ch (signer # rest) bundle =
     (case resolve signer of
        None \<Rightarrow> Inl Unreachable
      | Some id_entity \<Rightarrow>
          if entity_type id_entity \<noteq> TYPE_PEER then Inl Unreachable
          else case peer_data_from_entity dec id_entity of
                 Inl _ \<Rightarrow> Inl Unreachable
               | Inr d \<Rightarrow>
                   (case canonical_peer_id D C d of
                      None \<Rightarrow> Inl Unreachable
                    | Some peer_id \<Rightarrow>
                        let b1 = bt_insert (content_hash id_entity) id_entity bundle;
                            b2 = (case locate (invariant_signature_path peer_id ch) of
                                    None \<Rightarrow> b1
                                  | Some sig_hash \<Rightarrow>
                                      (case resolve sig_hash of
                                         None \<Rightarrow> b1
                                       | Some s \<Rightarrow> if entity_type s = TYPE_SIGNATURE
                                                   then bt_insert (content_hash s) s b1 else b1))
                        in bundle_signers D C dec resolve locate ch rest b2))"

definition granter_signers :: "granter \<Rightarrow> hash list" where
  "granter_signers g = (case g of Single h \<Rightarrow> [h] | Multi m \<Rightarrow> signers m)"

fun bundle_links ::
    "digests \<Rightarrow> crypto \<Rightarrow> (bytes \<Rightarrow> Value option) \<Rightarrow> (hash \<Rightarrow> entity option) \<Rightarrow> (string \<Rightarrow> hash option) \<Rightarrow>
     link list \<Rightarrow> chain_bundle \<Rightarrow> ChainWalkError + chain_bundle" where
  "bundle_links D C dec resolve locate [] bundle = Inr bundle"
| "bundle_links D C dec resolve locate ((cap_entity, fs) # rest) bundle =
     (case bundle_signers D C dec resolve locate (content_hash cap_entity) (granter_signers (cf_granter fs))
             (bt_insert (content_hash cap_entity) cap_entity bundle) of
        Inl err \<Rightarrow> Inl err
      | Inr b \<Rightarrow>
          (case resolve (cf_grantee fs) of
             None \<Rightarrow> Inl Unreachable
           | Some e \<Rightarrow>
               if entity_type e = TYPE_PEER
               then bundle_links D C dec resolve locate rest (bt_insert (content_hash e) e b)
               else Inl Unreachable))"

definition collect_chain_bundle ::
    "digests \<Rightarrow> crypto \<Rightarrow> (bytes \<Rightarrow> Value option) \<Rightarrow> hash \<Rightarrow> (hash \<Rightarrow> entity option) \<Rightarrow> (string \<Rightarrow> hash option) \<Rightarrow>
     ChainWalkError + chain_bundle" where
  "collect_chain_bundle D C dec leaf_hash resolve locate =
     and_then (collect_authority_chain dec leaf_hash resolve)
       (\<lambda>chain. bundle_links D C dec resolve locate chain [])"

definition is_revoked ::
    "(bytes \<Rightarrow> Value option) \<Rightarrow> hash \<Rightarrow> string \<Rightarrow> (hash \<Rightarrow> entity option) \<Rightarrow> (string \<Rightarrow> hash option) \<Rightarrow>
     (hash \<Rightarrow> string option) \<Rightarrow> bool" where
  "is_revoked dec leaf_hash local_peer_id resolve locate capability_path_for =
     (case collect_authority_chain dec leaf_hash resolve of
        Inl _ \<Rightarrow> True
      | Inr chain \<Rightarrow>
          let root_hash = content_hash (fst (last chain))
          in if (case capability_path_for root_hash of
                   None \<Rightarrow> False
                 | Some root_path \<Rightarrow>
                     (case locate root_path of None \<Rightarrow> True | Some bound \<Rightarrow> bound \<noteq> root_hash))
             then True
             else locate (''/'' @ local_peer_id @ ''/system/capability/revocations/'' @ to_hex root_hash) \<noteq> None)"

definition capability_path_for_scan ::
    "hash \<Rightarrow> string \<Rightarrow> (string \<Rightarrow> (string \<times> hash) list) \<Rightarrow> string option" where
  "capability_path_for_scan ch local_peer_id list_by_prefix =
     map_option fst (find (\<lambda>(path, h). h = ch)
       (list_by_prefix (''/'' @ local_peer_id @ ''/system/capability/grants/'')))"

section \<open>Signatures of peers\<close>

definition peer_data_sig_ok :: "crypto \<Rightarrow> peer_data \<Rightarrow> bytes \<Rightarrow> bytes \<Rightarrow> bool" where
  "peer_data_sig_ok C pd message sig =
     (case kt_from_label (pd_key_type pd) of
        Inl _ \<Rightarrow> False
      | Inr kt \<Rightarrow> verify_for_key_type C kt (pd_public_key pd) message sig = Inr ())"

definition verify_peer_data_sig :: "crypto \<Rightarrow> peer_data \<Rightarrow> bytes \<Rightarrow> bytes \<Rightarrow> ProtocolError + unit" where
  "verify_peer_data_sig C pd message sig =
     and_then (map_err (\<lambda>e. PE_Invalid (crypto_error_text e)) (kt_from_label (pd_key_type pd)))
       (\<lambda>kt. map_err (\<lambda>_. PE_InvalidSignature) (verify_for_key_type C kt (pd_public_key pd) message sig))"

text \<open>\<^verbatim>\<open>check_creator_authority\<close>: the loop over the links with its \<^verbatim>\<open>continue\<close> and \<^verbatim>\<open>break\<close>.  The
  argument \<open>inc\<close> lists the values of the included hash map in its iteration order.\<close>

definition link_created_by ::
    "crypto \<Rightarrow> (bytes \<Rightarrow> Value option) \<Rightarrow> hash \<Rightarrow> entity list \<Rightarrow> (hash \<Rightarrow> entity option) \<Rightarrow> link \<Rightarrow> bool" where
  "link_created_by C dec identity inc resolve l =
     (case cf_granter (snd l) of
        Single granter_id \<Rightarrow> granter_id = identity
      | Multi m \<Rightarrow>
          if \<not> list_ex (\<lambda>s. s = identity) (signers m) then False
          else case find_signature_by_signer dec inc (content_hash (fst l)) identity of
                 None \<Rightarrow> False
               | Some sig \<Rightarrow>
                   (case signature_data_from_entity dec sig of
                      Inl _ \<Rightarrow> False
                    | Inr sd \<Rightarrow>
                        (case resolve identity of
                           None \<Rightarrow> False
                         | Some w \<Rightarrow>
                             (case peer_data_from_entity dec w of
                                Inl _ \<Rightarrow> False
                              | Inr pd \<Rightarrow> peer_data_sig_ok C pd (to_bytes (content_hash (fst l))) (sd_signature sd)))))"

definition check_creator_authority ::
    "crypto \<Rightarrow> (bytes \<Rightarrow> Value option) \<Rightarrow> hash \<Rightarrow> hash \<Rightarrow> entity list \<Rightarrow> (hash \<Rightarrow> entity option) \<Rightarrow>
     ChainWalkError + (bool \<times> entity list)" where
  "check_creator_authority C dec ch identity inc resolve =
     and_then (collect_authority_chain dec ch resolve)
       (\<lambda>chain. Inr (list_ex (link_created_by C dec identity inc resolve) chain, map fst chain))"

section \<open>Verification of a chain\<close>

definition verify_included_key_binding :: "(hash, entity) btree \<Rightarrow> ProtocolError + unit" where
  "verify_included_key_binding inc = for_each (\<lambda>(key, e). ensure (key = content_hash e) PE_HashMismatch) inc"

definition check_format_freeze :: "link list \<Rightarrow> ProtocolError + unit" where
  "check_format_freeze chain =
     (case chain of
        [] \<Rightarrow> Inr ()
      | (first_entity, _) # rest \<Rightarrow>
          let baseline = algorithm (content_hash first_entity)
          in for_each (\<lambda>(e, _).
               let alg = algorithm (content_hash e)
               in ensure (alg = baseline) (PE_CapabilityFormatCodeMismatch baseline alg)) rest)"

definition check_grantee_resolves :: "(hash, entity) btree \<Rightarrow> hash \<Rightarrow> ProtocolError + unit" where
  "check_grantee_resolves inc g =
     and_then (ok_or (map_of inc g) PE_UnresolvableGrantee)
       (\<lambda>e. ensure (entity_type e = TYPE_PEER) PE_UnresolvableGrantee)"

definition check_temporal :: "u64 \<Rightarrow> u64 option \<Rightarrow> u64 option \<Rightarrow> ProtocolError + unit" where
  "check_temporal now_ms expiry start =
     and_then (case expiry of Some e \<Rightarrow> ensure (\<not> now_ms \<ge> e) PE_CapabilityExpired | None \<Rightarrow> Inr ())
       (\<lambda>_. case start of Some n \<Rightarrow> ensure (\<not> now_ms < n) PE_CapabilityNotYetValid | None \<Rightarrow> Inr ())"

definition check_patterns :: "(bytes \<Rightarrow> Value option) \<Rightarrow> entity \<Rightarrow> ProtocolError + unit" where
  "check_patterns dec e =
     (case token_from_entity dec e of
        Inl _ \<Rightarrow> Inr ()
      | Inr token \<Rightarrow>
          ensure (unmatchable_scope_pattern (grants token) = None)
            (PE_CapabilityInvalid ''scope pattern matches nothing and would silently widen the grant''))"

text \<open>The M3 pass at one link; \<open>at_root\<close> is \<^verbatim>\<open>i + 1 == chain.len()\<close>.\<close>

definition check_multi :: "bool \<Rightarrow> chain_fields \<Rightarrow> ProtocolError + unit" where
  "check_multi at_root fs =
     (case cf_granter fs of
        Single _ \<Rightarrow> Inr ()
      | Multi m \<Rightarrow>
          and_then (ensure (cf_parent fs = None) (PE_CapabilityInvalid ''multi-sig capability must have parent: null (M3)''))
          (\<lambda>_. and_then (ensure at_root (PE_CapabilityInvalid ''multi-sig capability appeared at non-root chain position (M3)''))
          (\<lambda>_. map_err (\<lambda>e. PE_CapabilityInvalid (cap_error_text e)) (multi_validate m))))"

fun check_multis :: "link list \<Rightarrow> ProtocolError + unit" where
  "check_multis [] = Inr ()"
| "check_multis ((_, fs) # rest) = and_then (check_multi (rest = []) fs) (\<lambda>_. check_multis rest)"

text \<open>The frame of a peer's patterns, with the fallback of the source.\<close>

definition peer_frame :: "digests \<Rightarrow> crypto \<Rightarrow> string \<Rightarrow> peer_data \<Rightarrow> string" where
  "peer_frame D C local_peer_id pd = (case canonical_peer_id D C pd of Some p \<Rightarrow> p | None \<Rightarrow> local_peer_id)"

definition parent_granter_frame ::
    "digests \<Rightarrow> crypto \<Rightarrow> (bytes \<Rightarrow> Value option) \<Rightarrow> (hash, entity) btree \<Rightarrow> string \<Rightarrow> granter \<Rightarrow> ProtocolError + string" where
  "parent_granter_frame D C dec inc local_peer_id g =
     (case g of
        Multi _ \<Rightarrow> Inr local_peer_id
      | Single parent_granter_id \<Rightarrow>
          and_then (ok_or (map_of inc parent_granter_id) (PE_MissingEntity ''parent granter identity''))
            (\<lambda>pe. and_then (map_err (\<lambda>e. PE_Invalid (types_error_text e)) (peer_data_from_entity dec pe))
            (\<lambda>pd. Inr (peer_frame D C local_peer_id pd))))"

text \<open>The checks between a link and its parent.\<close>

definition verify_delegation ::
    "digests \<Rightarrow> crypto \<Rightarrow> (bytes \<Rightarrow> Value option) \<Rightarrow> (Value \<Rightarrow> bytes option) \<Rightarrow> (hash, entity) btree \<Rightarrow> string \<Rightarrow>
     nat \<Rightarrow> entity \<Rightarrow> hash \<Rightarrow> peer_data \<Rightarrow> link \<Rightarrow> ProtocolError + unit" where
  "verify_delegation D C dec ser inc local_peer_id i e granter_id granter_identity parent_link =
     (case parent_link of (parent_entity, parent_fields) \<Rightarrow>
       and_then (ensure (cf_grantee parent_fields = granter_id) PE_GranteeMismatch) (\<lambda>_.
       and_then (map_err (\<lambda>_. PE_Invalid ''child cap decode'') (token_from_entity dec e)) (\<lambda>child_token.
       and_then (map_err (\<lambda>_. PE_Invalid ''parent cap decode'') (token_from_entity dec parent_entity)) (\<lambda>parent_token.
       and_then (parent_granter_frame D C dec inc local_peer_id (cf_granter parent_fields)) (\<lambda>parent_frame.
       and_then (ensure (is_attenuated_framed ser child_token parent_token
                   (peer_frame D C local_peer_id granter_identity) parent_frame local_peer_id) PE_AttenuationViolation) (\<lambda>_.
         ensure (check_delegation_caveats parent_token child_token (of_nat i))
           (PE_CapabilityInvalid ''delegation caveat violated'')))))))"

text \<open>The scan over the signers of a multi-signature root: the number of valid signatures and
  whether the local peer gave one of them.\<close>

definition candidate_identity ::
    "crypto \<Rightarrow> (bytes \<Rightarrow> Value option) \<Rightarrow> (hash, entity) btree \<Rightarrow> hash \<Rightarrow> hash \<Rightarrow> peer_data option" where
  "candidate_identity C dec inc current_hash candidate =
     (case map_of inc candidate of
        None \<Rightarrow> None
      | Some e \<Rightarrow>
          (case peer_data_from_entity dec e of
             Inl _ \<Rightarrow> None
           | Inr pd \<Rightarrow>
               (case find_signature_by_signer dec (map snd inc) current_hash candidate of
                  None \<Rightarrow> None
                | Some sig \<Rightarrow>
                    (case signature_data_from_entity dec sig of
                       Inl _ \<Rightarrow> None
                     | Inr sd \<Rightarrow>
                         if peer_data_sig_ok C pd (to_bytes current_hash) (sd_signature sd) then Some pd else None))))"

fun count_signers ::
    "digests \<Rightarrow> crypto \<Rightarrow> (bytes \<Rightarrow> Value option) \<Rightarrow> (hash, entity) btree \<Rightarrow> string \<Rightarrow> hash \<Rightarrow>
     hash list \<Rightarrow> hash list \<Rightarrow> u64 \<Rightarrow> bool \<Rightarrow> u64 \<times> bool" where
  "count_signers D C dec inc local_peer_id current_hash [] seen valid local_signed = (valid, local_signed)"
| "count_signers D C dec inc local_peer_id current_hash (candidate # rest) seen valid local_signed =
     (if candidate \<in> set seen
      then count_signers D C dec inc local_peer_id current_hash rest seen valid local_signed
      else case candidate_identity C dec inc current_hash candidate of
             None \<Rightarrow> count_signers D C dec inc local_peer_id current_hash rest (seen @ [candidate]) valid local_signed
           | Some pd \<Rightarrow>
               count_signers D C dec inc local_peer_id current_hash rest (seen @ [candidate]) (valid + 1)
                 (local_signed \<or> canonical_peer_id D C pd = Some local_peer_id))"

definition verify_single ::
    "digests \<Rightarrow> crypto \<Rightarrow> (bytes \<Rightarrow> Value option) \<Rightarrow> (Value \<Rightarrow> bytes option) \<Rightarrow> (hash, entity) btree \<Rightarrow> string \<Rightarrow>
     nat \<Rightarrow> entity \<Rightarrow> hash \<Rightarrow> link list \<Rightarrow> ProtocolError + unit" where
  "verify_single D C dec ser inc local_peer_id i e granter_id rest =
     and_then (ok_or (find_signature_for_target dec (map snd inc) (content_hash e)) PE_MissingSignature) (\<lambda>sig.
     and_then (map_err (\<lambda>err. PE_Invalid (types_error_text err)) (signature_data_from_entity dec sig)) (\<lambda>sig_data.
     and_then (ensure (sd_signer sig_data = granter_id) PE_SignerMismatch) (\<lambda>_.
     and_then (ok_or (map_of inc granter_id) (PE_MissingEntity ''granter identity'')) (\<lambda>granter_entity.
     and_then (map_err (\<lambda>err. PE_Invalid (types_error_text err)) (peer_data_from_entity dec granter_entity)) (\<lambda>granter_identity.
     and_then (verify_peer_data_sig C granter_identity (to_bytes (content_hash e)) (sd_signature sig_data)) (\<lambda>_.
       case rest of
         parent_link # _ \<Rightarrow>
           verify_delegation D C dec ser inc local_peer_id i e granter_id granter_identity parent_link
       | [] \<Rightarrow>
           and_then (ok_or (canonical_peer_id D C granter_identity) PE_NotLocalPeer)
             (\<lambda>granter_peer_id. ensure (granter_peer_id = local_peer_id) PE_NotLocalPeer)))))))"

definition verify_multi ::
    "digests \<Rightarrow> crypto \<Rightarrow> (bytes \<Rightarrow> Value option) \<Rightarrow> (hash, entity) btree \<Rightarrow> string \<Rightarrow>
     entity \<Rightarrow> multi_granter \<Rightarrow> ProtocolError + unit" where
  "verify_multi D C dec inc local_peer_id e m =
     (let (valid, local_peer_signed) = count_signers D C dec inc local_peer_id (content_hash e) (signers m) [] 0 False
      in and_then (ensure (\<not> valid < threshold m) PE_InvalidSignature)
           (\<lambda>_. ensure local_peer_signed PE_NotLocalPeer))"

definition verify_level ::
    "digests \<Rightarrow> crypto \<Rightarrow> (bytes \<Rightarrow> Value option) \<Rightarrow> (Value \<Rightarrow> bytes option) \<Rightarrow> (hash, entity) btree \<Rightarrow> string \<Rightarrow>
     nat \<Rightarrow> link \<Rightarrow> link list \<Rightarrow> ProtocolError + unit" where
  "verify_level D C dec ser inc local_peer_id i l rest =
     (case l of (e, fs) \<Rightarrow>
        (case cf_granter fs of
           Single granter_id \<Rightarrow> verify_single D C dec ser inc local_peer_id i e granter_id rest
         | Multi m \<Rightarrow> verify_multi D C dec inc local_peer_id e m))"

fun verify_levels ::
    "digests \<Rightarrow> crypto \<Rightarrow> (bytes \<Rightarrow> Value option) \<Rightarrow> (Value \<Rightarrow> bytes option) \<Rightarrow> (hash, entity) btree \<Rightarrow> string \<Rightarrow>
     nat \<Rightarrow> link list \<Rightarrow> ProtocolError + unit" where
  "verify_levels D C dec ser inc local_peer_id i [] = Inr ()"
| "verify_levels D C dec ser inc local_peer_id i (l # rest) =
     and_then (verify_level D C dec ser inc local_peer_id i l rest)
       (\<lambda>_. verify_levels D C dec ser inc local_peer_id (i + 1) rest)"

definition walk_error :: "ChainWalkError \<Rightarrow> ProtocolError" where
  "walk_error e = (case e of TooDeep \<Rightarrow> PE_ChainTooDeep | Unreachable \<Rightarrow> PE_MissingEntity ''capability in chain'')"

definition verify_capability_chain ::
    "digests \<Rightarrow> crypto \<Rightarrow> (bytes \<Rightarrow> Value option) \<Rightarrow> (Value \<Rightarrow> bytes option) \<Rightarrow> u64 \<Rightarrow>
     hash \<Rightarrow> (hash, entity) btree \<Rightarrow> string \<Rightarrow> ProtocolError + unit" where
  "verify_capability_chain D C dec ser now_ms capability_hash inc local_peer_id =
     and_then (verify_included_key_binding inc) (\<lambda>_.
     and_then (map_err walk_error (collect_authority_chain dec capability_hash (map_of inc))) (\<lambda>chain.
     and_then (check_format_freeze chain) (\<lambda>_.
     and_then (for_each (\<lambda>(_, fs). check_grantee_resolves inc (cf_grantee fs)) chain) (\<lambda>_.
     and_then (for_each (\<lambda>(_, fs). check_temporal now_ms (cf_expires_at fs) (cf_not_before fs)) chain) (\<lambda>_.
     and_then (for_each (\<lambda>(e, _). check_patterns dec e) chain) (\<lambda>_.
     and_then (check_multis chain) (\<lambda>_.
       verify_levels D C dec ser inc local_peer_id 0 chain)))))))"

section \<open>Verification of a request\<close>

record verified_request =
  vr_author_hash :: hash
  vr_capability_hash :: hash
  vr_capability :: capability_token
  vr_request_id :: string
  vr_uri :: string
  vr_operation :: string

definition check_format :: "entity \<Rightarrow> ProtocolError + unit" where
  "check_format e =
     ensure (is_supported_format (content_hash e)) (PE_UnsupportedContentHashFormat (algorithm (content_hash e)))"

definition auth_sig_error :: "ProtocolError \<Rightarrow> ProtocolError" where
  "auth_sig_error e = (case e of PE_InvalidSignature \<Rightarrow> PE_AuthenticationFailed ''invalid execute signature'' | other \<Rightarrow> other)"

definition verify_request ::
    "digests \<Rightarrow> crypto \<Rightarrow> (bytes \<Rightarrow> Value option) \<Rightarrow> (Value \<Rightarrow> bytes option) \<Rightarrow> u64 \<Rightarrow>
     envelope \<Rightarrow> string \<Rightarrow> ProtocolError + verified_request" where
  "verify_request D C dec ser now_ms env local_peer_id =
     (let execute = root env; inc = included env in
      and_then (check_format execute) (\<lambda>_.
      and_then (for_each check_format (map snd inc)) (\<lambda>_.
      and_then (map_err (\<lambda>_. PE_HashMismatch) (entity_validate D execute)) (\<lambda>_.
      and_then (for_each (\<lambda>e. map_err (\<lambda>_. PE_HashMismatch) (entity_validate D e)) (map snd inc)) (\<lambda>_.
      and_then (verify_included_key_binding inc) (\<lambda>_.
      and_then (decode_execute_fields dec (data execute)) (\<lambda>execute_data.
      and_then (ok_or (ex_author execute_data) (PE_AuthenticationFailed ''missing author'')) (\<lambda>author_hash.
      and_then (ok_or (ex_capability execute_data) PE_MissingCapability) (\<lambda>capability_hash.
      and_then (ok_or (find_signature_for dec env (content_hash execute))
                 (PE_AuthenticationFailed ''missing execute signature'')) (\<lambda>sig_entity.
      and_then (map_err (\<lambda>e. PE_Invalid (types_error_text e)) (signature_data_from_entity dec sig_entity)) (\<lambda>sig_data.
      and_then (ensure (sd_signer sig_data = author_hash)
                 (PE_AuthenticationFailed ''execute signer does not match author'')) (\<lambda>_.
      and_then (ok_or (find_included env author_hash)
                 (PE_AuthenticationFailed ''author identity not in included'')) (\<lambda>author_entity.
      and_then (ensure (entity_type author_entity = TYPE_PEER) (PE_Invalid ''author is not system/peer'')) (\<lambda>_.
      and_then (map_err (\<lambda>e. PE_Invalid (types_error_text e)) (peer_data_from_entity dec author_entity)) (\<lambda>author_identity.
      and_then (map_err auth_sig_error
                 (verify_peer_data_sig C author_identity (to_bytes (content_hash execute)) (sd_signature sig_data))) (\<lambda>_.
      and_then (ok_or (find_included env capability_hash) PE_MissingCapabilityEntity) (\<lambda>cap_entity.
      and_then (ensure (entity_type cap_entity = TYPE_CAP_TOKEN)
                 (PE_Invalid ''capability is not system/capability/token'')) (\<lambda>_.
      and_then (map_err (\<lambda>_. PE_Invalid ''capability decode'') (token_from_entity dec cap_entity)) (\<lambda>cap_token.
      and_then (check_grantee_resolves inc (grantee cap_token)) (\<lambda>_.
      and_then (ensure (grantee cap_token = author_hash) PE_GranteeMismatch) (\<lambda>_.
      and_then (check_temporal now_ms (expires_at cap_token) (not_before cap_token)) (\<lambda>_.
      and_then (verify_capability_chain D C dec ser now_ms capability_hash inc local_peer_id) (\<lambda>_.
        Inr \<lparr>vr_author_hash = author_hash, vr_capability_hash = capability_hash, vr_capability = cap_token,
             vr_request_id = ex_request_id execute_data, vr_uri = ex_uri execute_data,
             vr_operation = ex_operation execute_data\<rparr>)))))))))))))))))))))))"

record verify_context =
  vc_local_peer_id :: string
  vc_supports_revocation :: bool

definition verify_request_with_ctx ::
    "digests \<Rightarrow> crypto \<Rightarrow> (bytes \<Rightarrow> Value option) \<Rightarrow> (Value \<Rightarrow> bytes option) \<Rightarrow> u64 \<Rightarrow> envelope \<Rightarrow> verify_context \<Rightarrow>
     (hash \<Rightarrow> entity option) \<Rightarrow> (string \<Rightarrow> hash option) \<Rightarrow> (hash \<Rightarrow> string option) \<Rightarrow>
     ProtocolError + verified_request" where
  "verify_request_with_ctx D C dec ser now_ms env ctx resolve locate capability_path_for =
     and_then (verify_request D C dec ser now_ms env (vc_local_peer_id ctx)) (\<lambda>verified.
       if vc_supports_revocation ctx \<and>
          is_revoked dec (vr_capability_hash verified) (vc_local_peer_id ctx) resolve locate capability_path_for
       then Inl PE_CapabilityRevoked else Inr verified)"

definition resolve_granter_peer_id ::
    "digests \<Rightarrow> crypto \<Rightarrow> (bytes \<Rightarrow> Value option) \<Rightarrow> granter \<Rightarrow> string \<Rightarrow> (hash \<Rightarrow> entity option) \<Rightarrow> string option" where
  "resolve_granter_peer_id D C dec g local_peer_id lookup =
     (case as_single g of
        None \<Rightarrow> Some local_peer_id
      | Some h \<Rightarrow>
          (case lookup h of
             None \<Rightarrow> None
           | Some e \<Rightarrow>
               if entity_type e \<noteq> TYPE_PEER then None
               else case peer_data_from_entity dec e of Inl _ \<Rightarrow> None | Inr pd \<Rightarrow> canonical_peer_id D C pd))"

end
