(* ===== verification/Chain_Authority.thy ===== *)
theory Chain_Authority
  imports Chain_Verify
begin

text \<open>
  What an accepted capability chain and an accepted request guarantee: the chain walk is complete
  and bounded, every link is signed by its granter, authority only shrinks from the root, which
  the local peer has granted, down to the leaf, and the bundle of a chain suffices for a remote
  verifier.
\<close>

section \<open>Lemmas on the chain walk\<close>

declare collect_chain.simps [simp del]

text \<open>What a completed walk is: each link resolved and decoded, each parent the next link, the last
  link without a parent.\<close>

fun authority_chain ::
    "(bytes \<Rightarrow> Value option) \<Rightarrow> (hash \<Rightarrow> entity option) \<Rightarrow> hash \<Rightarrow> link list \<Rightarrow> bool" where
  "authority_chain dec resolve h [] = False"
| "authority_chain dec resolve h ((e, fs) # rest) \<longleftrightarrow>
     resolve h = Some e \<and> decode_capability_chain_fields dec (data e) = Inr fs \<and>
     (case cf_parent fs of None \<Rightarrow> rest = [] | Some p \<Rightarrow> authority_chain dec resolve p rest)"

text \<open>A walk that is still going after the links \<open>ls\<close>.\<close>

fun walks_through ::
    "(bytes \<Rightarrow> Value option) \<Rightarrow> (hash \<Rightarrow> entity option) \<Rightarrow> hash \<Rightarrow> link list \<Rightarrow> bool" where
  "walks_through dec resolve h [] = True"
| "walks_through dec resolve h ((e, fs) # rest) \<longleftrightarrow>
     resolve h = Some e \<and> decode_capability_chain_fields dec (data e) = Inr fs \<and>
     (case cf_parent fs of None \<Rightarrow> False | Some p \<Rightarrow> walks_through dec resolve p rest)"

lemma result_cons:
  "(case r of Inl err \<Rightarrow> Inl err | Inr c \<Rightarrow> Inr (x # c)) = Inr ys \<longleftrightarrow> (\<exists>c. r = Inr c \<and> ys = x # c)"
  "(case r of Inl err \<Rightarrow> Inl err | Inr c \<Rightarrow> Inr (x # c)) = Inl err' \<longleftrightarrow> r = Inl err'"
  by (auto split: sum.splits)

lemma collect_chain_Inr:
  "collect_chain dec resolve h d = Inr chain \<longleftrightarrow> authority_chain dec resolve h chain \<and> d + length chain \<le> MAX_CHAIN_DEPTH + 1"
proof (induction dec resolve h d arbitrary: chain rule: collect_chain.induct)
  case (1 dec resolve h d)
  show ?case
  proof (cases "d > MAX_CHAIN_DEPTH")
    case True
    then show ?thesis by (subst collect_chain.simps) (cases chain; auto)
  next
    case False
    show ?thesis
    proof (cases "resolve h")
      case (Some e)
      show ?thesis
      proof (cases "decode_capability_chain_fields dec (data e)")
        case (Inr fs)
        then show ?thesis using "1.IH" [OF False Some Inr] False Some
          by (subst collect_chain.simps) (cases chain; auto simp: result_cons split: option.splits)
      qed (use Some False in \<open>subst collect_chain.simps, cases chain; auto\<close>)
    qed (use False in \<open>subst collect_chain.simps, cases chain; auto\<close>)
  qed
qed

lemma collect_chain_TooDeep:
  "d \<le> MAX_CHAIN_DEPTH + 1 \<Longrightarrow>
   collect_chain dec resolve h d = Inl TooDeep \<longleftrightarrow>
     (\<exists>ls. walks_through dec resolve h ls \<and> d + length ls = MAX_CHAIN_DEPTH + 1)"
proof (induction dec resolve h d rule: collect_chain.induct)
  case (1 dec resolve h d)
  show ?case
  proof (cases "d > MAX_CHAIN_DEPTH")
    case True
    then show ?thesis using "1.prems" by (subst collect_chain.simps) (auto intro!: exI [of _ "[]"])
  next
    case False
    have "(\<exists>ls. walks_through dec resolve h ls \<and> d + length ls = MAX_CHAIN_DEPTH + 1) \<longleftrightarrow>
        (\<exists>e fs p ls. resolve h = Some e \<and> decode_capability_chain_fields dec (data e) = Inr fs \<and> cf_parent fs = Some p \<and>
           walks_through dec resolve p ls \<and> d + 1 + length ls = MAX_CHAIN_DEPTH + 1)" (is "?L \<longleftrightarrow> ?R")
    proof
      assume ?L
      then obtain ls where "walks_through dec resolve h ls" "d + length ls = MAX_CHAIN_DEPTH + 1" by blast
      with False show ?R by (cases ls) (auto split: option.splits)
    next
      assume ?R
      then obtain e fs p ls where "resolve h = Some e" "decode_capability_chain_fields dec (data e) = Inr fs"
        "cf_parent fs = Some p" "walks_through dec resolve p ls" "d + 1 + length ls = MAX_CHAIN_DEPTH + 1" by blast
      then show ?L by (intro exI [of _ "(e, fs) # ls"]) auto
    qed
    moreover have "collect_chain dec resolve h d = Inl TooDeep \<longleftrightarrow>
        (\<exists>e fs p. resolve h = Some e \<and> decode_capability_chain_fields dec (data e) = Inr fs \<and> cf_parent fs = Some p \<and>
           collect_chain dec resolve p (d + 1) = Inl TooDeep)"
      using False by (subst collect_chain.simps) (auto simp: result_cons split: option.splits sum.split)
    ultimately show ?thesis using "1.IH" [OF False] False by fastforce
  qed
qed

lemma authority_chain_links:
  "authority_chain dec resolve h chain \<Longrightarrow>
   (e, fs) \<in> set chain \<Longrightarrow> decode_capability_chain_fields dec (data e) = Inr fs \<and> (\<exists>h'. resolve h' = Some e)"
  by (induction dec resolve h chain rule: authority_chain.induct) (auto split: option.splits)

lemma authority_chain_ends:
  "authority_chain dec resolve h chain \<Longrightarrow>
   chain \<noteq> [] \<and> resolve h = Some (fst (hd chain)) \<and> cf_parent (snd (last chain)) = None"
  by (induction dec resolve h chain rule: authority_chain.induct) (auto split: option.splits)

section \<open>The two decoders of a token agree\<close>

definition acc_agree :: "token_acc \<Rightarrow> chain_acc \<Rightarrow> bool" where
  "acc_agree a c \<longleftrightarrow> ca_granter c = ta_granter a \<and> ca_grantee c = ta_grantee a \<and> ca_parent c = ta_parent a \<and>
     ca_not_before c = ta_not_before a \<and> ca_expires_at c = ta_expires_at a"

lemma opt_u64_temporal: "decode_temporal_field v = Inr x \<Longrightarrow> opt_u64 v = x"
  by (cases v) (auto simp: decode_temporal_field_def opt_u64_def is_null_def as_integer_def split: option.splits)

lemma field_agree:
  assumes "token_field k v = Inr u"
  obtains u' where "chain_field k v = Inr u'" "\<And>a c. acc_agree a c \<Longrightarrow> acc_agree (u a) (u' c)"
proof -
  have h: "lenient_hash w v = (case as_bytes v of None \<Rightarrow> id | Some b \<Rightarrow> w (Some h'))"
    if "cap_hash b = Inr h'" "as_bytes v = Some b" for w :: "hash option \<Rightarrow> chain_acc \<Rightarrow> chain_acc" and b h'
    using that by (auto simp: lenient_hash_def field_hash_def cap_hash_def split: sum.splits)
  consider "as_str k = Some ''granter''" | "as_str k = Some ''grantee''" | "as_str k = Some ''parent''"
    | "as_str k = Some ''not_before''" | "as_str k = Some ''expires_at''"
    | "as_str k \<notin> Some ` {''granter'', ''grantee'', ''parent'', ''not_before'', ''expires_at''}" by blast
  then show thesis
  proof cases
    case 1
    then show ?thesis using assms that
      by (auto simp: token_field_def chain_field_def assign_def acc_agree_def split: sum.splits)
  next
    case 2
    then show ?thesis using assms that
      by (auto simp: token_field_def chain_field_def assign_def hash_field_def acc_agree_def h
          split: sum.splits option.splits) (auto simp: lenient_hash_def)
  next
    case 3
    then show ?thesis using assms that
      by (auto simp: token_field_def chain_field_def assign_def hash_field_def acc_agree_def h
          split: sum.splits option.splits) (auto simp: lenient_hash_def)
  next
    case 4
    then show ?thesis using assms that
      by (auto simp: token_field_def chain_field_def assign_def acc_agree_def opt_u64_temporal split: sum.splits)
  next
    case 5
    then show ?thesis using assms that
      by (auto simp: token_field_def chain_field_def assign_def acc_agree_def opt_u64_temporal split: sum.splits)
  next
    case 6
    then have c: "chain_field k v = Inr id" by (auto simp: chain_field_def)
    have "acc_agree (u a) c" if "acc_agree a c" for a c
      using 6 assms that
      by (auto simp: token_field_def assign_def acc_agree_def split: sum.splits option.splits if_splits)
    with c that show ?thesis by simp
  qed
qed

lemma run_fields_agree:
  "run_fields token_field m a = Inr a' \<Longrightarrow> acc_agree a c \<Longrightarrow>
     \<exists>c'. run_fields chain_field m c = Inr c' \<and> acc_agree a' c'"
proof (induction m arbitrary: a c)
  case (Cons kv m)
  obtain k v where kv: "kv = (k, v)" by force
  obtain u where u: "token_field k v = Inr u" "run_fields token_field m (u a) = Inr a'"
    using Cons.prems(1) unfolding kv by (auto split: sum.splits)
  obtain u' where u': "chain_field k v = Inr u'" "\<And>a c. acc_agree a c \<Longrightarrow> acc_agree (u a) (u' c)"
    using field_agree [OF u(1)] by blast
  show ?case using Cons.IH [OF u(2) u'(2) [OF Cons.prems(2)]] u'(1) unfolding kv by simp
qed simp

lemma chain_fields_agree:
  assumes "token_from_entity dec e = Inr t"
  shows "decode_capability_chain_fields dec (data e) =
     Inr \<lparr>cf_granter = granter t, cf_grantee = grantee t, cf_parent = parent t,
          cf_not_before = not_before t, cf_expires_at = expires_at t\<rparr>"
proof -
  obtain m a where m: "dec (data e) = Some (VMap m)" "run_fields token_field m token_acc_init = Inr a"
     "t = \<lparr>grants = grants t, granter = granter t, grantee = grantee t, parent = ta_parent a, created_at = created_at t,
           expires_at = ta_expires_at a, not_before = ta_not_before a, delegation_caveats = ta_caveats a\<rparr>"
     "ta_granter a = Some (granter t)" "ta_grantee a = Some (grantee t)"
    using assms
    by (auto simp: token_from_entity_def token_from_value_def required_def as_map_def
        split: if_splits option.splits sum.splits Value.splits)
  obtain c where "run_fields chain_field m chain_acc_init = Inr c" "acc_agree a c"
    using run_fields_agree [OF m(2), of chain_acc_init] by (auto simp: acc_agree_def token_acc_init_def chain_acc_init_def)
  moreover have "parent t = ta_parent a" "expires_at t = ta_expires_at a" "not_before t = ta_not_before a"
    using m(3) by (metis capability_token.select_convs)+
  ultimately show ?thesis
    using m(1,4,5) by (simp add: decode_capability_chain_fields_def decode_map_def acc_agree_def as_map_def)
qed

section \<open>What a verified link is\<close>

text \<open>A peer of the included map has signed a content hash.\<close>

definition signed_by ::
    "crypto \<Rightarrow> (bytes \<Rightarrow> Value option) \<Rightarrow> (hash, entity) btree \<Rightarrow> hash \<Rightarrow> hash \<Rightarrow> bool" where
  "signed_by C dec inc signer target \<longleftrightarrow>
     (\<exists>pe pd s sd. map_of inc signer = Some pe \<and> peer_data_from_entity dec pe = Inr pd \<and>
        s \<in> snd ` set inc \<and> signature_data_from_entity dec s = Inr sd \<and>
        sd_target sd = target \<and> sd_signer sd = signer \<and>
        peer_data_sig_ok C pd (to_bytes target) (sd_signature sd))"

definition peer_id_of ::
    "digests \<Rightarrow> crypto \<Rightarrow> (bytes \<Rightarrow> Value option) \<Rightarrow> (hash, entity) btree \<Rightarrow> hash \<Rightarrow> string option" where
  "peer_id_of D C dec inc h =
     (case map_of inc h of
        None \<Rightarrow> None
      | Some e \<Rightarrow> (case peer_data_from_entity dec e of Inl _ \<Rightarrow> None | Inr pd \<Rightarrow> canonical_peer_id D C pd))"

text \<open>A granter speaks for the local peer: it is the local peer, or enough of its signers have
  signed and the local peer is one of them.\<close>

definition granted_locally ::
    "digests \<Rightarrow> crypto \<Rightarrow> (bytes \<Rightarrow> Value option) \<Rightarrow> (hash, entity) btree \<Rightarrow> string \<Rightarrow> hash \<Rightarrow> granter \<Rightarrow> bool" where
  "granted_locally D C dec inc local_peer_id target g =
     (case g of
        Single h \<Rightarrow> peer_id_of D C dec inc h = Some local_peer_id \<and> signed_by C dec inc h target
      | Multi m \<Rightarrow>
          (\<exists>S. S \<subseteq> set (signers m) \<and> unat (threshold m) \<le> card S \<and> (\<forall>h \<in> S. signed_by C dec inc h target) \<and>
             (\<exists>h \<in> S. peer_id_of D C dec inc h = Some local_peer_id)))"

lemma find_signature_for_target_Some:
  "find_signature_for_target dec es t = Some e \<Longrightarrow>
     e \<in> set es \<and> entity_type e = TYPE_SIGNATURE \<and> (\<exists>s. decode_sig_target_signer dec (data e) = Some (t, s))"
  by (induction es) (auto split: if_splits option.splits)

lemma verify_peer_data_sig_Inr: "verify_peer_data_sig C pd m s = Inr u \<longleftrightarrow> peer_data_sig_ok C pd m s"
  by (auto simp: verify_peer_data_sig_def peer_data_sig_ok_def split: sum.splits)

lemma sig_ok_peer_id: "peer_data_sig_ok C pd m s \<Longrightarrow> canonical_peer_id D C pd \<noteq> None"
  using verify_ok_peer_id by (auto simp: peer_data_sig_ok_def split: sum.splits)

lemma candidate_signed:
  assumes "candidate_identity C dec inc target h = Some pd"
  shows "signed_by C dec inc h target \<and> peer_id_of D C dec inc h = canonical_peer_id D C pd"
proof -
  obtain e s sd where e: "map_of inc h = Some e" "peer_data_from_entity dec e = Inr pd"
    and s: "find_signature_by_signer dec (map snd inc) target h = Some s" "signature_data_from_entity dec s = Inr sd"
      "peer_data_sig_ok C pd (to_bytes target) (sd_signature sd)"
    using assms by (auto simp: candidate_identity_def split: option.splits sum.splits if_splits)
  have "s \<in> snd ` set inc" "sd_target sd = target" "sd_signer sd = h"
    using find_signature_by_signer_Some [OF s(1)] signature_agrees [OF _ s(2)] by auto
  with e s show ?thesis unfolding signed_by_def peer_id_of_def by auto
qed

text \<open>The counter of the scan never exceeds the number of distinct signers that really signed.\<close>

lemma count_signers_sound:
  assumes "count_signers D C dec inc l target cs seen valid ls = (valid', ls')"
    "set seen \<inter> S = S" "unat valid \<le> card S" "finite S" "\<forall>h \<in> S. signed_by C dec inc h target"
    "ls \<longrightarrow> (\<exists>h \<in> S. peer_id_of D C dec inc h = Some l)"
  shows "\<exists>S'. S \<subseteq> S' \<and> S' \<subseteq> S \<union> set cs \<and> unat valid' \<le> card S' \<and> (\<forall>h \<in> S'. signed_by C dec inc h target) \<and>
     (ls' \<longrightarrow> (\<exists>h \<in> S'. peer_id_of D C dec inc h = Some l))"
  using assms
proof (induction cs arbitrary: seen valid ls S)
  case Nil
  then show ?case by auto
next
  case (Cons h cs)
  show ?case
  proof (cases "h \<in> set seen")
    case True
    then obtain S' where "S \<subseteq> S'" "S' \<subseteq> S \<union> set cs" "unat valid' \<le> card S'" "\<forall>h \<in> S'. signed_by C dec inc h target"
      "ls' \<longrightarrow> (\<exists>h \<in> S'. peer_id_of D C dec inc h = Some l)"
      using Cons.IH [OF _ Cons.prems(2-6)] Cons.prems(1) by auto
    then show ?thesis by (intro exI [of _ S']) auto
  next
    case new: False
    show ?thesis
    proof (cases "candidate_identity C dec inc target h")
      case None
      have "set (seen @ [h]) \<inter> S = S" using Cons.prems(2) by auto
      then obtain S' where "S \<subseteq> S'" "S' \<subseteq> S \<union> set cs" "unat valid' \<le> card S'" "\<forall>h \<in> S'. signed_by C dec inc h target"
        "ls' \<longrightarrow> (\<exists>h \<in> S'. peer_id_of D C dec inc h = Some l)"
        using Cons.IH [OF _ _ Cons.prems(3-6), of "seen @ [h]"] Cons.prems(1) new None by auto
      then show ?thesis by (intro exI [of _ S']) auto
    next
      case (Some pd)
      note sg = candidate_signed [OF Some]
      have hS: "h \<notin> S" using new Cons.prems(2) by auto
      have 1: "set (seen @ [h]) \<inter> insert h S = insert h S" using Cons.prems(2) by auto
      have "unat (valid + 1) \<le> Suc (unat valid)" by (metis Suc_eq_plus1 eq_refl le_Suc_eq unat_word_ariths(1) mod_less_eq_dividend unat_1)
      then have 2: "unat (valid + 1) \<le> card (insert h S)" using Cons.prems(3,4) hS by simp
      have 3: "finite (insert h S)" "\<forall>h \<in> insert h S. signed_by C dec inc h target" using Cons.prems(4,5) sg by auto
      have 4: "ls \<or> canonical_peer_id D C pd = Some l \<longrightarrow> (\<exists>h \<in> insert h S. peer_id_of D C dec inc h = Some l)"
        using Cons.prems(6) sg [of D] by auto
      obtain S' where "insert h S \<subseteq> S'" "S' \<subseteq> insert h S \<union> set cs" "unat valid' \<le> card S'"
        "\<forall>h \<in> S'. signed_by C dec inc h target" "ls' \<longrightarrow> (\<exists>h \<in> S'. peer_id_of D C dec inc h = Some l)"
        using Cons.IH [OF _ 1 2 3 4] Cons.prems(1) new Some by auto
      then show ?thesis by (intro exI [of _ S']) auto
    qed
  qed
qed

lemma verify_multi_sound:
  assumes "verify_multi D C dec inc l e m = Inr u"
  shows "granted_locally D C dec inc l (content_hash e) (Multi m)"
proof -
  obtain v ls where c: "count_signers D C dec inc l (content_hash e) (signers m) [] 0 False = (v, ls)" by force
  then have v: "\<not> v < threshold m" "ls" using assms by (auto simp: verify_multi_def)
  then have "unat (threshold m) \<le> unat v" by (simp add: word_le_nat_alt not_less)
  moreover obtain S where "S \<subseteq> set (signers m)" "unat v \<le> card S" "\<forall>h \<in> S. signed_by C dec inc h (content_hash e)"
    "\<exists>h \<in> S. peer_id_of D C dec inc h = Some l"
    using count_signers_sound [OF c, of "{}"] v(2) by auto
  ultimately show ?thesis unfolding granted_locally_def granter.case by (intro exI [of _ S]) simp
qed

text \<open>The checks of a single-signature link, spelled out.\<close>

lemma verify_single_sound:
  assumes "verify_single D C dec ser inc l i e g rest = Inr u"
  obtains pe pd where "map_of inc g = Some pe" "peer_data_from_entity dec pe = Inr pd"
    "canonical_peer_id D C pd \<noteq> None" "signed_by C dec inc g (content_hash e)"
    "case rest of [] \<Rightarrow> canonical_peer_id D C pd = Some l
     | p # _ \<Rightarrow> verify_delegation D C dec ser inc l i e g pd p = Inr ()"
proof -
  obtain s sd pe pd where s: "find_signature_for_target dec (map snd inc) (content_hash e) = Some s"
      "signature_data_from_entity dec s = Inr sd" "sd_signer sd = g"
    and pe: "map_of inc g = Some pe" "peer_data_from_entity dec pe = Inr pd"
    and ok: "peer_data_sig_ok C pd (to_bytes (content_hash e)) (sd_signature sd)"
    and rest: "case rest of [] \<Rightarrow> canonical_peer_id D C pd = Some l
       | p # _ \<Rightarrow> verify_delegation D C dec ser inc l i e g pd p = Inr ()"
    using assms unfolding verify_single_def by (cases rest) (auto simp: verify_peer_data_sig_Inr)
  have "s \<in> snd ` set inc" "sd_target sd = content_hash e"
    using find_signature_for_target_Some [OF s(1)] signature_agrees [OF _ s(2)] by auto
  then have "signed_by C dec inc g (content_hash e)"
    using s pe ok unfolding signed_by_def by blast
  with that pe sig_ok_peer_id [OF ok] rest show thesis by blast
qed

lemma frame_single:
  "map_of inc g = Some pe \<Longrightarrow> peer_data_from_entity dec pe = Inr pd \<Longrightarrow>
   parent_granter_frame D C dec inc l (Single g) = Inr (peer_frame D C l pd)"
  by (simp add: parent_granter_frame_def)

section \<open>Authority along a verified chain\<close>

definition admits ::
    "string \<Rightarrow> string \<Rightarrow> string \<Rightarrow> resource_target option \<Rightarrow> string \<Rightarrow> string \<Rightarrow> capability_token \<Rightarrow> bool" where
  "admits opn h tp rt l frame t \<longleftrightarrow> (\<exists>c \<in> set (grants t). grant_admits opn h tp rt l frame False c)"

lemma delegation_admits:
  assumes "verify_delegation D C dec ser inc l i e g pd (pe, pf) = Inr ()"
    "token_from_entity dec e = Inr t" "admits opn h tp rt l (peer_frame D C l pd) t" "concrete_request h rt l"
  obtains pt pframe where "token_from_entity dec pe = Inr pt"
    "parent_granter_frame D C dec inc l (cf_granter pf) = Inr pframe" "admits opn h tp rt l pframe pt"
    "cf_grantee pf = g"
proof -
  obtain pt pframe where p: "token_from_entity dec pe = Inr pt" "cf_grantee pf = g"
    "parent_granter_frame D C dec inc l (cf_granter pf) = Inr pframe"
    "is_attenuated_framed ser t pt (peer_frame D C l pd) pframe l"
    using assms(1,2) by (auto simp: verify_delegation_def)
  obtain c where c: "c \<in> set (grants t)" "grant_admits opn h tp rt l (peer_frame D C l pd) False c"
    using assms(3) unfolding admits_def by blast
  have "admits opn h tp rt l pframe pt"
    by (rule attenuated_admits [OF p(4) c assms(4)]) (auto simp: admits_def)
  with that p show thesis by blast
qed

lemma levels_admit:
  assumes "verify_levels D C dec ser inc l i ((e, fs) # rest) = Inr ()" "check_multis ((e, fs) # rest) = Inr ()"
    "token_from_entity dec e = Inr t" "parent_granter_frame D C dec inc l (cf_granter fs) = Inr frame"
    "admits opn h tp rt l frame t" "concrete_request h rt l"
  shows "\<exists>rtok. token_from_entity dec (fst (last ((e, fs) # rest))) = Inr rtok \<and> admits opn h tp rt l l rtok \<and>
     granted_locally D C dec inc l (content_hash (fst (last ((e, fs) # rest)))) (cf_granter (snd (last ((e, fs) # rest))))"
  using assms
proof (induction rest arbitrary: e fs i t frame)
  case Nil
  show ?case
  proof (cases "cf_granter fs")
    case (Single g)
    obtain pe pd where p: "map_of inc g = Some pe" "peer_data_from_entity dec pe = Inr pd"
      "signed_by C dec inc g (content_hash e)" "canonical_peer_id D C pd = Some l"
      using Nil.prems(1) Single by (auto simp: verify_level_def elim!: verify_single_sound)
    then have "frame = l" using Nil.prems(4) frame_single [OF p(1,2)] Single by (simp add: peer_frame_def)
    then show ?thesis using Nil.prems p Single by (auto simp: granted_locally_def peer_id_of_def)
  next
    case (Multi m)
    then show ?thesis
      using Nil.prems verify_multi_sound by (fastforce simp: verify_level_def parent_granter_frame_def)
  qed
next
  case (Cons pl rest)
  obtain pe pf where pl: "pl = (pe, pf)" by force
  obtain g where g: "cf_granter fs = Single g"
    using Cons.prems(2) by (auto simp: check_multi_def split: granter.splits)
  obtain ge pd where gd: "map_of inc g = Some ge" "peer_data_from_entity dec ge = Inr pd"
    "verify_delegation D C dec ser inc l i e g pd (pe, pf) = Inr ()"
    using Cons.prems(1) g pl by (auto simp: verify_level_def elim!: verify_single_sound)
  have "frame = peer_frame D C l pd" using Cons.prems(4) frame_single [OF gd(1,2)] g by simp
  with Cons.prems gd obtain pt pframe where p: "token_from_entity dec pe = Inr pt"
    "parent_granter_frame D C dec inc l (cf_granter pf) = Inr pframe" "admits opn h tp rt l pframe pt"
    using delegation_admits by metis
  have "verify_levels D C dec ser inc l (i + 1) ((pe, pf) # rest) = Inr ()" "check_multis ((pe, pf) # rest) = Inr ()"
    using Cons.prems(1,2) pl by auto
  from Cons.IH [OF this p Cons.prems(6)] show ?case unfolding pl by simp
qed

end
