(* ===== verification/Chain_Main.thy ===== *)
theory Chain_Main
  imports Chain_Authority
begin

text \<open>
  The properties of accepted chains and requests, with a concrete request of three peers that
  shows each of them at work.
\<close>

lemma verify_levels_nth:
  assumes "verify_levels D C dec ser inc l i chain = Inr ()" "j < length chain"
  shows "verify_level D C dec ser inc l (i + j) (chain ! j) (drop (Suc j) chain) = Inr ()"
  using assms
proof (induction chain arbitrary: i j)
  case (Cons a chain)
  show ?case
  proof (cases j)
    case (Suc k)
    then show ?thesis using Cons.prems Cons.IH [of "i + 1" k] by auto
  qed (use Cons.prems in auto)
qed simp

lemma check_multis_nth:
  assumes "check_multis chain = Inr ()" "j < length chain" "cf_granter (snd (chain ! j)) = Multi m"
  shows "Suc j = length chain"
  using assms
proof (induction chain arbitrary: j)
  case (Cons a chain)
  then show ?case by (cases j; cases a) (auto simp: check_multi_def)
qed simp

text \<open>Everything that acceptance of a chain consists of.\<close>

definition chain_ok ::
    "digests \<Rightarrow> crypto \<Rightarrow> (bytes \<Rightarrow> Value option) \<Rightarrow> (Value \<Rightarrow> bytes option) \<Rightarrow> u64 \<Rightarrow>
     (hash, entity) btree \<Rightarrow> string \<Rightarrow> link list \<Rightarrow> bool" where
  "chain_ok D C dec ser now_ms inc l chain \<longleftrightarrow>
     (\<forall>e fs. (e, fs) \<in> set chain \<longrightarrow>
        algorithm (content_hash e) = algorithm (content_hash (fst (hd chain))) \<and>
        check_grantee_resolves inc (cf_grantee fs) = Inr () \<and>
        check_temporal now_ms (cf_expires_at fs) (cf_not_before fs) = Inr () \<and> check_patterns dec e = Inr ()) \<and>
     check_multis chain = Inr () \<and> verify_levels D C dec ser inc l 0 chain = Inr ()"

lemma format_freeze_Inr:
  "check_format_freeze chain = Inr u \<longleftrightarrow>
     (\<forall>e fs. (e, fs) \<in> set chain \<longrightarrow> algorithm (content_hash e) = algorithm (content_hash (fst (hd chain))))"
proof (cases chain)
  case (Cons a rest)
  then show ?thesis by (cases a) (fastforce simp: check_format_freeze_def Let_def)
qed (simp add: check_format_freeze_def)

lemma verify_capability_chain_Inr:
  "verify_capability_chain D C dec ser now_ms leaf inc l = Inr () \<longleftrightarrow>
     (\<forall>k e. (k, e) \<in> set inc \<longrightarrow> k = content_hash e) \<and>
     (\<exists>chain. collect_authority_chain dec leaf (map_of inc) = Inr chain \<and> chain_ok D C dec ser now_ms inc l chain)"
proof -
  have 1: "for_each (\<lambda>(k, e). ensure (k = content_hash e) PE_HashMismatch) inc = Inr u \<longleftrightarrow>
      (\<forall>k e. (k, e) \<in> set inc \<longrightarrow> k = content_hash e)" for u by fastforce
  have 2: "for_each (\<lambda>(e, fs). f e fs) chain = Inr u \<longleftrightarrow> (\<forall>e fs. (e, fs) \<in> set chain \<longrightarrow> f e fs = Inr ())"
    for f :: "entity \<Rightarrow> chain_fields \<Rightarrow> ProtocolError + unit" and chain u by fastforce
  show ?thesis
    unfolding verify_capability_chain_def verify_included_key_binding_def result_simps 1 2 format_freeze_Inr chain_ok_def
    by (auto simp del: for_each_Inr)
qed

lemma accepted_chain:
  assumes "verify_capability_chain D C dec ser now_ms leaf inc l = Inr ()"
  obtains chain where "collect_authority_chain dec leaf (map_of inc) = Inr chain"
    "authority_chain dec (map_of inc) leaf chain" "length chain \<le> MAX_CHAIN_DEPTH + 1"
    "chain_ok D C dec ser now_ms inc l chain"
proof -
  from assms obtain chain where c: "collect_authority_chain dec leaf (map_of inc) = Inr chain"
    "chain_ok D C dec ser now_ms inc l chain" unfolding verify_capability_chain_Inr by blast
  then have "authority_chain dec (map_of inc) leaf chain" "length chain \<le> MAX_CHAIN_DEPTH + 1"
    by (simp_all add: collect_authority_chain_def collect_chain_Inr)
  with that c show thesis by blast
qed

lemma check_temporal_Inr:
  "check_temporal now_ms x n = Inr () \<longleftrightarrow> (\<forall>e. x = Some e \<longrightarrow> now_ms < e) \<and> (\<forall>s. n = Some s \<longrightarrow> s \<le> now_ms)"
  by (auto simp: check_temporal_def not_le not_less split: option.splits)

lemma resolve_granter_frame:
  assumes "resolve_granter_peer_id D C dec g l (map_of inc) = Some frame"
  shows "parent_granter_frame D C dec inc l g = Inr frame"
  using assms
  by (cases g) (auto simp: resolve_granter_peer_id_def as_single_def parent_granter_frame_def peer_frame_def
      split: option.splits sum.splits if_splits)

section \<open>Properties of chains\<close>

text \<open>C7. Authority comes from the local peer: when a chain is accepted and the leaf token authorizes
  a concrete request in the frame of its granter, the chain ends in a root token that the local
  peer has granted and signed, alone or as one of enough signers, and that root authorizes the
  same request in the local frame.\<close>

theorem verified_chain_authority:
  assumes "verify_capability_chain D C dec ser now_ms leaf inc l = Inr ()"
    "map_of inc leaf = Some e" "token_from_entity dec e = Inr t"
    "resolve_granter_peer_id D C dec (granter t) l (map_of inc) = Some frame"
    "check_permission_with_grant opn h tp rt t l frame \<noteq> None" "concrete_request h rt l"
  shows "\<exists>chain rtok. collect_authority_chain dec leaf (map_of inc) = Inr chain \<and>
     token_from_entity dec (fst (last chain)) = Inr rtok \<and> parent rtok = None \<and>
     granted_locally D C dec inc l (content_hash (fst (last chain))) (granter rtok) \<and>
     check_permission_with_grant opn h tp rt rtok l l \<noteq> None"
proof -
  obtain chain where c: "collect_authority_chain dec leaf (map_of inc) = Inr chain"
    "authority_chain dec (map_of inc) leaf chain" "length chain \<le> MAX_CHAIN_DEPTH + 1"
    "chain_ok D C dec ser now_ms inc l chain"
    by (rule accepted_chain [OF assms(1)])
  obtain fs rest where chain: "chain = (e, fs) # rest"
    using c(2) assms(2) by (cases chain) auto
  have "cf_granter fs = granter t"
    using chain_fields_agree [OF assms(3)] c(2) chain by auto
  then have "parent_granter_frame D C dec inc l (cf_granter fs) = Inr frame"
    using resolve_granter_frame [OF assms(4)] by simp
  moreover have "admits opn h tp rt l frame t" using assms(5) unfolding admits_def with_grant_not_None .
  moreover have "verify_levels D C dec ser inc l 0 ((e, fs) # rest) = Inr ()" "check_multis ((e, fs) # rest) = Inr ()"
    using c(4) unfolding chain chain_ok_def by blast+
  ultimately have "\<exists>rtok. token_from_entity dec (fst (last chain)) = Inr rtok \<and> admits opn h tp rt l l rtok \<and>
     granted_locally D C dec inc l (content_hash (fst (last chain))) (cf_granter (snd (last chain)))"
    unfolding chain using levels_admit assms(3,6) by blast
  then obtain rtok where r: "token_from_entity dec (fst (last chain)) = Inr rtok" "admits opn h tp rt l l rtok"
    "granted_locally D C dec inc l (content_hash (fst (last chain))) (cf_granter (snd (last chain)))" by blast
  have "cf_granter (snd (last chain)) = granter rtok \<and> parent rtok = None"
    using chain_fields_agree [OF r(1)] authority_chain_ends [OF c(2)]
      authority_chain_links [OF c(2), of "fst (last chain)" "snd (last chain)"] by auto
  moreover have "check_permission_with_grant opn h tp rt rtok l l \<noteq> None"
    using r(2) unfolding admits_def with_grant_not_None .
  ultimately show ?thesis using r c(1) by (intro exI [of _ chain] exI [of _ rtok]) auto
qed

text \<open>C9. Every link of an accepted chain is accounted for: its granter has signed it, was the grantee
  of the next link, and the link is valid at this moment; the chain has at most 65 links, all of
  one hash format.\<close>

theorem verified_chain_links:
  assumes "verify_capability_chain D C dec ser now_ms leaf inc l = Inr ()"
  shows "\<exists>chain. collect_authority_chain dec leaf (map_of inc) = Inr chain \<and> chain \<noteq> [] \<and> length chain \<le> 65 \<and>
     (\<forall>j < length chain. case chain ! j of (e, fs) \<Rightarrow>
        algorithm (content_hash e) = algorithm (content_hash (fst (hd chain))) \<and>
        (\<forall>x. cf_expires_at fs = Some x \<longrightarrow> now_ms < x) \<and> (\<forall>n. cf_not_before fs = Some n \<longrightarrow> n \<le> now_ms) \<and>
        (if Suc j = length chain then granted_locally D C dec inc l (content_hash e) (cf_granter fs)
         else \<exists>g. cf_granter fs = Single g \<and> signed_by C dec inc g (content_hash e) \<and>
                  cf_grantee (snd (chain ! Suc j)) = g))"
proof -
  obtain chain where c: "collect_authority_chain dec leaf (map_of inc) = Inr chain"
    "authority_chain dec (map_of inc) leaf chain" "length chain \<le> MAX_CHAIN_DEPTH + 1"
    "chain_ok D C dec ser now_ms inc l chain"
    by (rule accepted_chain [OF assms])
  then have cm: "check_multis chain = Inr ()" "verify_levels D C dec ser inc l 0 chain = Inr ()"
    unfolding chain_ok_def by blast+
  have "case chain ! j of (e, fs) \<Rightarrow>
        algorithm (content_hash e) = algorithm (content_hash (fst (hd chain))) \<and>
        (\<forall>x. cf_expires_at fs = Some x \<longrightarrow> now_ms < x) \<and> (\<forall>n. cf_not_before fs = Some n \<longrightarrow> n \<le> now_ms) \<and>
        (if Suc j = length chain then granted_locally D C dec inc l (content_hash e) (cf_granter fs)
         else \<exists>g. cf_granter fs = Single g \<and> signed_by C dec inc g (content_hash e) \<and>
                  cf_grantee (snd (chain ! Suc j)) = g)" if j: "j < length chain" for j
  proof -
    obtain e fs where l: "chain ! j = (e, fs)" by force
    have v: "verify_level D C dec ser inc l j (e, fs) (drop (Suc j) chain) = Inr ()"
      using verify_levels_nth [OF cm(2) j] l by simp
    have t: "algorithm (content_hash e) = algorithm (content_hash (fst (hd chain)))"
      "check_temporal now_ms (cf_expires_at fs) (cf_not_before fs) = Inr ()"
      using c(4) nth_mem [OF j] unfolding chain_ok_def l by blast+
    have "if Suc j = length chain then granted_locally D C dec inc l (content_hash e) (cf_granter fs)
         else \<exists>g. cf_granter fs = Single g \<and> signed_by C dec inc g (content_hash e) \<and>
                  cf_grantee (snd (chain ! Suc j)) = g"
    proof (cases "cf_granter fs")
      case (Multi m)
      then show ?thesis using check_multis_nth [OF cm(1) j] v l verify_multi_sound by (auto simp: verify_level_def)
    next
      case (Single g)
      obtain pe pd where p: "map_of inc g = Some pe" "peer_data_from_entity dec pe = Inr pd"
        "signed_by C dec inc g (content_hash e)"
        "case drop (Suc j) chain of [] \<Rightarrow> canonical_peer_id D C pd = Some l
         | p # _ \<Rightarrow> verify_delegation D C dec ser inc l j e g pd p = Inr ()"
        using v Single by (auto simp: verify_level_def elim!: verify_single_sound)
      show ?thesis
      proof (cases "Suc j = length chain")
        case True
        then show ?thesis using p Single by (simp add: granted_locally_def peer_id_of_def)
      next
        case False
        then have "drop (Suc j) chain = chain ! Suc j # drop (Suc (Suc j)) chain"
          using j by (simp add: Cons_nth_drop_Suc)
        then have "cf_grantee (snd (chain ! Suc j)) = g"
          using p(4) by (auto simp: verify_delegation_def split: prod.splits)
        then show ?thesis using p(3) Single False by simp
      qed
    qed
    with t l show ?thesis by (simp add: check_temporal_Inr)
  qed
  then show ?thesis
    using c(1,3) authority_chain_ends [OF c(2)] by (intro exI [of _ chain]) (simp add: MAX_CHAIN_DEPTH_def)
qed

text \<open>C10. Delegation caveats bind the whole chain below a token: a token that forbids delegation is the
  leaf, and below a token with a depth limit there are at most that many links.\<close>

theorem caveats_bound_chain:
  assumes "verify_capability_chain D C dec ser now_ms leaf inc l = Inr ()"
    "collect_authority_chain dec leaf (map_of inc) = Inr chain" "j < length chain"
    "token_from_entity dec (fst (chain ! j)) = Inr t" "delegation_caveats t = Some cv"
  shows "(no_delegation cv = Some True \<longrightarrow> j = 0) \<and> (\<forall>d. max_delegation_depth cv = Some d \<longrightarrow> j \<le> unat d)"
proof (cases j)
  case (Suc i)
  have c: "length chain \<le> MAX_CHAIN_DEPTH + 1" "check_multis chain = Inr ()"
    "verify_levels D C dec ser inc l 0 chain = Inr ()"
    using accepted_chain [OF assms(1)] assms(2) unfolding chain_ok_def by (metis sum.inject(2))+
  have i: "i < length chain" "drop (Suc i) chain = chain ! j # drop (Suc j) chain"
    using assms(3) Suc by (simp_all add: Cons_nth_drop_Suc)
  obtain e fs where l: "chain ! i = (e, fs)" by force
  obtain g where g: "cf_granter fs = Single g"
    using check_multis_nth [OF c(2) i(1)] l assms(3) Suc by (cases "cf_granter fs") auto
  have "verify_level D C dec ser inc l i (e, fs) (drop (Suc i) chain) = Inr ()"
    using verify_levels_nth [OF c(3) i(1)] l by simp
  then obtain pd where "verify_delegation D C dec ser inc l i e g pd (chain ! j) = Inr ()"
    using g i(2) by (auto simp: verify_level_def elim!: verify_single_sound)
  then obtain ct where "check_delegation_caveats t ct (of_nat i)"
    using assms(4) by (auto simp: verify_delegation_def split: prod.splits)
  moreover have "unat (of_nat i :: u64) = i"
    using i(1) c(1) by (simp add: MAX_CHAIN_DEPTH_def unat_of_nat)
  ultimately show ?thesis
    using assms(5) Suc
    by (auto simp: check_delegation_caveats_def word_le_nat_alt not_le split: if_splits option.splits)
qed simp

section \<open>Properties of requests\<close>

text \<open>C8. A verified request is authentic: its root and every included entity carry their own hash and
  are filed under it, the author has signed the root, the capability is granted to the author,
  valid now, and its chain is accepted.\<close>

theorem verify_request_authentic:
  assumes "verify_request D C dec ser now_ms env l = Inr v"
  shows "entity_validate D (root env) = Inr () \<and>
     (\<forall>k e. (k, e) \<in> set (included env) \<longrightarrow> k = content_hash e \<and> entity_validate D e = Inr ()) \<and>
     signed_by C dec (included env) (vr_author_hash v) (content_hash (root env)) \<and>
     (\<exists>e. map_of (included env) (vr_capability_hash v) = Some e \<and> token_from_entity dec e = Inr (vr_capability v)) \<and>
     grantee (vr_capability v) = vr_author_hash v \<and>
     (\<forall>x. expires_at (vr_capability v) = Some x \<longrightarrow> now_ms < x) \<and>
     verify_capability_chain D C dec ser now_ms (vr_capability_hash v) (included env) l = Inr ()"
proof -
  obtain author_hash sig sd ae pd cap where
    val: "entity_validate D (root env) = Inr ()" "\<forall>e \<in> snd ` set (included env). entity_validate D e = Inr ()"
    and bind: "verify_included_key_binding (included env) = Inr ()"
    and sig: "find_signature_for dec env (content_hash (root env)) = Some sig"
      "signature_data_from_entity dec sig = Inr sd" "sd_signer sd = vr_author_hash v"
      "find_included env (vr_author_hash v) = Some ae" "peer_data_from_entity dec ae = Inr pd"
      "peer_data_sig_ok C pd (to_bytes (content_hash (root env))) (sd_signature sd)"
    and cap: "find_included env (vr_capability_hash v) = Some cap" "token_from_entity dec cap = Inr (vr_capability v)"
      "grantee (vr_capability v) = vr_author_hash v"
      "check_temporal now_ms (expires_at (vr_capability v)) (not_before (vr_capability v)) = Inr ()"
      "verify_capability_chain D C dec ser now_ms (vr_capability_hash v) (included env) l = Inr ()"
    using assms unfolding verify_request_def Let_def result_simps by (auto simp: verify_peer_data_sig_Inr)
  have "sig \<in> snd ` set (included env)" "sd_target sd = content_hash (root env)"
    using find_signature_for_target_Some [of dec "map snd (included env)" "content_hash (root env)" sig]
      signature_agrees [OF _ sig(2)] sig(1) by (auto simp: find_signature_for_def)
  then have "signed_by C dec (included env) (vr_author_hash v) (content_hash (root env))"
    using sig unfolding signed_by_def find_included_def by blast
  moreover have "k = content_hash e \<and> entity_validate D e = Inr ()" if "(k, e) \<in> set (included env)" for k e
    using that val(2) cap(5) unfolding verify_capability_chain_Inr by force
  ultimately show ?thesis using val(1) cap by (auto simp: find_included_def check_temporal_Inr)
qed

text \<open>C13. Revocation fails closed: a request that passes a context with revocation has a chain that
  resolves, no revocation marker for its root, and a root still bound at its storage path where
  it has one.\<close>

theorem not_revoked:
  assumes "verify_request_with_ctx D C dec ser now_ms env ctx resolve locate path_for = Inr v" "vc_supports_revocation ctx"
  shows "\<exists>chain. collect_authority_chain dec (vr_capability_hash v) resolve = Inr chain \<and>
     (let rh = content_hash (fst (last chain)) in
        locate (''/'' @ vc_local_peer_id ctx @ ''/system/capability/revocations/'' @ to_hex rh) = None \<and>
        (\<forall>p. path_for rh = Some p \<longrightarrow> locate p = Some rh))"
proof -
  have "\<not> is_revoked dec (vr_capability_hash v) (vc_local_peer_id ctx) resolve locate path_for"
    using assms by (auto simp: verify_request_with_ctx_def split: if_splits)
  then show ?thesis by (auto simp: is_revoked_def Let_def split: sum.splits option.splits if_splits)
qed

section \<open>Bundles\<close>

definition bundle_inv :: "(hash \<Rightarrow> entity option) \<Rightarrow> chain_bundle \<Rightarrow> bool" where
  "bundle_inv resolve b \<longleftrightarrow> bt_wf b \<and> (\<forall>k e. (k, e) \<in> set b \<longrightarrow> k = content_hash e \<and> resolve k = Some e)"

definition addressed :: "(hash \<Rightarrow> entity option) \<Rightarrow> bool" where
  "addressed resolve \<longleftrightarrow> (\<forall>h e. resolve h = Some e \<longrightarrow> content_hash e = h)"

lemma bundle_inv_sub: "bundle_inv resolve b \<Longrightarrow> map_of b h = Some e \<Longrightarrow> resolve h = Some e"
  by (auto simp: bundle_inv_def dest: map_of_SomeD)

lemma bundle_inv_lookup: "bundle_inv resolve b \<Longrightarrow> h \<in> fst ` set b \<Longrightarrow> map_of b h = resolve h"
  using bundle_inv_sub [of resolve b h] by (cases "map_of b h") (auto simp: map_of_eq_None_iff)

lemma bundle_inv_insert:
  assumes "bundle_inv resolve b" "addressed resolve" "resolve h = Some e"
  shows "bundle_inv resolve (bt_insert (content_hash e) e b)"
proof -
  have "content_hash e = h" using assms(2,3) unfolding addressed_def by blast
  moreover have sub: "set (bt_insert h e b) \<subseteq> insert (h, e) (set b)"
    by (induction b) (auto split: if_splits)
  have "x = (h, e) \<or> x \<in> set b" if "x \<in> set (bt_insert h e b)" for x using sub that by blast
  ultimately show ?thesis using assms(1,3) unfolding bundle_inv_def by (metis bt_wf_insert prod.inject)
qed

definition peer_at :: "digests \<Rightarrow> crypto \<Rightarrow> (bytes \<Rightarrow> Value option) \<Rightarrow> (hash \<Rightarrow> entity option) \<Rightarrow> chain_bundle \<Rightarrow> hash \<Rightarrow> bool" where
  "peer_at D C dec resolve b s \<longleftrightarrow> s \<in> fst ` set b \<and>
     (\<exists>e pd. resolve s = Some e \<and> entity_type e = TYPE_PEER \<and> peer_data_from_entity dec e = Inr pd \<and> canonical_peer_id D C pd \<noteq> None)"

lemma bundle_signers_ok:
  assumes "bundle_signers D C dec resolve locate ch ss b = Inr b'" "bundle_inv resolve b" "addressed resolve"
  shows "bundle_inv resolve b' \<and> fst ` set b \<subseteq> fst ` set b' \<and> (\<forall>s \<in> set ss. peer_at D C dec resolve b' s)"
  using assms
proof (induction ss arbitrary: b)
  case (Cons s ss)
  obtain e pd p where e: "resolve s = Some e" "entity_type e = TYPE_PEER" "peer_data_from_entity dec e = Inr pd"
    "canonical_peer_id D C pd = Some p"
    using Cons.prems(1) by (auto split: option.splits sum.splits if_splits)
  define b1 where "b1 = bt_insert (content_hash e) e b"
  define b2 where "b2 = (case locate (invariant_signature_path p ch) of None \<Rightarrow> b1
     | Some sh \<Rightarrow> (case resolve sh of None \<Rightarrow> b1
        | Some s \<Rightarrow> if entity_type s = TYPE_SIGNATURE then bt_insert (content_hash s) s b1 else b1))"
  have run: "bundle_signers D C dec resolve locate ch ss b2 = Inr b'"
    using Cons.prems(1) e unfolding b2_def b1_def by (simp add: Let_def)
  have b1: "bundle_inv resolve b1" "s \<in> fst ` set b1" "fst ` set b \<subseteq> fst ` set b1"
    using bundle_inv_insert [OF Cons.prems(2,3) e(1)] e(1) Cons.prems(3)
    by (auto simp: b1_def keys_bt_insert addressed_def)
  have b2: "bundle_inv resolve b2" "fst ` set b1 \<subseteq> fst ` set b2"
    using b1 bundle_inv_insert [OF b1(1) Cons.prems(3)]
    by (auto simp: b2_def keys_bt_insert split: option.splits)
  have ih: "bundle_inv resolve b'" "fst ` set b2 \<subseteq> fst ` set b'" "\<forall>s \<in> set ss. peer_at D C dec resolve b' s"
    using Cons.IH [OF run b2(1) Cons.prems(3)] by blast+
  moreover have "s \<in> fst ` set b'" using b1(2) b2(2) ih(2) by blast
  then have "peer_at D C dec resolve b' s" using e unfolding peer_at_def by blast
  moreover have "fst ` set b \<subseteq> fst ` set b'" using b1(3) b2(2) ih(2) by blast
  ultimately show ?case by simp
qed simp

lemma bundle_links_ok:
  assumes "bundle_links D C dec resolve locate ls b = Inr b'" "bundle_inv resolve b" "addressed resolve"
    "\<forall>(e, fs) \<in> set ls. \<exists>h. resolve h = Some e"
  shows "bundle_inv resolve b' \<and> fst ` set b \<subseteq> fst ` set b' \<and>
     (\<forall>(e, fs) \<in> set ls. content_hash e \<in> fst ` set b' \<and> cf_grantee fs \<in> fst ` set b' \<and>
        (\<exists>g. resolve (cf_grantee fs) = Some g \<and> entity_type g = TYPE_PEER) \<and>
        (\<forall>s \<in> set (granter_signers (cf_granter fs)). peer_at D C dec resolve b' s))"
  using assms
proof (induction ls arbitrary: b)
  case (Cons a ls)
  obtain e fs where a: "a = (e, fs)" by force
  obtain b1 g where b1: "bundle_signers D C dec resolve locate (content_hash e) (granter_signers (cf_granter fs))
       (bt_insert (content_hash e) e b) = Inr b1"
    and g: "resolve (cf_grantee fs) = Some g" "entity_type g = TYPE_PEER"
    and run: "bundle_links D C dec resolve locate ls (bt_insert (content_hash g) g b1) = Inr b'"
    using Cons.prems(1) a by (auto split: sum.splits option.splits if_splits)
  have "bundle_inv resolve (bt_insert (content_hash e) e b)"
    using Cons.prems(4) a bundle_inv_insert [OF Cons.prems(2,3)] by auto
  note s = bundle_signers_ok [OF b1 this Cons.prems(3)]
  have b2: "bundle_inv resolve (bt_insert (content_hash g) g b1)" "cf_grantee fs \<in> fst ` set (bt_insert (content_hash g) g b1)"
    "fst ` set b1 \<subseteq> fst ` set (bt_insert (content_hash g) g b1)"
    using bundle_inv_insert [OF _ Cons.prems(3) g(1)] s g(1) Cons.prems(3) by (auto simp: keys_bt_insert addressed_def)
  have ih: "bundle_inv resolve b'" "fst ` set (bt_insert (content_hash g) g b1) \<subseteq> fst ` set b'"
     "\<forall>(e, fs) \<in> set ls. content_hash e \<in> fst ` set b' \<and> cf_grantee fs \<in> fst ` set b' \<and>
        (\<exists>g. resolve (cf_grantee fs) = Some g \<and> entity_type g = TYPE_PEER) \<and>
        (\<forall>s \<in> set (granter_signers (cf_granter fs)). peer_at D C dec resolve b' s)"
    using Cons.IH [OF run b2(1) Cons.prems(3)] Cons.prems(4) by simp_all
  have keys: "fst ` set b1 \<subseteq> fst ` set b'" "cf_grantee fs \<in> fst ` set b'" using b2 ih(2) by blast+
  have "insert (content_hash e) (fst ` set b) \<subseteq> fst ` set b1" using s unfolding keys_bt_insert by blast
  then have "content_hash e \<in> fst ` set b'" "fst ` set b \<subseteq> fst ` set b'" using keys(1) by blast+
  moreover have "peer_at D C dec resolve b' x" if "x \<in> set (granter_signers (cf_granter fs))" for x
    using s that keys(1) unfolding peer_at_def by blast
  ultimately show ?case using ih(1,3) keys(2) g unfolding a by simp
qed simp

lemma authority_chain_transfer:
  assumes "authority_chain dec resolve h ls" "\<forall>(e, fs) \<in> set ls. content_hash e \<in> fst ` set b"
    "bundle_inv resolve b" "addressed resolve"
  shows "authority_chain dec (map_of b) h ls"
  using assms(1,2)
proof (induction ls arbitrary: h)
  case (Cons a ls)
  obtain e fs where a: "a = (e, fs)" by force
  have "h \<in> fst ` set b" using Cons.prems assms(4) unfolding a addressed_def by force
  then have "map_of b h = resolve h" by (rule bundle_inv_lookup [OF assms(3)])
  then show ?case using Cons.prems Cons.IH unfolding a by (auto split: option.splits)
qed simp

text \<open>C12. A bundle suffices: what a dispatching peer collects for a chain lets the remote verifier walk
  the same chain, passes its key-binding check, and resolves every grantee and every granter to a
  peer entity with an identifier.\<close>

theorem bundle_sufficient:
  assumes "collect_chain_bundle D C dec leaf resolve locate = Inr b" "addressed resolve"
  shows "\<exists>chain. collect_authority_chain dec leaf resolve = Inr chain \<and>
     collect_authority_chain dec leaf (map_of b) = Inr chain \<and> verify_included_key_binding b = Inr () \<and>
     (\<forall>(e, fs) \<in> set chain. check_grantee_resolves b (cf_grantee fs) = Inr () \<and>
        (\<forall>s \<in> set (granter_signers (cf_granter fs)). peer_id_of D C dec b s \<noteq> None))"
proof -
  obtain chain where c: "collect_authority_chain dec leaf resolve = Inr chain"
    "bundle_links D C dec resolve locate chain [] = Inr b"
    using assms(1) by (auto simp: collect_chain_bundle_def)
  then have a: "authority_chain dec resolve leaf chain" "length chain \<le> MAX_CHAIN_DEPTH + 1"
    by (simp_all add: collect_authority_chain_def collect_chain_Inr)
  have "bundle_inv resolve []" by (simp add: bundle_inv_def bt_wf_def)
  moreover have "\<forall>(e, fs) \<in> set chain. \<exists>h. resolve h = Some e"
    using authority_chain_links [OF a(1)] by blast
  ultimately have b: "bundle_inv resolve b" and links: "\<forall>(e, fs) \<in> set chain. content_hash e \<in> fst ` set b \<and>
      cf_grantee fs \<in> fst ` set b \<and> (\<exists>g. resolve (cf_grantee fs) = Some g \<and> entity_type g = TYPE_PEER) \<and>
      (\<forall>s \<in> set (granter_signers (cf_granter fs)). peer_at D C dec resolve b s)"
    using bundle_links_ok [OF c(2) _ assms(2)] by blast+
  have "authority_chain dec (map_of b) leaf chain"
    by (rule authority_chain_transfer [OF a(1) _ b assms(2)]) (use links in blast)
  then have "collect_authority_chain dec leaf (map_of b) = Inr chain"
    using a(2) by (simp add: collect_authority_chain_def collect_chain_Inr)
  moreover have "verify_included_key_binding b = Inr ()"
    using b by (fastforce simp: verify_included_key_binding_def bundle_inv_def)
  moreover have "check_grantee_resolves b (cf_grantee fs) = Inr () \<and>
        (\<forall>s \<in> set (granter_signers (cf_granter fs)). peer_id_of D C dec b s \<noteq> None)" if "(e, fs) \<in> set chain" for e fs
  proof -
    from that links have l: "cf_grantee fs \<in> fst ` set b" "\<exists>g. resolve (cf_grantee fs) = Some g \<and> entity_type g = TYPE_PEER"
      "\<forall>s \<in> set (granter_signers (cf_granter fs)). peer_at D C dec resolve b s" by blast+
    have "check_grantee_resolves b (cf_grantee fs) = Inr ()"
      using l(2) bundle_inv_lookup [OF b l(1)] by (auto simp: check_grantee_resolves_def)
    moreover have "peer_id_of D C dec b s \<noteq> None" if "s \<in> set (granter_signers (cf_granter fs))" for s
      using l(3) that bundle_inv_lookup [OF b, of s] by (auto simp: peer_at_def peer_id_of_def)
    ultimately show ?thesis by blast
  qed
  ultimately show ?thesis using c(1) by blast
qed

section \<open>A concrete request\<close>

text \<open>Three peers: the local peer grants a token to a second peer, which delegates it to a third, which
  authors a request.  Entity \<open>n\<close> has the data \<open>[n]\<close> and the hash of 32 bytes \<open>n\<close>.\<close>

definition ex_digests :: digests where
  "ex_digests = \<lparr>sha256 = (\<lambda>b. replicate 32 (hd (drop 6 b))), sha384 = (\<lambda>b. replicate 48 0)\<rparr>"

definition ex_hash :: "u8 \<Rightarrow> hash" where
  "ex_hash n = Hash 0 (replicate 32 n)"

definition ex_peer :: "u8 \<Rightarrow> string" where
  "ex_peer n = base58 toy_crypto (1 # 0 # replicate 32 n)"

definition ex_root_token :: capability_token where
  "ex_root_token = \<lparr>grants = wildcard_handler_grant, granter = Single (ex_hash 1), grantee = ex_hash 2, parent = None,
     created_at = 0, expires_at = Some 100, not_before = None,
     delegation_caveats = Some \<lparr>no_delegation = None, max_delegation_depth = Some 1, max_delegation_ttl = None\<rparr>\<rparr>"

definition ex_leaf_token :: capability_token where
  "ex_leaf_token = \<lparr>grants = map (resources_update (\<lambda>_. \<lparr>path_include = [''/'' @ ex_peer 1 @ ''/*''], path_exclude = []\<rparr>)) wildcard_handler_grant, granter = Single (ex_hash 2), grantee = ex_hash 3,
     parent = Some (ex_hash 4), created_at = 0, expires_at = Some 50, not_before = None, delegation_caveats = None\<rparr>"

definition ex_sign :: "u8 \<Rightarrow> u8 \<Rightarrow> Value" where
  "ex_sign signer target = signature_value \<lparr>sd_target = ex_hash target, sd_signer = ex_hash signer, sd_algorithm = ''ed25519'',
     sd_signature = take 64 (replicate 32 signer @ to_bytes (ex_hash target) @ replicate 64 0)\<rparr>"

definition ex_dec :: "bytes \<Rightarrow> Value option" where
  "ex_dec b = map_of
     ([([n], peer_data_value \<lparr>pd_public_key = replicate 32 n, pd_key_type = ''ed25519''\<rparr>). n \<leftarrow> [1, 2, 3]] @
      [([4], token_value ex_root_token), ([5], token_value ex_leaf_token),
       ([6], ex_sign 1 4), ([7], ex_sign 2 5), ([9], ex_sign 3 8),
       ([8], VMap [(text_val ''author'', hash_value (ex_hash 3)), (text_val ''capability'', hash_value (ex_hash 5)),
                   (text_val ''operation'', text_val ''get''), (text_val ''request_id'', text_val ''r''),
                   (text_val ''uri'', text_val ''system/tree'')])]) b"

definition ex_entity :: "string \<Rightarrow> u8 \<Rightarrow> entity" where
  "ex_entity t n = \<lparr>entity_type = t, data = [n], content_hash = ex_hash n\<rparr>"

definition ex_inc :: "(hash, entity) btree" where
  "ex_inc = [(ex_hash n, ex_entity t n). (t, n) \<leftarrow>
     [(TYPE_PEER, 1), (TYPE_PEER, 2), (TYPE_PEER, 3), (TYPE_CAP_TOKEN, 4), (TYPE_CAP_TOKEN, 5),
      (TYPE_SIGNATURE, 6), (TYPE_SIGNATURE, 7), (TYPE_SIGNATURE, 9)]]"

definition ex_env :: envelope where
  "ex_env = \<lparr>root = ex_entity ''system/protocol/execute'' 8, included = ex_inc\<rparr>"

lemma ex_request:
  "verify_request ex_digests toy_crypto ex_dec (\<lambda>v. Some []) 10 ex_env (ex_peer 1) =
     Inr \<lparr>vr_author_hash = ex_hash 3, vr_capability_hash = ex_hash 5, vr_capability = ex_leaf_token,
          vr_request_id = ''r'', vr_uri = ''system/tree'', vr_operation = ''get''\<rparr>"
  by code_simp

lemma verify_request_chain:
  "verify_request D C dec ser now_ms env l = Inr v \<Longrightarrow>
     verify_capability_chain D C dec ser now_ms (vr_capability_hash v) (included env) l = Inr ()"
  unfolding verify_request_def Let_def result_simps by auto

lemma ex_chain: "verify_capability_chain ex_digests toy_crypto ex_dec (\<lambda>v. Some []) 10 (ex_hash 5) ex_inc (ex_peer 1) = Inr ()"
  using verify_request_chain [OF ex_request] by (simp add: ex_env_def)

lemma ex_tokens:
  "token_from_entity ex_dec (ex_entity TYPE_CAP_TOKEN 5) = Inr ex_leaf_token"
  "token_from_entity ex_dec (ex_entity TYPE_CAP_TOKEN 4) = Inr ex_root_token"
  by code_simp+

definition ex_links :: "link list" where
  "ex_links = [(ex_entity TYPE_CAP_TOKEN n, \<lparr>cf_granter = granter t, cf_grantee = grantee t, cf_parent = parent t,
     cf_not_before = not_before t, cf_expires_at = expires_at t\<rparr>). (n, t) \<leftarrow> [(5, ex_leaf_token), (4, ex_root_token)]]"

lemma ex_collect: "collect_authority_chain ex_dec (ex_hash 5) (map_of ex_inc) = Inr ex_links"
  by code_simp

lemma ex_addressed: "addressed (map_of ex_inc)"
  using ex_chain unfolding verify_capability_chain_Inr addressed_def by (blast dest: map_of_SomeD)

theorem verified_chain_authority_witness:
  "\<exists>rtok. token_from_entity ex_dec (fst (last ex_links)) = Inr rtok \<and>
     check_permission_with_grant ''get'' ''system/tree'' (ex_peer 1) None rtok (ex_peer 1) (ex_peer 1) \<noteq> None"
proof -
  have "map_of ex_inc (ex_hash 5) = Some (ex_entity TYPE_CAP_TOKEN 5)"
    "resolve_granter_peer_id ex_digests toy_crypto ex_dec (granter ex_leaf_token) (ex_peer 1) (map_of ex_inc) = Some (ex_peer 2)"
    "concrete_request ''system/tree'' None (ex_peer 1)" by code_simp+
  moreover have "check_permission_with_grant ''get'' ''system/tree'' (ex_peer 1) None ex_leaf_token (ex_peer 1) (ex_peer 2) \<noteq> None"
    unfolding with_grant_not_None by code_simp
  ultimately show ?thesis
    using verified_chain_authority [OF ex_chain _ ex_tokens(1)] ex_collect by (metis sum.inject(2))
qed

theorem verified_chain_links_witness:
  "\<exists>chain. collect_authority_chain ex_dec (ex_hash 5) (map_of ex_inc) = Inr chain \<and> length chain \<le> 65"
  using verified_chain_links [OF ex_chain] by blast

theorem caveats_bound_chain_witness:
  "collect_authority_chain ex_dec (ex_hash 5) (map_of ex_inc) = Inr ex_links \<and> 1 \<le> unat (1 :: u64)"
proof -
  have "(1 :: nat) < length ex_links" "fst (ex_links ! 1) = ex_entity TYPE_CAP_TOKEN 4"
    by (simp_all add: ex_links_def)
  moreover have "delegation_caveats ex_root_token =
      Some \<lparr>no_delegation = None, max_delegation_depth = Some 1, max_delegation_ttl = None\<rparr>"
    by (simp add: ex_root_token_def)
  ultimately have "(1 :: nat) \<le> unat (1 :: u64)"
    using caveats_bound_chain [OF ex_chain ex_collect, of 1 ex_root_token] ex_tokens(2)
    by (metis delegation_caveats_t.select_convs(2))
  with ex_collect show ?thesis by blast
qed

theorem verify_request_authentic_witness: "signed_by toy_crypto ex_dec ex_inc (ex_hash 3) (ex_hash 8)"
  using verify_request_authentic [OF ex_request] by (simp add: ex_env_def ex_entity_def)

theorem not_revoked_witness:
  "\<exists>chain. collect_authority_chain ex_dec (ex_hash 5) (map_of ex_inc) = Inr chain"
proof -
  have "\<not> is_revoked ex_dec (ex_hash 5) (ex_peer 1) (map_of ex_inc) (\<lambda>_. None) (\<lambda>_. None)"
    by (simp add: is_revoked_def ex_collect)
  then have "verify_request_with_ctx ex_digests toy_crypto ex_dec (\<lambda>v. Some []) 10 ex_env
      \<lparr>vc_local_peer_id = ex_peer 1, vc_supports_revocation = True\<rparr> (map_of ex_inc) (\<lambda>_. None) (\<lambda>_. None) =
      Inr \<lparr>vr_author_hash = ex_hash 3, vr_capability_hash = ex_hash 5, vr_capability = ex_leaf_token,
          vr_request_id = ''r'', vr_uri = ''system/tree'', vr_operation = ''get''\<rparr>"
    by (simp add: verify_request_with_ctx_def ex_request)
  from not_revoked [OF this] show ?thesis by auto
qed

theorem bundle_sufficient_witness:
  "\<exists>b chain. collect_chain_bundle ex_digests toy_crypto ex_dec (ex_hash 5) (map_of ex_inc) (\<lambda>_. None) = Inr b \<and>
     collect_authority_chain ex_dec (ex_hash 5) (map_of b) = Inr chain"
proof -
  have "\<not> isl (collect_chain_bundle ex_digests toy_crypto ex_dec (ex_hash 5) (map_of ex_inc) (\<lambda>_. None))" by code_simp
  then obtain b where "collect_chain_bundle ex_digests toy_crypto ex_dec (ex_hash 5) (map_of ex_inc) (\<lambda>_. None) = Inr b"
    by (auto simp: isl_def) (metis sum.exhaust)
  with bundle_sufficient [OF this ex_addressed] show ?thesis by blast
qed

text \<open>C11. The chain walk is complete and bounded: it returns exactly the chains of at most 65 links that
  lead from the leaf to a token without parent, and reports excess depth exactly when 65 links
  resolve and still name a parent, as on a cycle.\<close>

theorem collect_authority_chain_correct:
  "(collect_authority_chain dec leaf resolve = Inr chain \<longleftrightarrow>
      authority_chain dec resolve leaf chain \<and> length chain \<le> 65) \<and>
   (collect_authority_chain dec leaf resolve = Inl TooDeep \<longleftrightarrow>
      (\<exists>ls. walks_through dec resolve leaf ls \<and> length ls = 65))"
  unfolding collect_authority_chain_def
  by (simp add: collect_chain_Inr collect_chain_TooDeep MAX_CHAIN_DEPTH_def)

text \<open>A request whose root does not carry its own hash is answered with status 400, not with the 401
  that the authentication errors have.\<close>

theorem hash_mismatch_status:
  assumes "check_format (root env) = Inr ()" "for_each check_format (map snd (included env)) = Inr ()"
    "entity_validate D (root env) \<noteq> Inr ()"
  shows "verify_request D C dec ser now_ms env l = Inl PE_HashMismatch \<and>
     wire_status_code PE_HashMismatch = STATUS_BAD_REQUEST \<and> \<not> is_auth_error PE_HashMismatch"
  using assms by (cases "entity_validate D (root env)") (simp_all add: verify_request_def Let_def is_auth_error_def del: for_each_Inr)

end
