(* ===== verification/Wire.thy ===== *)
theory Wire
  imports Chain_Verify
begin

text \<open>
  The wire codec (\<^verbatim>\<open>core/wire/src/lib.rs\<close>): length-prefixed frames over a byte stream, the walker that
  finds the end of a CBOR item without decoding it, and the entity and envelope codecs built on
  it.  A stream is the list of what successive reads deliver; a read returns at most the bytes
  asked for.  Offsets are natural numbers: a slice is shorter than the address space, and the one
  checked addition whose result can exceed it is written out.
\<close>

section \<open>Errors and text\<close>

datatype WireError =
    WireIo string
  | FrameTooLarge u32 u32
  | CborDecode string
  | IncludedKeyMismatch hash hash
  | CborTag nat
  | TruncatedFrame string nat nat
  | WirePanic string

definition bytes_str :: "bytes \<Rightarrow> string" where
  "bytes_str bs = map (\<lambda>b. char_of (unat b)) bs"

definition utf8_cont :: "u8 \<Rightarrow> bool" where
  "utf8_cont b \<longleftrightarrow> 0x80 \<le> b \<and> b \<le> 0xBF"

text \<open>\<^verbatim>\<open>std::str::from_utf8\<close>: the well-formed byte sequences of the Unicode standard.\<close>

fun utf8_ok :: "bytes \<Rightarrow> bool" where
  "utf8_ok [] = True"
| "utf8_ok (b0 # r) =
     (if b0 < 0x80 then utf8_ok r
      else case r of
             [] \<Rightarrow> False
           | b1 # r1 \<Rightarrow>
               if 0xC2 \<le> b0 \<and> b0 \<le> 0xDF then utf8_cont b1 \<and> utf8_ok r1
               else (case r1 of
                       [] \<Rightarrow> False
                     | b2 # r2 \<Rightarrow>
                         if 0xE0 \<le> b0 \<and> b0 \<le> 0xEF
                         then utf8_cont b1 \<and> (b0 = 0xE0 \<longrightarrow> 0xA0 \<le> b1) \<and> (b0 = 0xED \<longrightarrow> b1 \<le> 0x9F) \<and>
                              utf8_cont b2 \<and> utf8_ok r2
                         else (case r2 of
                                 [] \<Rightarrow> False
                               | b3 # r3 \<Rightarrow>
                                   0xF0 \<le> b0 \<and> b0 \<le> 0xF4 \<and> utf8_cont b1 \<and>
                                   (b0 = 0xF0 \<longrightarrow> 0x90 \<le> b1) \<and> (b0 = 0xF4 \<longrightarrow> b1 \<le> 0x8F) \<and>
                                   utf8_cont b2 \<and> utf8_cont b3 \<and> utf8_ok r3)))"

definition byte_range :: "bytes \<Rightarrow> nat \<Rightarrow> nat \<Rightarrow> bytes" where
  "byte_range d s e = take (e - s) (drop s d)"

section \<open>The CBOR walker\<close>

definition head_arg :: "bytes \<Rightarrow> nat \<Rightarrow> u8 \<Rightarrow> nat \<Rightarrow> string \<Rightarrow> WireError + (u8 \<times> u64 \<times> nat)" where
  "head_arg d offset major n what =
     (if offset + 1 + n > length d then Inl (CborDecode what)
      else Inr (major, word_of_nat (from_be_bytes (byte_range d (offset + 1) (offset + 1 + n))), 1 + n))"

definition parse_cbor_head :: "bytes \<Rightarrow> nat \<Rightarrow> WireError + (u8 \<times> u64 \<times> nat)" where
  "parse_cbor_head d offset =
     (if offset \<ge> length d then Inl (CborDecode ''unexpected EOF parsing CBOR head'')
      else
        let first = d ! offset; major = drop_bit 5 first; ai = first AND 0x1F
        in if ai \<le> 23 then Inr (major, ucast ai, 1)
           else if ai = 24 then head_arg d offset major 1 ''EOF reading CBOR u8 argument''
           else if ai = 25 then head_arg d offset major 2 ''EOF reading CBOR u16 argument''
           else if ai = 26 then head_arg d offset major 4 ''EOF reading CBOR u32 argument''
           else if ai = 27 then head_arg d offset major 8 ''EOF reading CBOR u64 argument''
           else Inl (CborDecode ''CBOR additional-info (indefinite-length / reserved)''))"

text \<open>\<^verbatim>\<open>start.checked_add(len as usize)\<close>, then the comparison with the length of the data.\<close>

definition payload_end :: "bytes \<Rightarrow> nat \<Rightarrow> u64 \<Rightarrow> WireError + nat" where
  "payload_end d start len =
     (let e = start + unat len
      in if e \<ge> 2 ^ 64 then Inl (CborDecode ''CBOR length overflow'')
         else if e > length d then Inl (CborDecode ''CBOR runs past end'')
         else Inr e)"

text \<open>One item of \<^verbatim>\<open>cbor_item_end\<close>: the number of child items that follow, and where they start.\<close>

definition item_step :: "bytes \<Rightarrow> nat \<Rightarrow> WireError + (nat \<times> nat)" where
  "item_step d offset =
     (case parse_cbor_head d offset of
        Inl e \<Rightarrow> Inl e
      | Inr (major, v, head_size) \<Rightarrow>
          (let after_head = offset + head_size
           in if major = 0 \<or> major = 1 then Inr (0, after_head)
              else if major = 2 \<or> major = 3
              then (case payload_end d after_head v of Inl e \<Rightarrow> Inl e | Inr c \<Rightarrow> Inr (0, c))
              else if major = 4 then Inr (unat v, after_head)
              else if major = 5 then Inr (2 * unat v, after_head)
              else if major = 6 then Inl (CborTag offset)
              else Inr (0, after_head)))"

text \<open>The recursion, over the number of consecutive items still to be passed.\<close>

function items_end :: "bytes \<Rightarrow> nat \<Rightarrow> nat \<Rightarrow> WireError + nat" where
  "items_end d 0 cursor = Inr cursor"
| "items_end d (Suc k) cursor =
     (case item_step d cursor of
        Inl e \<Rightarrow> Inl e
      | Inr (children, c) \<Rightarrow>
          (case items_end d children c of Inl e \<Rightarrow> Inl e | Inr c' \<Rightarrow> items_end d k c'))"
  by pat_completeness auto
termination
proof -
  have step: "c < c' \<and> c < length d" if "item_step d c = Inr (n, c')" for d c n c'
    using that
    by (auto simp: item_step_def parse_cbor_head_def head_arg_def payload_end_def Let_def
        split: if_splits sum.splits prod.splits)
  have le: "c \<le> c'" if "items_end_dom (d, k, c)" "items_end d k c = Inr c'" for d k c c'
    using that
  proof (induction arbitrary: c' rule: items_end.pinduct)
    case (2 d k c)
    obtain n c1 c2 where 1: "item_step d c = Inr (n, c1)" and 2: "items_end d n c1 = Inr c2" "items_end d k c2 = Inr c'"
      using "2.prems" "2.hyps" by (auto simp: items_end.psimps split: sum.splits prod.splits)
    then show ?case
      using step [OF 1] "2.IH"(1) [OF 1 refl 2(1)] "2.IH"(2) [OF 1 refl 2(1) 2(2)] by simp
  qed (simp add: items_end.psimps)
  show "All items_end_dom"
  proof (relation "measures [\<lambda>(d, k, c). length d - c, \<lambda>(d, k, c). k]", goal_cases)
    case 1
    then show ?case by simp
  next
    case (2 d k c b n c1)
    then show ?case using step [of d c n c1] by auto
  next
    case (3 d k c b n c1 c2)
    then have "c < c1" "c < length d" "c1 \<le> c2" using step [of d c n c1] le [of d n c1 c2] by auto
    then show ?case by auto
  qed
qed

definition cbor_item_end :: "bytes \<Rightarrow> nat \<Rightarrow> WireError + nat" where
  "cbor_item_end d offset = items_end d 1 offset"

definition decode_cbor_text :: "bytes \<Rightarrow> nat \<Rightarrow> WireError + (string \<times> nat)" where
  "decode_cbor_text d offset =
     (case parse_cbor_head d offset of
        Inl e \<Rightarrow> Inl e
      | Inr (major, len, head_size) \<Rightarrow>
          if major \<noteq> 3 then Inl (CborDecode ''expected CBOR text'')
          else and_then (payload_end d (offset + head_size) len) (\<lambda>e.
            let s = byte_range d (offset + head_size) e
            in if utf8_ok s then Inr (bytes_str s, e) else Inl (CborDecode ''CBOR text invalid utf-8'')))"

definition decode_cbor_bytes :: "bytes \<Rightarrow> nat \<Rightarrow> WireError + (bytes \<times> nat)" where
  "decode_cbor_bytes d offset =
     (case parse_cbor_head d offset of
        Inl e \<Rightarrow> Inl e
      | Inr (major, len, head_size) \<Rightarrow>
          if major \<noteq> 2 then Inl (CborDecode ''expected CBOR bytes'')
          else and_then (payload_end d (offset + head_size) len)
            (\<lambda>e. Inr (byte_range d (offset + head_size) e, e)))"

section \<open>Entities\<close>

definition encode_entity :: "entity \<Rightarrow> bytes" where
  "encode_entity e =
     [0xA3] @ encode_cbor_text ''data'' @ data e @
     encode_cbor_text ''type'' @ encode_cbor_text (entity_type e) @
     encode_cbor_text ''content_hash'' @ encode_cbor_bstr (to_bytes (content_hash e))"

text \<open>The loop over the entries of a map whose keys are text: \<open>step\<close> receives the key and the extent of
  the value.\<close>

fun map_loop ::
    "(string \<Rightarrow> nat \<Rightarrow> nat \<Rightarrow> 'a \<Rightarrow> WireError + 'a) \<Rightarrow> bytes \<Rightarrow> nat \<Rightarrow> nat \<Rightarrow> 'a \<Rightarrow> WireError + 'a" where
  "map_loop step d 0 cursor acc = Inr acc"
| "map_loop step d (Suc k) cursor acc =
     and_then (decode_cbor_text d cursor) (\<lambda>(key, value_start).
     and_then (cbor_item_end d value_start) (\<lambda>value_end.
     and_then (step key value_start value_end acc) (\<lambda>acc'. map_loop step d k value_end acc')))"

text \<open>A definite-length item of the given major type at an offset: its argument and where its content
  starts.\<close>

definition open_item :: "u8 \<Rightarrow> string \<Rightarrow> bytes \<Rightarrow> nat \<Rightarrow> WireError + (nat \<times> nat)" where
  "open_item expected what d offset =
     and_then (parse_cbor_head d offset) (\<lambda>(major, cnt, head_size).
       if major \<noteq> expected then Inl (CborDecode what) else Inr (unat cnt, offset + head_size))"

record entity_acc =
  ea_type :: "string option"
  ea_data :: "bytes option"
  ea_hash :: "hash option"

definition entity_step :: "bytes \<Rightarrow> string \<Rightarrow> nat \<Rightarrow> nat \<Rightarrow> entity_acc \<Rightarrow> WireError + entity_acc" where
  "entity_step d key s e acc =
     (if key = ''type'' then and_then (decode_cbor_text d s) (\<lambda>(t, _). Inr (acc\<lparr>ea_type := Some t\<rparr>))
      else if key = ''data'' then Inr (acc\<lparr>ea_data := Some (byte_range d s e)\<rparr>)
      else if key = ''content_hash''
      then and_then (decode_cbor_bytes d s) (\<lambda>(bs, _).
           and_then (map_err (\<lambda>err. CborDecode (hash_error_text err)) (from_bytes bs)) (\<lambda>h.
             Inr (acc\<lparr>ea_hash := Some h\<rparr>)))
      else Inr acc)"

definition entity_acc_init :: entity_acc where
  "entity_acc_init = \<lparr>ea_type = None, ea_data = None, ea_hash = None\<rparr>"

definition decode_entity :: "bytes \<Rightarrow> WireError + entity" where
  "decode_entity d =
     and_then (open_item 5 ''expected CBOR map for entity'' d 0) (\<lambda>(cnt, cursor).
     and_then (map_loop (entity_step d) d cnt cursor entity_acc_init) (\<lambda>acc.
     and_then (ok_or (ea_type acc) (CborDecode ''missing 'type' field'')) (\<lambda>t.
     and_then (ok_or (ea_data acc) (CborDecode ''missing 'data' field'')) (\<lambda>dt.
     and_then (ok_or (ea_hash acc) (CborDecode ''missing 'content_hash' field'')) (\<lambda>h.
       Inr \<lparr>entity_type = t, data = dt, content_hash = h\<rparr>)))))"

definition parts_step :: "bytes \<Rightarrow> string \<Rightarrow> nat \<Rightarrow> nat \<Rightarrow> entity_acc \<Rightarrow> WireError + entity_acc" where
  "parts_step d key s e acc =
     (if key = ''type'' then and_then (decode_cbor_text d s) (\<lambda>(t, _). Inr (acc\<lparr>ea_type := Some t\<rparr>))
      else if key = ''data'' then Inr (acc\<lparr>ea_data := Some (byte_range d s e)\<rparr>)
      else Inr acc)"

definition decode_entity_parts :: "bytes \<Rightarrow> WireError + (string \<times> bytes)" where
  "decode_entity_parts d =
     and_then (open_item 5 ''expected CBOR map for entity'' d 0) (\<lambda>(cnt, cursor).
     and_then (map_loop (parts_step d) d cnt cursor entity_acc_init) (\<lambda>acc.
     and_then (ok_or (ea_type acc) (CborDecode ''missing 'type' field'')) (\<lambda>t.
     and_then (ok_or (ea_data acc) (CborDecode ''missing 'data' field'')) (\<lambda>dt. Inr (t, dt)))))"

section \<open>Envelopes\<close>

definition encode_included :: "(hash, entity) btree \<Rightarrow> bytes" where
  "encode_included inc = concat (map (\<lambda>(h, e). encode_cbor_bstr (to_bytes h) @ encode_entity e) inc)"

definition encode_envelope :: "envelope \<Rightarrow> bytes" where
  "encode_envelope env =
     [if included env = [] then 0xA1 else 0xA2] @ encode_cbor_text ''root'' @ encode_entity (root env) @
     (if included env = [] then []
      else encode_cbor_text ''included'' @ encode_head MAJOR_MAP (word_of_nat (length (included env))) @
           encode_included (included env))"

fun included_loop :: "bytes \<Rightarrow> nat \<Rightarrow> nat \<Rightarrow> (hash, entity) btree \<Rightarrow> WireError + (hash, entity) btree" where
  "included_loop d 0 cursor inc = Inr inc"
| "included_loop d (Suc k) cursor inc =
     and_then (decode_cbor_bytes d cursor) (\<lambda>(hash_bytes, entity_start).
     and_then (map_err (\<lambda>err. CborDecode (hash_error_text err)) (from_bytes hash_bytes)) (\<lambda>h.
     and_then (cbor_item_end d entity_start) (\<lambda>entity_end.
     and_then (decode_entity (byte_range d entity_start entity_end)) (\<lambda>e.
       if h \<noteq> content_hash e then Inl (IncludedKeyMismatch h (content_hash e))
       else included_loop d k entity_end (bt_insert h e inc)))))"

record envelope_acc =
  va_root :: "entity option"
  va_included :: "(hash, entity) btree"

definition envelope_step :: "bytes \<Rightarrow> string \<Rightarrow> nat \<Rightarrow> nat \<Rightarrow> envelope_acc \<Rightarrow> WireError + envelope_acc" where
  "envelope_step d key s e acc =
     (if key = ''root'' then and_then (decode_entity (byte_range d s e)) (\<lambda>r. Inr (acc\<lparr>va_root := Some r\<rparr>))
      else if key = ''included''
      then and_then (open_item 5 ''envelope.included must be a CBOR map'' d s) (\<lambda>(cnt, cursor).
           and_then (included_loop d cnt cursor (va_included acc)) (\<lambda>inc. Inr (acc\<lparr>va_included := inc\<rparr>)))
      else Inr acc)"

definition decode_envelope :: "bytes \<Rightarrow> WireError + envelope" where
  "decode_envelope d =
     and_then (open_item 5 ''expected CBOR map for envelope'' d 0) (\<lambda>(cnt, cursor).
     and_then (map_loop (envelope_step d) d cnt cursor \<lparr>va_root = None, va_included = []\<rparr>) (\<lambda>acc.
     and_then (ok_or (va_root acc) (CborDecode ''missing 'root' field'')) (\<lambda>r.
       Inr (with_included r (va_included acc)))))"

text \<open>The searches that return at the first entry with the key.\<close>

fun find_field :: "bytes \<Rightarrow> string \<Rightarrow> nat \<Rightarrow> nat \<Rightarrow> WireError + (nat \<times> nat) option" where
  "find_field d key 0 cursor = Inr None"
| "find_field d key (Suc k) cursor =
     and_then (decode_cbor_text d cursor) (\<lambda>(k', value_start).
     and_then (cbor_item_end d value_start) (\<lambda>value_end.
       if k' = key then Inr (Some (value_start, value_end)) else find_field d key k value_end))"

definition decode_envelope_root :: "bytes \<Rightarrow> WireError + entity" where
  "decode_envelope_root d =
     and_then (open_item 5 ''expected CBOR map for envelope'' d 0) (\<lambda>(cnt, cursor).
     and_then (find_field d ''root'' cnt cursor) (\<lambda>f.
       case f of None \<Rightarrow> Inl (CborDecode ''missing 'root' field'')
               | Some (s, e) \<Rightarrow> decode_entity (byte_range d s e)))"

definition cbor_map_field_raw :: "bytes \<Rightarrow> string \<Rightarrow> bytes option" where
  "cbor_map_field_raw d key =
     (case open_item 5 [] d 0 of
        Inl _ \<Rightarrow> None
      | Inr (cnt, cursor) \<Rightarrow>
          (case find_field d key cnt cursor of
             Inr (Some (s, e)) \<Rightarrow> Some (byte_range d s e)
           | _ \<Rightarrow> None))"

text \<open>\<^verbatim>\<open>Vec::with_capacity\<close> panics when the requested size in bytes exceeds \<^verbatim>\<open>isize::MAX\<close>.\<close>

definition capacity_ok :: "nat \<Rightarrow> nat \<Rightarrow> bool" where
  "capacity_ok n elem_size \<longleftrightarrow> n * elem_size \<le> 2 ^ 63 - 1"

fun elements_loop :: "bytes \<Rightarrow> nat \<Rightarrow> nat \<Rightarrow> WireError + bytes list" where
  "elements_loop d 0 cursor = Inr []"
| "elements_loop d (Suc k) cursor =
     and_then (cbor_item_end d cursor) (\<lambda>e.
     and_then (elements_loop d k e) (\<lambda>rest. Inr (byte_range d cursor e # rest)))"

text \<open>\<open>Inl\<close> is the panic, \<open>Inr\<close> the option the function returns; an element is a slice of 16 bytes.\<close>

definition cbor_array_elements_raw :: "bytes \<Rightarrow> WireError + bytes list option" where
  "cbor_array_elements_raw d =
     (case open_item 4 [] d 0 of
        Inl _ \<Rightarrow> Inr None
      | Inr (cnt, cursor) \<Rightarrow>
          if \<not> capacity_ok cnt 16 then Inl (WirePanic ''capacity overflow'')
          else (case elements_loop d cnt cursor of Inl _ \<Rightarrow> Inr None | Inr xs \<Rightarrow> Inr (Some xs)))"

fun entries_loop :: "bytes \<Rightarrow> string \<Rightarrow> nat \<Rightarrow> nat \<Rightarrow> WireError + (bytes \<times> bytes) list" where
  "entries_loop d key 0 cursor = Inr []"
| "entries_loop d key (Suc k) cursor =
     and_then (decode_cbor_text d cursor) (\<lambda>(k', after_key).
     and_then (cbor_item_end d after_key) (\<lambda>value_end.
     and_then (entries_loop d key k value_end) (\<lambda>rest.
       Inr (if k' \<noteq> key then (byte_range d cursor after_key, byte_range d after_key value_end) # rest else rest))))"

text \<open>An entry is two vectors of 24 bytes; \<^verbatim>\<open>count as usize + 1\<close> wraps at the machine word.\<close>

definition cbor_map_set_raw :: "bytes \<Rightarrow> string \<Rightarrow> bytes \<Rightarrow> WireError + bytes" where
  "cbor_map_set_raw map_bytes key v =
     and_then (open_item 5 ''cbor_map_set_raw: expected CBOR map'' map_bytes 0) (\<lambda>(cnt, cursor).
       if \<not> capacity_ok ((cnt + 1) mod 2 ^ 64) 48 then Inl (WirePanic ''capacity overflow'')
       else and_then (entries_loop map_bytes key cnt cursor) (\<lambda>entries.
         let es = entries @ [(encode_cbor_text key, v)]
         in Inr (encode_head MAJOR_MAP (word_of_nat (length es)) @ encode_entries es)))"

section \<open>Frames\<close>

definition DEFAULT_MAX_FRAME_SIZE :: u32 where "DEFAULT_MAX_FRAME_SIZE = 16 * 1024 * 1024"

definition write_frame :: "bytes \<Rightarrow> bytes" where
  "write_frame payload = be_bytes 4 (unat (word_of_nat (length payload) :: u32)) @ payload"

text \<open>What a stream delivers: chunks of bytes, a failure, or the end.\<close>

datatype read_event = Chunk bytes | Broken string

text \<open>One \<^verbatim>\<open>read\<close> into a buffer of \<open>n\<close> bytes; the empty result is the end of the stream.\<close>

fun read_some :: "nat \<Rightarrow> read_event list \<Rightarrow> WireError + (bytes \<times> read_event list)" where
  "read_some n [] = Inr ([], [])"
| "read_some n (Chunk c # rs) =
     (if c = [] then read_some n rs
      else Inr (take n c, if length c \<le> n then rs else Chunk (drop n c) # rs))"
| "read_some n (Broken e # rs) = Inl (WireIo e)"

text \<open>The read loops: fill a buffer of \<open>n\<close> bytes; \<open>eof\<close> is the error at the end of the stream.\<close>

function fill :: "(nat \<Rightarrow> WireError) \<Rightarrow> nat \<Rightarrow> bytes \<Rightarrow> read_event list \<Rightarrow> WireError + (bytes \<times> read_event list)" where
  "fill eof n buf rs =
     (if length buf < n then
        (case read_some (n - length buf) rs of
           Inl e \<Rightarrow> Inl e
         | Inr (b, rs') \<Rightarrow> if b = [] then Inl (eof (length buf)) else fill eof n (buf @ b) rs')
      else Inr (buf, rs))"
  by pat_completeness auto
termination
  by (relation "measure (\<lambda>(_, n, buf, _). n - length buf)") (auto simp: neq_Nil_conv)

definition read_frame :: "u32 \<Rightarrow> read_event list \<Rightarrow> WireError + (bytes \<times> read_event list)" where
  "read_frame max_frame_size rs =
     and_then (fill (\<lambda>got. if got = 0 then WireIo ''clean EOF at frame boundary''
                           else TruncatedFrame ''length prefix'' got 4) 4 [] rs) (\<lambda>(len_buf, rs1).
       let len = from_be_bytes len_buf
       in if len > unat max_frame_size then Inl (FrameTooLarge (word_of_nat len) max_frame_size)
          else fill (\<lambda>filled. TruncatedFrame ''payload'' filled len) len [] rs1)"

end
