(* ===== verification/Wire_Codec.thy ===== *)
theory Wire_Codec
  imports Wire
begin

text \<open>
  The wire codec, proved.  The walker of \<open>Wire\<close> is local (what it finds in a byte string it finds in
  every string that contains it, and the other way round), so it passes over exactly the bytes the
  encoders write; from this follow the round trips of entities and envelopes and the invariant of
  whatever the decoders accept.
\<close>

section \<open>Lemmas on the walker\<close>

declare items_end.simps [simp del] fill.simps [simp del]

lemma byte_range_at: "byte_range (pre @ xs @ rest) (length pre) (length pre + length xs) = xs"
  by (simp add: byte_range_def)

lemma byte_range_local:
  "e \<le> length xs \<Longrightarrow> byte_range (pre @ xs @ rest) (length pre + s) (length pre + e) = byte_range xs s e"
  by (simp add: byte_range_def drop_append)

lemma head_arg_local:
  assumes "head_arg xs c m n w = Inr r"
  shows "head_arg (pre @ xs @ rest) (length pre + c) m n w = Inr r"
  using assms byte_range_local [of "c + 1 + n" xs pre rest "c + 1"]
  by (auto simp: head_arg_def add.assoc split: if_splits)

lemma head_arg_bounds: "head_arg d c m n w = Inr (m', v, h) \<Longrightarrow> 0 < h \<and> c + h \<le> length d"
  by (auto simp: head_arg_def split: if_splits)

lemma head_bounds: "parse_cbor_head d c = Inr (m, v, h) \<Longrightarrow> 0 < h \<and> c + h \<le> length d"
  by (auto simp: parse_cbor_head_def Let_def dest: head_arg_bounds split: if_splits)

lemma head_local:
  assumes "parse_cbor_head xs c = Inr r"
  shows "parse_cbor_head (pre @ xs @ rest) (length pre + c) = Inr r"
proof -
  have "c < length xs" using assms by (auto simp: parse_cbor_head_def split: if_splits)
  then show ?thesis
    using assms head_arg_local by (auto simp: parse_cbor_head_def nth_append Let_def split: if_splits)
qed

lemma payload_local:
  assumes "payload_end xs c v = Inr e" "length (pre @ xs @ rest) < 2 ^ 64"
  shows "payload_end (pre @ xs @ rest) (length pre + c) v = Inr (length pre + e)"
  using assms by (auto simp: payload_end_def Let_def split: if_splits)

lemma payload_bounds: "payload_end d c v = Inr e \<Longrightarrow> c \<le> e \<and> e \<le> length d"
  by (auto simp: payload_end_def Let_def split: if_splits)

lemma step_bounds: "item_step d c = Inr (n, c') \<Longrightarrow> c < c' \<and> c' \<le> length d"
  by (auto simp: item_step_def Let_def dest!: head_bounds payload_bounds split: sum.splits prod.splits if_splits)

lemma step_local:
  assumes "item_step xs c = Inr (n, c')" "length (pre @ xs @ rest) < 2 ^ 64"
  shows "item_step (pre @ xs @ rest) (length pre + c) = Inr (n, length pre + c')"
proof -
  obtain m v h where h: "parse_cbor_head xs c = Inr (m, v, h)"
    using assms(1) by (auto simp: item_step_def split: sum.splits)
  then show ?thesis
    using assms(1) head_local [OF h, of pre rest] payload_local [OF _ assms(2), of "c + h" v]
    by (auto simp: item_step_def Let_def add.assoc split: sum.splits if_splits)
qed

lemma items_end_0 [simp]: "items_end d 0 c = Inr c"
  by (simp add: items_end.simps)

lemma items_end_Suc [simp]:
  "items_end d (Suc k) c = and_then (item_step d c) (\<lambda>(n, c1). and_then (items_end d n c1) (items_end d k))"
  by (auto simp: items_end.simps split: sum.splits prod.splits)

lemma items_end_SucE:
  assumes "items_end d (Suc k) c = Inr c'"
  obtains n c1 c2 where "item_step d c = Inr (n, c1)" "items_end d n c1 = Inr c2" "items_end d k c2 = Inr c'"
  using assms by (auto simp: items_end.simps split: sum.splits prod.splits)

lemma items_bounds: "items_end d k c = Inr c' \<Longrightarrow> c + k \<le> c' \<and> (k = 0 \<or> c' \<le> length d)"
proof (induction d k c arbitrary: c' rule: items_end.induct)
  case (2 d k c)
  obtain n c1 c2 where 1: "item_step d c = Inr (n, c1)" "items_end d n c1 = Inr c2" "items_end d k c2 = Inr c'"
    by (rule items_end_SucE [OF "2.prems"])
  have a: "c < c1" "c1 \<le> length d" using step_bounds [OF 1(1)] by auto
  have b: "c1 \<le> c2" "c2 \<le> length d" using "2.IH"(1) [OF 1(1) refl 1(2)] 1(2) a by (cases n; auto)+
  show ?case using "2.IH"(2) [OF 1(1) refl 1(2,3)] 1(3) a b by (cases k) auto
qed simp

lemma items_local:
  "items_end xs k c = Inr c' \<Longrightarrow> length (pre @ xs @ rest) < 2 ^ 64 \<Longrightarrow>
   items_end (pre @ xs @ rest) k (length pre + c) = Inr (length pre + c')"
proof (induction xs k c arbitrary: c' rule: items_end.induct)
  case (2 xs k c)
  obtain n c1 c2 where 1: "item_step xs c = Inr (n, c1)" "items_end xs n c1 = Inr c2" "items_end xs k c2 = Inr c'"
    by (rule items_end_SucE [OF "2.prems"(1)])
  show ?case
    using step_local [OF 1(1) "2.prems"(2)] "2.IH"(1) [OF 1(1) refl 1(2) "2.prems"(2)]
      "2.IH"(2) [OF 1(1) refl 1(2,3) "2.prems"(2)] by simp
qed simp

lemma items_add: "items_end d (j + k) c = and_then (items_end d j c) (items_end d k)"
proof (induction j arbitrary: c)
  case (Suc j)
  show ?case using Suc by (auto simp: and_then_def split: sum.splits prod.splits)
qed simp

text \<open>\<open>is_items k bs\<close>: the bytes are exactly \<open>k\<close> consecutive items.\<close>

definition is_items :: "nat \<Rightarrow> bytes \<Rightarrow> bool" where
  "is_items k bs \<longleftrightarrow> items_end bs k 0 = Inr (length bs)"

definition is_item :: "bytes \<Rightarrow> bool" where
  "is_item bs \<longleftrightarrow> is_items 1 bs"

lemma is_items_0 [simp]: "is_items 0 bs \<longleftrightarrow> bs = []"
  by (auto simp: is_items_def)

lemma items_end_at:
  assumes "is_items k xs" "length (pre @ xs @ rest) < 2 ^ 64"
  shows "items_end (pre @ xs @ rest) k (length pre) = Inr (length pre + length xs)"
  using items_local [of xs k 0 "length xs" pre rest] assms by (simp add: is_items_def)

lemma is_items_append:
  assumes "is_items j xs" "is_items k ys" "length (xs @ ys) < 2 ^ 64"
  shows "is_items (j + k) (xs @ ys)"
  using items_end_at [OF assms(1), of "[]" ys] items_end_at [OF assms(2), of xs "[]"] assms(3)
  by (simp add: is_items_def items_add)

lemma is_items_concat:
  assumes "\<And>x. x \<in> set xs \<Longrightarrow> is_items k (f x)" "length (concat (map f xs)) < 2 ^ 64"
  shows "is_items (k * length xs) (concat (map f xs))"
  using assms
proof (induction xs)
  case (Cons x xs)
  then show ?case using is_items_append [of k "f x" "k * length xs" "concat (map f xs)"] by simp
qed simp

lemma head_info_parts:
  assumes "M \<in> majors"
  shows "drop_bit 5 (head_info v) = 0" "(M OR head_info v) AND 0x1F = head_info v"
proof -
  have "drop_bit 5 (head_info v) = drop_bit 5 (head_info v AND 31)" by (simp only: head_info_and)
  also have "\<dots> = 0" by (simp only: drop_bit_and) (simp add: drop_bit_Suc)
  finally show "drop_bit 5 (head_info v) = 0" .
  have "M AND 31 = 0" using assms by (auto simp: majors_def major_values)
  then show "(M OR head_info v) AND 0x1F = head_info v"
    by (simp add: bit.conj_disj_distrib2 head_info_and)
qed

lemma ucast_small:
  assumes "v < (24 :: u64)"
  shows "(ucast (ucast v :: u8) :: u64) = v" "(ucast v :: u8) \<le> 23"
proof -
  have u: "unat (ucast v :: u8) = unat v"
    by (rule unat_ucast_small) (use assms in \<open>simp add: word_less_nat_alt\<close>)
  have "(ucast (ucast v :: u8) :: u64) = word_of_nat (unat (ucast v :: u8))" by simp
  then show "(ucast (ucast v :: u8) :: u64) = v" by (simp only: u) simp
  show "(ucast v :: u8) \<le> 23" using assms u by (simp add: word_le_nat_alt word_less_nat_alt)
qed

lemma head_arg_0:
  "unat v < 256 ^ n \<Longrightarrow> head_arg (x # be_bytes n (unat v) @ rest) 0 m n w = Inr (m, v, 1 + n)"
  by (simp add: head_arg_def byte_range_def from_be_bytes_be_bytes)

lemma parse_head_0:
  assumes "M \<in> majors"
  shows "parse_cbor_head (encode_head M v @ rest) 0 = Inr (drop_bit 5 M, v, length (encode_head M v))"
proof -
  have p: "parse_cbor_head (encode_head M v @ rest) 0 =
    (let d = (M OR head_info v) # head_tail v @ rest; ai = head_info v; m = drop_bit 5 M
     in if ai \<le> 23 then Inr (m, ucast ai, 1)
        else if ai = 24 then head_arg d 0 m 1 ''EOF reading CBOR u8 argument''
        else if ai = 25 then head_arg d 0 m 2 ''EOF reading CBOR u16 argument''
        else if ai = 26 then head_arg d 0 m 4 ''EOF reading CBOR u32 argument''
        else if ai = 27 then head_arg d 0 m 8 ''EOF reading CBOR u64 argument''
        else Inl (CborDecode ''CBOR additional-info (indefinite-length / reserved)''))"
    by (simp add: parse_cbor_head_def encode_head_alt head_info_parts [OF assms] Let_def)
  note defs = encode_head_alt Let_def head_info_def head_tail_def
  have "unat v < 256 ^ 8" using unsigned_less [of v, where 'a=nat] by simp
  then consider "v < 24" | "\<not> v < 24" "v \<le> 0xFF" "unat v < 256 ^ 1" | "\<not> v < 24" "\<not> v \<le> 0xFF" "v \<le> 0xFFFF" "unat v < 256 ^ 2"
    | "\<not> v < 24" "\<not> v \<le> 0xFF" "\<not> v \<le> 0xFFFF" "v \<le> 0xFFFFFFFF" "unat v < 256 ^ 4"
    | "\<not> v < 24" "\<not> v \<le> 0xFF" "\<not> v \<le> 0xFFFF" "\<not> v \<le> 0xFFFFFFFF" "unat v < 256 ^ 8"
    by (fastforce simp: word_le_nat_alt)
  then show ?thesis
  proof cases
    case 1
    then show ?thesis unfolding p using ucast_small [OF 1] by (simp add: defs)
  next
    case 2
    then show ?thesis unfolding p using head_arg_0 [OF 2(3)] by (simp add: defs del: be_bytes.simps One_nat_def)
  next
    case 3
    then show ?thesis unfolding p using head_arg_0 [OF 3(4)] by (simp add: defs del: be_bytes.simps)
  next
    case 4
    then show ?thesis unfolding p using head_arg_0 [OF 4(5)] by (simp add: defs del: be_bytes.simps)
  next
    case 5
    then show ?thesis unfolding p using head_arg_0 [OF 5(5)] by (simp add: defs del: be_bytes.simps)
  qed
qed

lemma parse_head:
  assumes "M \<in> majors"
  shows "parse_cbor_head (pre @ encode_head M v @ rest) (length pre) = Inr (drop_bit 5 M, v, length (encode_head M v))"
  using head_local [OF parse_head_0 [OF assms, of v "[]"], of pre rest] by simp

lemma major_drop [simp]:
  "drop_bit 5 MAJOR_UNSIGNED = 0" "drop_bit 5 MAJOR_NEGATIVE = 1" "drop_bit 5 MAJOR_BYTES = 2"
  "drop_bit 5 MAJOR_TEXT = 3" "drop_bit 5 MAJOR_ARRAY = 4" "drop_bit 5 MAJOR_MAP = 5"
  unfolding major_values by code_simp+

lemma majors_in [simp]:
  "MAJOR_UNSIGNED \<in> majors" "MAJOR_NEGATIVE \<in> majors" "MAJOR_BYTES \<in> majors" "MAJOR_TEXT \<in> majors"
  "MAJOR_ARRAY \<in> majors" "MAJOR_MAP \<in> majors"
  by (simp_all add: majors_def)

lemma payload_whole:
  assumes "length (pre @ h @ xs @ rest) < 2 ^ 64"
  shows "payload_end (pre @ h @ xs @ rest) (length pre + length h) (word_of_nat (length xs)) =
    Inr (length pre + length h + length xs)"
  using assms by (simp add: payload_end_def unat_of_nat Let_def)

lemma str_bytes_inverse: "bytes_str (str_bytes s) = s"
  by (simp add: bytes_str_def str_bytes_def comp_def)

lemma decode_bytes_at:
  assumes "length (pre @ encode_cbor_bstr bs @ rest) < 2 ^ 64"
  shows "decode_cbor_bytes (pre @ encode_cbor_bstr bs @ rest) (length pre) = Inr (bs, length pre + length (encode_cbor_bstr bs))"
proof -
  let ?h = "encode_head MAJOR_BYTES (word_of_nat (length bs))"
  have "parse_cbor_head (pre @ ?h @ bs @ rest) (length pre) = Inr (2, word_of_nat (length bs), length ?h)"
    by (simp add: parse_head)
  moreover have "byte_range (pre @ ?h @ bs @ rest) (length pre + length ?h) (length pre + length ?h + length bs) = bs"
    using byte_range_at [of "pre @ ?h" bs rest] by simp
  ultimately show ?thesis
    using assms payload_whole [of pre ?h bs rest] by (simp add: decode_cbor_bytes_def encode_cbor_bstr_def and_then_def add.assoc)
qed

lemma decode_text_at:
  assumes "length (pre @ encode_cbor_text s @ rest) < 2 ^ 64" "utf8_ok (str_bytes s)"
  shows "decode_cbor_text (pre @ encode_cbor_text s @ rest) (length pre) = Inr (s, length pre + length (encode_cbor_text s))"
proof -
  let ?h = "encode_head MAJOR_TEXT (word_of_nat (length (str_bytes s)))" and ?b = "str_bytes s"
  have "parse_cbor_head (pre @ ?h @ ?b @ rest) (length pre) = Inr (3, word_of_nat (length ?b), length ?h)"
    by (simp add: parse_head)
  moreover have "byte_range (pre @ ?h @ ?b @ rest) (length pre + length ?h) (length pre + length ?h + length ?b) = ?b"
    using byte_range_at [of "pre @ ?h" ?b rest] by simp
  ultimately show ?thesis
    using assms payload_whole [of pre ?h ?b rest]
    by (simp add: decode_cbor_text_def encode_cbor_text_def and_then_def add.assoc str_bytes_inverse)
qed

lemma item_end_at:
  assumes "is_item xs" "length (pre @ xs @ rest) < 2 ^ 64"
  shows "cbor_item_end (pre @ xs @ rest) (length pre) = Inr (length pre + length xs)"
  using items_end_at [of 1 xs] assms by (simp add: cbor_item_end_def is_item_def)

text \<open>The three shapes of an item that the encoders emit.\<close>

lemma is_items_head:
  assumes "M \<in> {MAJOR_UNSIGNED, MAJOR_NEGATIVE}"
  shows "is_item (encode_head M v)"
  using assms parse_head_0 [of M v "[]"] by (auto simp: is_item_def is_items_def item_step_def and_then_def)

lemma is_items_string:
  assumes "M \<in> {MAJOR_BYTES, MAJOR_TEXT}" "length (encode_head M (word_of_nat (length xs)) @ xs) < 2 ^ 64"
  shows "is_item (encode_head M (word_of_nat (length xs)) @ xs)"
  using assms parse_head_0 [of M "word_of_nat (length xs)" xs]
    payload_whole [of "[]" "encode_head M (word_of_nat (length xs))" xs "[]"]
  by (auto simp: is_item_def is_items_def item_step_def and_then_def)

lemma is_items_bstr: "length (encode_cbor_bstr bs) < 2 ^ 64 \<Longrightarrow> is_item (encode_cbor_bstr bs)"
  using is_items_string [of MAJOR_BYTES bs] by (simp add: encode_cbor_bstr_def)

lemma is_items_text: "length (encode_cbor_text s) < 2 ^ 64 \<Longrightarrow> is_item (encode_cbor_text s)"
  using is_items_string [of MAJOR_TEXT "str_bytes s"] by (simp add: encode_cbor_text_def)

lemma is_items_container:
  assumes "M = MAJOR_ARRAY \<and> k = n \<or> M = MAJOR_MAP \<and> k = 2 * n" "n < 2 ^ 64" "is_items k xs"
    "length (encode_head M (word_of_nat n) @ xs) < 2 ^ 64"
  shows "is_item (encode_head M (word_of_nat n) @ xs)"
  using assms(1,2,4) parse_head_0 [of M "word_of_nat n" xs] items_end_at [OF assms(3), of "encode_head M (word_of_nat n)" "[]"]
  by (auto simp: is_item_def is_items_def item_step_def and_then_def unat_of_nat)

lemma simple_item:
  assumes "x \<in> {SIMPLE_NULL, SIMPLE_TRUE, SIMPLE_FALSE}"
  shows "is_item [x]"
  using assms by (auto simp: is_item_def is_items_def item_step_def and_then_def parse_cbor_head_def simple_values Let_def)

lemma float_item: "is_item (encode_float f)"
proof -
  have i: "is_item (x # be_bytes n v)" if "(x, n) \<in> {(FLOAT_HALF, 2), (FLOAT_SINGLE, 4), (FLOAT_DOUBLE, 8)}" for x n v
    using that
    by (auto simp: is_item_def is_items_def item_step_def and_then_def parse_cbor_head_def head_arg_def simple_values Let_def
        simp del: be_bytes.simps)
  show ?thesis unfolding encode_float_def by (auto simp: Let_def intro!: i split: option.splits)
qed

lemma length_concat_elem: "x \<in> set xs \<Longrightarrow> length (f x) \<le> length (concat (map f xs))"
  by (induction xs) auto

lemma length_encode_entries:
  "length (encode_entries (map g m)) = length (concat (map (\<lambda>e. fst (g e) @ snd (g e)) m))"
proof -
  have "mset (map (\<lambda>(k, v). length (k @ v)) (sort_key entry_key (map g m))) = mset (map (\<lambda>(k, v). length (k @ v)) (map g m))"
    by (simp only: mset_map mset_sort)
  then have "sum_list (map (\<lambda>(k, v). length (k @ v)) (sort_key entry_key (map g m))) = sum_list (map (\<lambda>(k, v). length (k @ v)) (map g m))"
    by (metis sum_mset_sum_list)
  then show ?thesis by (simp add: encode_entries_def length_concat comp_def split_def)
qed

lemma is_items_entries:
  assumes "\<And>e. e \<in> set m \<Longrightarrow> is_item (fst (g e)) \<and> is_item (snd (g e))"
    "length (encode_entries (map g m)) < 2 ^ 64"
  shows "is_items (2 * length m) (encode_entries (map g m))"
proof -
  have "is_items 2 (k @ v)" if kv: "(k, v) \<in> set (sort_key entry_key (map g m))" for k v
  proof -
    have "length (k @ v) < 2 ^ 64"
      using kv assms(2) length_concat_elem [of "(k, v)" "sort_key entry_key (map g m)" "\<lambda>(k, v). k @ v"]
      unfolding encode_entries_def by simp
    moreover obtain e where "e \<in> set m" "g e = (k, v)" using kv by auto
    then have "is_item k \<and> is_item v" using assms(1) by fastforce
    ultimately show ?thesis using is_items_append [of 1 k 1 v] by (simp add: is_item_def numeral_2_eq_2)
  qed
  then show ?thesis
    using is_items_concat [of "sort_key entry_key (map g m)" 2 "\<lambda>(k, v). k @ v"] assms(2)
    by (auto simp: encode_entries_def)
qed

lemma encode_value_item:
  "ecf_wf v \<Longrightarrow> length (encode_value v) < 2 ^ 64 \<Longrightarrow> is_item (encode_value v)"
proof (induction v rule: encode_value.induct)
  case (3 i)
  then show ?case by (simp add: encode_integer_head is_items_head)
next
  case (7 arr)
  have len: "length (concat (map encode_value arr)) < 2 ^ 64" using "7.prems"(2) by simp
  have "is_item (encode_value x)" if "x \<in> set arr" for x
  proof -
    have "length (encode_value x) < 2 ^ 64" using length_concat_elem [OF that, of encode_value] len by simp
    then show ?thesis using "7.IH" [OF that] "7.prems"(1) that by simp
  qed
  then have "is_items (length arr) (concat (map encode_value arr))"
    using is_items_concat [of arr 1 encode_value] len by (simp add: is_item_def)
  then show ?case using is_items_container [of MAJOR_ARRAY "length arr" "length arr"] "7.prems" by simp
next
  case (8 m)
  let ?g = "\<lambda>e. (encode_value (fst e), encode_value (snd e))"
  have len: "length (encode_entries (map ?g m)) < 2 ^ 64" using "8.prems"(2) by simp
  have "is_item (encode_value (fst e)) \<and> is_item (encode_value (snd e))" if e: "e \<in> set m" for e
  proof -
    have "length (encode_value (fst e) @ encode_value (snd e)) < 2 ^ 64"
      using length_concat_elem [OF e, of "\<lambda>e. encode_value (fst e) @ encode_value (snd e)"] len
      by (simp add: length_encode_entries)
    then show ?thesis using "8.IH"(1,2) [OF e] "8.prems"(1) e by simp
  qed
  then have "is_items (2 * length m) (encode_entries (map ?g m))"
    using is_items_entries [of m ?g] len by simp
  then show ?case using is_items_container [of MAJOR_MAP "2 * length m" "length m"] "8.prems" by simp
qed (simp_all add: simple_item float_item is_items_bstr is_items_text del: One_nat_def)

text \<open>One entry of a map, read where it was written.\<close>

lemma map_loop_at:
  assumes "d = pre @ encode_cbor_text key @ v @ rest" "length d < 2 ^ 64" "utf8_ok (str_bytes key)" "is_item v"
  shows "map_loop step d (Suc k) (length pre) acc =
    and_then (step key (length (pre @ encode_cbor_text key)) (length (pre @ encode_cbor_text key @ v)) acc)
      (\<lambda>acc'. map_loop step d k (length (pre @ encode_cbor_text key @ v)) acc')"
  using decode_text_at [of pre key "v @ rest"] item_end_at [of v "pre @ encode_cbor_text key" rest] assms
  by (simp add: result_eval add.assoc)

lemma map_loop_entry:
  assumes "d = pre @ encode_cbor_text key @ v @ rest" "length d < 2 ^ 64" "utf8_ok (str_bytes key)" "is_item v"
    "step key (length (pre @ encode_cbor_text key)) (length (pre @ encode_cbor_text key @ v)) acc = Inr acc'"
  shows "map_loop step d (Suc k) (length pre) acc = map_loop step d k (length (pre @ encode_cbor_text key @ v)) acc'"
  unfolding map_loop_at [OF assms(1-4)] assms(5) by (simp add: result_eval)

lemma open_map:
  assumes "n < 2 ^ 64"
  shows "open_item 5 w (encode_head MAJOR_MAP (word_of_nat n) @ rest) 0 =
    Inr (n, length (encode_head MAJOR_MAP (word_of_nat n)))"
  using assms parse_head_0 [of MAJOR_MAP "word_of_nat n" rest] by (simp add: open_item_def result_eval unat_of_nat)

lemma field_names [simp]:
  "utf8_ok (str_bytes ''data'')" "utf8_ok (str_bytes ''type'')" "utf8_ok (str_bytes ''content_hash'')"
  "utf8_ok (str_bytes ''root'')" "utf8_ok (str_bytes ''included'')"
  by code_simp+

lemma map_heads: "[0xA1] = encode_head MAJOR_MAP (word_of_nat 1)" "[0xA2] = encode_head MAJOR_MAP (word_of_nat 2)"
  "[0xA3] = encode_head MAJOR_MAP (word_of_nat 3)"
  by (simp_all add: encode_head_def major_values)

text \<open>An entity that can be on the wire: its payload is one item, its type is a string and its hash
  has the length its format demands.\<close>

definition entity_wire_ok :: "entity \<Rightarrow> bool" where
  "entity_wire_ok e \<longleftrightarrow> is_item (data e) \<and> utf8_ok (str_bytes (entity_type e)) \<and> hash_ok (content_hash e)"

lemma step_data:
  assumes "d = pre @ v @ rest"
  shows "entity_step d ''data'' (length pre) (length (pre @ v)) acc = Inr (acc\<lparr>ea_data := Some v\<rparr>)"
  using byte_range_at [of pre v rest] by (simp add: assms entity_step_def)

lemma step_type:
  assumes "d = pre @ encode_cbor_text t @ rest" "length d < 2 ^ 64" "utf8_ok (str_bytes t)"
  shows "entity_step d ''type'' (length pre) c acc = Inr (acc\<lparr>ea_type := Some t\<rparr>)"
  using decode_text_at [of pre t rest] assms by (simp add: entity_step_def result_eval)

lemma step_hash:
  assumes "d = pre @ encode_cbor_bstr (to_bytes h) @ rest" "length d < 2 ^ 64" "hash_ok h"
  shows "entity_step d ''content_hash'' (length pre) c acc = Inr (acc\<lparr>ea_hash := Some h\<rparr>)"
  using decode_bytes_at [of pre "to_bytes h" rest] assms by (simp add: entity_step_def result_eval from_to_bytes)

lemma open_entity: "open_item 5 w (encode_entity e) 0 = Inr (3, 1)"
  using open_map [of 3 w "tl (encode_entity e)"]
  by (simp add: encode_entity_def encode_head_def major_values)

lemma decode_encode_entity:
  assumes "entity_wire_ok e" "length (encode_entity e) < 2 ^ 64"
  shows "decode_entity (encode_entity e) = Inr e"
proof -
  define d where "d = encode_entity e"
  define dt tt ht where "dt = encode_cbor_text ''data''" and "tt = encode_cbor_text ''type''"
    and "ht = encode_cbor_text ''content_hash''"
  define t h where "t = encode_cbor_text (entity_type e)" and "h = encode_cbor_bstr (to_bytes (content_hash e))"
  have ok: "is_item (data e)" "utf8_ok (str_bytes (entity_type e))" "hash_ok (content_hash e)"
    using assms(1) by (auto simp: entity_wire_ok_def)
  have d: "d = [0xA3] @ dt @ data e @ tt @ t @ ht @ h"
    by (simp add: d_def encode_entity_def dt_def tt_def ht_def t_def h_def)
  have len: "length d < 2 ^ 64" using assms(2) by (simp add: d_def)
  have i: "is_item t" "is_item h"
    using len unfolding d t_def h_def by (auto intro!: is_items_text is_items_bstr)
  have s1: "map_loop (entity_step d) d (Suc 2) (length ([0xA3] :: bytes)) acc =
    map_loop (entity_step d) d 2 (length ([0xA3] @ dt @ data e)) (acc\<lparr>ea_data := Some (data e)\<rparr>)" for acc
    unfolding dt_def using step_data [of d "[0xA3] @ dt" "data e"]
    by (intro map_loop_entry len ok) (simp_all add: d dt_def)
  have s2: "map_loop (entity_step d) d (Suc 1) (length ([0xA3] @ dt @ data e)) acc =
    map_loop (entity_step d) d 1 (length (([0xA3] @ dt @ data e) @ tt @ t)) (acc\<lparr>ea_type := Some (entity_type e)\<rparr>)" for acc
    unfolding tt_def using step_type [of d "[0xA3] @ dt @ data e @ tt" "entity_type e" _ _ acc] len ok(2)
    by (intro map_loop_entry len i) (simp_all add: d tt_def t_def)
  have s3: "map_loop (entity_step d) d (Suc 0) (length (([0xA3] @ dt @ data e) @ tt @ t)) acc =
    map_loop (entity_step d) d 0 (length ((([0xA3] @ dt @ data e) @ tt @ t) @ ht @ h)) (acc\<lparr>ea_hash := Some (content_hash e)\<rparr>)" for acc
    unfolding ht_def using step_hash [of d "[0xA3] @ dt @ data e @ tt @ t @ ht" "content_hash e" _ _ acc] len ok(3)
    by (intro map_loop_entry len i) (simp_all add: d ht_def h_def)
  have "map_loop (entity_step d) d 3 1 entity_acc_init =
     Inr \<lparr>ea_type = Some (entity_type e), ea_data = Some (data e), ea_hash = Some (content_hash e)\<rparr>"
    using s1 [of entity_acc_init] s2 [of "entity_acc_init\<lparr>ea_data := Some (data e)\<rparr>"] s3
    by (simp add: entity_acc_init_def numeral_3_eq_3 numeral_2_eq_2 del: map_loop.simps(2))
  then show ?thesis by (simp add: decode_entity_def open_entity result_eval d_def)
qed

lemma is_item_map:
  assumes "is_items (2 * n) xs" "n < 2 ^ 64" "length (encode_head MAJOR_MAP (word_of_nat n) @ xs) < 2 ^ 64"
  shows "is_item (encode_head MAJOR_MAP (word_of_nat n) @ xs)"
  using is_items_container [of MAJOR_MAP "2 * n" n xs] assms by simp

lemma is_items_pair:
  assumes "is_item k" "is_item v" "length (k @ v) < 2 ^ 64"
  shows "is_items 2 (k @ v)"
  using is_items_append [of 1 k 1 v] assms by (simp add: is_item_def numeral_2_eq_2)

lemma is_item_entity:
  assumes "entity_wire_ok e" "length (encode_entity e) < 2 ^ 64"
  shows "is_item (encode_entity e)"
proof -
  let ?x = "encode_cbor_text ''data'' @ data e" and ?y = "encode_cbor_text ''type'' @ encode_cbor_text (entity_type e)"
    and ?z = "encode_cbor_text ''content_hash'' @ encode_cbor_bstr (to_bytes (content_hash e))"
  have e: "encode_entity e = encode_head MAJOR_MAP (word_of_nat 3) @ concat (map (\<lambda>x. x) [?x, ?y, ?z])"
    by (simp add: encode_entity_def encode_head_def major_values)
  have "length ?x < 2 ^ 64" "length ?y < 2 ^ 64" "length ?z < 2 ^ 64"
    using assms(2) by (auto simp: encode_entity_def)
  then have "is_items 2 ?x" "is_items 2 ?y" "is_items 2 ?z"
    using assms(1) by (auto intro!: is_items_pair is_items_text is_items_bstr simp: entity_wire_ok_def)
  then have "is_items 6 (concat (map (\<lambda>x. x) [?x, ?y, ?z]))"
    using is_items_concat [of "[?x, ?y, ?z]" 2 "\<lambda>x. x"] assms(2) unfolding e by auto
  then show ?thesis using is_item_map [of 3] assms(2) unfolding e by simp
qed

text \<open>A map of entities under their own hashes.\<close>

definition included_ok :: "(hash, entity) btree \<Rightarrow> bool" where
  "included_ok inc \<longleftrightarrow> bt_wf inc \<and> (\<forall>(h, e) \<in> set inc. h = content_hash e \<and> entity_wire_ok e)"

definition envelope_wire_ok :: "envelope \<Rightarrow> bool" where
  "envelope_wire_ok env \<longleftrightarrow> entity_wire_ok (root env) \<and> included_ok (included env)"

lemma bt_insert_last: "(\<And>x. x \<in> fst ` set m \<Longrightarrow> x < k) \<Longrightarrow> bt_insert k v m = m @ [(k, v)]"
proof (induction m)
  case (Cons x m)
  have "fst x < k" using Cons.prems by simp
  then show ?case using Cons by (cases x) force
qed simp

lemma included_entry:
  assumes "d = pre @ encode_cbor_bstr (to_bytes (content_hash e)) @ encode_entity e @ rest" "length d < 2 ^ 64" "entity_wire_ok e"
  shows "included_loop d (Suc k) (length pre) acc =
    included_loop d k (length (pre @ encode_cbor_bstr (to_bytes (content_hash e)) @ encode_entity e)) (bt_insert (content_hash e) e acc)"
proof -
  define h x where "h = encode_cbor_bstr (to_bytes (content_hash e))" and "x = encode_entity e"
  have d: "d = (pre @ h) @ x @ rest" by (simp add: assms(1) h_def x_def)
  have l: "length x < 2 ^ 64" using assms(2) d by simp
  have "decode_cbor_bytes d (length pre) = Inr (to_bytes (content_hash e), length (pre @ h))"
    using decode_bytes_at [of pre "to_bytes (content_hash e)" "x @ rest"] assms(2) by (simp add: d h_def)
  moreover have "cbor_item_end d (length (pre @ h)) = Inr (length (pre @ h @ x))"
    using item_end_at [of x "pre @ h" rest] is_item_entity [OF assms(3)] l assms(2) by (simp add: d x_def)
  moreover have "byte_range d (length (pre @ h)) (length (pre @ h @ x)) = x"
    using byte_range_at [of "pre @ h" x rest] by (simp add: d add.assoc)
  moreover have "decode_entity x = Inr e"
    using decode_encode_entity [OF assms(3)] l by (simp add: x_def)
  moreover have "from_bytes (to_bytes (content_hash e)) = Inr (content_hash e)"
    using assms(3) by (simp add: entity_wire_ok_def from_to_bytes)
  ultimately show ?thesis by (simp add: result_eval flip: h_def x_def)
qed

lemma included_loop_at:
  assumes "d = pre @ encode_included inc @ rest" "length d < 2 ^ 64"
    "\<forall>(h, e) \<in> set inc. h = content_hash e \<and> entity_wire_ok e" "bt_wf (acc @ inc)"
  shows "included_loop d (length inc) (length pre) acc = Inr (acc @ inc)"
  using assms
proof (induction inc arbitrary: pre acc)
  case (Cons p inc)
  obtain h e where p: "p = (h, e)" by force
  have h: "h = content_hash e" "entity_wire_ok e" using Cons.prems(3) p by auto
  let ?x = "encode_cbor_bstr (to_bytes (content_hash e)) @ encode_entity e"
  have d: "d = pre @ encode_cbor_bstr (to_bytes (content_hash e)) @ encode_entity e @ (encode_included inc @ rest)"
    using Cons.prems(1) by (simp add: p h encode_included_def)
  have b: "bt_insert (content_hash e) e acc = acc @ [p]"
    unfolding p h(1)
    by (rule bt_insert_last) (use Cons.prems(4) in \<open>auto simp: bt_wf_def sorted_wrt_append p h\<close>)
  have "included_loop d (length inc) (length (pre @ ?x)) (acc @ [p]) = Inr ((acc @ [p]) @ inc)"
    using Cons.prems d by (intro Cons.IH) auto
  then show ?case
    using included_entry [OF d Cons.prems(2) h(2), of "length inc" acc]
    by (simp add: b del: included_loop.simps(2))
qed simp

lemma is_items_included:
  assumes "\<forall>(h, e) \<in> set inc. h = content_hash e \<and> entity_wire_ok e" "length (encode_included inc) < 2 ^ 64"
  shows "is_items (2 * length inc) (encode_included inc)"
proof -
  let ?f = "\<lambda>(h, e). encode_cbor_bstr (to_bytes h) @ encode_entity e"
  have "is_items 2 (?f p)" if p: "p \<in> set inc" for p
  proof -
    have "length (?f p) < 2 ^ 64"
      using length_concat_elem [OF p, of ?f] assms(2) unfolding encode_included_def by linarith
    then show ?thesis using p assms(1) by (auto intro!: is_items_pair is_items_bstr is_item_entity)
  qed
  then show ?thesis using is_items_concat [of inc 2 ?f] assms(2) by (simp add: encode_included_def)
qed

lemma length_included: "length inc \<le> length (encode_included inc)"
  by (induction inc) (auto simp: encode_included_def encode_entity_def)

lemma step_root:
  assumes "d = pre @ encode_entity e @ rest" "length d < 2 ^ 64" "entity_wire_ok e"
  shows "envelope_step d ''root'' (length pre) (length (pre @ encode_entity e)) acc = Inr (acc\<lparr>va_root := Some e\<rparr>)"
  using byte_range_at [of pre "encode_entity e" rest] decode_encode_entity [OF assms(3)] assms(2)
  by (simp add: assms(1) envelope_step_def result_eval)

lemma step_included:
  assumes "d = pre @ encode_head MAJOR_MAP (word_of_nat (length inc)) @ encode_included inc" "length d < 2 ^ 64"
    "included_ok inc" "length inc < 2 ^ 64" "va_included acc = []"
  shows "envelope_step d ''included'' (length pre) c acc = Inr (acc\<lparr>va_included := inc\<rparr>)"
proof -
  let ?h = "encode_head MAJOR_MAP (word_of_nat (length inc)) :: bytes"
  have "open_item 5 w d (length pre) = Inr (length inc, length (pre @ ?h))" for w
    using assms(4) parse_head [of MAJOR_MAP pre "word_of_nat (length inc)" "encode_included inc"]
    by (simp add: assms(1) open_item_def result_eval unat_of_nat)
  moreover have "included_loop d (length inc) (length (pre @ ?h)) [] = Inr ([] @ inc)"
    using assms by (intro included_loop_at) (auto simp: included_ok_def)
  ultimately show ?thesis by (simp add: envelope_step_def result_eval assms(5))
qed

lemma decode_encode_envelope:
  assumes "envelope_wire_ok env" "length (encode_envelope env) < 2 ^ 64"
  shows "decode_envelope (encode_envelope env) = Inr env"
proof -
  define d where "d = encode_envelope env"
  define m where "m = (if included env = [] then [0xA1] else [0xA2] :: bytes)"
  define k where "k = (if included env = [] then 0 else 1 :: nat)"
  define rt it where "rt = encode_cbor_text ''root''" and "it = encode_cbor_text ''included''"
  define x where "x = encode_entity (root env)"
  define y where "y = encode_head MAJOR_MAP (word_of_nat (length (included env))) @ encode_included (included env)"
  have ok: "entity_wire_ok (root env)" "included_ok (included env)" using assms(1) by (auto simp: envelope_wire_ok_def)
  have d: "d = m @ rt @ x @ (if included env = [] then [] else it @ y)"
    by (simp add: d_def encode_envelope_def m_def rt_def it_def x_def y_def)
  have len: "length d < 2 ^ 64" using assms(2) by (simp add: d_def)
  have o: "open_item 5 w d 0 = Inr (Suc k, length m)" for w
  proof -
    have "m = encode_head MAJOR_MAP (word_of_nat (Suc k))"
      by (cases "included env = []") (simp_all add: m_def k_def encode_head_def major_values)
    then show ?thesis using open_map [of "Suc k" w "rt @ x @ (if included env = [] then [] else it @ y)"]
      unfolding d by (simp add: k_def)
  qed
  have r: "map_loop (envelope_step d) d (Suc k) (length m) acc =
    map_loop (envelope_step d) d k (length (m @ rt @ x)) (acc\<lparr>va_root := Some (root env)\<rparr>)" for acc
    unfolding rt_def using step_root [of d "m @ rt" "root env"] len ok(1) is_item_entity [OF ok(1)]
    by (intro map_loop_entry) (auto simp: d rt_def x_def)
  have i: "map_loop (envelope_step d) d 1 (length (m @ rt @ x)) acc = Inr (acc\<lparr>va_included := included env\<rparr>)"
    if inc: "included env \<noteq> []" and acc: "va_included acc = []" for acc
  proof -
    have ly: "length y < 2 ^ 64" using len inc by (simp add: d)
    then have li: "length (included env) < 2 ^ 64"
      using length_included [of "included env"] by (simp add: y_def)
    have "is_item y" using ly li ok(2) is_items_included [of "included env"]
      unfolding y_def by (intro is_item_map) (auto simp: included_ok_def)
    then have "map_loop (envelope_step d) d (Suc 0) (length (m @ rt @ x)) acc =
      map_loop (envelope_step d) d 0 (length ((m @ rt @ x) @ it @ y)) (acc\<lparr>va_included := included env\<rparr>)"
      unfolding it_def using step_included [of d "m @ rt @ x @ it" "included env" acc] len ok(2) acc li inc
      by (intro map_loop_entry) (auto simp: d it_def y_def)
    then show ?thesis by simp
  qed
  have "map_loop (envelope_step d) d (Suc k) (length m) \<lparr>va_root = None, va_included = []\<rparr> =
    Inr \<lparr>va_root = Some (root env), va_included = included env\<rparr>"
    using r i by (auto simp: k_def simp del: map_loop.simps(2))
  then show ?thesis by (simp add: decode_envelope_def o result_eval with_included_def flip: d_def del: map_loop.simps(2))
qed

section \<open>Slices of what was walked\<close>

lemma nth_byte_range: "s \<le> c \<Longrightarrow> c < e \<Longrightarrow> e \<le> length d \<Longrightarrow> byte_range d s e ! (c - s) = d ! c"
  by (simp add: byte_range_def)

lemma length_byte_range [simp]: "e \<le> length d \<Longrightarrow> length (byte_range d s e) = e - s"
  by (simp add: byte_range_def)

lemma byte_range_slice:
  "s \<le> a \<Longrightarrow> b \<le> e \<Longrightarrow> e \<le> length d \<Longrightarrow> byte_range (byte_range d s e) (a - s) (b - s) = byte_range d a b"
  by (cases "a \<le> b") (simp_all add: byte_range_def drop_take min_def)

lemma head_arg_slice:
  assumes "head_arg d c m n w = Inr r" "s \<le> c" "c + 1 + n \<le> e" "e \<le> length d"
  shows "head_arg (byte_range d s e) (c - s) m n w = Inr r"
proof -
  have "c - s + 1 + n = c + 1 + n - s" "c - s + 1 = c + 1 - s" using assms(2) by auto
  then show ?thesis
    using assms byte_range_slice [of s "c + 1" "c + 1 + n" e d] by (auto simp: head_arg_def split: if_splits)
qed

lemma head_arg_size: "head_arg d c m n w = Inr (m', v, h) \<Longrightarrow> h = 1 + n"
  by (auto simp: head_arg_def split: if_splits)

lemma head_slice:
  assumes "parse_cbor_head d c = Inr (m, v, h)" "s \<le> c" "c + h \<le> e" "e \<le> length d"
  shows "parse_cbor_head (byte_range d s e) (c - s) = Inr (m, v, h)"
proof -
  have h: "0 < h" using head_bounds [OF assms(1)] by simp
  then have n: "byte_range d s e ! (c - s) = d ! c" using assms(2-4) by (intro nth_byte_range) auto
  have a: "head_arg (byte_range d s e) (c - s) m' k w = Inr (m, v, h)"
    if "head_arg d c m' k w = Inr (m, v, h)" for m' k w
    using head_arg_slice [OF that assms(2) _ assms(4)] head_arg_size [OF that] assms(3) by simp
  show ?thesis
    using assms h by (auto simp: parse_cbor_head_def n Let_def a split: if_splits)
qed

lemma payload_slice:
  "payload_end d c v = Inr c' \<Longrightarrow> s \<le> c \<Longrightarrow> c' \<le> e \<Longrightarrow> e \<le> length d \<Longrightarrow>
   payload_end (byte_range d s e) (c - s) v = Inr (c' - s)"
  by (auto simp: payload_end_def Let_def split: if_splits)

lemma step_slice:
  assumes "item_step d c = Inr (n, c')" "s \<le> c" "c' \<le> e" "e \<le> length d"
  shows "item_step (byte_range d s e) (c - s) = Inr (n, c' - s)"
proof -
  obtain m v h where h: "parse_cbor_head d c = Inr (m, v, h)"
    using assms(1) by (auto simp: item_step_def split: sum.splits)
  have "c + h \<le> c'"
    using assms(1) h by (auto simp: item_step_def Let_def dest: payload_bounds split: sum.splits if_splits)
  then have "parse_cbor_head (byte_range d s e) (c - s) = Inr (m, v, h)"
    using head_slice [OF h assms(2)] assms(3,4) by simp
  then show ?thesis
    using assms h payload_slice [of d "c + h" v c' s e]
    by (auto simp: item_step_def Let_def split: sum.splits if_splits)
qed

lemma items_mono: "items_end d k c = Inr c' \<Longrightarrow> c \<le> c'"
  using items_bounds [of d k c c'] by simp

lemma items_slice:
  "items_end d k c = Inr c' \<Longrightarrow> s \<le> c \<Longrightarrow> c' \<le> e \<Longrightarrow> e \<le> length d \<Longrightarrow>
   items_end (byte_range d s e) k (c - s) = Inr (c' - s)"
proof (induction d k c arbitrary: c' rule: items_end.induct)
  case (2 d k c)
  obtain n c1 c2 where 1: "item_step d c = Inr (n, c1)" "items_end d n c1 = Inr c2" "items_end d k c2 = Inr c'"
    by (rule items_end_SucE [OF "2.prems"(1)])
  have o: "c < c1" "c1 \<le> c2" "c2 \<le> c'" using step_bounds [OF 1(1)] items_mono [OF 1(2)] items_mono [OF 1(3)] by auto
  show ?case
    using step_slice [OF 1(1) "2.prems"(2) _ "2.prems"(4)] "2.IH"(1) [OF 1(1) refl 1(2)]
      "2.IH"(2) [OF 1(1) refl 1(2,3)] "2.prems" o by (simp add: result_eval)
qed simp

lemma item_end_bounds: "cbor_item_end d s = Inr e \<Longrightarrow> s < e \<and> e \<le> length d"
  unfolding cbor_item_end_def using items_bounds [of d 1 s e] by simp

lemma is_item_slice:
  assumes "cbor_item_end d s = Inr e"
  shows "is_item (byte_range d s e)"
  using items_slice [of d 1 s e s e] assms item_end_bounds [OF assms]
  unfolding is_item_def is_items_def cbor_item_end_def by simp

section \<open>What the decoders deliver\<close>

lemma map_loop_inv:
  assumes "map_loop step d k c acc = Inr acc'" "P acc"
    "\<And>key s e a a'. cbor_item_end d s = Inr e \<Longrightarrow> step key s e a = Inr a' \<Longrightarrow> P a \<Longrightarrow> P a'"
  shows "P acc'"
  using assms(1,2)
proof (induction k arbitrary: c acc)
  case (Suc k)
  then show ?case using assms(3) by (fastforce simp: result_simps)
qed simp

lemma of_char_char_of_byte: "of_char (char_of (unat b)) = (b :: u8)"
proof -
  have "of_char (char_of (unat b)) = (of_nat (of_char (char_of (unat b))) :: u8)" by (simp only: of_nat_of_char)
  also have "\<dots> = b" using unsigned_less [of b, where 'a=nat] by simp
  finally show ?thesis .
qed

lemma str_bytes_bytes_str [simp]: "str_bytes (bytes_str bs) = bs"
  by (induction bs) (simp_all add: str_bytes_def bytes_str_def of_char_char_of_byte)

definition entity_acc_ok :: "entity_acc \<Rightarrow> bool" where
  "entity_acc_ok a \<longleftrightarrow> (\<forall>x. ea_data a = Some x \<longrightarrow> is_item x) \<and>
     (\<forall>t. ea_type a = Some t \<longrightarrow> utf8_ok (str_bytes t)) \<and> (\<forall>h. ea_hash a = Some h \<longrightarrow> hash_ok h)"

lemma decode_text_utf8: "decode_cbor_text d c = Inr (t, e) \<Longrightarrow> utf8_ok (str_bytes t)"
  by (auto simp: decode_cbor_text_def result_simps Let_def split: sum.splits if_splits)

lemma from_bytes_ok: "from_bytes bs = Inr h \<Longrightarrow> hash_ok h"
  by (auto simp: from_bytes_def Let_def Hash_new_def hash_ok_def digest_len_for_format_def format_defs
      split: sum.splits option.splits if_splits prod.splits)

lemma entity_step_ok:
  assumes "cbor_item_end d s = Inr e" "entity_step d key s e a = Inr a'" "entity_acc_ok a"
  shows "entity_acc_ok a'"
  using assms is_item_slice [OF assms(1)]
  by (auto simp: entity_step_def entity_acc_ok_def result_simps dest: decode_text_utf8 from_bytes_ok split: if_splits)

lemma decode_entity_ok:
  assumes "decode_entity d = Inr e"
  shows "entity_wire_ok e"
proof -
  obtain n c acc where l: "map_loop (entity_step d) d n c entity_acc_init = Inr acc"
    and e: "ea_type acc = Some (entity_type e)" "ea_data acc = Some (data e)" "ea_hash acc = Some (content_hash e)"
    using assms by (auto simp: decode_entity_def result_simps)
  have "entity_acc_ok acc"
    by (rule map_loop_inv [OF l, of entity_acc_ok])
      (simp add: entity_acc_ok_def entity_acc_init_def, rule entity_step_ok)
  then show ?thesis using e by (simp add: entity_acc_ok_def entity_wire_ok_def)
qed

lemma included_loop_ok:
  "included_loop d k c inc = Inr inc' \<Longrightarrow> included_ok inc \<Longrightarrow> included_ok inc'"
proof (induction k arbitrary: c inc)
  case (Suc k)
  from Suc.prems(1) obtain hb s h t e where
    e: "decode_entity (byte_range d s t) = Inr e" "h = content_hash e"
    and l: "included_loop d k t (bt_insert h e inc) = Inr inc'"
    by (auto simp: result_simps split: if_splits)
  have "included_ok (bt_insert h e inc)"
    using Suc.prems(2) set_bt_insert [of h e inc] decode_entity_ok [OF e(1)] e(2) by (fastforce simp: included_ok_def)
  then show ?case by (rule Suc.IH [OF l])
qed simp

definition envelope_acc_ok :: "envelope_acc \<Rightarrow> bool" where
  "envelope_acc_ok a \<longleftrightarrow> (\<forall>r. va_root a = Some r \<longrightarrow> entity_wire_ok r) \<and> included_ok (va_included a)"

lemma envelope_step_ok:
  "envelope_step d key s e a = Inr a' \<Longrightarrow> envelope_acc_ok a \<Longrightarrow> envelope_acc_ok a'"
  by (auto simp: envelope_step_def envelope_acc_ok_def result_simps dest: decode_entity_ok included_loop_ok split: if_splits)

lemma decode_envelope_ok:
  assumes "decode_envelope d = Inr env"
  shows "envelope_wire_ok env"
proof -
  obtain n c acc r where l: "map_loop (envelope_step d) d n c \<lparr>va_root = None, va_included = []\<rparr> = Inr acc"
    and e: "va_root acc = Some r" "env = with_included r (va_included acc)"
    using assms by (auto simp: decode_envelope_def result_simps)
  have "envelope_acc_ok acc"
    by (rule map_loop_inv [OF l, of envelope_acc_ok])
      (simp add: envelope_acc_ok_def included_ok_def, rule envelope_step_ok)
  then show ?thesis using e by (simp add: envelope_acc_ok_def envelope_wire_ok_def with_included_def)
qed

end
