(* ===== verification/Wire_Main.thy ===== *)
theory Wire_Main
  imports Wire_Codec
begin

text \<open>
  The correctness of the wire codec: the grammar of the items the walker accepts, frames as a function
  of the bytes a stream delivers, the raw map helpers, and the round trips and guarantees of the
  entity and envelope codecs.
\<close>

section \<open>The grammar of what the walker accepts\<close>

text \<open>The head of an item as RFC 8949 (section 3) lays it out: three bits of major type and five bits of additional
  information, which is the argument itself below 24 and announces 1, 2, 4 or 8 big-endian bytes of it at 24 to 27.  The values 28 to 31
  (reserved, indefinite length) begin no head.\<close>

inductive is_head :: "bytes \<Rightarrow> u8 \<Rightarrow> u64 \<Rightarrow> bool" where
  immediate: "unat b = 32 * unat m + n \<Longrightarrow> n < 24 \<Longrightarrow> is_head [b] m (word_of_nat n)"
| following: "unat b = 32 * unat m + n \<Longrightarrow> (n, length bs) \<in> {(24, 1), (25, 2), (26, 4), (27, 8)} \<Longrightarrow>
    is_head (b # bs) m (word_of_nat (from_be_bytes bs))"

text \<open>Definite-length CBOR without tags.\<close>

inductive cbor_item :: "bytes \<Rightarrow> bool" where
  scalar: "is_head h m v \<Longrightarrow> m \<in> {0, 1, 7} \<Longrightarrow> cbor_item h"
| string: "is_head h m v \<Longrightarrow> m \<in> {2, 3} \<Longrightarrow> length xs = unat v \<Longrightarrow> cbor_item (h @ xs)"
| array: "is_head h 4 v \<Longrightarrow> length xs = unat v \<Longrightarrow> (\<And>x. x \<in> set xs \<Longrightarrow> cbor_item x) \<Longrightarrow> cbor_item (h @ concat xs)"
| map: "is_head h 5 v \<Longrightarrow> length xs = 2 * unat v \<Longrightarrow> (\<And>x. x \<in> set xs \<Longrightarrow> cbor_item x) \<Longrightarrow> cbor_item (h @ concat xs)"

lemma initial_byte:
  "unat (drop_bit 5 (b :: u8)) = unat b div 32" "unat (b AND 0x1F) = unat b mod 32"
proof -
  show "unat (drop_bit 5 b) = unat b div 32" by (simp add: drop_bit_eq_div unat_div_distrib)
  have "b AND 0x1F = take_bit 5 b" by (simp add: take_bit_eq_mask mask_eq_exp_minus_1)
  then show "unat (b AND 0x1F) = unat b mod 32" by (simp add: take_bit_eq_mod unat_mod_distrib)
qed

lemma initial_byte_iff:
  "n < 32 \<Longrightarrow> unat (b :: u8) = 32 * unat m + n \<longleftrightarrow> m = drop_bit 5 b \<and> n = unat (b AND 0x1F)"
  by (auto simp: initial_byte word_unat_eq_iff)

lemma additional_info:
  "((b :: u8) AND 0x1F \<le> 23) = (unat (b AND 0x1F) < 24)"
  "(b AND 0x1F = 24) = (unat (b AND 0x1F) = 24)" "(b AND 0x1F = 25) = (unat (b AND 0x1F) = 25)"
  "(b AND 0x1F = 26) = (unat (b AND 0x1F) = 26)" "(b AND 0x1F = 27) = (unat (b AND 0x1F) = 27)"
  by (auto simp: word_le_nat_alt word_unat_eq_iff)

lemma ucast_nat: "(ucast (a :: u8) :: u64) = word_of_nat (unat a)"
  by simp

lemma head_arg_whole: "head_arg (b # bs) 0 m n what = Inr (m', v, Suc (length bs)) \<longleftrightarrow>
  length bs = n \<and> m' = m \<and> v = word_of_nat (from_be_bytes bs)"
  by (auto simp: head_arg_def byte_range_def)

lemma is_head_iff: "is_head h m v \<longleftrightarrow> parse_cbor_head h 0 = Inr (m, v, length h)"
proof
  assume "is_head h m v"
  then show "parse_cbor_head h 0 = Inr (m, v, length h)"
  proof cases
    case (immediate b n)
    then have "m = drop_bit 5 b" "n = unat (b AND 0x1F)" using initial_byte_iff [of n b m] by auto
    then show ?thesis using immediate by (simp add: parse_cbor_head_def additional_info)
  next
    case (following b n bs)
    then have "m = drop_bit 5 b" "n = unat (b AND 0x1F)" using initial_byte_iff [of n b m] by auto
    then show ?thesis using following by (auto simp: parse_cbor_head_def additional_info head_arg_whole Let_def)
  qed
next
  assume p: "parse_cbor_head h 0 = Inr (m, v, length h)"
  then obtain b bs where h: "h = b # bs" by (cases h) (auto simp: parse_cbor_head_def)
  let ?n = "unat (b AND 0x1F)"
  have m: "m = drop_bit 5 b"
    using p by (auto simp: h parse_cbor_head_def head_arg_def Let_def split: if_splits)
  have n: "?n < 32" by (simp add: initial_byte)
  then have u: "unat b = 32 * unat m + ?n" using initial_byte_iff [OF n, of b m] m by blast
  show "is_head h m v"
  proof (cases "?n < 24")
    case True
    then have "bs = []" "v = word_of_nat ?n" using p by (auto simp: h parse_cbor_head_def additional_info Let_def)
    then show ?thesis using is_head.immediate [OF u True] by (simp add: h)
  next
    case False
    have "(?n, length bs) \<in> {(24, 1), (25, 2), (26, 4), (27, 8)}" "v = word_of_nat (from_be_bytes bs)"
      using p False by (auto simp: h parse_cbor_head_def additional_info head_arg_whole Let_def split: if_splits)
    then show ?thesis using is_head.following [OF u] by (simp add: h)
  qed
qed

lemma byte_range_append: "s \<le> m \<Longrightarrow> m \<le> e \<Longrightarrow> byte_range d s m @ byte_range d m e = byte_range d s e"
proof -
  assume a: "s \<le> m" "m \<le> e"
  have "byte_range d s e = take (m - s + (e - m)) (drop s d)" using a by (simp add: byte_range_def)
  also have "\<dots> = byte_range d s m @ take (e - m) (drop (m - s) (drop s d))" by (simp add: byte_range_def take_add)
  finally show ?thesis using a by (simp add: byte_range_def)
qed

lemma drop_3_major: "drop_bit 5 (b :: u8) < 8"
  using unsigned_less [of b, where 'a=nat]
  by (simp add: word_less_nat_alt drop_bit_eq_div unat_div_distrib less_mult_imp_div_less)

lemma major_range: "parse_cbor_head d c = Inr (m, v, h) \<Longrightarrow> m \<in> {0, 1, 2, 3, 4, 5, 6, 7}"
proof -
  assume "parse_cbor_head d c = Inr (m, v, h)"
  then have "m = drop_bit 5 (d ! c)" by (auto simp: parse_cbor_head_def head_arg_def Let_def split: if_splits)
  then have "unat m < 8" using drop_3_major [of "d ! c"] by (simp add: word_less_nat_alt)
  then have "unat m \<in> {0, 1, 2, 3, 4, 5, 6, 7}" by auto
  then show ?thesis by (auto simp: word_unat_eq_iff)
qed

lemma step_item:
  assumes "item_step d c = Inr (n, c1)" "length xs = n" "\<And>x. x \<in> set xs \<Longrightarrow> cbor_item x"
  shows "cbor_item (byte_range d c c1 @ concat xs)"
proof -
  obtain m v h where h: "parse_cbor_head d c = Inr (m, v, h)"
    using assms(1) by (auto simp: item_step_def split: sum.splits)
  have b: "0 < h" "c + h \<le> length d" "c1 \<le> length d" using head_bounds [OF h] step_bounds [OF assms(1)] by auto
  have i: "is_head (byte_range d c (c + h)) m v"
    using head_slice [OF h, of c "c + h"] b by (simp add: is_head_iff)
  have p: "byte_range d c c1 = byte_range d c (c + h) @ byte_range d (c + h) c1" "length (byte_range d (c + h) c1) = unat v" "n = 0"
    if "m \<in> {2, 3}"
    using that assms(1) h b byte_range_append [of c "c + h" c1 d]
    by (auto simp: item_step_def payload_end_def Let_def split: if_splits)
  show ?thesis
  proof (cases "m \<in> {2, 3}")
    case True
    then show ?thesis using cbor_item.string [OF i True p(2)] p assms(2) by simp
  next
    case False
    then show ?thesis
      using major_range [OF h] assms h i b
      by (auto simp: item_step_def intro: cbor_item.intros split: if_splits)
  qed
qed

lemma items_grammar:
  "items_end d k c = Inr c' \<Longrightarrow>
   \<exists>xs. length xs = k \<and> (\<forall>x \<in> set xs. cbor_item x) \<and> byte_range d c c' = concat xs"
proof (induction d k c arbitrary: c' rule: items_end.induct)
  case (1 d c)
  then show ?case by (simp add: byte_range_def)
next
  case (2 d k c)
  obtain n c1 c2 where 1: "item_step d c = Inr (n, c1)" "items_end d n c1 = Inr c2" "items_end d k c2 = Inr c'"
    by (rule items_end_SucE [OF "2.prems"])
  obtain xs ys where xs: "length xs = n" "\<forall>x \<in> set xs. cbor_item x" "byte_range d c1 c2 = concat xs"
    and ys: "length ys = k" "\<forall>x \<in> set ys. cbor_item x" "byte_range d c2 c' = concat ys"
    using "2.IH"(1) [OF 1(1) refl 1(2)] "2.IH"(2) [OF 1(1) refl 1(2,3)] by blast
  have o: "c \<le> c1" "c1 \<le> c2" "c2 \<le> c'" using step_bounds [OF 1(1)] items_mono [OF 1(2)] items_mono [OF 1(3)] by auto
  have "byte_range d c c' = concat ((byte_range d c c1 @ concat xs) # ys)"
    using o byte_range_append [of c c1 c' d] byte_range_append [of c1 c2 c' d] xs(3) ys(3) by simp
  moreover have "cbor_item (byte_range d c c1 @ concat xs)" using step_item [OF 1(1) xs(1)] xs(2) by blast
  ultimately show ?case using ys by (intro exI [of _ "(byte_range d c c1 @ concat xs) # ys"]) auto
qed

lemma is_head_step:
  "is_head h m v \<Longrightarrow> parse_cbor_head (h @ xs) 0 = Inr (m, v, length h)"
  using head_local [of h 0 "(m, v, length h)" "[]" xs] by (simp add: is_head_iff)

lemma cbor_item_is_item: "cbor_item bs \<Longrightarrow> length bs < 2 ^ 64 \<Longrightarrow> is_item bs"
proof (induction rule: cbor_item.induct)
  case (scalar h m v)
  then show ?case by (auto simp: is_item_def is_items_def is_head_iff item_step_def result_eval)
next
  case (string h m v xs)
  have "v = word_of_nat (length xs)" using string.hyps(3) by simp
  then have "payload_end (h @ xs) (length h) v = Inr (length h + length xs)"
    using payload_whole [of "[]" h xs "[]"] string.prems by simp
  then show ?case using is_head_step [OF string.hyps(1), of xs] string.hyps(2)
    by (auto simp: is_item_def is_items_def item_step_def result_eval)
next
  case (array h v xs)
  have "is_item x" if "x \<in> set xs" for x
    using array.IH [OF that] length_concat_elem [OF that, of "\<lambda>x. x"] array.prems by simp
  then have "is_items (unat v) (concat xs)"
    using is_items_concat [of xs 1 "\<lambda>x. x"] array.prems array.hyps(2) by (simp add: is_item_def)
  then show ?case
    using is_head_step [OF array.hyps(1), of "concat xs"] items_end_at [of "unat v" "concat xs" h "[]"] array.prems
    by (simp add: is_item_def is_items_def item_step_def result_eval)
next
  case (map h v xs)
  have "is_item x" if "x \<in> set xs" for x
    using map.IH [OF that] length_concat_elem [OF that, of "\<lambda>x. x"] map.prems by simp
  then have "is_items (2 * unat v) (concat xs)"
    using is_items_concat [of xs 1 "\<lambda>x. x"] map.prems map.hyps(2) by (simp add: is_item_def)
  then show ?case
    using is_head_step [OF map.hyps(1), of "concat xs"] items_end_at [of "2 * unat v" "concat xs" h "[]"] map.prems
    by (simp add: is_item_def is_items_def item_step_def result_eval)
qed

lemma is_item_cbor: "is_item bs \<Longrightarrow> cbor_item bs"
proof -
  assume "is_item bs"
  then obtain xs where xs: "length xs = 1" "\<forall>x \<in> set xs. cbor_item x" "byte_range bs 0 (length bs) = concat xs"
    using items_grammar [of bs 1 0 "length bs"] unfolding is_item_def is_items_def by blast
  then obtain x where "xs = [x]" by (auto simp: length_Suc_conv)
  then show ?thesis using xs by (simp add: byte_range_def)
qed

section \<open>Frames over a stream\<close>

text \<open>A stream without failures, and the bytes it delivers.\<close>

fun chunk_bytes :: "read_event \<Rightarrow> bytes" where
  "chunk_bytes (Chunk c) = c"
| "chunk_bytes (Broken e) = []"

definition stream_bytes :: "read_event list \<Rightarrow> bytes" where
  "stream_bytes rs = concat (map chunk_bytes rs)"

fun is_chunk :: "read_event \<Rightarrow> bool" where
  "is_chunk (Chunk c) \<longleftrightarrow> True"
| "is_chunk (Broken e) \<longleftrightarrow> False"

definition intact :: "read_event list \<Rightarrow> bool" where
  "intact rs \<longleftrightarrow> list_all is_chunk rs"

lemma read_some_intact:
  assumes "intact rs" "0 < n"
  obtains b rs' where "read_some n rs = Inr (b, rs')" "stream_bytes rs = b @ stream_bytes rs'" "intact rs'"
    "length b \<le> n" "b = [] \<longleftrightarrow> stream_bytes rs = []"
proof -
  have "\<exists>b rs'. read_some n rs = Inr (b, rs') \<and> stream_bytes rs = b @ stream_bytes rs' \<and> intact rs' \<and>
    length b \<le> n \<and> (b = [] \<longleftrightarrow> stream_bytes rs = [])"
    using assms
  proof (induction n rs rule: read_some.induct)
    case (2 n c rs)
    then show ?case by (cases "c = []") (auto simp: stream_bytes_def intact_def)
  qed (auto simp: stream_bytes_def intact_def)
  then show ?thesis using that by blast
qed

lemma fill_step:
  assumes "length buf < n" "read_some (n - length buf) rs = Inr (b, rs')"
  shows "fill eof n buf rs = (if b = [] then Inl (eof (length buf)) else fill eof n (buf @ b) rs')"
  using assms by (simp add: fill.simps [of eof n buf rs])

lemma fill_done: "n \<le> length buf \<Longrightarrow> fill eof n buf rs = Inr (buf, rs)"
  by (simp add: fill.simps [of eof n buf rs])

lemma fill_enough:
  assumes "intact rs" "length buf \<le> n" "n \<le> length buf + length (stream_bytes rs)"
  obtains rs' where "fill eof n buf rs = Inr (buf @ take (n - length buf) (stream_bytes rs), rs')" "intact rs'"
    "stream_bytes rs' = drop (n - length buf) (stream_bytes rs)"
proof -
  have "\<exists>rs'. fill eof n buf rs = Inr (buf @ take (n - length buf) (stream_bytes rs), rs') \<and> intact rs' \<and>
    stream_bytes rs' = drop (n - length buf) (stream_bytes rs)"
    using assms
  proof (induction "n - length buf" arbitrary: buf rs rule: less_induct)
    case less
    show ?case
    proof (cases "length buf < n")
      case True
      then obtain b rs' where r: "read_some (n - length buf) rs = Inr (b, rs')" "stream_bytes rs = b @ stream_bytes rs'"
        "intact rs'" "length b \<le> n - length buf" "b = [] \<longleftrightarrow> stream_bytes rs = []"
        using read_some_intact [of rs "n - length buf"] less.prems(1) by auto
      have b: "b \<noteq> []" using r(5) True less.prems(3) by auto
      have "n - length (buf @ b) < n - length buf" using b True by (cases b) auto
      then show ?thesis
        using less.hyps [of "buf @ b" rs'] r less.prems True b by (simp add: fill_step [OF True r(1)])
    next
      case False
      then show ?thesis using less.prems by (simp add: fill_done)
    qed
  qed
  then show ?thesis using that by blast
qed

lemma fill_short:
  assumes "intact rs" "length buf + length (stream_bytes rs) < n"
  shows "fill eof n buf rs = Inl (eof (length buf + length (stream_bytes rs)))"
  using assms
proof (induction "n - length buf" arbitrary: buf rs rule: less_induct)
  case less
  then have l: "length buf < n" by simp
  then obtain b rs' where r: "read_some (n - length buf) rs = Inr (b, rs')" "stream_bytes rs = b @ stream_bytes rs'"
    "intact rs'" "b = [] \<longleftrightarrow> stream_bytes rs = []"
    using read_some_intact [of rs "n - length buf", OF less.prems(1)] by (metis zero_less_diff)
  show ?case
  proof (cases "b = []")
    case True
    then show ?thesis using r(4) fill_step [OF l r(1), of eof] by simp
  next
    case False
    then have "n - length (buf @ b) < n - length buf" using l by (cases b) auto
    then show ?thesis using less.hyps [of "buf @ b" rs'] r less.prems False by (simp add: fill_step [OF l r(1)] add.assoc)
  qed
qed

text \<open>What a frame is, on the bytes of the stream: the outcome and what is left.\<close>

definition frame_spec :: "u32 \<Rightarrow> bytes \<Rightarrow> WireError + (bytes \<times> bytes)" where
  "frame_spec max_frame_size bs =
     (let len = from_be_bytes (take 4 bs); payload = drop 4 bs
      in if bs = [] then Inl (WireIo ''clean EOF at frame boundary'')
         else if length bs < 4 then Inl (TruncatedFrame ''length prefix'' (length bs) 4)
         else if len > unat max_frame_size then Inl (FrameTooLarge (word_of_nat len) max_frame_size)
         else if length payload < len then Inl (TruncatedFrame ''payload'' (length payload) len)
         else Inr (take len payload, drop len payload))"

lemma read_frame_spec:
  assumes "intact rs"
  shows "map_sum id (apsnd stream_bytes) (read_frame m rs) = frame_spec m (stream_bytes rs)"
proof -
  define bs where "bs = stream_bytes rs"
  define eof where "eof = (\<lambda>got. if got = 0 then WireIo ''clean EOF at frame boundary'' else TruncatedFrame ''length prefix'' got 4)"
  have rf: "read_frame m rs = and_then (fill eof 4 [] rs) (\<lambda>(len_buf, rs1).
      if from_be_bytes len_buf > unat m then Inl (FrameTooLarge (word_of_nat (from_be_bytes len_buf)) m)
      else fill (\<lambda>filled. TruncatedFrame ''payload'' filled (from_be_bytes len_buf)) (from_be_bytes len_buf) [] rs1)"
    by (simp add: read_frame_def eof_def Let_def)
  show ?thesis
  proof (cases "4 \<le> length bs")
    case True
    obtain rs1 where f: "fill eof 4 [] rs = Inr (take 4 bs, rs1)" "intact rs1" "stream_bytes rs1 = drop 4 bs"
      by (rule fill_enough [OF assms, of "[]" 4 eof]) (use True in \<open>simp_all add: bs_def\<close>)
    define len where "len = from_be_bytes (take 4 bs)"
    define e where "e = (\<lambda>filled. TruncatedFrame ''payload'' filled len)"
    have rf': "read_frame m rs = (if len > unat m then Inl (FrameTooLarge (word_of_nat len) m) else fill e len [] rs1)"
      by (simp add: rf f(1) result_eval e_def flip: len_def)
    have fs: "frame_spec m bs = (if len > unat m then Inl (FrameTooLarge (word_of_nat len) m)
      else if length (drop 4 bs) < len then Inl (e (length (drop 4 bs))) else Inr (take len (drop 4 bs), drop len (drop 4 bs)))"
      using True by (auto simp: frame_spec_def Let_def len_def e_def)
    show ?thesis
    proof (cases "length (drop 4 bs) < len")
      case short: True
      then show ?thesis using fill_short [OF f(2), of "[]" len e] by (simp add: rf' fs f(3) flip: bs_def)
    next
      case False
      then obtain rs2 where "fill e len [] rs1 = Inr (take len (drop 4 bs), rs2)" "stream_bytes rs2 = drop len (drop 4 bs)"
        using fill_enough [OF f(2), of "[]" len e] by (auto simp: f(3))
      then show ?thesis using False by (simp add: rf' fs flip: bs_def)
    qed
  next
    case False
    then show ?thesis using fill_short [OF assms, of "[]" 4 eof]
      by (auto simp: rf eof_def frame_spec_def Let_def result_eval simp flip: bs_def)
  qed
qed

lemma frame_spec_write:
  assumes "length p \<le> unat m"
  shows "frame_spec m (write_frame p @ rest) = Inr (p, rest)"
proof -
  have l: "length p < 2 ^ 32" using assms unsigned_less [of m, where 'a=nat] by simp
  have n: "write_frame p \<noteq> []" "length (write_frame p) = 4 + length p"
    by (simp_all add: write_frame_def be_bytes_numeral)
  have t: "take 4 (write_frame p @ rest) = be_bytes 4 (length p)" "drop 4 (write_frame p @ rest) = p @ rest"
    using l by (simp_all add: write_frame_def unat_of_nat)
  have "from_be_bytes (be_bytes 4 (length p)) = length p" using l by (intro from_be_bytes_be_bytes) simp
  then show ?thesis using assms n t by (simp add: frame_spec_def Let_def)
qed

section \<open>Fields of a raw map\<close>

definition text_item :: "string \<Rightarrow> bytes \<Rightarrow> bool" where
  "text_item t xs \<longleftrightarrow> decode_cbor_text xs 0 = Inr (t, length xs)"

lemma decode_text_bounds: "decode_cbor_text d c = Inr (t, e) \<Longrightarrow> c < e \<and> e \<le> length d"
  by (auto simp: decode_cbor_text_def result_simps Let_def dest!: head_bounds payload_bounds split: sum.splits if_splits)

lemma text_item_slice:
  assumes "decode_cbor_text d c = Inr (t, e)"
  shows "text_item t (byte_range d c e)"
proof -
  obtain v h where h: "parse_cbor_head d c = Inr (3, v, h)" and p: "payload_end d (c + h) v = Inr e"
    and u: "utf8_ok (byte_range d (c + h) e)" "t = bytes_str (byte_range d (c + h) e)"
    using assms by (auto simp: decode_cbor_text_def result_simps Let_def split: sum.splits if_splits)
  have b: "c + h \<le> e" "e \<le> length d" using payload_bounds [OF p] by auto
  have "parse_cbor_head (byte_range d c e) 0 = Inr (3, v, h)" using head_slice [OF h _ b, of c] by simp
  moreover have "payload_end (byte_range d c e) h v = Inr (e - c)" using payload_slice [OF p _ _ b(2), of c] b by simp
  moreover have "byte_range (byte_range d c e) h (e - c) = byte_range d (c + h) e"
    using byte_range_slice [of c "c + h" e e d] b by simp
  ultimately show ?thesis using u b by (simp add: text_item_def decode_cbor_text_def result_eval)
qed

lemma text_item_at:
  assumes "text_item t xs" "length (pre @ xs @ rest) < 2 ^ 64"
  shows "decode_cbor_text (pre @ xs @ rest) (length pre) = Inr (t, length pre + length xs)"
proof -
  obtain v h where h: "parse_cbor_head xs 0 = Inr (3, v, h)" and p: "payload_end xs h v = Inr (length xs)"
    and u: "utf8_ok (byte_range xs h (length xs))" "t = bytes_str (byte_range xs h (length xs))"
    using assms(1) by (auto simp: text_item_def decode_cbor_text_def result_simps Let_def split: sum.splits if_splits)
  show ?thesis
    using head_local [OF h, of pre rest] payload_local [OF p assms(2)] byte_range_local [of "length xs" xs pre rest h] u
    by (simp add: decode_cbor_text_def result_eval)
qed

lemma text_item_encode:
  assumes "utf8_ok (str_bytes t)" "length (encode_cbor_text t) < 2 ^ 64"
  shows "text_item t (encode_cbor_text t)"
  using decode_text_at [of "[]" t "[]"] assms by (simp add: text_item_def)

definition raw_entry_ok :: "bytes \<times> bytes \<Rightarrow> bool" where
  "raw_entry_ok p \<longleftrightarrow> (\<exists>t. text_item t (fst p)) \<and> is_item (snd p)"

definition flat :: "(bytes \<times> bytes) list \<Rightarrow> bytes" where
  "flat es = concat (map (\<lambda>(k, v). k @ v) es)"

lemma length_flat: "list_all raw_entry_ok es \<Longrightarrow> length es \<le> length (flat es)"
proof (induction es)
  case (Cons p es)
  have "0 < length (fst p)" using Cons.prems by (auto simp: raw_entry_ok_def text_item_def dest!: decode_text_bounds)
  moreover have "length (flat (p # es)) = length (fst p) + length (snd p) + length (flat es)"
    by (cases p) (simp add: flat_def)
  ultimately show ?case using Cons by (simp del: length_greater_0_conv)
qed (simp add: flat_def)

lemma find_field_flat:
  assumes "d = pre @ flat es @ rest" "length d < 2 ^ 64" "list_all raw_entry_ok es" "\<exists>p \<in> set es. text_item key (fst p)"
  shows "\<exists>s e p. find_field d key (length es) (length pre) = Inr (Some (s, e)) \<and> p \<in> set es \<and>
    text_item key (fst p) \<and> byte_range d s e = snd p"
  using assms
proof (induction es arbitrary: pre)
  case (Cons p es)
  obtain k v t where p: "p = (k, v)" and t: "text_item t k" and v: "is_item v"
    using Cons.prems(3) by (cases p) (auto simp: raw_entry_ok_def)
  have d: "d = pre @ k @ v @ flat es @ rest" using Cons.prems(1) by (simp add: flat_def p)
  have 1: "decode_cbor_text d (length pre) = Inr (t, length (pre @ k))"
    using text_item_at [OF t, of pre "v @ flat es @ rest"] Cons.prems(2) by (simp add: d)
  have 2: "cbor_item_end d (length (pre @ k)) = Inr (length (pre @ k @ v))"
    using item_end_at [OF v, of "pre @ k" "flat es @ rest"] Cons.prems(2) by (simp add: d add.assoc)
  show ?case
  proof (cases "t = key")
    case True
    have "byte_range d (length (pre @ k)) (length (pre @ k @ v)) = v"
      using byte_range_at [of "pre @ k" v "flat es @ rest"] by (simp add: d add.assoc)
    then show ?thesis using 1 2 True t
      by (intro exI [of _ "length (pre @ k)"] exI [of _ "length (pre @ k @ v)"] exI [of _ p]) (simp add: p result_eval)
  next
    case False
    have "\<not> text_item key k" using t False by (auto simp: text_item_def)
    then have "\<exists>p \<in> set es. text_item key (fst p)" using Cons.prems(4) p by auto
    then show ?thesis using Cons.IH [of "pre @ k @ v"] Cons.prems(2,3) 1 2 False
      by (auto simp: d result_eval)
  qed
qed simp

lemma entries_loop_ok:
  "entries_loop d key k c = Inr es \<Longrightarrow> list_all raw_entry_ok es \<and> (\<forall>p \<in> set es. \<not> text_item key (fst p))"
proof (induction k arbitrary: c es)
  case (Suc k)
  from Suc.prems obtain t a e rest where t: "decode_cbor_text d c = Inr (t, a)" and e: "cbor_item_end d a = Inr e"
    and r: "entries_loop d key k e = Inr rest"
    and es: "es = (if t \<noteq> key then (byte_range d c a, byte_range d a e) # rest else rest)"
    by (auto simp: result_simps)
  have "\<not> text_item key (byte_range d c a)" if "t \<noteq> key"
    using text_item_slice [OF t] that by (auto simp: text_item_def)
  then show ?case using Suc.IH [OF r] text_item_slice [OF t] is_item_slice [OF e] by (auto simp: es raw_entry_ok_def)
qed simp

lemma map_set_field:
  assumes "cbor_map_set_raw m key v = Inr m'" "utf8_ok (str_bytes key)" "is_item v" "length m' < 2 ^ 64"
  shows "cbor_map_field_raw m' key = Some v"
proof -
  obtain cnt c es where l: "entries_loop m key cnt c = Inr es"
    and m': "m' = encode_head MAJOR_MAP (word_of_nat (length (es @ [(encode_cbor_text key, v)]))) @ encode_entries (es @ [(encode_cbor_text key, v)])"
    using assms(1) by (auto simp: cbor_map_set_raw_def result_simps Let_def split: if_splits)
  define es' where "es' = es @ [(encode_cbor_text key, v)]"
  define L where "L = sort_key entry_key es'"
  have m: "m' = encode_head MAJOR_MAP (word_of_nat (length L)) @ flat L @ []"
    by (simp add: m' L_def es'_def encode_entries_def flat_def)
  have sL: "set L = set es'" "length L = length es'" by (simp_all add: L_def)
  have lk: "length (encode_cbor_text key) < 2 ^ 64"
    using assms(4) length_concat_elem [of "(encode_cbor_text key, v)" L "\<lambda>(k, v). k @ v"] sL(1) by (auto simp: m flat_def es'_def)
  have ok: "list_all raw_entry_ok L" "\<exists>p \<in> set L. text_item key (fst p)"
    using entries_loop_ok [OF l] text_item_encode [OF assms(2) lk] assms(3) sL(1)
    by (auto simp: list_all_iff es'_def raw_entry_ok_def)
  have u: "snd p = v" if "p \<in> set L" "text_item key (fst p)" for p
    using that entries_loop_ok [OF l] sL(1) by (auto simp: es'_def)
  have "length L \<le> length (flat L)" by (rule length_flat [OF ok(1)])
  then have "length L < 2 ^ 64" using assms(4) by (simp add: m)
  then have o: "open_item 5 w m' 0 = Inr (length L, length (encode_head MAJOR_MAP (word_of_nat (length L))))" for w
    unfolding m by (rule open_map)
  show ?thesis
    using find_field_flat [OF m assms(4) ok] u by (auto simp: cbor_map_field_raw_def o)
qed

section \<open>The wire codec is correct\<close>

definition wire_entity :: "string \<Rightarrow> u8 \<Rightarrow> entity" where
  "wire_entity t b = \<lparr>entity_type = t, data = [0x82, 0x01, 0x43, 1, 2, 3], content_hash = Hash 0 (replicate 32 b)\<rparr>"

definition wire_envelope :: envelope where
  "wire_envelope = with_included (wire_entity ''app/note'' 7)
     [(Hash 0 (replicate 32 1), wire_entity ''app/tag'' 1), (Hash 0 (replicate 32 2), wire_entity ''app/tag'' 2)]"

lemmas walk_eval = is_item_def is_items_def cbor_item_end_def item_step_def parse_cbor_head_def head_arg_def
  payload_end_def open_item_def decode_cbor_text_def byte_range_def from_be_bytes_def result_eval Let_def

lemma loops_numeral [simp]:
  "items_end d (numeral n) c =
     and_then (item_step d c) (\<lambda>(n', c1). and_then (items_end d n' c1) (items_end d (pred_numeral n)))"
  "entries_loop d key (numeral n) c = entries_loop d key (Suc (pred_numeral n)) c"
  by (simp_all only: numeral_eq_Suc items_end_Suc)

lemma ex_item: "is_item [0x82, 0x01, 0x43, 1, 2, 3]"
  by (simp add: walk_eval Let_def)

lemma wire_envelope_ok_ex: "envelope_wire_ok wire_envelope" "length (encode_envelope wire_envelope) < 2 ^ 64"
proof -
  have "bt_wf (included wire_envelope)" by code_simp
  moreover have "utf8_ok (str_bytes ''app/note'')" "utf8_ok (str_bytes ''app/tag'')" by code_simp+
  ultimately show "envelope_wire_ok wire_envelope"
    by (simp add: envelope_wire_ok_def included_ok_def entity_wire_ok_def wire_envelope_def wire_entity_def with_included_def
        ex_item hash_ok_def digest_len_for_format_def format_defs)
  have "length (encode_envelope wire_envelope) = 306" by code_simp
  then show "length (encode_envelope wire_envelope) < 2 ^ 64" by simp
qed

text \<open>
  C4. Wire round trip: an envelope whose entities hold one CBOR item each and well-formed hashes, and
  whose included entities are keyed by their hashes, is decoded from its encoding exactly as it
  was: every \<^verbatim>\<open>data\<close> field byte for byte, the included map in the same order.
\<close>

theorem envelope_roundtrip:
  assumes "envelope_wire_ok env" "length (encode_envelope env) < 2 ^ 64"
  shows "decode_envelope (encode_envelope env) = Inr env"
  using decode_encode_envelope [OF assms] .

theorem envelope_roundtrip_witness: "decode_envelope (encode_envelope wire_envelope) = Inr wire_envelope"
  by (rule envelope_roundtrip [OF wire_envelope_ok_ex])

text \<open>
  C3. What the decode boundary guarantees of any envelope it accepts, whatever the bytes: the included
  map has one entry per hash, in order, and every entity sits under its own claimed hash; every
  hash has the digest length of its format and every payload is one definite-length CBOR item with
  no tag at any depth; and encoding the envelope again gives bytes that decode to the same envelope.
\<close>

theorem accepted_envelope:
  assumes "decode_envelope d = Inr env"
  shows "bt_wf (included env) \<and> (\<forall>(h, e) \<in> set (included env). h = content_hash e) \<and>
    (\<forall>e \<in> insert (root env) (snd ` set (included env)). cbor_item (data e) \<and> hash_ok (content_hash e)) \<and>
    (length (encode_envelope env) < 2 ^ 64 \<longrightarrow> decode_envelope (encode_envelope env) = Inr env)"
proof -
  have ok: "envelope_wire_ok env" by (rule decode_envelope_ok [OF assms])
  have "cbor_item (data e) \<and> hash_ok (content_hash e)" if "entity_wire_ok e" for e
    using that by (simp add: entity_wire_ok_def is_item_cbor)
  then show ?thesis using ok decode_encode_envelope [OF ok]
    by (auto simp: envelope_wire_ok_def included_ok_def)
qed

theorem accepted_envelope_witness:
  "bt_wf (included wire_envelope) \<and> list_all (\<lambda>(h, e). h = content_hash e) (included wire_envelope) \<and>
   cbor_item (data (root wire_envelope)) \<and> decode_envelope (encode_envelope wire_envelope) = Inr wire_envelope"
  using accepted_envelope [OF decode_encode_envelope [OF wire_envelope_ok_ex]] wire_envelope_ok_ex(2)
  by (auto simp: list_all_iff)

text \<open>
  C5. The walker accepts a byte string as one item exactly when the grammar of definite-length CBOR
  without tags derives it.
\<close>

theorem walker_grammar:
  assumes "length bs < 2 ^ 64"
  shows "cbor_item_end bs 0 = Inr (length bs) \<longleftrightarrow> cbor_item bs"
  using cbor_item_is_item [OF _ assms] is_item_cbor [of bs] by (auto simp: is_item_def is_items_def cbor_item_end_def)

theorem walker_grammar_witness: "cbor_item [0x82, 0x01, 0x43, 1, 2, 3] \<and> \<not> cbor_item [0x81, 0xC0, 0x01]"
proof
  show "cbor_item [0x82, 0x01, 0x43, 1, 2, 3]"
    using walker_grammar [of "[0x82, 0x01, 0x43, 1, 2, 3]"] ex_item by (simp add: is_item_def is_items_def cbor_item_end_def)
  have "cbor_item_end [0x81, 0xC0, 0x01] 0 \<noteq> Inr (length ([0x81, 0xC0, 0x01] :: bytes))" by (simp add: walk_eval)
  then show "\<not> cbor_item [0x81, 0xC0, 0x01]" by (subst (asm) walker_grammar) simp_all
qed

text \<open>
  The walker finds exactly the end of whatever the ECF encoder wrote, at any place of a byte
  string: a payload produced by \<^verbatim>\<open>to_ecf\<close> is cut out of an envelope byte for byte.
\<close>

theorem walker_finds_ecf:
  assumes "ecf_wf v" "length (pre @ to_ecf v @ rest) < 2 ^ 64"
  shows "cbor_item_end (pre @ to_ecf v @ rest) (length pre) = Inr (length pre + length (to_ecf v)) \<and>
    byte_range (pre @ to_ecf v @ rest) (length pre) (length pre + length (to_ecf v)) = to_ecf v"
  using item_end_at [OF encode_value_item [OF assms(1)]] assms(2) by (simp add: to_ecf_def byte_range_at)

theorem walker_finds_ecf_witness:
  "cbor_item_end ([0xFF] @ to_ecf (VArray [VNull, VText ''ab'']) @ [0xFF]) (length ([0xFF] :: bytes)) =
     Inr (length ([0xFF] :: bytes) + length (to_ecf (VArray [VNull, VText ''ab'']))) \<and>
   byte_range ([0xFF] @ to_ecf (VArray [VNull, VText ''ab'']) @ [0xFF]) (length ([0xFF] :: bytes))
     (length ([0xFF] :: bytes) + length (to_ecf (VArray [VNull, VText ''ab'']))) = to_ecf (VArray [VNull, VText ''ab''])"
proof (rule walker_finds_ecf)
  have "length ([0xFF] @ to_ecf (VArray [VNull, VText ''ab'']) @ [0xFF]) = 7" by code_simp
  then show "length ([0xFF] @ to_ecf (VArray [VNull, VText ''ab'']) @ [0xFF]) < 2 ^ 64" by simp
qed simp

text \<open>
  C6. Reading a frame from a stream that delivers its bytes in any portions is the function of those
  bytes alone: a clean end of stream before the first byte, a truncated prefix or payload with the
  number of bytes seen, a declared length above the limit, or the payload with the rest left unread.
\<close>

theorem read_frame_refines:
  assumes "intact rs"
  shows "map_sum id (apsnd stream_bytes) (read_frame m rs) = frame_spec m (stream_bytes rs)"
  by (rule read_frame_spec [OF assms])

theorem read_frame_refines_witness:
  "map_sum id (apsnd stream_bytes) (read_frame 10 [Chunk [0, 0], Chunk [], Chunk [0, 2, 7], Chunk [8, 9]]) =
   frame_spec 10 (stream_bytes [Chunk [0, 0], Chunk [], Chunk [0, 2, 7], Chunk [8, 9]]) \<and>
   frame_spec 10 [0, 0, 0, 2, 7, 8, 9] = Inr ([7, 8], [9])"
  using read_frame_refines [of "[Chunk [0, 0], Chunk [], Chunk [0, 2, 7], Chunk [8, 9]]" 10]
  by (simp add: intact_def frame_spec_def from_be_bytes_def)

text \<open>
  Frames: a payload within the limit is read back from the frame written for it, however the
  stream cuts the bytes, and the bytes after it stay in the stream.
\<close>

theorem frame_roundtrip:
  assumes "intact rs" "stream_bytes rs = write_frame p @ rest" "length p \<le> unat m"
  shows "\<exists>rs'. read_frame m rs = Inr (p, rs') \<and> stream_bytes rs' = rest"
proof -
  have "map_sum id (apsnd stream_bytes) (read_frame m rs) = Inr (p, rest)"
    using read_frame_spec [OF assms(1), of m] frame_spec_write [OF assms(3)] assms(2) by simp
  then show ?thesis by (cases "read_frame m rs") auto
qed

theorem frame_roundtrip_witness:
  "\<exists>rs'. read_frame 16 [Chunk [0], Chunk [0, 0, 3, 1], Chunk [2, 3, 9]] = Inr ([1, 2, 3], rs') \<and> stream_bytes rs' = [9]"
  by (rule frame_roundtrip) code_simp+

text \<open>
  Setting a field of a raw map and reading it back gives the value byte for byte, whatever the map
  held before.
\<close>

theorem map_set_then_field:
  assumes "cbor_map_set_raw m key v = Inr m'" "utf8_ok (str_bytes key)" "is_item v" "length m' < 2 ^ 64"
  shows "cbor_map_field_raw m' key = Some v"
  by (rule map_set_field [OF assms])

theorem map_set_then_field_witness:
  "cbor_map_field_raw [0xA2, 0x61, 97, 5, 0x62, 98, 98, 0xF6] ''a'' = Some [5]"
proof (rule map_set_then_field)
  have c: "char_of (97 :: nat) = CHR ''a''" "char_of (98 :: nat) = CHR ''b''" by code_simp+
  show "cbor_map_set_raw [0xA2, 0x62, 98, 98, 0xF6, 0x61, 97, 0xF5] ''a'' [5] = Inr [0xA2, 0x61, 97, 5, 0x62, 98, 98, 0xF6]"
    by (simp add: cbor_map_set_raw_def walk_eval c capacity_ok_def utf8_cont_def bytes_str_def
        encode_cbor_text_def encode_head_def str_bytes_def major_values encode_entries_def entry_key_def)
qed (simp_all add: walk_eval str_bytes_def)

text \<open>
  A declared element count is trusted before any element is seen: nine bytes make both raw helpers
  ask for more memory than an allocation may have, which aborts instead of returning.
\<close>

theorem declared_count_panics:
  "cbor_array_elements_raw [0x9B, 0xFF, 0xFF, 0xFF, 0xFF, 0xFF, 0xFF, 0xFF, 0xFF] = Inl (WirePanic ''capacity overflow'') \<and>
   cbor_map_set_raw [0xBB, 0x7F, 0xFF, 0xFF, 0xFF, 0xFF, 0xFF, 0xFF, 0xFF] ''a'' [0xF6] = Inl (WirePanic ''capacity overflow'')"
  by (simp add: cbor_array_elements_raw_def cbor_map_set_raw_def walk_eval capacity_ok_def)

text \<open>
  The walker accepts any depth of nesting, and recurses once per level: \<open>n\<close> array heads are an item of
  depth \<open>n\<close> for every \<open>n\<close>.
\<close>

theorem nesting_unbounded: "cbor_item (replicate n 0x81 @ [0xF6])"
proof (induction n)
  case 0
  have "is_head [0xF6] 7 22" unfolding is_head_iff by code_simp
  then show ?case by (auto intro: cbor_item.scalar)
next
  case (Suc n)
  have "is_head [0x81] 4 1" unfolding is_head_iff by code_simp
  from cbor_item.array [OF this, of "[replicate n 0x81 @ [0xF6]]"] Suc show ?case by simp
qed

end
