(* ===== verification/Connect.thy ===== *)
theory Connect
  imports Wire_Main
begin

text \<open>
  The connection handshake (\<^verbatim>\<open>core/protocol/src/connect.rs\<close>): the hello and authenticate messages, the
  negotiation of the hash format, the state machine of a connection and the steps that answer a
  remote peer.  An operation that returns an error still leaves its changes to the connection, so
  each returns the connection beside its result.  The fresh nonce of \<^verbatim>\<open>Connection::new\<close> is an argument,
  and so is the decoder \<open>dec\<close>.
\<close>

definition TYPE_HELLO :: string where "TYPE_HELLO = ''system/protocol/connect/hello''"
definition TYPE_AUTHENTICATE :: string where "TYPE_AUTHENTICATE = ''system/protocol/connect/authenticate''"
definition TYPE_EXECUTE :: string where "TYPE_EXECUTE = ''system/protocol/execute''"
definition CONNECT_PATH :: string where "CONNECT_PATH = ''system/protocol/connect''"

datatype ConnectionState = AwaitingHello | AwaitingAuthenticate | Established

section \<open>Hello\<close>

record hello_data =
  hd_peer_id :: string
  hd_nonce :: bytes
  hd_protocols :: "string list"
  hd_hash_formats :: "string list"
  hd_key_types :: "string list"
  hd_timestamp :: "u64 option"

record hello_acc =
  ha_peer_id :: "string option"
  ha_nonce :: "bytes option"
  ha_protocols :: "string list"
  ha_hash_formats :: "string list option"
  ha_key_types :: "string list option"
  ha_timestamp :: "u64 option"

definition str_array :: "Value \<Rightarrow> string list" where
  "str_array v = (case as_array v of Some arr \<Rightarrow> decode_strings arr | None \<Rightarrow> [])"

definition hello_field :: "Value \<Rightarrow> Value \<Rightarrow> ProtocolError + (hello_acc \<Rightarrow> hello_acc)" where
  "hello_field k v =
     (if as_str k = Some ''peer_id'' then Inr (ha_peer_id_update (\<lambda>_. as_str v))
      else if as_str k = Some ''nonce'' then Inr (ha_nonce_update (\<lambda>_. as_bytes v))
      else if as_str k = Some ''protocols'' then Inr (ha_protocols_update (\<lambda>_. str_array v))
      else if as_str k = Some ''hash_formats'' then Inr (ha_hash_formats_update (\<lambda>_. Some (str_array v)))
      else if as_str k = Some ''key_types'' then Inr (ha_key_types_update (\<lambda>_. Some (str_array v)))
      else if as_str k = Some ''timestamp'' then Inr (ha_timestamp_update (\<lambda>_. opt_u64 v))
      else Inr id)"

definition hello_acc_init :: hello_acc where
  "hello_acc_init = \<lparr>ha_peer_id = None, ha_nonce = None, ha_protocols = [], ha_hash_formats = None,
     ha_key_types = None, ha_timestamp = None\<rparr>"

definition unwrap_or :: "'a option \<Rightarrow> 'a \<Rightarrow> 'a" where
  "unwrap_or x d = (case x of Some a \<Rightarrow> a | None \<Rightarrow> d)"

definition hello_from_entity :: "(bytes \<Rightarrow> Value option) \<Rightarrow> entity \<Rightarrow> ProtocolError + hello_data" where
  "hello_from_entity dec e =
     and_then (ensure (entity_type e = TYPE_HELLO) (PE_Invalid ''expected hello'')) (\<lambda>_.
     and_then (decode_map dec ''hello data must be a map'' (data e)) (\<lambda>m.
     and_then (run_fields hello_field m hello_acc_init) (\<lambda>a.
     and_then (ok_or (ha_peer_id a) (PE_MissingField ''peer_id'')) (\<lambda>p.
     and_then (ok_or (ha_nonce a) (PE_MissingField ''nonce'')) (\<lambda>n.
       Inr \<lparr>hd_peer_id = p, hd_nonce = n, hd_protocols = ha_protocols a,
            hd_hash_formats = unwrap_or (ha_hash_formats a) [''ecfv1-sha256''],
            hd_key_types = unwrap_or (ha_key_types a) [''ed25519''],
            hd_timestamp = ha_timestamp a\<rparr>)))))"

definition list_entry :: "string \<Rightarrow> string list \<Rightarrow> (Value \<times> Value) list" where
  "list_entry k xs = (if xs = [] then [] else [(text_val k, VArray (map text_val xs))])"

definition hello_value :: "hello_data \<Rightarrow> Value" where
  "hello_value h =
     VMap ([(text_val ''nonce'', VBytes (hd_nonce h)), (text_val ''peer_id'', text_val (hd_peer_id h))] @
           list_entry ''protocols'' (hd_protocols h) @
           list_entry ''hash_formats'' (hd_hash_formats h) @
           list_entry ''key_types'' (hd_key_types h) @
           (case hd_timestamp h of None \<Rightarrow> [] | Some ts \<Rightarrow> [(text_val ''timestamp'', integer (as_i64 (uint ts)))]))"

definition to_protocol :: "EntityError + 'a \<Rightarrow> ProtocolError + 'a" where
  "to_protocol r = map_err (\<lambda>e. PE_Invalid (entity_error_text e)) r"

definition hello_to_entity :: "digests \<Rightarrow> u8 \<Rightarrow> hello_data \<Rightarrow> ProtocolError + entity" where
  "hello_to_entity D home h = to_protocol (entity_new D home TYPE_HELLO (to_ecf (hello_value h)))"

section \<open>Authenticate\<close>

record authenticate_data =
  ad_peer_id :: string
  ad_public_key :: bytes
  ad_nonce :: bytes
  ad_key_type :: string

record authenticate_acc =
  aa_peer_id :: "string option"
  aa_public_key :: "bytes option"
  aa_nonce :: "bytes option"
  aa_key_type :: "string option"

definition authenticate_field :: "Value \<Rightarrow> Value \<Rightarrow> ProtocolError + (authenticate_acc \<Rightarrow> authenticate_acc)" where
  "authenticate_field k v =
     (if as_str k = Some ''peer_id'' then Inr (aa_peer_id_update (\<lambda>_. as_str v))
      else if as_str k = Some ''public_key'' then Inr (aa_public_key_update (\<lambda>_. as_bytes v))
      else if as_str k = Some ''nonce'' then Inr (aa_nonce_update (\<lambda>_. as_bytes v))
      else if as_str k = Some ''key_type'' then Inr (aa_key_type_update (\<lambda>_. as_str v))
      else Inr id)"

definition authenticate_acc_init :: authenticate_acc where
  "authenticate_acc_init = \<lparr>aa_peer_id = None, aa_public_key = None, aa_nonce = None, aa_key_type = None\<rparr>"

definition authenticate_from_entity :: "(bytes \<Rightarrow> Value option) \<Rightarrow> entity \<Rightarrow> ProtocolError + authenticate_data" where
  "authenticate_from_entity dec e =
     and_then (ensure (entity_type e = TYPE_AUTHENTICATE) (PE_Invalid ''expected authenticate'')) (\<lambda>_.
     and_then (decode_map dec ''authenticate data must be a map'' (data e)) (\<lambda>m.
     and_then (run_fields authenticate_field m authenticate_acc_init) (\<lambda>a.
     and_then (ok_or (aa_peer_id a) (PE_MissingField ''peer_id'')) (\<lambda>p.
     and_then (ok_or (aa_public_key a) (PE_MissingField ''public_key'')) (\<lambda>pk.
     and_then (ok_or (aa_nonce a) (PE_MissingField ''nonce'')) (\<lambda>n.
       Inr \<lparr>ad_peer_id = p, ad_public_key = pk, ad_nonce = n,
            ad_key_type = unwrap_or (aa_key_type a) ''ed25519''\<rparr>))))))"

section \<open>Negotiation\<close>

definition default_advertised_hash_formats :: "u8 \<Rightarrow> string list" where
  "default_advertised_hash_formats home_format =
     (if home_format = HASH_ALGORITHM_SHA384 then [''ecfv1-sha384'', ''ecfv1-sha256''] else [''ecfv1-sha256''])"

definition default_advertised_key_types :: "string list" where
  "default_advertised_key_types = [''ed25519'', ''ed448'']"

definition default_advertised_protocols :: "string list" where
  "default_advertised_protocols = [''entity-core/1.0'']"

definition CONNECT_OPERATIONS :: "string list" where
  "CONNECT_OPERATIONS = [''authenticate'', ''hello'', ''ping'']"

definition protocols_compatible :: "string list \<Rightarrow> string list \<Rightarrow> bool" where
  "protocols_compatible initiator responder = list_ex (\<lambda>p. list_ex (\<lambda>r. r = p) responder) initiator"

definition negotiate_active_format :: "string list \<Rightarrow> string list \<Rightarrow> u8 option" where
  "negotiate_active_format initiator_order responder_set =
     (case List.find (\<lambda>f. list_ex (\<lambda>r. r = f) responder_set) initiator_order of
        None \<Rightarrow> None | Some f \<Rightarrow> format_code_for_string f)"

section \<open>The connection\<close>

record connection =
  cn_state :: ConnectionState
  local_peer_id :: string
  remote_peer_id :: "string option"
  remote_public_key :: "bytes option"
  local_nonce :: bytes
  remote_nonce :: "bytes option"
  remote_identity_hash :: "hash option"
  local_hash_formats :: "string list"
  local_key_types :: "string list"
  local_protocols :: "string list"
  local_key_type :: string
  active_hash_format :: u8

definition Connection_new :: "string \<Rightarrow> bytes \<Rightarrow> connection" where
  "Connection_new pid nonce =
     \<lparr>cn_state = AwaitingHello, local_peer_id = pid, remote_peer_id = None, remote_public_key = None,
      local_nonce = nonce, remote_nonce = None, remote_identity_hash = None,
      local_hash_formats = default_advertised_hash_formats HASH_ALGORITHM_SHA256,
      local_key_types = default_advertised_key_types, local_protocols = default_advertised_protocols,
      local_key_type = kt_label Ed25519, active_hash_format = HASH_ALGORITHM_SHA256\<rparr>"

definition set_local_advertisement :: "u8 \<Rightarrow> string \<Rightarrow> connection \<Rightarrow> connection" where
  "set_local_advertisement home_format own_key_type conn =
     conn\<lparr>local_hash_formats := default_advertised_hash_formats home_format,
          local_key_types := default_advertised_key_types,
          local_key_type := own_key_type, active_hash_format := home_format\<rparr>"

definition negotiate_active_from_response :: "hello_data \<Rightarrow> connection \<Rightarrow> (ProtocolError + u8) \<times> connection" where
  "negotiate_active_from_response response conn =
     (case negotiate_active_format (local_hash_formats conn) (hd_hash_formats response) of
        None \<Rightarrow> (Inl PE_IncompatibleHashFormat, conn)
      | Some active \<Rightarrow> (Inr active, conn\<lparr>active_hash_format := active\<rparr>))"

definition is_established :: "connection \<Rightarrow> bool" where
  "is_established conn \<longleftrightarrow> cn_state conn = Established"

definition is_connect_path :: "string \<Rightarrow> bool" where
  "is_connect_path uri \<longleftrightarrow>
     (let path = normalize_path uri in path = CONNECT_PATH \<or> starts_with path (CONNECT_PATH @ ''/''))"

section \<open>The EXECUTE that carries a connect operation\<close>

record connect_execute =
  ce_request_id :: string
  ce_uri :: string
  ce_operation :: string
  ce_params :: entity

record connect_acc =
  ka_request_id :: "string option"
  ka_uri :: "string option"
  ka_operation :: "string option"

definition connect_field :: "Value \<Rightarrow> Value \<Rightarrow> ProtocolError + (connect_acc \<Rightarrow> connect_acc)" where
  "connect_field k v =
     (if as_str k = Some ''request_id'' then Inr (ka_request_id_update (\<lambda>_. as_str v))
      else if as_str k = Some ''uri'' then Inr (ka_uri_update (\<lambda>_. as_str v))
      else if as_str k = Some ''operation'' then Inr (ka_operation_update (\<lambda>_. as_str v))
      else Inr id)"

definition wire_error_text :: "WireError \<Rightarrow> string" where
  "wire_error_text e = (case e of CborDecode s \<Rightarrow> s | CborTag _ \<Rightarrow> ''CBOR tag'' | _ \<Rightarrow> ''wire error'')"

definition parse_connect_execute :: "(bytes \<Rightarrow> Value option) \<Rightarrow> entity \<Rightarrow> ProtocolError + connect_execute" where
  "parse_connect_execute dec execute =
     and_then (ensure (entity_type execute = TYPE_EXECUTE) (PE_Invalid ''expected execute'')) (\<lambda>_.
     and_then (decode_map dec ''execute data must be a map'' (data execute)) (\<lambda>m.
     and_then (run_fields connect_field m \<lparr>ka_request_id = None, ka_uri = None, ka_operation = None\<rparr>) (\<lambda>a.
     and_then (ok_or (ka_request_id a) (PE_MissingField ''request_id'')) (\<lambda>r.
     and_then (ok_or (ka_uri a) (PE_MissingField ''uri'')) (\<lambda>u.
     and_then (ok_or (ka_operation a) (PE_MissingField ''operation'')) (\<lambda>opn.
     and_then (ok_or (cbor_map_field_raw (data execute) ''params'') (PE_MissingField ''params'')) (\<lambda>raw.
     and_then (map_err (\<lambda>e. PE_Invalid (wire_error_text e)) (decode_entity raw)) (\<lambda>params.
       Inr \<lparr>ce_request_id = r, ce_uri = u, ce_operation = opn, ce_params = params\<rparr>))))))))"

definition build_connect_execute_at :: "digests \<Rightarrow> u8 \<Rightarrow> string \<Rightarrow> string \<Rightarrow> string \<Rightarrow> entity \<Rightarrow> ProtocolError + entity" where
  "build_connect_execute_at D home uri request_id operation params_entity =
     to_protocol (entity_new D home TYPE_EXECUTE
       ([0xA4] @ encode_cbor_text ''uri'' @ encode_cbor_text uri @
        encode_cbor_text ''params'' @ encode_entity params_entity @
        encode_cbor_text ''operation'' @ encode_cbor_text operation @
        encode_cbor_text ''request_id'' @ encode_cbor_text request_id))"

definition build_connect_execute :: "digests \<Rightarrow> u8 \<Rightarrow> string \<Rightarrow> string \<Rightarrow> entity \<Rightarrow> ProtocolError + entity" where
  "build_connect_execute D home request_id operation params_entity =
     build_connect_execute_at D home CONNECT_PATH request_id operation params_entity"

text \<open>The request checks that both handshake steps share.\<close>

definition connect_request :: "(bytes \<Rightarrow> Value option) \<Rightarrow> string \<Rightarrow> envelope \<Rightarrow> ProtocolError + connect_execute" where
  "connect_request dec op env =
     and_then (parse_connect_execute dec (root env)) (\<lambda>exec.
     and_then (ensure (ce_uri exec = CONNECT_PATH) (PE_Invalid ''expected URI'')) (\<lambda>_.
     and_then (ensure (ce_operation exec = op) (PE_Invalid ''expected operation'')) (\<lambda>_. Inr exec)))"

section \<open>Answering a hello\<close>

definition check_remote_pid :: "crypto \<Rightarrow> string \<Rightarrow> ProtocolError + unit" where
  "check_remote_pid C p =
     map_err (\<lambda>e. case e of UnsupportedKeyType b \<Rightarrow> PE_UnsupportedKeyType b
                          | other \<Rightarrow> PE_ConnectionError (crypto_error_text other))
       (peer_id_validate C p)"

text \<open>The checks of \<^verbatim>\<open>process_hello\<close> up to the negotiated format, which is stored before the last one.\<close>

definition hello_checks :: "crypto \<Rightarrow> (bytes \<Rightarrow> Value option) \<Rightarrow> envelope \<Rightarrow> connection \<Rightarrow>
    ProtocolError + (connect_execute \<times> hello_data \<times> u8)" where
  "hello_checks C dec env conn =
     and_then (ensure (cn_state conn = AwaitingHello)
       (PE_ConnectionError ''unexpected hello: not in AwaitingHello state'')) (\<lambda>_.
     and_then (connect_request dec ''hello'' env) (\<lambda>exec.
     and_then (hello_from_entity dec (ce_params exec)) (\<lambda>hello.
     and_then (check_remote_pid C (hd_peer_id hello)) (\<lambda>_.
     and_then (ensure (hd_protocols hello \<noteq> []) (PE_InvalidRequest ''hello.protocols is required'')) (\<lambda>_.
     and_then (ensure (protocols_compatible (hd_protocols hello) (local_protocols conn)) PE_IncompatibleProtocol) (\<lambda>_.
     and_then (ok_or (negotiate_active_format (hd_hash_formats hello) (local_hash_formats conn))
       PE_IncompatibleHashFormat) (\<lambda>active. Inr (exec, hello, active))))))))"

definition process_hello :: "crypto \<Rightarrow> (bytes \<Rightarrow> Value option) \<Rightarrow> envelope \<Rightarrow> connection \<Rightarrow>
    (ProtocolError + (hello_data \<times> string)) \<times> connection" where
  "process_hello C dec env conn =
     (case hello_checks C dec env conn of
        Inl e \<Rightarrow> (Inl e, conn)
      | Inr (exec, hello, active) \<Rightarrow>
          (let conn1 = conn\<lparr>active_hash_format := active\<rparr>
           in if \<not> list_ex (\<lambda>k. k = local_key_type conn) (hd_key_types hello)
              then (Inl (PE_UnsupportedKeyType
                     (case kt_from_label (local_key_type conn) of Inr k \<Rightarrow> kt_byte k | Inl _ \<Rightarrow> 0xFE)), conn1)
              else (Inr (\<lparr>hd_peer_id = local_peer_id conn, hd_nonce = local_nonce conn,
                          hd_protocols = local_protocols conn, hd_hash_formats = local_hash_formats conn,
                          hd_key_types = local_key_types conn, hd_timestamp = None\<rparr>, ce_request_id exec),
                    conn1\<lparr>remote_peer_id := Some (hd_peer_id hello), remote_nonce := Some (hd_nonce hello),
                          cn_state := AwaitingAuthenticate\<rparr>)))"

section \<open>Answering an authenticate\<close>

definition authenticate_checks :: "digests \<Rightarrow> crypto \<Rightarrow> (bytes \<Rightarrow> Value option) \<Rightarrow> envelope \<Rightarrow> connection \<Rightarrow>
    ProtocolError + (connect_execute \<times> authenticate_data \<times> signature_data)" where
  "authenticate_checks D C dec env conn =
     and_then (ensure (cn_state conn = AwaitingAuthenticate)
       (PE_ConnectionError ''unexpected authenticate: not in AwaitingAuthenticate state'')) (\<lambda>_.
     and_then (connect_request dec ''authenticate'' env) (\<lambda>exec.
     and_then (authenticate_from_entity dec (ce_params exec)) (\<lambda>auth.
     and_then (map_err (\<lambda>e. PE_Invalid (crypto_error_text e)) (peer_id_decode C (ad_peer_id auth))) (\<lambda>decoded.
     and_then (map_err (\<lambda>_. PE_UnsupportedKeyType (dp_key_type decoded)) (kt_from_byte (dp_key_type decoded))) (\<lambda>kt.
     and_then (ensure (ad_nonce auth = local_nonce conn)
       (PE_InvalidNonce ''authenticate nonce does not echo the nonce issued in this connection's hello'')) (\<lambda>_.
     and_then (ok_or (find_signature_for dec env (content_hash (ce_params exec)))
       (PE_AuthenticationFailed ''no signature found for the authenticate entity'')) (\<lambda>sig_entity.
     and_then (map_err (\<lambda>_. PE_AuthenticationFailed ''malformed authenticate signature entity'')
       (signature_data_from_entity dec sig_entity)) (\<lambda>sd.
     and_then (map_err (\<lambda>_. PE_AuthenticationFailed
         ''authenticate signature does not verify against authenticate.public_key'')
       (verify_for_key_type C kt (ad_public_key auth) (to_bytes (content_hash (ce_params exec))) (sd_signature sd))) (\<lambda>_.
     and_then (ensure (verify_public_key_bytes D C (ad_peer_id auth) (ad_public_key auth))
       (PE_IdentityMismatch ''authenticate peer_id is not derived from authenticate.public_key'')) (\<lambda>_.
     and_then (ensure (case remote_peer_id conn of None \<Rightarrow> True | Some p \<Rightarrow> p = ad_peer_id auth)
       (PE_IdentityMismatch ''authenticate peer_id does not match the peer_id presented in hello'')) (\<lambda>_.
       Inr (exec, auth, sd))))))))))))"

definition process_authenticate :: "digests \<Rightarrow> crypto \<Rightarrow> (bytes \<Rightarrow> Value option) \<Rightarrow> envelope \<Rightarrow> connection \<Rightarrow>
    (ProtocolError + (string \<times> string)) \<times> connection" where
  "process_authenticate D C dec env conn =
     (case authenticate_checks D C dec env conn of
        Inl e \<Rightarrow> (Inl e, conn)
      | Inr (exec, auth, sd) \<Rightarrow>
          (Inr (ad_peer_id auth, ce_request_id exec),
           conn\<lparr>cn_state := Established, remote_peer_id := Some (ad_peer_id auth),
                remote_public_key := Some (ad_public_key auth), remote_identity_hash := Some (sd_signer sd)\<rparr>))"

section \<open>Sending an authenticate\<close>

text \<open>An identity key pair: the key type, the public key and the signing function.\<close>

record identity_keypair =
  kp_type :: KeyType
  kp_public_key :: bytes
  kp_sign :: "bytes \<Rightarrow> bytes"

text \<open>The lengths of the keys are fixed by their types, so the derivation of the peer id succeeds.\<close>

definition keypair_peer_id :: "digests \<Rightarrow> crypto \<Rightarrow> identity_keypair \<Rightarrow> CryptoError + string" where
  "keypair_peer_id D C kp =
     (case kp_type kp of
        Ed25519 \<Rightarrow> ok_or (from_public_key D C (kp_public_key kp)) InvalidPublicKey
      | k \<Rightarrow> from_public_key_with_key_type D C (kp_public_key kp) k)"

definition authenticate_value :: "authenticate_data \<Rightarrow> Value" where
  "authenticate_value a =
     VMap [(text_val ''key_type'', text_val (ad_key_type a)), (text_val ''nonce'', VBytes (ad_nonce a)),
           (text_val ''peer_id'', text_val (ad_peer_id a)), (text_val ''public_key'', VBytes (ad_public_key a))]"

definition build_authenticate_envelope ::
    "digests \<Rightarrow> crypto \<Rightarrow> u8 \<Rightarrow> identity_keypair \<Rightarrow> bytes \<Rightarrow> u8 \<Rightarrow> ProtocolError + envelope" where
  "build_authenticate_envelope D C home kp nonce active_format =
     and_then (map_err (\<lambda>e. PE_Invalid (crypto_error_text e)) (keypair_peer_id D C kp)) (\<lambda>pid.
     and_then (to_protocol (new_with_format D TYPE_AUTHENTICATE
       (to_ecf (authenticate_value \<lparr>ad_peer_id = pid, ad_public_key = kp_public_key kp, ad_nonce = nonce,
          ad_key_type = kt_label (kp_type kp)\<rparr>)) active_format)) (\<lambda>auth_entity.
     and_then (map_err (\<lambda>e. PE_Invalid (crypto_error_text e))
       (peer_entity_from_components_with_key_type D (kp_public_key kp) (kp_type kp))) (\<lambda>identity.
     and_then (to_protocol (new_with_format D TYPE_SIGNATURE
       (to_ecf (signature_value \<lparr>sd_target = content_hash auth_entity, sd_signer = content_hash identity,
          sd_algorithm = kt_label (kp_type kp), sd_signature = kp_sign kp (to_bytes (content_hash auth_entity))\<rparr>))
       active_format)) (\<lambda>sig_entity.
     and_then (build_connect_execute D home ''connect-authenticate'' ''authenticate'' auth_entity) (\<lambda>exec_entity.
       Inr (env_include D sig_entity (env_include D identity (env_include D auth_entity (envelope_new exec_entity)))))))))"

end
