(* ===== verification/Connect_Main.thy ===== *)
theory Connect_Main
  imports Connect
begin

text \<open>
  The handshake, proved: its messages are read as they were written, the state machine keeps its
  invariant for every sequence of received messages, an honest initiator arrives at an established
  connection, and what an established connection says about the remote peer.
\<close>

section \<open>The messages are read as they were written\<close>

lemma commuting_hello: "commuting hello_field"
  by (auto simp: commuting_def hello_field_def split: if_splits)

lemma commuting_authenticate: "commuting authenticate_field"
  by (auto simp: commuting_def authenticate_field_def split: if_splits)

lemma commuting_connect: "commuting connect_field"
  by (auto simp: commuting_def connect_field_def split: if_splits)

lemma decode_map_inverts:
  "dec_inverts dec (VMap m) \<Longrightarrow> decode_map dec what (to_ecf (VMap m)) = Inr (sort_key key_order (map canon_entry m))"
  by (simp add: decode_map_def dec_inverts_def canon_entry_def [abs_def] result_eval)

lemma authenticate_roundtrip:
  assumes "entity_type e = TYPE_AUTHENTICATE" "data e = to_ecf (authenticate_value a)" "dec_inverts dec (authenticate_value a)"
  shows "authenticate_from_entity dec e = Inr a"
proof -
  let ?m = "[(text_val ''key_type'', text_val (ad_key_type a)), (text_val ''nonce'', VBytes (ad_nonce a)),
    (text_val ''peer_id'', text_val (ad_peer_id a)), (text_val ''public_key'', VBytes (ad_public_key a))]"
  have "run_fields authenticate_field (sort_key key_order (map canon_entry ?m)) x = run_fields authenticate_field (map canon_entry ?m) x" for x
    by (rule run_fields_canon [OF commuting_authenticate]) (auto simp: all_ok_def authenticate_field_def)
  moreover have "decode_map dec w (data e) = Inr (sort_key key_order (map canon_entry ?m))" for w
    using decode_map_inverts assms(2,3) unfolding authenticate_value_def by metis
  ultimately show ?thesis
    by (simp add: authenticate_from_entity_def assms(1) result_eval authenticate_field_def authenticate_acc_init_def unwrap_or_def)
qed

text \<open>What a receiver reads: an empty list is not sent, and read as the default.\<close>

definition hello_received :: "hello_data \<Rightarrow> hello_data" where
  "hello_received h = h\<lparr>hd_hash_formats := (if hd_hash_formats h = [] then [''ecfv1-sha256''] else hd_hash_formats h),
     hd_key_types := (if hd_key_types h = [] then [''ed25519''] else hd_key_types h)\<rparr>"

lemma run_list_entry:
  "run_fields hello_field (map canon_entry (list_entry k xs) @ rest) acc =
     (if xs = [] then run_fields hello_field rest acc
      else case hello_field (text_val k) (VArray (map text_val xs)) of
             Inl e \<Rightarrow> Inl e | Inr u \<Rightarrow> run_fields hello_field rest (u acc))"
  by (simp add: list_entry_def comp_def)

lemma hello_roundtrip:
  assumes "entity_type e = TYPE_HELLO" "data e = to_ecf (hello_value h)" "dec_inverts dec (hello_value h)"
    "\<forall>ts. hd_timestamp h = Some ts \<longrightarrow> unat ts < 2 ^ 63"
  shows "hello_from_entity dec e = Inr (hello_received h)"
proof -
  define T where "T = (case hd_timestamp h of None \<Rightarrow> [] | Some ts \<Rightarrow> [(text_val ''timestamp'', integer (as_i64 (uint ts)))])"
  define m where "m = [(text_val ''nonce'', VBytes (hd_nonce h)), (text_val ''peer_id'', text_val (hd_peer_id h))] @
    list_entry ''protocols'' (hd_protocols h) @ list_entry ''hash_formats'' (hd_hash_formats h) @
    list_entry ''key_types'' (hd_key_types h) @ T"
  have ts: "opt_u64 (integer (as_i64 (uint ts))) = Some ts" if "unat ts < 2 ^ 63" for ts :: u64
    using opt_u64_small [OF that] by (simp add: integer_def)
  have m: "hello_value h = VMap m" by (simp add: hello_value_def m_def T_def)
  have "run_fields hello_field (sort_key key_order (map canon_entry m)) x = run_fields hello_field (map canon_entry m) x" for x
    by (rule run_fields_canon [OF commuting_hello])
      (auto simp: m_def T_def list_entry_def all_ok_def hello_field_def split: option.splits)
  moreover have "decode_map dec w (data e) = Inr (sort_key key_order (map canon_entry m))" for w
    using decode_map_inverts assms(2,3) unfolding m by metis
  moreover have "run_fields hello_field (map canon_entry m) hello_acc_init =
    Inr \<lparr>ha_peer_id = Some (hd_peer_id h), ha_nonce = Some (hd_nonce h), ha_protocols = hd_protocols h,
      ha_hash_formats = (if hd_hash_formats h = [] then None else Some (hd_hash_formats h)),
      ha_key_types = (if hd_key_types h = [] then None else Some (hd_key_types h)), ha_timestamp = hd_timestamp h\<rparr>"
  proof -
    have t: "run_fields hello_field (map canon_entry T) a = Inr (a\<lparr>ha_timestamp := hd_timestamp h\<rparr>)" if "ha_timestamp a = None" for a
      using that assms(4) ts by (auto simp: T_def hello_field_def integer_def split: option.splits)
    show ?thesis by (simp add: m_def run_list_entry t hello_field_def str_array_def hello_acc_init_def)
  qed
  ultimately show ?thesis
    by (simp add: hello_from_entity_def assms(1) result_eval hello_received_def unwrap_or_def)
qed

section \<open>The EXECUTE\<close>

definition execute_payload :: "string \<Rightarrow> string \<Rightarrow> string \<Rightarrow> entity \<Rightarrow> bytes" where
  "execute_payload uri request_id operation p =
     [0xA4] @ encode_cbor_text ''uri'' @ encode_cbor_text uri @
     encode_cbor_text ''params'' @ encode_entity p @
     encode_cbor_text ''operation'' @ encode_cbor_text operation @
     encode_cbor_text ''request_id'' @ encode_cbor_text request_id"

text \<open>The same bytes as a value, for a payload that encodes the value \<open>v\<close>.\<close>

definition entity_value :: "entity \<Rightarrow> Value \<Rightarrow> Value" where
  "entity_value e v = VMap [(text_val ''data'', v), (text_val ''type'', text_val (entity_type e)),
     (text_val ''content_hash'', VBytes (to_bytes (content_hash e)))]"

definition execute_value :: "string \<Rightarrow> string \<Rightarrow> string \<Rightarrow> entity \<Rightarrow> Value \<Rightarrow> Value" where
  "execute_value uri request_id operation p v =
     VMap [(text_val ''uri'', text_val uri), (text_val ''params'', entity_value p v),
           (text_val ''operation'', text_val operation), (text_val ''request_id'', text_val request_id)]"

lemma encode_map_in_order:
  assumes "sorted (map entry_key (map (\<lambda>e. (encode_value (fst e), encode_value (snd e))) m))"
  shows "encode_value (VMap m) =
    encode_head MAJOR_MAP (word_of_nat (length m)) @ concat (map (\<lambda>e. encode_value (fst e) @ encode_value (snd e)) m)"
  using assms by (simp add: encode_entries_def sort_key_id_if_sorted comp_def)

lemma encode_text_val [simp]: "encode_value (text_val s) = encode_cbor_text s"
  by (simp add: text_val_def)

lemma key_orders:
  "entry_key (encode_cbor_text ''data'', x) \<le> entry_key (encode_cbor_text ''type'', y)"
  "entry_key (encode_cbor_text ''type'', x) \<le> entry_key (encode_cbor_text ''content_hash'', y)"
  "entry_key (encode_cbor_text ''data'', x) \<le> entry_key (encode_cbor_text ''content_hash'', y)"
  "entry_key (encode_cbor_text ''uri'', x) \<le> entry_key (encode_cbor_text ''params'', y)"
  "entry_key (encode_cbor_text ''uri'', x) \<le> entry_key (encode_cbor_text ''operation'', y)"
  "entry_key (encode_cbor_text ''uri'', x) \<le> entry_key (encode_cbor_text ''request_id'', y)"
  "entry_key (encode_cbor_text ''params'', x) \<le> entry_key (encode_cbor_text ''request_id'', y)"
  "entry_key (encode_cbor_text ''params'', x) \<le> entry_key (encode_cbor_text ''operation'', y)"
  "entry_key (encode_cbor_text ''operation'', x) \<le> entry_key (encode_cbor_text ''request_id'', y)"
  by (simp_all add: entry_key_def encode_cbor_text_def encode_head_def str_bytes_def major_values)

lemma encode_entity_value:
  assumes "data e = to_ecf v"
  shows "encode_value (entity_value e v) = encode_entity e"
  unfolding entity_value_def
  by (subst encode_map_in_order)
    (simp_all add: key_orders encode_entity_def assms to_ecf_def encode_head_def major_values)

lemma execute_payload_value:
  assumes "data p = to_ecf v"
  shows "to_ecf (execute_value u r op p v) = execute_payload u r op p"
  unfolding execute_value_def to_ecf_def
  by (subst encode_map_in_order)
    (simp_all add: key_orders execute_payload_def encode_entity_value [OF assms] encode_head_def major_values)

lemma connect_names [simp]:
  "utf8_ok (str_bytes ''uri'')" "utf8_ok (str_bytes ''params'')" "utf8_ok (str_bytes ''operation'')"
  "utf8_ok (str_bytes ''request_id'')"
  by code_simp+

lemma params_raw:
  assumes "length (execute_payload u r op p) < 2 ^ 64" "entity_wire_ok p"
  shows "cbor_map_field_raw (execute_payload u r op p) ''params'' = Some (encode_entity p)"
proof -
  let ?t = encode_cbor_text
  define es where "es = [(?t ''uri'', ?t u), (?t ''params'', encode_entity p), (?t ''operation'', ?t op), (?t ''request_id'', ?t r)]"
  define h where "h = (encode_head MAJOR_MAP (word_of_nat 4) :: bytes)"
  have d: "execute_payload u r op p = h @ flat es @ []"
    by (simp add: execute_payload_def flat_def es_def h_def encode_head_def major_values)
  have len: "length (execute_payload u r op p) < 2 ^ 64" by fact
  have l: "length (?t ''uri'') < 2 ^ 64" "length (?t u) < 2 ^ 64" "length (?t ''params'') < 2 ^ 64" "length (encode_entity p) < 2 ^ 64"
    "length (?t ''operation'') < 2 ^ 64" "length (?t op) < 2 ^ 64" "length (?t ''request_id'') < 2 ^ 64" "length (?t r) < 2 ^ 64"
    using len by (simp_all add: execute_payload_def)
  have ti: "text_item ''uri'' (?t ''uri'')" "text_item ''params'' (?t ''params'')" "text_item ''operation'' (?t ''operation'')"
    "text_item ''request_id'' (?t ''request_id'')"
    using l by (simp_all add: text_item_encode)
  have ok: "list_all raw_entry_ok es"
    using ti l is_item_entity [OF assms(2)] by (auto simp: es_def raw_entry_ok_def is_items_text)
  have u: "s = t" if "text_item s x" "text_item t x" for s t x using that by (simp add: text_item_def)
  have only: "snd q = encode_entity p" if "q \<in> set es" "text_item ''params'' (fst q)" for q
    using that u [OF _ ti(1)] u [OF _ ti(3)] u [OF _ ti(4)] by (fastforce simp: es_def)
  have o: "open_item 5 w (execute_payload u r op p) 0 = Inr (4, length h)" for w
    unfolding d h_def by (rule open_map) simp
  have ex: "\<exists>q \<in> set es. text_item ''params'' (fst q)" using ti(2) by (auto simp: es_def)
  have n: "length es = 4" by (simp add: es_def)
  from find_field_flat [OF d len ok ex, unfolded n] obtain s e q where
    f: "find_field (execute_payload u r op p) ''params'' 4 (length h) = Inr (Some (s, e))" "q \<in> set es" "text_item ''params'' (fst q)"
      "byte_range (execute_payload u r op p) s e = snd q"
    by blast
  then show ?thesis using only [OF f(2,3)] by (simp add: cbor_map_field_raw_def o)
qed

text \<open>An EXECUTE is read as it was written when its parameters are an entity whose payload encodes a value.\<close>

lemma parse_connect_execute_built:
  assumes "entity_type x = TYPE_EXECUTE" "data x = execute_payload u r op p" "length (data x) < 2 ^ 64"
    "entity_wire_ok p" "data p = to_ecf v" "dec_inverts dec (execute_value u r op p v)"
  shows "parse_connect_execute dec x = Inr \<lparr>ce_request_id = r, ce_uri = u, ce_operation = op, ce_params = p\<rparr>"
proof -
  let ?m = "[(text_val ''uri'', text_val u), (text_val ''params'', entity_value p v),
    (text_val ''operation'', text_val op), (text_val ''request_id'', text_val r)]"
  have "run_fields connect_field (sort_key key_order (map canon_entry ?m)) a = run_fields connect_field (map canon_entry ?m) a" for a
    by (rule run_fields_canon [OF commuting_connect]) (auto simp: all_ok_def connect_field_def)
  moreover have "decode_map dec w (data x) = Inr (sort_key key_order (map canon_entry ?m))" for w
    using decode_map_inverts [of dec ?m w] assms(6) execute_payload_value [OF assms(5), of u r op] assms(2)
    by (simp only: execute_value_def)
  moreover have "decode_entity (encode_entity p) = Inr p"
    using assms(2,3,4) by (intro decode_encode_entity) (simp_all add: execute_payload_def)
  moreover have "cbor_map_field_raw (data x) ''params'' = Some (encode_entity p)"
    using params_raw assms(2,3,4) by simp
  ultimately show ?thesis
    by (simp add: parse_connect_execute_def assms(1) result_eval connect_field_def)
qed

section \<open>Accepting an authenticate\<close>

text \<open>
  What the responder checks of an authenticate with parameters \<open>p\<close>: the payload of \<open>p\<close>, and a
  signature over the hash that \<open>p\<close> carries.
\<close>

lemma authenticate_accepted:
  assumes exec: "connect_request dec ''authenticate'' env = Inr x"
    and auth: "authenticate_from_entity dec (ce_params x) = Inr a" "ad_nonce a = local_nonce conn"
    and pid: "peer_id_decode C (ad_peer_id a) = Inr d" "kt_from_byte (dp_key_type d) = Inr kt"
      "verify_public_key_bytes D C (ad_peer_id a) (ad_public_key a)"
    and sig: "find_signature_for dec env (content_hash (ce_params x)) = Some s" "signature_data_from_entity dec s = Inr sd"
      "verify_for_key_type C kt (ad_public_key a) (to_bytes (content_hash (ce_params x))) (sd_signature sd) = Inr ()"
    and conn: "cn_state conn = AwaitingAuthenticate" "remote_peer_id conn = Some (ad_peer_id a)"
  shows "process_authenticate D C dec env conn =
    (Inr (ad_peer_id a, ce_request_id x),
     conn\<lparr>cn_state := Established, remote_peer_id := Some (ad_peer_id a),
          remote_public_key := Some (ad_public_key a), remote_identity_hash := Some (sd_signer sd)\<rparr>)"
  using assms by (simp add: process_authenticate_def authenticate_checks_def result_eval)

lemma authenticate_checks_Inr:
  assumes "authenticate_checks D C dec env conn = Inr (x, a, sd)"
  obtains d kt s where "cn_state conn = AwaitingAuthenticate" "connect_request dec ''authenticate'' env = Inr x"
    "authenticate_from_entity dec (ce_params x) = Inr a" "ad_nonce a = local_nonce conn"
    "peer_id_decode C (ad_peer_id a) = Inr d" "kt_from_byte (dp_key_type d) = Inr kt"
    "find_signature_for dec env (content_hash (ce_params x)) = Some s" "signature_data_from_entity dec s = Inr sd"
    "verify_for_key_type C kt (ad_public_key a) (to_bytes (content_hash (ce_params x))) (sd_signature sd) = Inr ()"
    "verify_public_key_bytes D C (ad_peer_id a) (ad_public_key a)"
    "\<forall>p. remote_peer_id conn = Some p \<longrightarrow> p = ad_peer_id a"
  using assms by (auto simp: authenticate_checks_def result_simps split: option.splits)

lemma hello_checks_Inr:
  assumes "hello_checks C dec env conn = Inr (x, h, active)"
  obtains "cn_state conn = AwaitingHello" "connect_request dec ''hello'' env = Inr x"
    "hello_from_entity dec (ce_params x) = Inr h" "peer_id_validate C (hd_peer_id h) = Inr ()"
    "protocols_compatible (hd_protocols h) (local_protocols conn)"
    "negotiate_active_format (hd_hash_formats h) (local_hash_formats conn) = Some active"
  using assms by (auto simp: hello_checks_def check_remote_pid_def result_simps)

section \<open>The state machine\<close>

text \<open>A connection answers the remote peer's messages, whatever they are and in whatever order.\<close>

inductive conn_step :: "digests \<Rightarrow> crypto \<Rightarrow> (bytes \<Rightarrow> Value option) \<Rightarrow> connection \<Rightarrow> connection \<Rightarrow> bool"
  for D C dec where
  hello: "conn_step D C dec conn (snd (process_hello C dec env conn))"
| authenticate: "conn_step D C dec conn (snd (process_authenticate D C dec env conn))"

definition fresh :: "connection \<Rightarrow> bool" where
  "fresh conn \<longleftrightarrow> (\<exists>pid nonce home kt. conn = set_local_advertisement home kt (Connection_new pid nonce))"

inductive_cases conn_stepE: "conn_step D C dec conn conn'"

text \<open>What the responder has seen when it takes a connection for established: an authenticate message that
  echoes the nonce issued here, under an identifier of the key it presents, and a signature of that key over the content hash
  that the message carries.  The code does not recompute this hash; where it is the hash of the message, the key has signed
  the hash of this very message, nonce included.\<close>

definition authenticated :: "digests \<Rightarrow> crypto \<Rightarrow> (bytes \<Rightarrow> Value option) \<Rightarrow> bytes \<Rightarrow> string \<Rightarrow> bytes \<Rightarrow> hash \<Rightarrow> bool" where
  "authenticated D C dec nonce pid pk signer \<longleftrightarrow>
     (\<exists>env x a d kt s sd. connect_request dec ''authenticate'' env = Inr x \<and>
        authenticate_from_entity dec (ce_params x) = Inr a \<and> ad_nonce a = nonce \<and> ad_peer_id a = pid \<and> ad_public_key a = pk \<and>
        peer_id_decode C pid = Inr d \<and> kt_from_byte (dp_key_type d) = Inr kt \<and> verify_public_key_bytes D C pid pk \<and>
        find_signature_for dec env (content_hash (ce_params x)) = Some s \<and> signature_data_from_entity dec s = Inr sd \<and>
        sd_signer sd = signer \<and>
        verify_for_key_type C kt pk (to_bytes (content_hash (ce_params x))) (sd_signature sd) = Inr () \<and>
        (entity_validate D (ce_params x) = Inr () \<longrightarrow>
          (\<exists>h. compute_format D TYPE_AUTHENTICATE (data (ce_params x)) (algorithm (content_hash (ce_params x))) = Inr h \<and>
             verify_for_key_type C kt pk (to_bytes h) (sd_signature sd) = Inr ())))"

lemma validated_hash:
  "entity_validate D e = Inr () \<Longrightarrow> compute_format D (entity_type e) (data e) (algorithm (content_hash e)) = Inr (content_hash e)"
  by (auto simp: entity_validate_def hash_validate_def split: sum.splits HashError.splits if_splits)

lemma authenticate_type: "authenticate_from_entity dec e = Inr a \<Longrightarrow> entity_type e = TYPE_AUTHENTICATE"
  by (auto simp: authenticate_from_entity_def result_simps)

definition conn_inv :: "digests \<Rightarrow> crypto \<Rightarrow> (bytes \<Rightarrow> Value option) \<Rightarrow> connection \<Rightarrow> connection \<Rightarrow> bool" where
  "conn_inv D C dec c0 c \<longleftrightarrow>
     local_peer_id c = local_peer_id c0 \<and> local_nonce c = local_nonce c0 \<and> local_protocols c = local_protocols c0 \<and>
     local_hash_formats c = local_hash_formats c0 \<and> local_key_types c = local_key_types c0 \<and> local_key_type c = local_key_type c0 \<and>
     (case cn_state c of
        AwaitingHello \<Rightarrow> remote_peer_id c = None \<and> remote_nonce c = None \<and> remote_public_key c = None \<and> remote_identity_hash c = None
      | AwaitingAuthenticate \<Rightarrow>
          (\<exists>p. remote_peer_id c = Some p \<and> peer_id_validate C p = Inr ()) \<and> remote_nonce c \<noteq> None \<and>
          remote_public_key c = None \<and> remote_identity_hash c = None
      | Established \<Rightarrow>
          (\<exists>p pk signer. remote_peer_id c = Some p \<and> remote_public_key c = Some pk \<and> remote_identity_hash c = Some signer \<and>
             peer_id_validate C p = Inr () \<and> authenticated D C dec (local_nonce c) p pk signer) \<and> remote_nonce c \<noteq> None)"

lemma conn_inv_hello:
  assumes "conn_inv D C dec c0 c"
  shows "conn_inv D C dec c0 (snd (process_hello C dec env c))"
proof (cases "hello_checks C dec env c")
  case (Inl e)
  then show ?thesis using assms by (simp add: process_hello_def)
next
  case (Inr r)
  obtain x h active where r: "r = (x, h, active)" by (cases r)
  then have c: "hello_checks C dec env c = Inr (x, h, active)" using Inr by simp
  have "cn_state c = AwaitingHello" "peer_id_validate C (hd_peer_id h) = Inr ()"
    by (rule hello_checks_Inr [OF c]; assumption)+
  then show ?thesis using assms c by (auto simp: process_hello_def Let_def conn_inv_def)
qed

lemma conn_inv_authenticate:
  assumes "conn_inv D C dec c0 c"
  shows "conn_inv D C dec c0 (snd (process_authenticate D C dec env c))"
proof (cases "authenticate_checks D C dec env c")
  case (Inl e)
  then show ?thesis using assms by (simp add: process_authenticate_def)
next
  case (Inr r)
  obtain x a sd where r: "r = (x, a, sd)" by (cases r)
  then have c: "authenticate_checks D C dec env c = Inr (x, a, sd)" using Inr by simp
  from authenticate_checks_Inr [OF c] obtain d kt s where f: "cn_state c = AwaitingAuthenticate"
    "connect_request dec ''authenticate'' env = Inr x"
    "authenticate_from_entity dec (ce_params x) = Inr a" "ad_nonce a = local_nonce c"
    "peer_id_decode C (ad_peer_id a) = Inr d" "kt_from_byte (dp_key_type d) = Inr kt"
    "find_signature_for dec env (content_hash (ce_params x)) = Some s" "signature_data_from_entity dec s = Inr sd"
    "verify_for_key_type C kt (ad_public_key a) (to_bytes (content_hash (ce_params x))) (sd_signature sd) = Inr ()"
    "verify_public_key_bytes D C (ad_peer_id a) (ad_public_key a)"
    "\<forall>p. remote_peer_id c = Some p \<longrightarrow> p = ad_peer_id a" by metis
  then have "authenticated D C dec (local_nonce c) (ad_peer_id a) (ad_public_key a) (sd_signer sd)"
    using validated_hash [of D "ce_params x"] authenticate_type [OF f(3)] unfolding authenticated_def by metis
  then show ?thesis using assms c f by (auto simp: process_authenticate_def conn_inv_def)
qed

lemma conn_inv_fresh: "fresh c \<Longrightarrow> conn_inv D C dec c c"
  by (auto simp: fresh_def conn_inv_def set_local_advertisement_def Connection_new_def)

lemma conn_inv_reachable:
  assumes "(conn_step D C dec)\<^sup>*\<^sup>* c0 c" "fresh c0"
  shows "conn_inv D C dec c0 c"
  using assms
proof (induction rule: rtranclp_induct)
  case base
  then show ?case by (rule conn_inv_fresh)
next
  case (step c c')
  then show ?case by (auto elim!: conn_stepE intro: conn_inv_hello conn_inv_authenticate)
qed

text \<open>The order of the states; no message takes a connection back.\<close>

fun state_rank :: "ConnectionState \<Rightarrow> nat" where
  "state_rank AwaitingHello = 0" | "state_rank AwaitingAuthenticate = 1" | "state_rank Established = 2"

lemma step_rank:
  "conn_step D C dec c c' \<Longrightarrow> state_rank (cn_state c) \<le> state_rank (cn_state c') \<and>
     state_rank (cn_state c') \<le> state_rank (cn_state c) + 1 \<and> (cn_state c = Established \<longrightarrow> c' = c)"
  by (erule conn_stepE)
    (auto simp: process_hello_def process_authenticate_def hello_checks_def authenticate_checks_def result_simps Let_def
      split: sum.splits prod.splits)

section \<open>Building what is accepted\<close>

text \<open>The four fields of a signature in the order of their encoded keys.\<close>

lemma signature_map_order:
  "sort_key key_order (map canon_entry [(text_val ''algorithm'', a), (text_val ''signature'', b), (text_val ''signer'', c), (text_val ''target'', d)]) =
   [(text_val ''signer'', canon c), (text_val ''target'', canon d), (text_val ''algorithm'', canon a), (text_val ''signature'', canon b)]"
  by (simp add: key_order_def encode_cbor_text_def encode_head_def str_bytes_def major_values)

lemma signature_scan:
  assumes "hash_ok (sd_target s)" "hash_ok (sd_signer s)" "dec_inverts dec (signature_value s)"
  shows "decode_sig_target_signer dec (to_ecf (signature_value s)) = Some (sd_target s, sd_signer s)"
proof -
  have h: "field_hash (hash_value x) = Some x" if "hash_ok x" for x
    using that by (simp add: field_hash_def hash_value_def from_to_bytes)
  show ?thesis using assms(3) h [OF assms(1)] h [OF assms(2)]
    by (simp add: dec_inverts_def signature_value_def decode_sig_target_signer_def signature_map_order canon_map)
qed

lemma find_signature_unique:
  assumes "s \<in> set es" "entity_type s = TYPE_SIGNATURE" "decode_sig_target_signer dec (data s) = Some (t, g)"
    "\<And>e. e \<in> set es \<Longrightarrow> entity_type e = TYPE_SIGNATURE \<Longrightarrow> e = s"
  shows "find_signature_for_target dec es t = Some s"
  using assms
proof (induction es)
  case Nil
  show ?case using Nil.prems(1) by simp
next
  case (Cons e es)
  show ?case
  proof (cases "entity_type e = TYPE_SIGNATURE")
    case True
    then have "e = s" using Cons.prems(4) by simp
    then show ?thesis using Cons.prems(2,3) by simp
  next
    case False
    then have "s \<in> set es" using Cons.prems(1,2) by auto
    then have "find_signature_for_target dec es t = Some s"
      by (rule Cons.IH [OF _ Cons.prems(2,3)]) (rule Cons.prems(4), simp)
    then show ?thesis using False by simp
  qed
qed

text \<open>
  An envelope whose root carries the authenticate parameters \<open>p\<close> and whose only signature is a valid
  one over the hash that \<open>p\<close> carries takes the connection to the established state.
\<close>

lemma authenticate_built:
  assumes laws: "dec_ok dec" "base58_ok C" "digests_ok D"
    and p: "entity_type p = TYPE_AUTHENTICATE" "data p = to_ecf (authenticate_value a)" "hash_ok (content_hash p)"
    and pid: "from_public_key_with_key_type D C (ad_public_key a) k = Inr (ad_peer_id a)"
    and x: "entity_type (root env) = TYPE_EXECUTE"
      "data (root env) = execute_payload CONNECT_PATH r ''authenticate'' p" "length (data (root env)) < 2 ^ 64"
    and wf: "ecf_wf (execute_value CONNECT_PATH r ''authenticate'' p (authenticate_value a))"
      "ecf_wf (signature_value sd)"
    and s: "s \<in> snd ` set (included env)" "entity_type s = TYPE_SIGNATURE" "data s = to_ecf (signature_value sd)"
      "\<And>e. e \<in> snd ` set (included env) \<Longrightarrow> entity_type e = TYPE_SIGNATURE \<Longrightarrow> e = s"
    and sd: "sd_target sd = content_hash p" "hash_ok (sd_signer sd)"
      "verify_for_key_type C k (ad_public_key a) (to_bytes (content_hash p)) (sd_signature sd) = Inr ()"
    and conn: "cn_state conn = AwaitingAuthenticate" "remote_peer_id conn = Some (ad_peer_id a)" "local_nonce conn = ad_nonce a"
  shows "process_authenticate D C dec env conn =
    (Inr (ad_peer_id a, r),
     conn\<lparr>cn_state := Established, remote_peer_id := Some (ad_peer_id a),
          remote_public_key := Some (ad_public_key a), remote_identity_hash := Some (sd_signer sd)\<rparr>)"
proof -
  have wfa: "ecf_wf (authenticate_value a)" using wf(1) by (simp add: execute_value_def entity_value_def)
  note inv = dec_ok_inverts [OF laws(1)]
  have len: "length (encode_entity p) < 2 ^ 64" using x(2,3) by (simp add: execute_payload_def)
  then have "length (to_ecf (authenticate_value a)) < 2 ^ 64" by (simp add: encode_entity_def p(2))
  then have "is_item (to_ecf (authenticate_value a))" using encode_value_item [OF wfa] by (simp only: to_ecf_def)
  moreover have "utf8_ok (str_bytes TYPE_AUTHENTICATE)" by code_simp
  ultimately have pok: "entity_wire_ok p" using p by (simp only: entity_wire_ok_def simp_thms)
  have e: "connect_request dec ''authenticate'' env = Inr \<lparr>ce_request_id = r, ce_uri = CONNECT_PATH, ce_operation = ''authenticate'', ce_params = p\<rparr>"
    using parse_connect_execute_built [OF x pok p(2) inv [OF wf(1)]] by (simp add: connect_request_def result_eval)
  note d = minted_peer_id [OF laws(2,3) pid]
  have sc: "decode_sig_target_signer dec (data s) = Some (content_hash p, sd_signer sd)"
    using signature_scan [of sd dec] inv [OF wf(2)] sd p(3) s(3) by simp
  have f: "find_signature_for dec env (content_hash p) = Some s"
    unfolding find_signature_for_def by (rule find_signature_unique [OF _ s(2) sc]) (use s(1) in simp, rule s(4), simp)
  have "signature_data_from_entity dec s = Inr sd"
    using signature_decodes [of sd s dec] sd p(3) s(2,3) inv [OF wf(2)] by simp
  then show ?thesis
    using authenticate_accepted [OF e, of a conn C _ k D s sd] authenticate_roundtrip [OF p(1,2) inv [OF wfa]] conn d f sd by simp
qed

lemma length_encode_text: "length s \<le> length (encode_cbor_text s)"
  by (simp add: encode_cbor_text_def str_bytes_def)

lemma length_encode_bstr: "length s \<le> length (encode_cbor_bstr s)"
  by (simp add: encode_cbor_bstr_def)

lemma execute_value_wf:
  assumes "length (execute_payload u r op p) < 2 ^ 64" "ecf_wf v"
  shows "ecf_wf (execute_value u r op p v)"
  using assms length_encode_text [of u] length_encode_text [of r] length_encode_text [of op]
    length_encode_text [of "entity_type p"] length_encode_bstr [of "to_bytes (content_hash p)"]
  by (simp add: execute_value_def entity_value_def execute_payload_def encode_entity_def text_val_def)

lemma length_encode_map:
  "length (to_ecf (VMap m)) = length (encode_head MAJOR_MAP (word_of_nat (length m))) +
     length (concat (map (\<lambda>e. encode_value (fst e) @ encode_value (snd e)) m))"
  using length_encode_entries [of "\<lambda>e. (encode_value (fst e), encode_value (snd e))" m] by (simp add: to_ecf_def)

lemma authenticate_value_wf:
  assumes "length (to_ecf (authenticate_value a)) < 2 ^ 64"
  shows "ecf_wf (authenticate_value a)"
  using assms length_encode_text [of "ad_key_type a"] length_encode_text [of "ad_peer_id a"]
    length_encode_bstr [of "ad_nonce a"] length_encode_bstr [of "ad_public_key a"]
  unfolding authenticate_value_def length_encode_map by (simp add: text_val_def)

lemma payload_item:
  assumes "data p = to_ecf v" "ecf_wf v" "length (execute_payload u r op p) < 2 ^ 64"
    "utf8_ok (str_bytes (entity_type p))" "hash_ok (content_hash p)"
  shows "entity_wire_ok p"
proof -
  have "length (to_ecf v) < 2 ^ 64" using assms(1,3) by (simp add: execute_payload_def encode_entity_def)
  then have "is_item (to_ecf v)" using encode_value_item [OF assms(2)] by (simp only: to_ecf_def)
  then show ?thesis using assms by (simp only: entity_wire_ok_def simp_thms)
qed

definition hello_reply :: "connection \<Rightarrow> hello_data" where
  "hello_reply conn = \<lparr>hd_peer_id = local_peer_id conn, hd_nonce = local_nonce conn, hd_protocols = local_protocols conn,
     hd_hash_formats = local_hash_formats conn, hd_key_types = local_key_types conn, hd_timestamp = None\<rparr>"

text \<open>A hello that offers something in common is accepted.\<close>

lemma hello_built:
  assumes dec: "dec_ok dec"
    and p: "entity_type p = TYPE_HELLO" "data p = to_ecf (hello_value h)" "hash_ok (content_hash p)" "ecf_wf (hello_value h)"
      "\<forall>ts. hd_timestamp h = Some ts \<longrightarrow> unat ts < 2 ^ 63"
    and x: "entity_type (root env) = TYPE_EXECUTE"
      "data (root env) = execute_payload CONNECT_PATH r ''hello'' p" "length (data (root env)) < 2 ^ 64"
    and offer: "peer_id_validate C (hd_peer_id h) = Inr ()" "protocols_compatible (hd_protocols h) (local_protocols conn)"
      "negotiate_active_format (hd_hash_formats (hello_received h)) (local_hash_formats conn) = Some active"
      "local_key_type conn \<in> set (hd_key_types (hello_received h))"
    and conn: "cn_state conn = AwaitingHello"
  shows "process_hello C dec env conn =
    (Inr (hello_reply conn, r),
     conn\<lparr>active_hash_format := active, remote_peer_id := Some (hd_peer_id h), remote_nonce := Some (hd_nonce h),
          cn_state := AwaitingAuthenticate\<rparr>)"
proof -
  note inv = dec_ok_inverts [OF dec]
  have len: "length (execute_payload CONNECT_PATH r ''hello'' p) < 2 ^ 64" using x(2,3) by simp
  have "utf8_ok (str_bytes TYPE_HELLO)" by code_simp
  then have "entity_wire_ok p" using payload_item [OF p(2,4) len] p(1,3) by simp
  from parse_connect_execute_built [OF x this p(2) inv [OF execute_value_wf [OF len p(4)]]]
  have e: "connect_request dec ''hello'' env =
    Inr \<lparr>ce_request_id = r, ce_uri = CONNECT_PATH, ce_operation = ''hello'', ce_params = p\<rparr>"
    by (simp add: connect_request_def result_eval)
  have h: "hello_from_entity dec p = Inr (hello_received h)" by (rule hello_roundtrip [OF p(1,2) inv [OF p(4)] p(5)])
  have k: "hd_peer_id (hello_received h) = hd_peer_id h" "hd_nonce (hello_received h) = hd_nonce h"
    "hd_protocols (hello_received h) = hd_protocols h" "hd_protocols h \<noteq> []"
    using offer(2) by (auto simp: hello_received_def protocols_compatible_def)
  have "hello_checks C dec env conn = Inr (\<lparr>ce_request_id = r, ce_uri = CONNECT_PATH, ce_operation = ''hello'', ce_params = p\<rparr>,
      hello_received h, active)"
    using e h k offer conn by (simp add: hello_checks_def check_remote_pid_def result_eval)
  then show ?thesis using offer(4) k by (auto simp: process_hello_def hello_reply_def Let_def list_ex_iff)
qed

section \<open>The handshake\<close>

definition signing_ok :: "crypto \<Rightarrow> identity_keypair \<Rightarrow> bool" where
  "signing_ok C kp \<longleftrightarrow>
     (\<forall>m. verify_for_key_type C (kp_type kp) (kp_public_key kp) m (kp_sign kp m) = Inr () \<and> length (kp_sign kp m) < 2 ^ 64)"

lemma keypair_peer_id_minted:
  assumes "keypair_peer_id D C kp = Inr pid" "length (kp_public_key kp) = public_key_len (kp_type kp)"
  shows "from_public_key_with_key_type D C (kp_public_key kp) (kp_type kp) = Inr pid"
  using assms
  by (cases "kp_type kp")
    (auto simp: keypair_peer_id_def ok_or_def from_public_key_def from_public_key_with_hash_type_def
      from_public_key_with_key_type_def kt_defs key_defs encode_raw_def split: option.splits sum.splits if_splits)

lemma new_with_format_Inr:
  "new_with_format D t d f = Inr e \<Longrightarrow> entity_type e = t \<and> data e = d \<and> compute_format D t d f = Inr (content_hash e)"
  by (auto simp: new_with_format_def split: if_splits sum.splits)

lemma new_hash_ok: "digests_ok D \<Longrightarrow> new_with_format D t d f = Inr e \<Longrightarrow> hash_ok (content_hash e)"
  using new_with_format_Inr compute_format_ok by blast

lemma to_protocol_Inr [simp]: "to_protocol r = Inr x \<longleftrightarrow> r = Inr x"
  by (simp add: to_protocol_def result_simps)

lemma set_env_include: "snd ` set (included (env_include D e env)) \<subseteq> insert e (snd ` set (included env))"
  using set_bt_insert [of "include_key D e" e "included env"] unfolding env_include_def by fastforce

lemma env_include_in: "e \<in> snd ` set (included (env_include D e env))"
proof -
  have "(k, v) \<in> set (bt_insert k v m)" for k v and m :: "(hash, entity) btree"
    by (induction m) auto
  then show ?thesis unfolding env_include_def by force
qed

lemma signature_value_wf:
  assumes "hash_ok (sd_target sd)" "hash_ok (sd_signer sd)" "length (sd_algorithm sd) < 2 ^ 64" "length (sd_signature sd) < 2 ^ 64"
  shows "ecf_wf (signature_value sd)"
  using assms length_to_bytes_small by (simp add: signature_value_def hash_value_def text_val_def)

text \<open>The responder's side of an authenticate message built by the holder of a key.\<close>

lemma authenticate_envelope_accepted:
  assumes laws: "dec_ok dec" "base58_ok C" "digests_ok D" "signing_ok C kp"
    and kp: "length (kp_public_key kp) = public_key_len (kp_type kp)" "keypair_peer_id D C kp = Inr pid"
    and env: "build_authenticate_envelope D C home kp nonce fmt = Inr env" "length (data (root env)) < 2 ^ 64"
    and conn: "cn_state conn = AwaitingAuthenticate" "remote_peer_id conn = Some pid" "local_nonce conn = nonce"
  obtains ih where "peer_identity_hash_with_key_type D (kp_public_key kp) (kp_type kp) = Inr ih"
    "process_authenticate D C dec env conn = (Inr (pid, ''connect-authenticate''),
       conn\<lparr>cn_state := Established, remote_peer_id := Some pid, remote_public_key := Some (kp_public_key kp),
            remote_identity_hash := Some ih\<rparr>)"
proof -
  define a where "a = \<lparr>ad_peer_id = pid, ad_public_key = kp_public_key kp, ad_nonce = nonce, ad_key_type = kt_label (kp_type kp)\<rparr>"
  from env(1) kp(2) obtain p ident s x where
    p: "new_with_format D TYPE_AUTHENTICATE (to_ecf (authenticate_value a)) fmt = Inr p"
    and i: "peer_entity_from_components_with_key_type D (kp_public_key kp) (kp_type kp) = Inr ident"
    and s: "new_with_format D TYPE_SIGNATURE (to_ecf (signature_value \<lparr>sd_target = content_hash p, sd_signer = content_hash ident,
        sd_algorithm = kt_label (kp_type kp), sd_signature = kp_sign kp (to_bytes (content_hash p))\<rparr>)) fmt = Inr s"
    and x: "build_connect_execute D home ''connect-authenticate'' ''authenticate'' p = Inr x"
    and e: "env = env_include D s (env_include D ident (env_include D p (envelope_new x)))"
    by (auto simp: build_authenticate_envelope_def result_simps a_def)
  define sd where "sd = \<lparr>sd_target = content_hash p, sd_signer = content_hash ident,
        sd_algorithm = kt_label (kp_type kp), sd_signature = kp_sign kp (to_bytes (content_hash p))\<rparr>"
  have iy: "entity_type ident = TYPE_PEER" "hash_ok (content_hash ident)"
    using i laws(3) by (auto simp: peer_entity_from_components_with_key_type_def dest: new_with_format_Inr new_hash_ok split: sum.splits if_splits)
  have r: "root env = x" by (simp add: e env_include_def envelope_new_def)
  have xd: "entity_type x = TYPE_EXECUTE" "data x = execute_payload CONNECT_PATH ''connect-authenticate'' ''authenticate'' p"
    using x by (auto simp: build_connect_execute_def build_connect_execute_at_def entity_new_def execute_payload_def dest: new_with_format_Inr)
  have pd: "entity_type p = TYPE_AUTHENTICATE" "data p = to_ecf (authenticate_value a)" "hash_ok (content_hash p)"
    using new_with_format_Inr [OF p] new_hash_ok [OF laws(3) p] by auto
  have len: "length (execute_payload CONNECT_PATH ''connect-authenticate'' ''authenticate'' p) < 2 ^ 64" using env(2) r xd by simp
  have wfa: "ecf_wf (authenticate_value a)"
    using len by (intro authenticate_value_wf) (simp add: execute_payload_def encode_entity_def pd(2))
  have "kt_label (kp_type kp) \<in> {''ed25519'', ''ed448'', ''experimental-test''}" by (cases "kp_type kp") (simp_all add: kt_defs)
  then have lk: "length (kt_label (kp_type kp)) < 2 ^ 64" by auto
  have wfs: "ecf_wf (signature_value sd)"
    using laws(4) pd(3) iy(2) lk by (intro signature_value_wf) (auto simp: sd_def signing_ok_def)
  have inc: "snd ` set (included env) \<subseteq> {s, ident, p}"
    using set_env_include [of D s "env_include D ident (env_include D p (envelope_new x))"]
      set_env_include [of D ident "env_include D p (envelope_new x)"] set_env_include [of D p "envelope_new x"]
    by (auto simp: e envelope_new_def)
  have st: "entity_type s = TYPE_SIGNATURE" "data s = to_ecf (signature_value sd)" "s \<in> snd ` set (included env)"
    using new_with_format_Inr [OF s] env_include_in by (auto simp: sd_def e)
  have only: "t = s" if "t \<in> snd ` set (included env)" "entity_type t = TYPE_SIGNATURE" for t
    using that inc iy(1) pd(1) by (auto simp: TYPE_SIGNATURE_def TYPE_PEER_def TYPE_AUTHENTICATE_def)
  have mint: "from_public_key_with_key_type D C (ad_public_key a) (kp_type kp) = Inr (ad_peer_id a)"
    using keypair_peer_id_minted [OF kp(2,1)] by (simp add: a_def)
  have "process_authenticate D C dec env conn =
    (Inr (ad_peer_id a, ''connect-authenticate''),
     conn\<lparr>cn_state := Established, remote_peer_id := Some (ad_peer_id a),
          remote_public_key := Some (ad_public_key a), remote_identity_hash := Some (sd_signer sd)\<rparr>)"
    by (rule authenticate_built [OF laws(1-3) pd mint _ _ _ execute_value_wf [OF len wfa] wfs st(3,1,2) only])
      (use xd r len conn laws(4) iy(2) in \<open>auto simp: a_def sd_def signing_ok_def\<close>)
  moreover have "peer_identity_hash_with_key_type D (kp_public_key kp) (kp_type kp) = Inr (content_hash ident)"
    using i by (simp add: peer_identity_hash_with_key_type_def)
  ultimately show ?thesis using that by (simp add: a_def sd_def)
qed

section \<open>Properties\<close>

lemma new_validates: "digests_ok D \<Longrightarrow> new_with_format D t d f = Inr e \<Longrightarrow> entity_validate D e = Inr ()"
  using new_with_format_Inr [of D t d f e] compute_format_ok [of D t d f] by (auto simp: entity_validate_iff)

text \<open>
  C2. The handshake is live and the two sides agree: an initiator that holds a signing key and offers
  something in common, and sends the hello and the authenticate that the code builds, takes the
  responder from the first message to the established state, with the peer identifier, key and
  identity hash of that key recorded; the responder answers with its own offer, and from this answer the
  initiator arrives at the same hash format.
\<close>

theorem handshake_completes:
  assumes laws: "dec_ok dec" "base58_ok C" "digests_ok D" "signing_ok C kp"
    and kp: "length (kp_public_key kp) = public_key_len (kp_type kp)" "keypair_peer_id D C kp = Inr pid"
    and hello: "hello_to_entity D home h = Inr p" "build_connect_execute D home rid ''hello'' p = Inr x"
      "ecf_wf (hello_value h)" "length (data x) < 2 ^ 64" "hd_peer_id h = pid" "hd_timestamp h = None"
    and offer: "cn_state r = AwaitingHello" "protocols_compatible (hd_protocols h) (local_protocols r)"
      "negotiate_active_format (hd_hash_formats h) (local_hash_formats r) = Some active" "local_key_type r \<in> set (hd_key_types h)"
    and auth: "build_authenticate_envelope D C home kp (local_nonce r) active = Inr env" "length (data (root env)) < 2 ^ 64"
  shows "let (answer, r1) = process_hello C dec (envelope_new x) r; (result, r2) = process_authenticate D C dec env r1
    in answer = Inr (hello_reply r, rid) \<and> result = Inr (pid, ''connect-authenticate'') \<and>
       is_established r2 \<and> remote_peer_id r2 = Some pid \<and> remote_public_key r2 = Some (kp_public_key kp) \<and>
       Inr (the (remote_identity_hash r2)) = peer_identity_hash_with_key_type D (kp_public_key kp) (kp_type kp) \<and>
       active_hash_format r2 = active \<and>
       fst (negotiate_active_from_response (hello_reply r) (r\<lparr>local_hash_formats := hd_hash_formats h\<rparr>)) = Inr active"
proof -
  have px: "entity_type p = TYPE_HELLO" "data p = to_ecf (hello_value h)" "hash_ok (content_hash p)"
    using hello(1) new_with_format_Inr new_hash_ok [OF laws(3)] by (auto simp: hello_to_entity_def entity_new_def)
  have xd: "entity_type x = TYPE_EXECUTE" "data x = execute_payload CONNECT_PATH rid ''hello'' p"
    using hello(2) by (auto simp: build_connect_execute_def build_connect_execute_at_def entity_new_def execute_payload_def dest: new_with_format_Inr)
  have mint: "from_public_key_with_key_type D C (kp_public_key kp) (kp_type kp) = Inr pid" by (rule keypair_peer_id_minted [OF kp(2,1)])
  have hr: "hello_received h = h" using offer(3,4) by (auto simp: hello_received_def negotiate_active_format_def)
  define r1 where "r1 = r\<lparr>active_hash_format := active, remote_peer_id := Some pid, remote_nonce := Some (hd_nonce h), cn_state := AwaitingAuthenticate\<rparr>"
  have 1: "process_hello C dec (envelope_new x) r = (Inr (hello_reply r, rid), r1)"
    unfolding r1_def hello(5) [symmetric]
    by (rule hello_built [OF laws(1) px hello(3)])
      (use hello xd offer minted_peer_id(2) [OF laws(2,3) mint] in \<open>auto simp: hr envelope_new_def\<close>)
  obtain ih where ih: "peer_identity_hash_with_key_type D (kp_public_key kp) (kp_type kp) = Inr ih"
    "process_authenticate D C dec env r1 = (Inr (pid, ''connect-authenticate''),
       r1\<lparr>cn_state := Established, remote_peer_id := Some pid, remote_public_key := Some (kp_public_key kp), remote_identity_hash := Some ih\<rparr>)"
    by (rule authenticate_envelope_accepted [OF laws kp auth, of r1]) (simp_all add: r1_def)
  show ?thesis using 1 ih offer(3)
    by (simp add: is_established_def r1_def negotiate_active_from_response_def hello_reply_def)
qed

text \<open>
  C1. Authentication: whatever messages a connection receives, in whatever order, when it is
  established the remote peer sent an authenticate message that echoes the nonce of this very
  connection, whose peer identifier is well formed and derived from the key the message presents, together with a signature
  that verifies under that key over the content hash the message carries.  The handshake does not recompute
  this hash; where it is the hash of the message, the signature is one over the hash of this very message, nonce included.  No
  further handshake message changes an established connection.
\<close>

theorem established_authentic:
  assumes "fresh c0" "(conn_step D C dec)\<^sup>*\<^sup>* c0 c" "is_established c"
  shows "(\<exists>pid pk signer. remote_peer_id c = Some pid \<and> remote_public_key c = Some pk \<and> remote_identity_hash c = Some signer \<and>
      peer_id_validate C pid = Inr () \<and> authenticated D C dec (local_nonce c0) pid pk signer) \<and>
    (\<forall>c'. conn_step D C dec c c' \<longrightarrow> c' = c)"
proof -
  have "conn_inv D C dec c0 c" by (rule conn_inv_reachable [OF assms(2,1)])
  then show ?thesis using assms(3) step_rank [of D C dec c] by (auto simp: conn_inv_def is_established_def)
qed

text \<open>
  The hash that the authenticate parameters carry is never compared with their content: a signature that the
  holder of a key once made over any content hash \<open>h\<close> completes the handshake in its name, for a
  fresh nonce, in an envelope whose every entity has the right hash, and with an identity hash
  of the sender's choice on record.
\<close>

theorem signature_replay_accepted:
  assumes laws: "dec_ok dec" "base58_ok C" "digests_ok D"
    and victim: "from_public_key_with_key_type D C pk k = Inr pid" "hash_ok h"
      "verify_for_key_type C k pk (to_bytes h) sg = Inr ()" "length sg < 2 ^ 64"
    and p: "p = \<lparr>entity_type = TYPE_AUTHENTICATE, data = to_ecf (authenticate_value \<lparr>ad_peer_id = pid, ad_public_key = pk,
        ad_nonce = local_nonce conn, ad_key_type = kt_label k\<rparr>), content_hash = h\<rparr>"
    and x: "build_connect_execute D home rid ''authenticate'' p = Inr x" "length (data x) < 2 ^ 64"
    and s: "new_with_format D TYPE_SIGNATURE (to_ecf (signature_value \<lparr>sd_target = h, sd_signer = mine,
        sd_algorithm = kt_label k, sd_signature = sg\<rparr>)) f = Inr s" "hash_ok mine"
    and conn: "cn_state conn = AwaitingAuthenticate" "remote_peer_id conn = Some pid"
  shows "let env = with_included x [(content_hash s, s)]; (result, conn') = process_authenticate D C dec env conn
    in validate_all D env = Inr () \<and> result = Inr (pid, rid) \<and> is_established conn' \<and>
       remote_peer_id conn' = Some pid \<and> remote_identity_hash conn' = Some mine"
proof -
  define a where "a = \<lparr>ad_peer_id = pid, ad_public_key = pk, ad_nonce = local_nonce conn, ad_key_type = kt_label k\<rparr>"
  define sd where "sd = \<lparr>sd_target = h, sd_signer = mine, sd_algorithm = kt_label k, sd_signature = sg\<rparr>"
  let ?env = "with_included x [(content_hash s, s)]"
  have xn: "new_with_format D TYPE_EXECUTE (execute_payload CONNECT_PATH rid ''authenticate'' p) home = Inr x"
    using x(1) by (simp add: build_connect_execute_def build_connect_execute_at_def entity_new_def execute_payload_def)
  have xd: "entity_type x = TYPE_EXECUTE" "data x = execute_payload CONNECT_PATH rid ''authenticate'' p"
    using new_with_format_Inr [OF xn] by auto
  have pd: "entity_type p = TYPE_AUTHENTICATE" "data p = to_ecf (authenticate_value a)" "hash_ok (content_hash p)"
    using victim(2) by (simp_all add: p a_def)
  have len: "length (execute_payload CONNECT_PATH rid ''authenticate'' p) < 2 ^ 64" using x(2) xd by simp
  have wfa: "ecf_wf (authenticate_value a)"
    using len by (intro authenticate_value_wf) (simp add: execute_payload_def encode_entity_def pd(2))
  have "kt_label k \<in> {''ed25519'', ''ed448'', ''experimental-test''}" by (cases k) (simp_all add: kt_defs)
  then have "length (kt_label k) < 2 ^ 64" by auto
  then have wfs: "ecf_wf (signature_value sd)"
    using victim(2,4) s(2) by (intro signature_value_wf) (auto simp: sd_def)
  have sn: "entity_type s = TYPE_SIGNATURE" "data s = to_ecf (signature_value sd)"
    using new_with_format_Inr [OF s(1)] by (auto simp: sd_def)
  have "process_authenticate D C dec ?env conn =
    (Inr (ad_peer_id a, rid),
     conn\<lparr>cn_state := Established, remote_peer_id := Some (ad_peer_id a),
          remote_public_key := Some (ad_public_key a), remote_identity_hash := Some (sd_signer sd)\<rparr>)"
    by (rule authenticate_built [OF laws pd _ _ _ _ execute_value_wf [OF len wfa] wfs _ sn])
      (use victim xd len conn s(2) pd in \<open>auto simp: a_def sd_def with_included_def p\<close>)
  moreover have "validate_all D ?env = Inr ()"
    using new_validates [OF laws(3) xn] new_validates [OF laws(3) s(1)] by (simp add: validate_all_def with_included_def)
  ultimately show ?thesis by (simp add: is_established_def a_def sd_def)
qed

section \<open>An example\<close>

definition hs_key :: identity_keypair where
  "hs_key = \<lparr>kp_type = Ed25519, kp_public_key = replicate 32 7, kp_sign = (\<lambda>m. take 64 (replicate 32 7 @ m @ replicate 64 0))\<rparr>"

definition hs_pid :: string where
  "hs_pid = base58 toy_crypto (1 # 0 # replicate 32 7)"

definition hs_hello :: hello_data where
  "hs_hello = \<lparr>hd_peer_id = hs_pid, hd_nonce = replicate 32 9, hd_protocols = default_advertised_protocols,
     hd_hash_formats = [''ecfv1-sha256''], hd_key_types = default_advertised_key_types, hd_timestamp = None\<rparr>"

definition hs_conn :: connection where
  "hs_conn = set_local_advertisement 0 ''ed25519'' (Connection_new ''me'' (replicate 32 5))"

definition hs_entity :: "string \<Rightarrow> bytes \<Rightarrow> entity" where
  "hs_entity t d = \<lparr>entity_type = t, data = d, content_hash = Hash 0 (replicate 32 0)\<rparr>"

lemma hs_new: "t \<noteq> [] \<Longrightarrow> d \<noteq> [] \<Longrightarrow> new_with_format toy_hashes t d 0 = Inr (hs_entity t d)"
  by (simp add: new_with_format_def compute_format_def toy_hashes_def hs_entity_def Hash_new_def Let_def
      digest_len_for_format_def format_defs)

lemma hs_key_ok: "signing_ok toy_crypto hs_key" "length (kp_public_key hs_key) = public_key_len (kp_type hs_key)"
  "keypair_peer_id toy_hashes toy_crypto hs_key = Inr hs_pid"
  by (simp_all add: signing_ok_def hs_key_def verify_for_key_type_def keypair_verify_def toy_crypto_def kt_defs key_defs
      keypair_peer_id_def from_public_key_def from_public_key_with_hash_type_def encode_raw_def raw_peer_id_def
      push_varint_u8_def hs_pid_def ok_or_def min_def le_diff_conv)

definition hs_params :: "bytes \<Rightarrow> entity" where
  "hs_params nonce = hs_entity TYPE_AUTHENTICATE (to_ecf (authenticate_value \<lparr>ad_peer_id = hs_pid, ad_public_key = replicate 32 7,
     ad_nonce = nonce, ad_key_type = ''ed25519''\<rparr>))"

lemma hs_types: "TYPE_AUTHENTICATE \<noteq> []" "TYPE_HELLO \<noteq> []" "TYPE_EXECUTE \<noteq> []" "TYPE_SIGNATURE \<noteq> []" "TYPE_PEER \<noteq> []"
  by (simp_all add: TYPE_AUTHENTICATE_def TYPE_HELLO_def TYPE_EXECUTE_def TYPE_SIGNATURE_def TYPE_PEER_def)

lemma to_ecf_VMap_ne: "to_ecf (VMap m) \<noteq> []"
  by (simp add: to_ecf_def)

lemma hs_execute:
  "build_connect_execute toy_hashes 0 r op p = Inr (hs_entity TYPE_EXECUTE (execute_payload CONNECT_PATH r op p))"
  by (simp add: build_connect_execute_def build_connect_execute_at_def entity_new_def hs_new hs_types execute_payload_def to_protocol_def map_err_def)

lemma hs_auth:
  obtains env where "build_authenticate_envelope toy_hashes toy_crypto 0 hs_key (local_nonce hs_conn) 0 = Inr env" "length (data (root env)) < 2 ^ 64"
proof -
  have l: "local_nonce hs_conn = replicate 32 5" "kp_public_key hs_key = replicate 32 7" "kp_type hs_key = Ed25519"
    by (simp_all add: hs_conn_def set_local_advertisement_def Connection_new_def hs_key_def)
  obtain i where i: "peer_entity_from_components_with_key_type toy_hashes (replicate 32 7) Ed25519 = Inr i"
    by (simp add: peer_entity_from_components_with_key_type_def kt_defs key_defs hs_new hs_types to_ecf_VMap_ne format_defs)
  have p: "hs_params (replicate 32 5) = hs_entity TYPE_AUTHENTICATE (to_ecf (authenticate_value \<lparr>ad_peer_id = hs_pid, ad_public_key = replicate 32 7,
     ad_nonce = replicate 32 5, ad_key_type = kt_label Ed25519\<rparr>))" by (simp add: hs_params_def kt_defs)
  have "length (execute_payload CONNECT_PATH ''connect-authenticate'' ''authenticate'' (hs_params (replicate 32 5))) = 335" by code_simp
  then have len: "length (execute_payload CONNECT_PATH ''connect-authenticate'' ''authenticate'' (hs_params (replicate 32 5))) < 2 ^ 64" by simp
  show ?thesis
    by (rule that, simp add: build_authenticate_envelope_def hs_key_ok l i result_eval to_protocol_def map_err_def
        hs_new hs_types to_ecf_VMap_ne authenticate_value_def signature_value_def hs_execute)
      (use len p in \<open>simp add: env_include_def envelope_new_def hs_entity_def authenticate_value_def\<close>)
qed

definition hs_exec :: entity where
  "hs_exec = hs_entity TYPE_EXECUTE (execute_payload CONNECT_PATH ''h'' ''hello'' (hs_entity TYPE_HELLO (to_ecf (hello_value hs_hello))))"

lemma hs_hello_ok:
  "hello_to_entity toy_hashes 0 hs_hello = Inr (hs_entity TYPE_HELLO (to_ecf (hello_value hs_hello)))"
  "build_connect_execute toy_hashes 0 ''h'' ''hello'' (hs_entity TYPE_HELLO (to_ecf (hello_value hs_hello))) = Inr hs_exec"
  "ecf_wf (hello_value hs_hello)" "length (data hs_exec) < 2 ^ 64"
proof -
  show "hello_to_entity toy_hashes 0 hs_hello = Inr (hs_entity TYPE_HELLO (to_ecf (hello_value hs_hello)))"
    by (simp add: hello_to_entity_def entity_new_def to_protocol_def map_err_def hs_new hs_types to_ecf_VMap_ne hello_value_def)
  show "build_connect_execute toy_hashes 0 ''h'' ''hello'' (hs_entity TYPE_HELLO (to_ecf (hello_value hs_hello))) = Inr hs_exec"
    by (simp add: hs_execute hs_exec_def)
  show "ecf_wf (hello_value hs_hello)"
    by (simp add: hello_value_def hs_hello_def hs_pid_def list_entry_def text_val_def default_advertised_protocols_def
        default_advertised_key_types_def toy_crypto_def)
  have "length (data hs_exec) = 319" by code_simp
  then show "length (data hs_exec) < 2 ^ 64" by simp
qed

lemma hs_offer:
  "cn_state hs_conn = AwaitingHello" "protocols_compatible (hd_protocols hs_hello) (local_protocols hs_conn)"
  "negotiate_active_format (hd_hash_formats hs_hello) (local_hash_formats hs_conn) = Some 0"
  "local_key_type hs_conn \<in> set (hd_key_types hs_hello)" "hd_peer_id hs_hello = hs_pid" "hd_timestamp hs_hello = None"
  by (simp_all add: hs_conn_def hs_hello_def set_local_advertisement_def Connection_new_def protocols_compatible_def
      negotiate_active_format_def default_advertised_protocols_def default_advertised_key_types_def
      default_advertised_hash_formats_def format_code_for_string_def format_defs)

lemmas hs_facts = some_decoder_ok toy_base58 toy_hashes_ok hs_key_ok hs_hello_ok hs_offer(5,6) hs_offer(1-4)

theorem handshake_completes_witness:
  "\<exists>env. build_authenticate_envelope toy_hashes toy_crypto 0 hs_key (local_nonce hs_conn) 0 = Inr env \<and>
     is_established (snd (process_authenticate toy_hashes toy_crypto some_decoder env
       (snd (process_hello toy_crypto some_decoder (envelope_new hs_exec) hs_conn))))"
proof -
  obtain env where env: "build_authenticate_envelope toy_hashes toy_crypto 0 hs_key (local_nonce hs_conn) 0 = Inr env"
    "length (data (root env)) < 2 ^ 64" by (rule hs_auth)
  from handshake_completes [OF hs_facts env] env(1) show ?thesis
    by (intro exI [of _ env]) (simp add: Let_def split: prod.splits)
qed

lemma hs_established:
  "\<exists>c. (conn_step toy_hashes toy_crypto some_decoder)\<^sup>*\<^sup>* hs_conn c \<and> is_established c"
proof -
  obtain env where env: "build_authenticate_envelope toy_hashes toy_crypto 0 hs_key (local_nonce hs_conn) 0 = Inr env"
    "length (data (root env)) < 2 ^ 64" by (rule hs_auth)
  define r1 where "r1 = hs_conn\<lparr>active_hash_format := 0, remote_peer_id := Some hs_pid, remote_nonce := Some (hd_nonce hs_hello),
    cn_state := AwaitingAuthenticate\<rparr>"
  have "process_hello toy_crypto some_decoder (envelope_new hs_exec) hs_conn = (Inr (hello_reply hs_conn, ''h''), r1)"
    unfolding r1_def hs_offer(5) [symmetric]
    by (rule hello_built [OF some_decoder_ok, where p = "hs_entity TYPE_HELLO (to_ecf (hello_value hs_hello))"])
      (use hs_hello_ok hs_offer minted_peer_id(2) [OF toy_base58 toy_hashes_ok keypair_peer_id_minted [OF hs_key_ok(3,2)]] in
        \<open>auto simp: hs_entity_def hs_exec_def envelope_new_def hello_received_def hash_ok_def digest_len_for_format_def format_defs
           negotiate_active_format_def\<close>)
  then have 1: "conn_step toy_hashes toy_crypto some_decoder hs_conn r1"
    using conn_step.hello [of toy_hashes toy_crypto some_decoder hs_conn "envelope_new hs_exec"] by simp
  have r1: "cn_state r1 = AwaitingAuthenticate" "remote_peer_id r1 = Some hs_pid" "local_nonce r1 = local_nonce hs_conn"
    by (simp_all add: r1_def)
  obtain c where "process_authenticate toy_hashes toy_crypto some_decoder env r1 = (Inr (hs_pid, ''connect-authenticate''), c)" "cn_state c = Established"
    by (rule authenticate_envelope_accepted [OF some_decoder_ok toy_base58 toy_hashes_ok hs_key_ok env r1]) auto
  then have "conn_step toy_hashes toy_crypto some_decoder r1 c" "is_established c"
    using conn_step.authenticate [of toy_hashes toy_crypto some_decoder r1 env] by (simp_all add: is_established_def)
  then show ?thesis using 1 by (meson rtranclp.rtrancl_into_rtrancl rtranclp.rtrancl_refl)
qed

theorem established_authentic_witness:
  "\<exists>c pid pk signer. is_established c \<and> remote_peer_id c = Some pid \<and> remote_public_key c = Some pk \<and>
     authenticated toy_hashes toy_crypto some_decoder (replicate 32 5) pid pk signer"
proof -
  obtain c where c: "(conn_step toy_hashes toy_crypto some_decoder)\<^sup>*\<^sup>* hs_conn c" "is_established c" using hs_established by blast
  have "fresh hs_conn" by (auto simp: fresh_def hs_conn_def)
  from established_authentic [OF this c] c(2) show ?thesis
    by (auto simp: hs_conn_def set_local_advertisement_def Connection_new_def)
qed

theorem signature_replay_witness:
  "\<exists>env conn'. fst (process_authenticate toy_hashes toy_crypto some_decoder env conn') = Inr (hs_pid, ''x'') \<and>
     validate_all toy_hashes env = Inr ()"
proof -
  let ?h = "Hash 0 (replicate 32 42)" and ?sg = "take 64 (replicate 32 7 @ to_bytes (Hash 0 (replicate 32 42)) @ replicate 64 (0 :: u8))"
  let ?conn = "hs_conn\<lparr>cn_state := AwaitingAuthenticate, remote_peer_id := Some hs_pid\<rparr>"
  let ?p = "\<lparr>entity_type = TYPE_AUTHENTICATE, data = to_ecf (authenticate_value \<lparr>ad_peer_id = hs_pid, ad_public_key = replicate 32 7,
        ad_nonce = local_nonce ?conn, ad_key_type = kt_label Ed25519\<rparr>), content_hash = ?h\<rparr>"
  have h: "hash_ok ?h" by (simp add: hash_ok_def digest_len_for_format_def format_defs)
  have v: "verify_for_key_type toy_crypto Ed25519 (replicate 32 7) (to_bytes ?h) ?sg = Inr ()" "length ?sg < 2 ^ 64"
    using h by (auto simp: verify_for_key_type_def keypair_verify_def toy_crypto_def kt_defs key_defs to_bytes_ok)
  have "length (execute_payload CONNECT_PATH ''x'' ''authenticate'' ?p) = 316" by code_simp
  then have l: "length (data (hs_entity TYPE_EXECUTE (execute_payload CONNECT_PATH ''x'' ''authenticate'' ?p))) < 2 ^ 64"
    by (simp add: hs_entity_def)
  have m: "from_public_key_with_key_type toy_hashes toy_crypto (replicate 32 7) Ed25519 = Inr hs_pid"
    using keypair_peer_id_minted [OF hs_key_ok(3,2)] by (simp add: hs_key_def)
  let ?sd = "\<lparr>sd_target = ?h, sd_signer = ?h, sd_algorithm = kt_label Ed25519, sd_signature = ?sg\<rparr>"
  have "to_ecf (signature_value ?sd) \<noteq> []" by (simp add: signature_value_def to_ecf_VMap_ne)
  note s = hs_new [OF hs_types(4) this]
  have c: "cn_state ?conn = AwaitingAuthenticate" "remote_peer_id ?conn = Some hs_pid" by simp_all
  show ?thesis
    using signature_replay_accepted [OF some_decoder_ok toy_base58 toy_hashes_ok m h v refl hs_execute l s h c]
    unfolding Let_def split_def by blast
qed

end
