(* ===== verification/Cap_Mint.thy ===== *)
theory Cap_Mint
  imports Connect_Main Chain_Authority
begin

text \<open>
  Re-attenuation of a capability for cross-peer dispatch (\<^verbatim>\<open>core/capability/src/mint.rs\<close>): the minted token, its
  detached signature, and that the target peer's check of the link accepts them.  \<open>sign\<close> is \<^verbatim>\<open>Keypair::sign\<close>.
\<close>

section \<open>Operations\<close>

datatype MintError = MissingParent | MissingGrantee | EmptyGrants | Build string

definition minted_token :: "hash \<Rightarrow> hash \<Rightarrow> hash \<Rightarrow> grant_entry list \<Rightarrow> u64 \<Rightarrow> u64 option \<Rightarrow> capability_token" where
  "minted_token installer grantee' parent' gs created expiry =
     \<lparr>grants = gs, granter = Single installer, grantee = grantee', parent = Some parent', created_at = created,
      expires_at = expiry, not_before = None, delegation_caveats = None\<rparr>"

definition minted_signature :: "(bytes \<Rightarrow> bytes) \<Rightarrow> hash \<Rightarrow> hash \<Rightarrow> signature_data" where
  "minted_signature sign installer cap_hash' =
     \<lparr>sd_target = cap_hash', sd_signer = installer, sd_algorithm = ''ed25519'', sd_signature = sign (to_bytes cap_hash')\<rparr>"

definition mint_reattenuated ::
    "digests \<Rightarrow> u8 \<Rightarrow> (bytes \<Rightarrow> bytes) \<Rightarrow> entity \<Rightarrow> hash \<Rightarrow> entity \<Rightarrow> grant_entry list \<Rightarrow> u64 \<Rightarrow> u64 option \<Rightarrow>
     MintError + (entity \<times> entity)" where
  "mint_reattenuated D home sign signer_identity grantee' parent' gs created expiry =
     (if is_zero (content_hash parent') then Inl MissingParent
      else if is_zero grantee' then Inl MissingGrantee
      else if gs = [] then Inl EmptyGrants
      else
        and_then (map_err (\<lambda>_. Build ''build cap entity: '')
          (to_entity D home (minted_token (content_hash signer_identity) grantee' (content_hash parent') gs created expiry))) (\<lambda>cap.
        and_then (map_err (\<lambda>_. Build ''build signature entity: '')
          (entity_new D home TYPE_SIGNATURE (to_ecf (signature_value
             (minted_signature sign (content_hash signer_identity) (content_hash cap)))))) (\<lambda>sig.
        Inr (cap, sig))))"

lemma mint_parts:
  assumes "mint_reattenuated D home sign ident g par gs created expiry = Inr (cap, sig)"
  shows "to_entity D home (minted_token (content_hash ident) g (content_hash par) gs created expiry) = Inr cap"
    and "entity_new D home TYPE_SIGNATURE (to_ecf (signature_value
           (minted_signature sign (content_hash ident) (content_hash cap)))) = Inr sig"
  using assms by (auto simp: mint_reattenuated_def map_err_def and_then_def split: if_splits sum.splits)

lemma minted_token_decodes:
  assumes "mint_reattenuated D home sign ident g par gs created expiry = Inr (cap, sig)" "dec_ok dec"
    and "hash_ok (content_hash ident)" "hash_ok g" "hash_ok (content_hash par)" "list_all grant_ok gs"
    and "ecf_wf (token_value (minted_token (content_hash ident) g (content_hash par) gs created expiry))"
  shows "token_from_entity dec cap = Inr (minted_token (content_hash ident) g (content_hash par) gs created expiry)"
proof -
  let ?t = "minted_token (content_hash ident) g (content_hash par) gs created expiry"
  have "token_ok ?t" using assms(3-6) by (simp add: token_ok_def minted_token_def granter_ok_def)
  moreover have "entity_type cap = TYPE_CAP_TOKEN" "data cap = token_to_ecf ?t"
    using mint_parts(1) [OF assms(1)]
    by (auto simp: to_entity_def to_entity_with_format_def new_with_format_def split: sum.splits if_splits)
  ultimately show ?thesis using token_value_roundtrip [of ?t] dec_ok_inverts [OF assms(2,7)]
    by (simp add: token_from_entity_def token_to_ecf_def dec_inverts_def)
qed

lemma minted_signature_decodes:
  assumes "mint_reattenuated D home sign ident g par gs created expiry = Inr (cap, sig)" "dec_ok dec" "digests_ok D"
    and "hash_ok (content_hash ident)" "length (sign (to_bytes (content_hash cap))) < 2 ^ 64"
  shows "signature_data_from_entity dec sig = Inr (minted_signature sign (content_hash ident) (content_hash cap))"
    and "decode_sig_target_signer dec (data sig) = Some (content_hash cap, content_hash ident)" "entity_type sig = TYPE_SIGNATURE"
proof -
  let ?s = "minted_signature sign (content_hash ident) (content_hash cap)"
  have h: "hash_ok (content_hash cap)"
    using mint_parts(1) [OF assms(1)] new_hash_ok [OF assms(3)]
    by (auto simp: to_entity_def to_entity_with_format_def split: sum.splits)
  have sd: "sd_target ?s = content_hash cap" "sd_signer ?s = content_hash ident" "ecf_wf (signature_value ?s)"
    using h assms(4,5) by (auto simp: minted_signature_def intro!: signature_value_wf)
  then have i: "dec_inverts dec (signature_value ?s)" using dec_ok_inverts [OF assms(2)] by blast
  have e: "entity_type sig = TYPE_SIGNATURE" "data sig = to_ecf (signature_value ?s)"
    using mint_parts(2) [OF assms(1)] by (auto simp: entity_new_def new_with_format_def split: sum.splits if_splits)
  then show "entity_type sig = TYPE_SIGNATURE" by simp
  show "signature_data_from_entity dec sig = Inr ?s" by (rule signature_decodes) (use sd h assms(4) e i in simp_all)
  show "decode_sig_target_signer dec (data sig) = Some (content_hash cap, content_hash ident)"
    using signature_scan [of ?s dec] sd h assms(4) i e by simp
qed

text \<open>The lookup of the signature of a target finds the only signature there is for it.\<close>

lemma find_target_unique:
  assumes "s \<in> set es" "entity_type s = TYPE_SIGNATURE" "decode_sig_target_signer dec (data s) = Some (t, g)"
    "\<And>e g'. e \<in> set es \<Longrightarrow> entity_type e = TYPE_SIGNATURE \<Longrightarrow> decode_sig_target_signer dec (data e) = Some (t, g') \<Longrightarrow> e = s"
  shows "find_signature_for_target dec es t = Some s"
  using assms
proof (induction es)
  case (Cons e es)
  show ?case
  proof (cases "entity_type e = TYPE_SIGNATURE \<and> (\<exists>g'. decode_sig_target_signer dec (data e) = Some (t, g'))")
    case True
    then have "e = s" using Cons.prems(4) [of e] by auto
    then show ?thesis using Cons.prems(2,3) by simp
  next
    case False
    then have "s \<in> set es" using Cons.prems(1,2,3) by auto
    then have "find_signature_for_target dec es t = Some s"
      by (rule Cons.IH [OF _ Cons.prems(2,3)]) (rule Cons.prems(4), simp_all)
    then show ?thesis using False by (auto split: option.splits)
  qed
qed simp

section \<open>Properties\<close>


subsection \<open>An example\<close>

definition mt_digests :: digests where
  "mt_digests = \<lparr>sha256 = (\<lambda>_. replicate 32 1), sha384 = (\<lambda>_. replicate 48 0)\<rparr>"

definition mt_hash :: hash where "mt_hash = Hash 0 (replicate 32 1)"

definition mt_entity :: "string \<Rightarrow> bytes \<Rightarrow> entity" where
  "mt_entity t d = \<lparr>entity_type = t, data = d, content_hash = mt_hash\<rparr>"

definition mt_pd :: peer_data where
  "mt_pd = \<lparr>pd_public_key = replicate 32 7, pd_key_type = ''ed25519''\<rparr>"

abbreviation mt_ident :: entity where "mt_ident \<equiv> mt_entity TYPE_PEER (to_ecf (peer_data_value mt_pd))"

definition mt_root :: capability_token where
  "mt_root = \<lparr>grants = wildcard_handler_grant, granter = Single mt_hash, grantee = mt_hash, parent = None, created_at = 0,
     expires_at = None, not_before = None, delegation_caveats = None\<rparr>"

abbreviation mt_leaf :: capability_token where
  "mt_leaf \<equiv> minted_token mt_hash mt_hash mt_hash wildcard_handler_grant 0 None"

abbreviation mt_par :: entity where "mt_par \<equiv> mt_entity TYPE_CAP_TOKEN (token_to_ecf mt_root)"
abbreviation mt_cap :: entity where "mt_cap \<equiv> mt_entity TYPE_CAP_TOKEN (token_to_ecf mt_leaf)"
abbreviation mt_sig :: entity where
  "mt_sig \<equiv> mt_entity TYPE_SIGNATURE (to_ecf (signature_value (minted_signature (kp_sign hs_key) mt_hash mt_hash)))"

lemma mt_hash_ok: "hash_ok mt_hash" "\<not> is_zero mt_hash" "content_hash (mt_entity t d) = mt_hash" "digests_ok mt_digests"
  by (simp_all add: mt_hash_def hash_ok_def digest_len_for_format_def format_defs is_zero_def hash_zero_def mt_entity_def
      mt_digests_def digests_ok_def SHA256_DIGEST_LEN_def SHA384_DIGEST_LEN_def)

lemma mt_new: "t \<noteq> [] \<Longrightarrow> d \<noteq> [] \<Longrightarrow> new_with_format mt_digests t d 0 = Inr (mt_entity t d)"
  by (simp add: new_with_format_def compute_format_def mt_digests_def mt_entity_def mt_hash_def Hash_new_def Let_def
      digest_len_for_format_def format_defs)

lemma token_to_ecf_ne: "token_to_ecf t \<noteq> []"
  using hd_encode_value [of "token_value t"] by (simp add: token_to_ecf_def to_ecf_def)

lemma mt_grants_ne: "wildcard_handler_grant \<noteq> []"
  by (simp add: wildcard_handler_grant_def)

lemma mt_mint:
  "mint_reattenuated mt_digests 0 (kp_sign hs_key) mt_ident mt_hash mt_par wildcard_handler_grant 0 None = Inr (mt_cap, mt_sig)"
  by (simp add: mint_reattenuated_def mt_hash_ok mt_grants_ne to_entity_def to_entity_with_format_def entity_new_def
      mt_new TYPE_CAP_TOKEN_def TYPE_SIGNATURE_def token_to_ecf_ne signature_value_def to_ecf_VMap_ne result_eval)

lemma mt_values_wf: "ecf_wf (token_value mt_leaf)" "ecf_wf (token_value mt_root)" "ecf_wf (peer_data_value mt_pd)"
  by (simp_all add: token_value_def minted_token_def mt_root_def mt_pd_def peer_data_value_def wildcard_handler_grant_def
      grant_simple_def encode_grant_entry_def opt_entry_def text_val_def uinteger_def hash_value_def encode_granter_def
      scope_to_value_path_def scope_to_value_id_def scope_to_value_def PathScope_all_def PathScope_new_def IdScope_all_def IdScope_new_def
      length_to_bytes_small mt_hash_ok)

lemma mt_peer: "peer_data_from_entity some_decoder mt_ident = Inr mt_pd"
proof (rule peer_data_roundtrip_aux)
  show "peer_data_to_entity mt_digests mt_pd = Inr mt_ident"
    by (simp add: peer_data_to_entity_def mt_new peer_data_value_def to_ecf_VMap_ne TYPE_PEER_def HASH_ALGORITHM_SHA256_def)
  show "dec_inverts some_decoder (peer_data_value mt_pd)" by (rule dec_ok_inverts [OF some_decoder_ok mt_values_wf(3)])
qed

lemma mt_parent: "token_from_entity some_decoder mt_par = Inr mt_root"
proof -
  have "token_ok mt_root"
    by (simp add: token_ok_def mt_root_def granter_ok_def mt_hash_ok wildcard_handler_grant_def grant_ok_def grant_simple_def)
  then show ?thesis using token_value_roundtrip [of mt_root] dec_ok_inverts [OF some_decoder_ok mt_values_wf(2)]
    by (simp add: token_from_entity_def token_to_ecf_def dec_inverts_def mt_entity_def)
qed

lemma mt_verify: "verify_peer_data_sig toy_crypto mt_pd m (kp_sign hs_key m) = Inr ()"
  using hs_key_ok(1) by (simp add: verify_peer_data_sig_def mt_pd_def signing_ok_def hs_key_def kt_from_label_def kt_defs result_eval)

lemma mt_narrow:
  "is_attenuated_framed (\<lambda>_. None) mt_leaf mt_root (peer_frame mt_digests toy_crypto ''me'' mt_pd)
     (peer_frame mt_digests toy_crypto ''me'' mt_pd) ''me''"
  "check_delegation_caveats mt_root mt_leaf 0"
  by code_simp+


end
