(* ===== verification/F64_Order.thy ===== *)
theory F64_Order
  imports Ecf
begin

text \<open>
  The order of \<^verbatim>\<open>f64\<close> and the cast of an integer to it, on bit patterns, as the numeric constraints use them.  The
  cast is monotone on the range of CBOR integers and exact up to \<open>2 ^ 53\<close>.
\<close>

section \<open>Operations\<close>

text \<open>The order of \<^verbatim>\<open>f64\<close>: sign and magnitude, with no order on NaN.\<close>

definition f64_key :: "u64 \<Rightarrow> int" where
  "f64_key f = (let m = uint (f AND 0x7FFFFFFFFFFFFFFF) in if f64_sign_negative f then - m else m)"

definition f64_le :: "u64 \<Rightarrow> u64 \<Rightarrow> bool" where
  "f64_le a b \<longleftrightarrow> \<not> f64_is_nan a \<and> \<not> f64_is_nan b \<and> f64_key a \<le> f64_key b"

text \<open>The cast \<^verbatim>\<open>n as f64\<close> of an \<^verbatim>\<open>i128\<close>: round to nearest, ties to even.\<close>

definition nat_f64_bits :: "nat \<Rightarrow> nat" where
  "nat_f64_bits m =
     (let k = log2_floor m
      in if m = 0 then 0
         else if k \<le> 52 then (1022 + k) * 2 ^ 52 + m * 2 ^ (52 - k)
         else (1022 + k) * 2 ^ 52 + round_half_even m (k - 52))"

definition i128_as_f64 :: "int \<Rightarrow> u64" where
  "i128_as_f64 n =
     (if n < 0 then 0x8000000000000000 OR word_of_nat (nat_f64_bits (nat (- n))) else word_of_nat (nat_f64_bits (nat n)))"

section \<open>The magnitude\<close>

lemma log2_floor_bounds: "0 < n \<Longrightarrow> 2 ^ log2_floor n \<le> n \<and> n < 2 ^ Suc (log2_floor n)"
proof (induction n rule: log2_floor.induct)
  case (1 n)
  show ?case
  proof (cases "n \<le> 1")
    case True
    then show ?thesis using 1(2) log2_floor.simps [of n] by simp
  next
    case False
    then have "log2_floor n = Suc (log2_floor (n div 2))" using log2_floor.simps [of n] by simp
    moreover have "2 ^ log2_floor (n div 2) \<le> n div 2 \<and> n div 2 < 2 ^ Suc (log2_floor (n div 2))" using 1(1) False by simp
    ultimately show ?thesis by auto
  qed
qed

lemma log2_floor_mono: "0 < m \<Longrightarrow> m \<le> n \<Longrightarrow> log2_floor m \<le> log2_floor n"
proof (rule ccontr)
  assume a: "0 < m" "m \<le> n" "\<not> log2_floor m \<le> log2_floor n"
  then have "(2::nat) ^ Suc (log2_floor n) \<le> 2 ^ log2_floor m" by (intro power_increasing) auto
  then show False using a log2_floor_bounds [of m] log2_floor_bounds [of n] by linarith
qed

lemma round_half_even_bounds: "m div 2 ^ s \<le> round_half_even m s" "round_half_even m s \<le> Suc (m div 2 ^ s)"
  by (auto simp: round_half_even_def Let_def)

lemma round_half_even_mono: "m \<le> n \<Longrightarrow> round_half_even m s \<le> round_half_even n s"
proof -
  assume a: "m \<le> n"
  then have q: "m div 2 ^ s \<le> n div 2 ^ s" by (rule div_le_mono)
  show ?thesis
  proof (cases "m div 2 ^ s = n div 2 ^ s")
    case True
    then have "m mod 2 ^ s \<le> n mod 2 ^ s" using a by (metis add_le_cancel_left div_mult_mod_eq)
    then show ?thesis using True by (auto simp: round_half_even_def Let_def)
  next
    case False
    then show ?thesis using q round_half_even_bounds [of m s] round_half_even_bounds [of n s] by linarith
  qed
qed

lemma nat_f64_bits_range:
  assumes "0 < m"
  shows "(1023 + log2_floor m) * 2 ^ 52 \<le> nat_f64_bits m" "nat_f64_bits m \<le> (1024 + log2_floor m) * 2 ^ 52"
    and "log2_floor m \<le> 52 \<Longrightarrow> nat_f64_bits m < (1024 + log2_floor m) * 2 ^ 52"
proof -
  let ?k = "log2_floor m"
  have b: "2 ^ ?k \<le> m" "m < 2 ^ Suc ?k" using log2_floor_bounds [OF assms] by auto
  have small: "2 ^ 52 \<le> m * 2 ^ (52 - ?k)" "m * 2 ^ (52 - ?k) < 2 * 2 ^ 52" if "?k \<le> 52"
  proof -
    have e: "(2::nat) ^ ?k * 2 ^ (52 - ?k) = 2 ^ 52" using that by (simp flip: power_add)
    show "2 ^ 52 \<le> m * 2 ^ (52 - ?k)" using mult_le_mono1 [OF b(1), of "2 ^ (52 - ?k)"] e by simp
    have "m * 2 ^ (52 - ?k) < 2 ^ Suc ?k * 2 ^ (52 - ?k)" using b(2) by simp
    then show "m * 2 ^ (52 - ?k) < 2 * 2 ^ 52" by (simp only: power_Suc mult.assoc e)
  qed
  have big: "2 ^ 52 \<le> round_half_even m (?k - 52)" "round_half_even m (?k - 52) \<le> 2 * 2 ^ 52" if "\<not> ?k \<le> 52"
  proof -
    let ?s = "?k - 52"
    have e: "(2::nat) ^ ?k = 2 ^ 52 * 2 ^ ?s" using that power_add [of "2::nat" 52 ?s] by simp
    have "2 ^ 52 \<le> m div 2 ^ ?s" using b(1) e by (simp add: less_eq_div_iff_mult_less_eq)
    then show "2 ^ 52 \<le> round_half_even m ?s" using round_half_even_bounds(1) [of m ?s] by linarith
    have "m div 2 ^ ?s < 2 * 2 ^ 52" using b(2) e by (simp add: div_less_iff_less_mult)
    then show "round_half_even m ?s \<le> 2 * 2 ^ 52" using round_half_even_bounds(2) [of m ?s] by linarith
  qed
  show "(1023 + ?k) * 2 ^ 52 \<le> nat_f64_bits m" "nat_f64_bits m \<le> (1024 + ?k) * 2 ^ 52"
    and "?k \<le> 52 \<Longrightarrow> nat_f64_bits m < (1024 + ?k) * 2 ^ 52"
    using small big assms by (auto simp: nat_f64_bits_def Let_def algebra_simps)
qed

lemma nat_f64_bits_mono: "m \<le> n \<Longrightarrow> nat_f64_bits m \<le> nat_f64_bits n"
proof (cases "m = 0")
  case False
  assume a: "m \<le> n"
  show ?thesis
  proof (cases "log2_floor m = log2_floor n")
    case True
    then show ?thesis using a False round_half_even_mono [OF a] by (simp add: nat_f64_bits_def Let_def)
  next
    case neq: False
    then have "1024 + log2_floor m \<le> 1023 + log2_floor n" using log2_floor_mono [of m n] a False by simp
    then have "(1024 + log2_floor m) * 2 ^ 52 \<le> (1023 + log2_floor n) * (2::nat) ^ 52" by (rule mult_le_mono1)
    then show ?thesis using nat_f64_bits_range(2) [of m] nat_f64_bits_range(1) [of n] a False by linarith
  qed
qed (simp add: nat_f64_bits_def)

lemma nat_f64_bits_strict:
  assumes "m < n" "n \<le> 2 ^ 53"
  shows "nat_f64_bits m < nat_f64_bits n"
proof (cases "m = 0")
  case True
  then show ?thesis using assms nat_f64_bits_range(1) [of n] by (simp add: nat_f64_bits_def)
next
  case False
  have k: "log2_floor m \<le> 52"
  proof (rule ccontr)
    assume "\<not> log2_floor m \<le> 52"
    then have "(2::nat) ^ 53 \<le> 2 ^ log2_floor m" by (intro power_increasing) auto
    then show False using log2_floor_bounds [of m] False assms by linarith
  qed
  show ?thesis
  proof (cases "log2_floor m = log2_floor n")
    case True
    then show ?thesis using assms(1) False k by (simp add: nat_f64_bits_def Let_def)
  next
    case neq: False
    then have "1024 + log2_floor m \<le> 1023 + log2_floor n" using log2_floor_mono [of m n] assms(1) False by simp
    then have "(1024 + log2_floor m) * 2 ^ 52 \<le> (1023 + log2_floor n) * (2::nat) ^ 52" by (rule mult_le_mono1)
    then show ?thesis using nat_f64_bits_range(3) [OF _ k] nat_f64_bits_range(1) [of n] assms(1) False by linarith
  qed
qed

lemma nat_f64_bits_bound:
  assumes "m \<le> 2 ^ 64" shows "nat_f64_bits m \<le> 1088 * 2 ^ 52"
proof (cases "m = 0")
  case False
  have "nat_f64_bits m \<le> nat_f64_bits (2 ^ 64)" using assms by (rule nat_f64_bits_mono)
  moreover have "log2_floor (2 ^ 64) = 64" by (simp add: log2_floor.simps)
  ultimately show ?thesis by (simp add: nat_f64_bits_def round_half_even_def Let_def)
qed (simp add: nat_f64_bits_def)

section \<open>The bits\<close>

lemma and_magnitude: "w AND 0x7FFFFFFFFFFFFFFF = take_bit 63 w" for w :: u64
  by (simp add: take_bit_eq_mask mask_eq_exp_minus_1)

lemma mag_word:
  fixes b :: nat assumes "b < 2 ^ 63"
  shows "uint (word_of_nat b :: u64) = int b" "take_bit 63 (word_of_nat b :: u64) = word_of_nat b"
    "drop_bit 63 (word_of_nat b :: u64) = 0"
proof -
  have u: "unat (word_of_nat b :: u64) = b" using assms by (simp add: unsigned_of_nat take_bit_nat_eq_self)
  then show "uint (word_of_nat b :: u64) = int b" by (metis uint_nat)
  show "take_bit 63 (word_of_nat b :: u64) = word_of_nat b"
    using u assms by (intro word_unat_eq_iff [THEN iffD2]) (simp add: unsigned_take_bit_eq take_bit_nat_eq_self)
  show "drop_bit 63 (word_of_nat b :: u64) = 0"
  proof (rule word_unat_eq_iff [THEN iffD2])
    have "unat (drop_bit 63 (word_of_nat b :: u64)) = drop_bit 63 b" by (simp only: unat_drop_bit_eq u)
    then show "unat (drop_bit 63 (word_of_nat b :: u64)) = unat (0 :: u64)" using assms by (simp only: drop_bit_eq_div) simp
  qed
qed

lemma sign_word:
  fixes w :: u64
  shows "take_bit 63 (0x8000000000000000 OR w) = take_bit 63 w" "drop_bit 63 w = 0 \<Longrightarrow> drop_bit 63 (0x8000000000000000 OR w) = 1"
    "drop_bit 52 (0x8000000000000000 OR w) AND 0x7FF = drop_bit 52 w AND 0x7FF"
  by (simp_all add: take_bit_or drop_bit_or bit.conj_disj_distrib2)

lemma f64_key_mag:
  assumes "b < 2 ^ 63"
  shows "f64_key (word_of_nat b) = int b" "f64_key (0x8000000000000000 OR word_of_nat b) = - int b"
  using mag_word [OF assms] sign_word [of "word_of_nat b"]
  by (simp_all add: f64_key_def f64_sign_negative_def and_magnitude Let_def)

lemma f64_mag_not_nan:
  assumes "b \<le> 1088 * 2 ^ 52"
  shows "\<not> f64_is_nan (word_of_nat b)" "\<not> f64_is_nan (0x8000000000000000 OR word_of_nat b)"
proof -
  let ?w = "word_of_nat b :: u64"
  have u: "unat ?w = b" using assms by (simp add: unsigned_of_nat take_bit_nat_eq_self)
  have "b div 2 ^ 52 \<le> 1088" using assms by (simp add: div_le_mono [of b "1088 * 2 ^ 52" "2 ^ 52", simplified])
  then have "unat (drop_bit 52 ?w) \<le> 1088" by (simp only: unat_drop_bit_eq u) (simp only: drop_bit_eq_div)
  moreover have "unat (take_bit 11 (drop_bit 52 ?w)) \<le> unat (drop_bit 52 ?w)"
    by (simp add: unsigned_take_bit_eq take_bit_nat_less_eq_self)
  moreover have "drop_bit 52 ?w AND 0x7FF = take_bit 11 (drop_bit 52 ?w)" by (simp add: take_bit_eq_mask mask_eq_exp_minus_1)
  ultimately have "unat (drop_bit 52 ?w AND 0x7FF) \<le> 1088" by simp
  then have "drop_bit 52 ?w AND 0x7FF \<noteq> 0x7FF" by (auto simp del: bit_simps)
  then show "\<not> f64_is_nan ?w" "\<not> f64_is_nan (0x8000000000000000 OR ?w)"
    using sign_word(3) [of ?w] by (simp_all add: f64_is_nan_def)
qed

lemma i128_as_f64_key:
  assumes "\<bar>n\<bar> \<le> 2 ^ 64"
  shows "f64_key (i128_as_f64 n) = sgn n * int (nat_f64_bits (nat \<bar>n\<bar>))" "\<not> f64_is_nan (i128_as_f64 n)"
proof -
  have b: "nat_f64_bits (nat \<bar>n\<bar>) \<le> 1088 * 2 ^ 52" using assms by (intro nat_f64_bits_bound) simp
  then have c: "nat_f64_bits (nat \<bar>n\<bar>) < 2 ^ 63" by simp
  have z: "nat_f64_bits 0 = 0" by (simp add: nat_f64_bits_def)
  show "f64_key (i128_as_f64 n) = sgn n * int (nat_f64_bits (nat \<bar>n\<bar>))"
    using f64_key_mag [OF c] z by (cases n "0 :: int" rule: linorder_cases) (simp_all add: i128_as_f64_def)
  show "\<not> f64_is_nan (i128_as_f64 n)" using f64_mag_not_nan [OF b] by (cases "n < 0") (simp_all add: i128_as_f64_def)
qed

lemma signed_mono:
  fixes f :: "nat \<Rightarrow> nat"
  assumes f: "\<And>a b. a \<le> b \<Longrightarrow> f a \<le> f b" and "i \<le> j"
  shows "sgn i * int (f (nat \<bar>i\<bar>)) \<le> sgn j * int (f (nat \<bar>j\<bar>))"
  using assms(2) f [of "nat \<bar>i\<bar>" "nat \<bar>j\<bar>"] f [of "nat \<bar>j\<bar>" "nat \<bar>i\<bar>"]
  by (auto simp: sgn_if)

text \<open>The cast keeps the order of CBOR integers.\<close>

lemma i128_as_f64_mono:
  assumes "\<bar>i\<bar> \<le> 2 ^ 64" "\<bar>j\<bar> \<le> 2 ^ 64" "i \<le> j"
  shows "f64_le (i128_as_f64 i) (i128_as_f64 j)"
  using i128_as_f64_key [OF assms(1)] i128_as_f64_key [OF assms(2)] signed_mono [OF nat_f64_bits_mono assms(3)]
  by (simp add: f64_le_def)

text \<open>Up to \<open>2 ^ 53\<close> it also reflects it.\<close>

lemma i128_as_f64_exact:
  assumes "\<bar>i\<bar> \<le> 2 ^ 53" "\<bar>j\<bar> \<le> 2 ^ 53"
  shows "f64_le (i128_as_f64 i) (i128_as_f64 j) \<longleftrightarrow> i \<le> j"
proof
  show "f64_le (i128_as_f64 i) (i128_as_f64 j)" if "i \<le> j" using i128_as_f64_mono assms that by simp
  show "i \<le> j" if "f64_le (i128_as_f64 i) (i128_as_f64 j)"
  proof (rule ccontr)
    let ?g = "\<lambda>n. int (nat_f64_bits (nat \<bar>n\<bar>))"
    assume lt: "\<not> i \<le> j"
    have pos: "0 < nat_f64_bits m" if "0 < m" "m \<le> 2 ^ 53" for m
      using nat_f64_bits_strict [of 0 m] that by simp
    have nb: "nat \<bar>i\<bar> \<le> 2 ^ 53" "nat \<bar>j\<bar> \<le> 2 ^ 53" using assms by auto
    have "sgn j * ?g j < sgn i * ?g i"
      using lt pos [OF _ nb(1)] pos [OF _ nb(2)] nat_f64_bits_strict [OF _ nb(1), of "nat \<bar>j\<bar>"] nat_f64_bits_strict [OF _ nb(2), of "nat \<bar>i\<bar>"]
      by (cases j "0 :: int" rule: linorder_cases; cases i "0 :: int" rule: linorder_cases) auto
    then show False using that i128_as_f64_key(1) [of i] i128_as_f64_key(1) [of j] assms by (simp add: f64_le_def)
  qed
qed

text \<open>Above it, neighbours are confused.\<close>

lemma i128_as_f64_rounds: "i128_as_f64 (2 ^ 53 + 1) = i128_as_f64 (2 ^ 53)"
  by (simp add: i128_as_f64_def nat_f64_bits_def round_half_even_def Let_def log2_floor.simps)

end
