(* ===== verification/Type_System.thy ===== *)
theory Type_System
  imports F64_Order Store_Model Cap_Pattern
begin

text \<open>
  The type-system extension (\<^verbatim>\<open>extensions/type-system/src\<close>): the standard constraints and their
  evaluation (\<^verbatim>\<open>constraint.rs\<close>, \<^verbatim>\<open>format.rs\<close>, \<^verbatim>\<open>type_pattern.rs\<close>), narrowing along \<^verbatim>\<open>extends\<close>
  (\<^verbatim>\<open>narrowing.rs\<close>), two-phase validation (\<^verbatim>\<open>validate.rs\<close>) and the comparison of definitions
  (\<^verbatim>\<open>compare.rs\<close>).  The \<^verbatim>\<open>regex\<close> and \<^verbatim>\<open>bs58\<close> crates, the CBOR decoder of \<^verbatim>\<open>ciborium\<close> and the digests
  are parameters (\<open>crates\<close>), and so is the printed form of a float, which only occurs in messages; of
  an error of a crate the constant part of the message is kept.  A panic is the value \<open>Inl\<close> of the outermost sum.
  A Rust \<^verbatim>\<open>&str\<close> is the list of its UTF-8 bytes.
\<close>

section \<open>Constants and parameters\<close>

definition TYPE_CONSTRAINT_MIN :: string where "TYPE_CONSTRAINT_MIN = ''system/type/constraint/min''"
definition TYPE_CONSTRAINT_MAX :: string where "TYPE_CONSTRAINT_MAX = ''system/type/constraint/max''"
definition TYPE_CONSTRAINT_MIN_LENGTH :: string where "TYPE_CONSTRAINT_MIN_LENGTH = ''system/type/constraint/min-length''"
definition TYPE_CONSTRAINT_MAX_LENGTH :: string where "TYPE_CONSTRAINT_MAX_LENGTH = ''system/type/constraint/max-length''"
definition TYPE_CONSTRAINT_MIN_COUNT :: string where "TYPE_CONSTRAINT_MIN_COUNT = ''system/type/constraint/min-count''"
definition TYPE_CONSTRAINT_MAX_COUNT :: string where "TYPE_CONSTRAINT_MAX_COUNT = ''system/type/constraint/max-count''"
definition TYPE_CONSTRAINT_PATTERN :: string where "TYPE_CONSTRAINT_PATTERN = ''system/type/constraint/pattern''"
definition TYPE_CONSTRAINT_ONE_OF :: string where "TYPE_CONSTRAINT_ONE_OF = ''system/type/constraint/one-of''"
definition TYPE_CONSTRAINT_NOT_ONE_OF :: string where "TYPE_CONSTRAINT_NOT_ONE_OF = ''system/type/constraint/not-one-of''"
definition TYPE_CONSTRAINT_FORMAT :: string where "TYPE_CONSTRAINT_FORMAT = ''system/type/constraint/format''"
definition TYPE_CONSTRAINT_TYPE_PATTERN :: string where "TYPE_CONSTRAINT_TYPE_PATTERN = ''system/type/constraint/type-pattern''"
definition TYPE_CONSTRAINT_VALIDATE_RES :: string where "TYPE_CONSTRAINT_VALIDATE_RES = ''system/type/constraint/validate-result''"
definition TYPE_VALIDATE_RES :: string where "TYPE_VALIDATE_RES = ''system/type/validate-result''"
definition TYPE_VIOLATION :: string where "TYPE_VIOLATION = ''system/type/violation''"
definition TYPE_COMPARE_RES :: string where "TYPE_COMPARE_RES = ''system/type/compare-result''"
definition TYPE_COMPATIBILITY_REPORT :: string where "TYPE_COMPATIBILITY_REPORT = ''system/type/compatibility-report''"
definition TYPE_ERROR :: string where "TYPE_ERROR = ''system/protocol/error''"

definition STATUS_OK :: u32 where "STATUS_OK = 200"
definition HANDLER_BAD_REQUEST :: u32 where "HANDLER_BAD_REQUEST = 400"
definition STATUS_NOT_FOUND :: u32 where "STATUS_NOT_FOUND = 404"
definition STATUS_INTERNAL_ERROR :: u32 where "STATUS_INTERNAL_ERROR = 500"
definition STATUS_NOT_SUPPORTED :: u32 where "STATUS_NOT_SUPPORTED = 501"

record crates =
  regex_new :: "string \<Rightarrow> (string \<Rightarrow> bool) option"
  bs58_decodes :: "string \<Rightarrow> bool"
  show_f64 :: "u64 \<Rightarrow> string"
  from_reader :: "bytes \<Rightarrow> Value option"
  hashes :: digests
  home_format :: u8

definition dflt :: "'a \<Rightarrow> 'a option \<Rightarrow> 'a" where
  "dflt d x = (case x of Some a \<Rightarrow> a | None \<Rightarrow> d)"

fun show_nat :: "nat \<Rightarrow> string" where
  "show_nat n = (if n < 10 then [char_of (48 + n)] else show_nat (n div 10) @ [char_of (48 + n mod 10)])"

declare show_nat.simps [simp del]

text \<open>A text field read through \<^verbatim>\<open>get(key).and_then(as_text)\<close>.\<close>

definition text_at :: "Value \<Rightarrow> string \<Rightarrow> string option" where
  "text_at v key = Option.bind (value_get v key) as_str"

text \<open>A loop over the entries of a map that overwrites one variable per key: the variable of \<open>key\<close> ends
  with the last entry.\<close>

definition last_entry :: "string \<Rightarrow> (Value \<times> Value) list \<Rightarrow> Value option" where
  "last_entry key m = fold (\<lambda>(k, v) acc. if as_str k = Some key then Some v else acc) m None"

text \<open>A loop that pushes the results of a body that can panic.\<close>

fun collect :: "('a \<Rightarrow> 'e + 'b list) \<Rightarrow> 'a list \<Rightarrow> 'e + 'b list" where
  "collect f [] = Inr []"
| "collect f (x # xs) = and_then (f x) (\<lambda>ys. and_then (collect f xs) (\<lambda>zs. Inr (ys @ zs)))"

section \<open>Named formats\<close>

definition ascii_alphabetic :: "char \<Rightarrow> bool" where
  "ascii_alphabetic c \<longleftrightarrow> (let n = of_char c :: nat in 65 \<le> n \<and> n \<le> 90 \<or> 97 \<le> n \<and> n \<le> 122)"

definition ascii_digit :: "char \<Rightarrow> bool" where
  "ascii_digit c \<longleftrightarrow> (let n = of_char c :: nat in 48 \<le> n \<and> n \<le> 57)"

definition ascii_hexdigit :: "char \<Rightarrow> bool" where
  "ascii_hexdigit c \<longleftrightarrow> ascii_digit c \<or> (let n = of_char c :: nat in 65 \<le> n \<and> n \<le> 70 \<or> 97 \<le> n \<and> n \<le> 102)"

fun uri_scheme :: "string \<Rightarrow> bool" where
  "uri_scheme [] = False"
| "uri_scheme (c # rest) =
     (if c = CHR '':'' then rest \<noteq> []
      else if ascii_alphabetic c \<or> ascii_digit c \<or> c = CHR ''+'' \<or> c = CHR ''-'' \<or> c = CHR ''.'' then uri_scheme rest
      else False)"

definition is_uri :: "string \<Rightarrow> bool" where
  "is_uri s = (case s of [] \<Rightarrow> False | c # rest \<Rightarrow> ascii_alphabetic c \<and> uri_scheme rest)"

fun uint_loop :: "nat \<Rightarrow> string \<Rightarrow> nat option" where
  "uint_loop v [] = Some v"
| "uint_loop v (c # rest) =
     (if ascii_digit c
      then let w = v * 10 + (of_char c - 48) in if w < 2 ^ 64 then uint_loop w rest else None
      else None)"

definition parse_uint :: "string \<Rightarrow> nat option" where
  "parse_uint b = (if b = [] then None else uint_loop 0 b)"

definition leap_year :: "nat \<Rightarrow> bool" where
  "leap_year year \<longleftrightarrow> year mod 4 = 0 \<and> year mod 100 \<noteq> 0 \<or> year mod 400 = 0"

definition valid_date :: "nat \<Rightarrow> nat \<Rightarrow> nat \<Rightarrow> bool" where
  "valid_date month day year \<longleftrightarrow>
     \<not> (month < 1 \<or> 12 < month \<or> day = 0) \<and>
     day \<le> (if month \<in> {1, 3, 5, 7, 8, 10, 12} then 31 else if month \<in> {4, 6, 9, 11} then 30
            else if leap_year year then 29 else 28)"

definition str_range :: "nat \<Rightarrow> nat \<Rightarrow> string \<Rightarrow> string" where
  "str_range i j s = take (j - i) (drop i s)"

definition is_rfc3339_date :: "string \<Rightarrow> bool" where
  "is_rfc3339_date s \<longleftrightarrow>
     length s = 10 \<and> s ! 4 = CHR ''-'' \<and> s ! 7 = CHR ''-'' \<and>
     (case (parse_uint (str_range 0 4 s), parse_uint (str_range 5 7 s), parse_uint (str_range 8 10 s)) of
        (Some year, Some month, Some day) \<Rightarrow> valid_date month day year
      | _ \<Rightarrow> False)"

text \<open>The time offset at the end, and before it the optional fraction of a second.\<close>

definition is_offset :: "string \<Rightarrow> bool" where
  "is_offset b =
     (case b of
        [] \<Rightarrow> False
      | c # rest \<Rightarrow>
          if c = CHR ''Z'' \<or> c = CHR ''z'' then rest = []
          else if c \<noteq> CHR ''+'' \<and> c \<noteq> CHR ''-'' then False
          else if length b \<noteq> 6 \<or> b ! 3 \<noteq> CHR '':'' then False
          else case (parse_uint (str_range 1 3 b), parse_uint (str_range 4 6 b)) of
                 (Some oh, Some om) \<Rightarrow> oh \<le> 23 \<and> om \<le> 59
               | _ \<Rightarrow> False)"

definition is_fraction_offset :: "string \<Rightarrow> bool" where
  "is_fraction_offset b =
     (case b of
        c # rest \<Rightarrow>
          if c = CHR ''.''
          then (if takeWhile ascii_digit rest = [] then False else is_offset (dropWhile ascii_digit rest))
          else is_offset b
      | [] \<Rightarrow> is_offset b)"

text \<open>\<^verbatim>\<open>&s[..10]\<close> panics when byte 10 is inside a character.\<close>

definition is_rfc3339_datetime :: "string \<Rightarrow> string + bool" where
  "is_rfc3339_datetime s =
     (if length s < 20 then Inr False
      else if is_continuation (s ! 10) then Inl ''byte index 10 is not a char boundary''
      else Inr (is_rfc3339_date (take 10 s) \<and> (s ! 10 = CHR ''T'' \<or> s ! 10 = CHR ''t'') \<and>
                s ! 13 = CHR '':'' \<and> s ! 16 = CHR '':'' \<and>
                (case (parse_uint (str_range 11 13 s), parse_uint (str_range 14 16 s), parse_uint (str_range 17 19 s)) of
                   (Some hour, Some minute, Some second) \<Rightarrow>
                     \<not> (23 < hour \<or> 59 < minute \<or> 60 < second) \<and> is_fraction_offset (drop 19 s)
                 | _ \<Rightarrow> False)))"

definition is_uuid :: "string \<Rightarrow> bool" where
  "is_uuid s \<longleftrightarrow>
     length s = 36 \<and>
     list_all (\<lambda>(i, ch). if i \<in> {8, 13, 18, 23} then ch = CHR ''-'' else ascii_hexdigit ch) (zip [0..<36] s)"

definition is_base58 :: "crates \<Rightarrow> string \<Rightarrow> bool" where
  "is_base58 C s \<longleftrightarrow> s \<noteq> [] \<and> bs58_decodes C s"

text \<open>The \<^verbatim>\<open>Result<bool, String>\<close> of the validator is the inner sum.\<close>

definition validate_format :: "crates \<Rightarrow> string \<Rightarrow> string \<Rightarrow> string + (string + bool)" where
  "validate_format C v format =
     (if format = ''uri'' then Inr (Inr (is_uri v))
      else if format = ''date-time'' then and_then (is_rfc3339_datetime v) (\<lambda>b. Inr (Inr b))
      else if format = ''date'' then Inr (Inr (is_rfc3339_date v))
      else if format = ''uuid'' then Inr (Inr (is_uuid v))
      else if format = ''base58'' then Inr (Inr (is_base58 C v))
      else if format = ''re2'' then Inr (Inr (regex_new C v \<noteq> None))
      else Inr (Inl format))"

section \<open>Constraint evaluation\<close>

record constraint_result =
  cr_valid :: bool
  cr_reason :: "string option"

definition valid_result :: constraint_result where
  "valid_result = \<lparr>cr_valid = True, cr_reason = None\<rparr>"

definition invalid_result :: "string \<Rightarrow> constraint_result" where
  "invalid_result reason = \<lparr>cr_valid = False, cr_reason = Some reason\<rparr>"

definition value_as_f64 :: "Value option \<Rightarrow> u64 option" where
  "value_as_f64 v =
     (case v of Some (VFloat f) \<Rightarrow> Some f | Some (VInteger i) \<Rightarrow> Some (i128_as_f64 i) | _ \<Rightarrow> None)"

definition value_as_u64 :: "Value option \<Rightarrow> u64 option" where
  "value_as_u64 v = (case v of Some (VInteger i) \<Rightarrow> try_u64 i | _ \<Rightarrow> None)"

definition measure_length :: "Value \<Rightarrow> u64 option" where
  "measure_length v =
     (case v of
        VText s \<Rightarrow> Some (word_of_nat (length (filter (\<lambda>c. \<not> is_continuation c) s)))
      | VBytes b \<Rightarrow> Some (word_of_nat (length b))
      | _ \<Rightarrow> None)"

definition collection_size :: "Value \<Rightarrow> u64 option" where
  "collection_size v =
     (case v of VArray a \<Rightarrow> Some (word_of_nat (length a)) | VMap m \<Rightarrow> Some (word_of_nat (length m)) | _ \<Rightarrow> None)"

definition eval_min :: "crates \<Rightarrow> Value \<Rightarrow> Value \<Rightarrow> constraint_result" where
  "eval_min C v d =
     (case value_as_f64 (value_get d ''min'') of
        None \<Rightarrow> invalid_result ''min: missing or non-numeric min''
      | Some mn \<Rightarrow>
          case value_as_f64 (Some v) of
            None \<Rightarrow> invalid_result ''min: not numeric''
          | Some x \<Rightarrow>
              if f64_is_nan x \<or> f64_is_nan mn then invalid_result (''must be >= '' @ show_f64 C mn)
              else if f64_le mn x then valid_result
              else invalid_result (''must be >= '' @ show_f64 C mn))"

definition eval_max :: "crates \<Rightarrow> Value \<Rightarrow> Value \<Rightarrow> constraint_result" where
  "eval_max C v d =
     (case value_as_f64 (value_get d ''max'') of
        None \<Rightarrow> invalid_result ''max: missing or non-numeric max''
      | Some mx \<Rightarrow>
          case value_as_f64 (Some v) of
            None \<Rightarrow> invalid_result ''max: not numeric''
          | Some x \<Rightarrow>
              if f64_is_nan x \<or> f64_is_nan mx then invalid_result (''must be <= '' @ show_f64 C mx)
              else if f64_le x mx then valid_result
              else invalid_result (''must be <= '' @ show_f64 C mx))"

definition eval_min_length :: "Value \<Rightarrow> Value \<Rightarrow> constraint_result" where
  "eval_min_length v d =
     (case value_as_u64 (value_get d ''min_length'') of
        None \<Rightarrow> invalid_result ''min_length: missing or non-uint''
      | Some mn \<Rightarrow>
          case measure_length v of
            None \<Rightarrow> invalid_result ''min_length: not string or bytes''
          | Some len \<Rightarrow> if len \<ge> mn then valid_result else invalid_result (''length must be >= '' @ show_nat (unat mn)))"

definition eval_max_length :: "Value \<Rightarrow> Value \<Rightarrow> constraint_result" where
  "eval_max_length v d =
     (case value_as_u64 (value_get d ''max_length'') of
        None \<Rightarrow> invalid_result ''max_length: missing or non-uint''
      | Some mx \<Rightarrow>
          case measure_length v of
            None \<Rightarrow> invalid_result ''max_length: not string or bytes''
          | Some len \<Rightarrow> if len \<le> mx then valid_result else invalid_result (''length must be <= '' @ show_nat (unat mx)))"

definition eval_min_count :: "Value \<Rightarrow> Value \<Rightarrow> constraint_result" where
  "eval_min_count v d =
     (case value_as_u64 (value_get d ''min_count'') of
        None \<Rightarrow> invalid_result ''min_count: missing or non-uint''
      | Some mn \<Rightarrow>
          case collection_size v of
            None \<Rightarrow> invalid_result ''min_count: not array or map''
          | Some cnt \<Rightarrow> if cnt \<ge> mn then valid_result else invalid_result (''count must be >= '' @ show_nat (unat mn)))"

definition eval_max_count :: "Value \<Rightarrow> Value \<Rightarrow> constraint_result" where
  "eval_max_count v d =
     (case value_as_u64 (value_get d ''max_count'') of
        None \<Rightarrow> invalid_result ''max_count: missing or non-uint''
      | Some mx \<Rightarrow>
          case collection_size v of
            None \<Rightarrow> invalid_result ''max_count: not array or map''
          | Some cnt \<Rightarrow> if cnt \<le> mx then valid_result else invalid_result (''count must be <= '' @ show_nat (unat mx)))"

definition eval_pattern :: "crates \<Rightarrow> Value \<Rightarrow> Value \<Rightarrow> constraint_result" where
  "eval_pattern C v d =
     (case text_at d ''pattern'' of
        None \<Rightarrow> invalid_result ''pattern: missing pattern field''
      | Some pattern \<Rightarrow>
          case as_str v of
            None \<Rightarrow> invalid_result ''pattern: not a string''
          | Some s \<Rightarrow>
              case regex_new C (''^(?:'' @ pattern @ '')$'') of
                None \<Rightarrow> invalid_result (''invalid RE2 pattern: '' @ pattern)
              | Some is_match \<Rightarrow>
                  if is_match s then valid_result else invalid_result (''must match pattern: '' @ pattern))"

definition eval_one_of :: "Value \<Rightarrow> Value \<Rightarrow> bool \<Rightarrow> constraint_result" where
  "eval_one_of v d negate =
     (case Option.bind (value_get d ''values'') as_array of
        None \<Rightarrow> invalid_result ''one_of: missing values field''
      | Some vals \<Rightarrow>
          let target = to_ecf v;
              found = list_ex (\<lambda>candidate. to_ecf candidate = target) vals;
              ok = (if negate then \<not> found else found)
          in if ok then valid_result
             else if negate then invalid_result ''must not be one of the listed values''
             else invalid_result ''must be one of the listed values'')"

definition eval_format :: "crates \<Rightarrow> Value \<Rightarrow> Value \<Rightarrow> string + constraint_result" where
  "eval_format C v d =
     (case text_at d ''format'' of
        None \<Rightarrow> Inr (invalid_result ''format: missing format field'')
      | Some format \<Rightarrow>
          case as_str v of
            None \<Rightarrow> Inr (invalid_result ''format: not a string'')
          | Some s \<Rightarrow>
              and_then (validate_format C s format) (\<lambda>r.
              Inr (case r of
                     Inr True \<Rightarrow> valid_result
                   | Inr False \<Rightarrow> invalid_result (''invalid '' @ format @ '' format'')
                   | Inl name \<Rightarrow> invalid_result (''unknown format: '' @ name))))"

definition type_pattern_matches :: "string \<Rightarrow> string \<Rightarrow> bool" where
  "type_pattern_matches pattern type_name = matches_pattern type_name pattern"

record constraint_handler =
  sc_content_store :: "content_store option"
  sc_location_index :: "loc_index option"
  sc_local_peer_id :: string

definition ch_resolve_hash :: "constraint_handler \<Rightarrow> bytes \<Rightarrow> string option" where
  "ch_resolve_hash H b =
     Option.bind (sc_content_store H) (\<lambda>store.
     case from_bytes b of
       Inl _ \<Rightarrow> None
     | Inr h \<Rightarrow> map_option entity_type (mcs_get h store))"

definition qualify_for_peer :: "string \<Rightarrow> string \<Rightarrow> string" where
  "qualify_for_peer peer path = (if starts_with path ''/'' then path else ''/'' @ peer @ ''/'' @ path)"

definition ch_resolve_path :: "constraint_handler \<Rightarrow> string \<Rightarrow> string option" where
  "ch_resolve_path H path =
     Option.bind (sc_content_store H) (\<lambda>store.
     Option.bind (sc_location_index H) (\<lambda>index.
     Option.bind (mli_get (qualify_for_peer (sc_local_peer_id H) path) index) (\<lambda>h.
     map_option entity_type (mcs_get h store))))"

definition eval_type_pattern :: "constraint_handler \<Rightarrow> Value \<Rightarrow> Value \<Rightarrow> constraint_result" where
  "eval_type_pattern H v d =
     (case text_at d ''pattern'' of
        None \<Rightarrow> invalid_result ''type_pattern: missing pattern field''
      | Some pattern \<Rightarrow>
          let check = (\<lambda>resolved.
                case resolved of
                  Some t \<Rightarrow>
                    if type_pattern_matches pattern t then valid_result
                    else invalid_result (''type '' @ t @ '' does not match pattern '' @ pattern)
                | None \<Rightarrow> valid_result)
          in case as_bytes v of
               Some b \<Rightarrow> check (ch_resolve_hash H b)
             | None \<Rightarrow>
                 case as_str v of
                   Some s \<Rightarrow> check (ch_resolve_path H s)
                 | None \<Rightarrow> invalid_result ''type_pattern: value not hash or path'')"

record constraint_request =
  rq_value :: Value
  constraint_type :: string
  constraint_data :: Value

definition evaluate :: "crates \<Rightarrow> constraint_handler \<Rightarrow> constraint_request \<Rightarrow> string + constraint_result" where
  "evaluate C H req =
     (let t = constraint_type req; v = rq_value req; d = constraint_data req
      in if t = TYPE_CONSTRAINT_MIN then Inr (eval_min C v d)
         else if t = TYPE_CONSTRAINT_MAX then Inr (eval_max C v d)
         else if t = TYPE_CONSTRAINT_MIN_LENGTH then Inr (eval_min_length v d)
         else if t = TYPE_CONSTRAINT_MAX_LENGTH then Inr (eval_max_length v d)
         else if t = TYPE_CONSTRAINT_MIN_COUNT then Inr (eval_min_count v d)
         else if t = TYPE_CONSTRAINT_MAX_COUNT then Inr (eval_max_count v d)
         else if t = TYPE_CONSTRAINT_PATTERN then Inr (eval_pattern C v d)
         else if t = TYPE_CONSTRAINT_ONE_OF then Inr (eval_one_of v d False)
         else if t = TYPE_CONSTRAINT_NOT_ONE_OF then Inr (eval_one_of v d True)
         else if t = TYPE_CONSTRAINT_FORMAT then eval_format C v d
         else if t = TYPE_CONSTRAINT_TYPE_PATTERN then Inr (eval_type_pattern H v d)
         else Inr (invalid_result (''unknown constraint type: '' @ t)))"

definition constraint_request_from_entity :: "crates \<Rightarrow> entity \<Rightarrow> string + constraint_request" where
  "constraint_request_from_entity C e =
     (case from_reader C (data e) of
        None \<Rightarrow> Inl ''decode: ''
      | Some v \<Rightarrow>
          and_then (ok_or (as_map v) ''params: expected map'') (\<lambda>entries.
          and_then (ok_or (Option.bind (last_entry ''constraint_type'' entries) as_str) ''missing constraint_type'') (\<lambda>t.
          Inr \<lparr>rq_value = dflt VNull (last_entry ''value'' entries), constraint_type = t,
               constraint_data = dflt VNull (last_entry ''constraint_data'' entries)\<rparr>)))"

definition constraint_result_value :: "constraint_result \<Rightarrow> Value" where
  "constraint_result_value r =
     VMap ((text_val ''valid'', bool_val (cr_valid r)) #
           (case cr_reason r of Some t \<Rightarrow> [(text_val ''reason'', text_val t)] | None \<Rightarrow> []))"

definition constraint_result_to_entity :: "crates \<Rightarrow> constraint_result \<Rightarrow> EntityError + entity" where
  "constraint_result_to_entity C r =
     entity_new (hashes C) (home_format C) TYPE_CONSTRAINT_VALIDATE_RES (to_ecf (constraint_result_value r))"

text \<open>A constraint entry of a field specification, as validation reads it.\<close>

definition decode_constraint :: "Value \<Rightarrow> (string \<times> Value) option" where
  "decode_constraint c =
     Option.bind (as_map c) (\<lambda>m.
     Option.bind (Option.bind (last_entry ''type'' m) as_str) (\<lambda>t.
     Some (t, dflt VNull (last_entry ''data'' m))))"

section \<open>A panic\<close>

text \<open>A \<^verbatim>\<open>date-time\<close> constraint panics on a text whose tenth and eleventh bytes are one character.\<close>

lemma datetime_panics:
  "evaluate C H \<lparr>rq_value = VText (''123456789'' @ [char_of (195::nat), char_of (169::nat)] @ ''123456789''),
     constraint_type = TYPE_CONSTRAINT_FORMAT, constraint_data = VMap [(VText ''format'', VText ''date-time'')]\<rparr> =
   Inl ''byte index 10 is not a char boundary''"
  by (simp add: evaluate_def TYPE_CONSTRAINT_MIN_def TYPE_CONSTRAINT_MAX_def TYPE_CONSTRAINT_MIN_LENGTH_def
      TYPE_CONSTRAINT_MAX_LENGTH_def TYPE_CONSTRAINT_MIN_COUNT_def TYPE_CONSTRAINT_MAX_COUNT_def TYPE_CONSTRAINT_PATTERN_def
      TYPE_CONSTRAINT_ONE_OF_def TYPE_CONSTRAINT_NOT_ONE_OF_def TYPE_CONSTRAINT_FORMAT_def eval_format_def text_at_def value_get_def as_str_def validate_format_def
      is_rfc3339_datetime_def is_continuation_def)

end
