(* ===== verification/Type_Narrowing.thy ===== *)
theory Type_Narrowing
  imports Type_System
begin

text \<open>
  Narrowing of constraints along \<^verbatim>\<open>extends\<close> (\<^verbatim>\<open>extensions/type-system/src/narrowing.rs\<close>): the
  per-kind rules, one step from a definition to its parent, and the walk to the root of the
  inheritance chain.  The walk is total because a step needs a name that was not visited and that the location index binds.
\<close>

section \<open>Operations\<close>

record narrowing_violation =
  nv_field :: string
  nv_constraint :: string
  nv_reason :: string

definition type_path :: "string \<Rightarrow> string \<Rightarrow> string" where
  "type_path peer name = ''/'' @ peer @ ''/system/type/'' @ name"

text \<open>The stores a type lookup reads, with the peer whose tree holds the definitions.\<close>

record type_tree =
  tt_peer :: string
  tt_store :: content_store
  tt_index :: loc_index

definition type_entity_at :: "crates \<Rightarrow> type_tree \<Rightarrow> string \<Rightarrow> Value option" where
  "type_entity_at C T path =
     Option.bind (mli_get path (tt_index T)) (\<lambda>h.
     Option.bind (mcs_get h (tt_store T)) (\<lambda>e.
     if entity_type e \<noteq> ''system/type'' then None else from_reader C (data e)))"

definition resolve_type :: "crates \<Rightarrow> type_tree \<Rightarrow> string \<Rightarrow> Value option" where
  "resolve_type C T name = type_entity_at C T (type_path (tt_peer T) name)"

definition fields_map :: "Value \<Rightarrow> (Value \<times> Value) list" where
  "fields_map def = dflt [] (Option.bind (value_get def ''fields'') as_map)"

definition constraints_of :: "Value \<Rightarrow> Value list" where
  "constraints_of field_spec = dflt [] (Option.bind (value_get field_spec ''constraints'') as_array)"

definition constraint_type_of :: "Value \<Rightarrow> string" where
  "constraint_type_of c = dflt [] (text_at c ''type'')"

definition constraint_data_of :: "Value \<Rightarrow> Value" where
  "constraint_data_of c = dflt VNull (value_get c ''data'')"

definition find_field_spec :: "(Value \<times> Value) list \<Rightarrow> string \<Rightarrow> Value option" where
  "find_field_spec m name = map_option snd (List.find (\<lambda>(k, v). as_str k = Some name) m)"

definition narrow_ge :: "crates \<Rightarrow> Value \<Rightarrow> Value \<Rightarrow> string \<Rightarrow> string + unit" where
  "narrow_ge C child parent key =
     and_then (ok_or (value_as_f64 (value_get child key)) (''missing '' @ key @ '' on child'')) (\<lambda>c.
     and_then (ok_or (value_as_f64 (value_get parent key)) (''missing '' @ key @ '' on parent'')) (\<lambda>p.
     ensure (f64_le p c) (''child '' @ key @ '' ('' @ show_f64 C c @ '') widens parent ('' @ show_f64 C p @ '')'')))"

definition narrow_le :: "crates \<Rightarrow> Value \<Rightarrow> Value \<Rightarrow> string \<Rightarrow> string + unit" where
  "narrow_le C child parent key =
     and_then (ok_or (value_as_f64 (value_get child key)) (''missing '' @ key @ '' on child'')) (\<lambda>c.
     and_then (ok_or (value_as_f64 (value_get parent key)) (''missing '' @ key @ '' on parent'')) (\<lambda>p.
     ensure (f64_le c p) (''child '' @ key @ '' ('' @ show_f64 C c @ '') widens parent ('' @ show_f64 C p @ '')'')))"

definition narrow_ge_uint :: "Value \<Rightarrow> Value \<Rightarrow> string \<Rightarrow> string + unit" where
  "narrow_ge_uint child parent key =
     and_then (ok_or (value_as_u64 (value_get child key)) (''missing '' @ key @ '' on child'')) (\<lambda>c.
     and_then (ok_or (value_as_u64 (value_get parent key)) (''missing '' @ key @ '' on parent'')) (\<lambda>p.
     ensure (p \<le> c) (''child '' @ key @ '' ('' @ show_nat (unat c) @ '') widens parent ('' @ show_nat (unat p) @ '')'')))"

definition narrow_le_uint :: "Value \<Rightarrow> Value \<Rightarrow> string \<Rightarrow> string + unit" where
  "narrow_le_uint child parent key =
     and_then (ok_or (value_as_u64 (value_get child key)) (''missing '' @ key @ '' on child'')) (\<lambda>c.
     and_then (ok_or (value_as_u64 (value_get parent key)) (''missing '' @ key @ '' on parent'')) (\<lambda>p.
     ensure (c \<le> p) (''child '' @ key @ '' ('' @ show_nat (unat c) @ '') widens parent ('' @ show_nat (unat p) @ '')'')))"

definition values_of :: "Value \<Rightarrow> Value list" where
  "values_of d = dflt [] (Option.bind (value_get d ''values'') as_array)"

text \<open>Every value of \<open>xs\<close> occurs in \<open>ys\<close>, by ECF bytes.\<close>

definition ecf_subset :: "Value list \<Rightarrow> Value list \<Rightarrow> bool" where
  "ecf_subset xs ys = list_all (\<lambda>v. list_ex (\<lambda>p. p = to_ecf v) (map to_ecf ys)) xs"

definition check_narrower :: "crates \<Rightarrow> string \<Rightarrow> Value \<Rightarrow> Value \<Rightarrow> string + unit" where
  "check_narrower C kind child parent =
     (let cd = constraint_data_of child; pd = constraint_data_of parent
      in if kind = TYPE_CONSTRAINT_MIN then narrow_ge C cd pd ''min''
         else if kind = TYPE_CONSTRAINT_MAX then narrow_le C cd pd ''max''
         else if kind = TYPE_CONSTRAINT_MIN_LENGTH then narrow_ge_uint cd pd ''min_length''
         else if kind = TYPE_CONSTRAINT_MAX_LENGTH then narrow_le_uint cd pd ''max_length''
         else if kind = TYPE_CONSTRAINT_MIN_COUNT then narrow_ge_uint cd pd ''min_count''
         else if kind = TYPE_CONSTRAINT_MAX_COUNT then narrow_le_uint cd pd ''max_count''
         else if kind = TYPE_CONSTRAINT_PATTERN
         then ensure (dflt [] (text_at cd ''pattern'') = dflt [] (text_at pd ''pattern''))
                ''non-equal patterns are incomparable''
         else if kind = TYPE_CONSTRAINT_FORMAT
         then ensure (dflt [] (text_at cd ''format'') = dflt [] (text_at pd ''format''))
                ''non-equal formats are incomparable''
         else if kind = TYPE_CONSTRAINT_TYPE_PATTERN
         then ensure (dflt [] (text_at cd ''pattern'') = dflt [] (text_at pd ''pattern''))
                ''non-equal type_patterns are incomparable (v1.1 baseline)''
         else if kind = TYPE_CONSTRAINT_ONE_OF
         then ensure (ecf_subset (values_of cd) (values_of pd)) ''child one_of contains value not in parent''
         else if kind = TYPE_CONSTRAINT_NOT_ONE_OF
         then ensure (ecf_subset (values_of pd) (values_of cd)) ''child not_one_of missing value present in parent''
         else Inr ())"

text \<open>The violations of one constraint of the parent, of one field, and of the step.\<close>

definition verify_constraint :: "crates \<Rightarrow> string \<Rightarrow> Value list \<Rightarrow> Value \<Rightarrow> narrowing_violation list" where
  "verify_constraint C field_name child_constraints parent_c =
     (let kind = constraint_type_of parent_c
      in case List.find (\<lambda>c. constraint_type_of c = kind) child_constraints of
           None \<Rightarrow> [\<lparr>nv_field = field_name, nv_constraint = kind, nv_reason = ''child removed parent constraint''\<rparr>]
         | Some matching \<Rightarrow>
             case check_narrower C kind matching parent_c of
               Inl msg \<Rightarrow> [\<lparr>nv_field = field_name, nv_constraint = kind, nv_reason = msg\<rparr>]
             | Inr _ \<Rightarrow> [])"

definition verify_field :: "crates \<Rightarrow> (Value \<times> Value) list \<Rightarrow> Value \<times> Value \<Rightarrow> narrowing_violation list" where
  "verify_field C child_fields entry =
     (case as_str (fst entry) of
        None \<Rightarrow> []
      | Some field_name \<Rightarrow>
          let parent_constraints = constraints_of (snd entry)
          in if parent_constraints = [] then []
             else let child_constraints =
                        (case find_field_spec child_fields field_name of Some spec \<Rightarrow> constraints_of spec | None \<Rightarrow> [])
                  in concat (map (verify_constraint C field_name child_constraints) parent_constraints))"

definition verify_step :: "crates \<Rightarrow> Value \<Rightarrow> Value \<Rightarrow> narrowing_violation list" where
  "verify_step C child parent =
     (case Option.bind (value_get parent ''fields'') as_map of
        None \<Rightarrow> []
      | Some parent_fields \<Rightarrow> concat (map (verify_field C (fields_map child)) parent_fields))"

definition parent_name_of :: "Value \<Rightarrow> string option" where
  "parent_name_of def =
     (case text_at def ''extends'' of Some s \<Rightarrow> if s = [] then None else Some s | None \<Rightarrow> None)"

text \<open>The names not yet visited that the index binds: what bounds the walk.\<close>

definition fresh_types :: "type_tree \<Rightarrow> string list \<Rightarrow> string set" where
  "fresh_types T visited = {n. n \<notin> set visited \<and> type_path (tt_peer T) n \<in> fst ` set (tt_index T)}"

lemma finite_fresh_types [simp]: "finite (fresh_types T visited)"
proof (rule finite_subset)
  show "fresh_types T visited \<subseteq> (\<lambda>p. drop (length (type_path (tt_peer T) [])) p) ` fst ` set (tt_index T)"
    by (force simp: fresh_types_def type_path_def image_iff)
qed simp

lemma mli_get_mem: "mli_get p index = Some h \<Longrightarrow> p \<in> fst ` set index"
  by (force simp: mli_get_def dest: map_of_SomeD)

lemma fresh_types_decrease:
  assumes "parent \<notin> set visited" "resolve_type C T parent = Some d"
  shows "card (fresh_types T (parent # visited)) < card (fresh_types T visited)"
proof (rule psubset_card_mono)
  have "type_path (tt_peer T) parent \<in> fst ` set (tt_index T)"
    using assms(2) by (auto simp: resolve_type_def type_entity_at_def bind_eq_Some_conv intro: mli_get_mem)
  then have "parent \<in> fresh_types T visited" using assms(1) by (simp add: fresh_types_def)
  then show "fresh_types T (parent # visited) \<subset> fresh_types T visited" by (auto simp: fresh_types_def)
qed simp

function narrowing_walk :: "crates \<Rightarrow> type_tree \<Rightarrow> string list \<Rightarrow> Value \<Rightarrow> narrowing_violation list" where
  "narrowing_walk C T visited current =
     (case parent_name_of current of
        None \<Rightarrow> []
      | Some parent_name \<Rightarrow>
          if parent_name \<in> set visited
          then [\<lparr>nv_field = [], nv_constraint = [], nv_reason = ''extends cycle detected at '' @ parent_name\<rparr>]
          else case resolve_type C T parent_name of
                 None \<Rightarrow> [\<lparr>nv_field = [], nv_constraint = [], nv_reason = ''parent type not resolved: '' @ parent_name\<rparr>]
               | Some parent_def \<Rightarrow>
                   verify_step C current parent_def @ narrowing_walk C T (parent_name # visited) parent_def)"
  by pat_completeness auto
termination
  by (relation "measure (\<lambda>(C, T, visited, current). card (fresh_types T visited))") (auto intro: fresh_types_decrease)

declare narrowing_walk.simps [simp del]

definition verify_narrowing :: "crates \<Rightarrow> type_tree \<Rightarrow> Value \<Rightarrow> narrowing_violation list" where
  "verify_narrowing C T child_def = narrowing_walk C T [dflt [] (text_at child_def ''name'')] child_def"

section \<open>What narrowing is for\<close>

definition passes :: "crates \<Rightarrow> constraint_handler \<Rightarrow> string \<Rightarrow> Value \<Rightarrow> Value \<Rightarrow> bool" where
  "passes C H t d v =
     (case evaluate C H \<lparr>rq_value = v, constraint_type = t, constraint_data = d\<rparr> of
        Inr r \<Rightarrow> cr_valid r | Inl _ \<Rightarrow> False)"

definition field_passes :: "crates \<Rightarrow> constraint_handler \<Rightarrow> Value \<Rightarrow> Value \<Rightarrow> bool" where
  "field_passes C H spec v =
     list_all (\<lambda>c. case decode_constraint c of None \<Rightarrow> True | Some (t, d) \<Rightarrow> passes C H t d v) (constraints_of spec)"

text \<open>The fields of an entity meet the constraints a definition puts on them.\<close>

definition conforms :: "crates \<Rightarrow> constraint_handler \<Rightarrow> Value \<Rightarrow> (Value \<times> Value) list \<Rightarrow> bool" where
  "conforms C H def es =
     list_all (\<lambda>(k, spec).
       case as_str k of
         None \<Rightarrow> True
       | Some f \<Rightarrow> (case find_field_spec es f of None \<Rightarrow> True | Some v \<Rightarrow> field_passes C H spec v)) (fields_map def)"

text \<open>A well-formed constraint entry: no key occurs twice, the kind is named, and a pattern or an exclusion
  list is there where the kind needs one.\<close>

definition entry_keys_ok :: "Value \<Rightarrow> bool" where
  "entry_keys_ok c = (case c of VMap m \<Rightarrow> distinct (map fst m) | _ \<Rightarrow> True)"

definition constraint_entry_ok :: "Value \<Rightarrow> bool" where
  "constraint_entry_ok c \<longleftrightarrow>
     entry_keys_ok c \<and> constraint_type_of c \<noteq> [] \<and>
     (constraint_type_of c \<in> {TYPE_CONSTRAINT_PATTERN, TYPE_CONSTRAINT_TYPE_PATTERN} \<longrightarrow>
        text_at (constraint_data_of c) ''pattern'' \<noteq> None) \<and>
     (constraint_type_of c = TYPE_CONSTRAINT_NOT_ONE_OF \<longrightarrow>
        Option.bind (value_get (constraint_data_of c) ''values'') as_array \<noteq> None)"

definition type_def_ok :: "Value \<Rightarrow> bool" where
  "type_def_ok def = list_all (\<lambda>(k, spec). list_all constraint_entry_ok (constraints_of spec)) (fields_map def)"

inductive ancestor :: "crates \<Rightarrow> type_tree \<Rightarrow> Value \<Rightarrow> Value \<Rightarrow> bool" for C T where
  anc_parent: "parent_name_of d = Some n \<Longrightarrow> resolve_type C T n = Some p \<Longrightarrow> ancestor C T d p"
| anc_step: "parent_name_of d = Some n \<Longrightarrow> resolve_type C T n = Some p \<Longrightarrow> ancestor C T p a \<Longrightarrow> ancestor C T d a"

inductive_cases ancestorE: "ancestor C T d a"

lemmas kind_defs = TYPE_CONSTRAINT_MIN_def TYPE_CONSTRAINT_MAX_def TYPE_CONSTRAINT_MIN_LENGTH_def
  TYPE_CONSTRAINT_MAX_LENGTH_def TYPE_CONSTRAINT_MIN_COUNT_def TYPE_CONSTRAINT_MAX_COUNT_def
  TYPE_CONSTRAINT_PATTERN_def TYPE_CONSTRAINT_ONE_OF_def TYPE_CONSTRAINT_NOT_ONE_OF_def
  TYPE_CONSTRAINT_FORMAT_def TYPE_CONSTRAINT_TYPE_PATTERN_def

lemma cr_valid_simps [simp]: "cr_valid valid_result" "\<not> cr_valid (invalid_result r)"
  by (simp_all add: valid_result_def invalid_result_def)

subsection \<open>The first and the last entry of a key\<close>

lemma map_get_alt: "map_get m key = map_of m (VText key)"
  by (induction m) (auto split: Value.splits)

lemma last_entry_alt: "last_entry key m = map_of (rev m) (VText key)"
proof -
  have "fold (\<lambda>(k, v) acc. if as_str k = Some key then Some v else acc) m a =
        (case map_of (rev m) (VText key) of None \<Rightarrow> a | Some v \<Rightarrow> Some v)" for a
    by (induction m arbitrary: a) (auto simp: as_str_def map_add_def split: Value.splits option.splits)
  then show ?thesis by (simp add: last_entry_def split: option.splits)
qed

lemma last_entry_distinct:
  assumes "distinct (map fst m)" shows "last_entry key m = map_get m key"
  using map_of_inject_set [of "rev m" m] assms by (simp add: last_entry_alt map_get_alt flip: rev_map)

lemma decode_constraint_ok:
  assumes "entry_keys_ok c"
  shows "decode_constraint c = map_option (\<lambda>t. (t, constraint_data_of c)) (text_at c ''type'')"
  using assms by (cases c) (auto simp: decode_constraint_def as_map_def entry_keys_ok_def last_entry_distinct
      text_at_def constraint_data_of_def value_get_def split: Option.bind_split)

subsection \<open>One rule per kind\<close>

lemma f64_le_trans: "f64_le a b \<Longrightarrow> f64_le b c \<Longrightarrow> f64_le a c"
  by (auto simp: f64_le_def)

lemma passes_min: "passes C H TYPE_CONSTRAINT_MIN d v \<longleftrightarrow>
  (\<exists>m x. value_as_f64 (value_get d ''min'') = Some m \<and> value_as_f64 (Some v) = Some x \<and> f64_le m x)"
  by (auto simp: passes_def evaluate_def eval_min_def f64_le_def split: option.splits)

lemma passes_max: "passes C H TYPE_CONSTRAINT_MAX d v \<longleftrightarrow>
  (\<exists>m x. value_as_f64 (value_get d ''max'') = Some m \<and> value_as_f64 (Some v) = Some x \<and> f64_le x m)"
  by (auto simp: passes_def evaluate_def eval_max_def f64_le_def kind_defs split: option.splits)

lemma passes_min_length: "passes C H TYPE_CONSTRAINT_MIN_LENGTH d v \<longleftrightarrow>
  (\<exists>m x. value_as_u64 (value_get d ''min_length'') = Some m \<and> measure_length v = Some x \<and> m \<le> x)"
  by (auto simp: passes_def evaluate_def eval_min_length_def kind_defs split: option.splits)

lemma passes_max_length: "passes C H TYPE_CONSTRAINT_MAX_LENGTH d v \<longleftrightarrow>
  (\<exists>m x. value_as_u64 (value_get d ''max_length'') = Some m \<and> measure_length v = Some x \<and> x \<le> m)"
  by (auto simp: passes_def evaluate_def eval_max_length_def kind_defs split: option.splits)

lemma passes_min_count: "passes C H TYPE_CONSTRAINT_MIN_COUNT d v \<longleftrightarrow>
  (\<exists>m x. value_as_u64 (value_get d ''min_count'') = Some m \<and> collection_size v = Some x \<and> m \<le> x)"
  by (auto simp: passes_def evaluate_def eval_min_count_def kind_defs split: option.splits)

lemma passes_max_count: "passes C H TYPE_CONSTRAINT_MAX_COUNT d v \<longleftrightarrow>
  (\<exists>m x. value_as_u64 (value_get d ''max_count'') = Some m \<and> collection_size v = Some x \<and> x \<le> m)"
  by (auto simp: passes_def evaluate_def eval_max_count_def kind_defs split: option.splits)

lemma passes_pattern: "passes C H TYPE_CONSTRAINT_PATTERN d v \<longleftrightarrow>
  (\<exists>p s m. text_at d ''pattern'' = Some p \<and> as_str v = Some s \<and> regex_new C (''^(?:'' @ p @ '')$'') = Some m \<and> m s)"
  by (auto simp: passes_def evaluate_def eval_pattern_def kind_defs split: option.splits)

lemma passes_one_of: "passes C H TYPE_CONSTRAINT_ONE_OF d v \<longleftrightarrow> to_ecf v \<in> to_ecf ` set (values_of d)"
  by (auto simp: passes_def evaluate_def eval_one_of_def kind_defs Let_def values_of_def dflt_def list_ex_iff image_iff
      split: option.splits)

lemma passes_not_one_of: "passes C H TYPE_CONSTRAINT_NOT_ONE_OF d v \<longleftrightarrow>
  Option.bind (value_get d ''values'') as_array \<noteq> None \<and> to_ecf v \<notin> to_ecf ` set (values_of d)"
  by (auto simp: passes_def evaluate_def eval_one_of_def kind_defs Let_def values_of_def dflt_def list_ex_iff image_iff
      split: option.splits)

lemma passes_format: "passes C H TYPE_CONSTRAINT_FORMAT d v \<longleftrightarrow>
  (\<exists>f s. text_at d ''format'' = Some f \<and> as_str v = Some s \<and> validate_format C s f = Inr (Inr True))"
  by (auto simp: passes_def evaluate_def eval_format_def kind_defs and_then_def
      split: option.splits sum.splits bool.splits)

text \<open>The pattern is the only part of the data a type-pattern constraint reads.\<close>

lemma passes_type_pattern_cong:
  "text_at d ''pattern'' = text_at d' ''pattern'' \<Longrightarrow>
   passes C H TYPE_CONSTRAINT_TYPE_PATTERN d v = passes C H TYPE_CONSTRAINT_TYPE_PATTERN d' v"
  by (simp add: passes_def evaluate_def eval_type_pattern_def kind_defs)

lemma passes_unknown:
  "t \<notin> {TYPE_CONSTRAINT_MIN, TYPE_CONSTRAINT_MAX, TYPE_CONSTRAINT_MIN_LENGTH, TYPE_CONSTRAINT_MAX_LENGTH,
     TYPE_CONSTRAINT_MIN_COUNT, TYPE_CONSTRAINT_MAX_COUNT, TYPE_CONSTRAINT_PATTERN, TYPE_CONSTRAINT_ONE_OF,
     TYPE_CONSTRAINT_NOT_ONE_OF, TYPE_CONSTRAINT_FORMAT, TYPE_CONSTRAINT_TYPE_PATTERN} \<Longrightarrow> \<not> passes C H t d v"
  by (simp add: passes_def evaluate_def)

lemmas passes_rules = passes_min passes_max passes_min_length passes_max_length passes_min_count
  passes_max_count passes_one_of passes_not_one_of passes_format

lemma ecf_subset_iff: "ecf_subset xs ys \<longleftrightarrow> to_ecf ` set xs \<subseteq> to_ecf ` set ys"
  by (auto simp: ecf_subset_def list_all_iff list_ex_iff)

lemma ensure_ok [simp]: "ensure b e = Inr () \<longleftrightarrow> b"
  by (cases b) simp_all

lemma ok_or_then [simp]: "and_then (ok_or x e) f = Inr () \<longleftrightarrow> (\<exists>a. x = Some a \<and> f a = Inr ())"
  by (cases x) simp_all

lemma format_needs_name: "validate_format C s [] \<noteq> Inr (Inr True)"
  by (simp add: validate_format_def)

lemma dflt_text: "dflt [] x = dflt [] y \<Longrightarrow> y \<noteq> None \<Longrightarrow> x = Some p \<Longrightarrow> y = Some p"
  by (auto simp: dflt_def)

lemma check_narrower_kinds:
  "check_narrower C TYPE_CONSTRAINT_MIN c p = narrow_ge C (constraint_data_of c) (constraint_data_of p) ''min''"
  "check_narrower C TYPE_CONSTRAINT_MAX c p = narrow_le C (constraint_data_of c) (constraint_data_of p) ''max''"
  "check_narrower C TYPE_CONSTRAINT_MIN_LENGTH c p = narrow_ge_uint (constraint_data_of c) (constraint_data_of p) ''min_length''"
  "check_narrower C TYPE_CONSTRAINT_MAX_LENGTH c p = narrow_le_uint (constraint_data_of c) (constraint_data_of p) ''max_length''"
  "check_narrower C TYPE_CONSTRAINT_MIN_COUNT c p = narrow_ge_uint (constraint_data_of c) (constraint_data_of p) ''min_count''"
  "check_narrower C TYPE_CONSTRAINT_MAX_COUNT c p = narrow_le_uint (constraint_data_of c) (constraint_data_of p) ''max_count''"
  "check_narrower C TYPE_CONSTRAINT_ONE_OF c p = Inr () \<longleftrightarrow>
     ecf_subset (values_of (constraint_data_of c)) (values_of (constraint_data_of p))"
  "check_narrower C TYPE_CONSTRAINT_NOT_ONE_OF c p = Inr () \<longleftrightarrow>
     ecf_subset (values_of (constraint_data_of p)) (values_of (constraint_data_of c))"
  "check_narrower C TYPE_CONSTRAINT_FORMAT c p = Inr () \<longleftrightarrow>
     dflt [] (text_at (constraint_data_of c) ''format'') = dflt [] (text_at (constraint_data_of p) ''format'')"
  "check_narrower C TYPE_CONSTRAINT_PATTERN c p = Inr () \<longleftrightarrow>
     dflt [] (text_at (constraint_data_of c) ''pattern'') = dflt [] (text_at (constraint_data_of p) ''pattern'')"
  "check_narrower C TYPE_CONSTRAINT_TYPE_PATTERN c p = Inr () \<longleftrightarrow>
     dflt [] (text_at (constraint_data_of c) ''pattern'') = dflt [] (text_at (constraint_data_of p) ''pattern'')"
  by (simp_all add: check_narrower_def kind_defs)

lemma narrow_sound:
  "narrow_ge C c p key = Inr () \<longleftrightarrow>
     (\<exists>x y. value_as_f64 (value_get c key) = Some x \<and> value_as_f64 (value_get p key) = Some y \<and> f64_le y x)"
  "narrow_le C c p key = Inr () \<longleftrightarrow>
     (\<exists>x y. value_as_f64 (value_get c key) = Some x \<and> value_as_f64 (value_get p key) = Some y \<and> f64_le x y)"
  "narrow_ge_uint c p key = Inr () \<longleftrightarrow>
     (\<exists>x y. value_as_u64 (value_get c key) = Some x \<and> value_as_u64 (value_get p key) = Some y \<and> y \<le> x)"
  "narrow_le_uint c p key = Inr () \<longleftrightarrow>
     (\<exists>x y. value_as_u64 (value_get c key) = Some x \<and> value_as_u64 (value_get p key) = Some y \<and> x \<le> y)"
  by (auto simp: narrow_ge_def narrow_le_def narrow_ge_uint_def narrow_le_uint_def)

lemma passes_kind_cases:
  assumes "passes C H t d v"
  obtains (range) "t \<in> {TYPE_CONSTRAINT_MIN, TYPE_CONSTRAINT_MAX, TYPE_CONSTRAINT_MIN_LENGTH,
        TYPE_CONSTRAINT_MAX_LENGTH, TYPE_CONSTRAINT_MIN_COUNT, TYPE_CONSTRAINT_MAX_COUNT}"
    | (one_of) "t = TYPE_CONSTRAINT_ONE_OF" | (not_one_of) "t = TYPE_CONSTRAINT_NOT_ONE_OF"
    | (format) "t = TYPE_CONSTRAINT_FORMAT" | (pattern) "t = TYPE_CONSTRAINT_PATTERN"
    | (type_pattern) "t = TYPE_CONSTRAINT_TYPE_PATTERN"
  using passes_unknown [of t C H d v] assms by blast

lemma passes_type_pattern_some: "passes C H TYPE_CONSTRAINT_TYPE_PATTERN d v \<Longrightarrow> text_at d ''pattern'' \<noteq> None"
  by (auto simp: passes_def evaluate_def eval_type_pattern_def kind_defs split: option.splits)

lemma check_narrower_sound:
  assumes c: "check_narrower C t child parent = Inr ()" and p: "passes C H t (constraint_data_of child) v"
    and k: "constraint_type_of parent = t" "constraint_entry_ok parent"
  shows "passes C H t (constraint_data_of parent) v"
  using p
proof (cases rule: passes_kind_cases)
  case range
  then show ?thesis using c p
    by (elim insertE emptyE; force simp: passes_rules check_narrower_kinds narrow_sound intro: f64_le_trans order_trans)
next
  case one_of
  then show ?thesis using c p by (auto simp: passes_one_of check_narrower_kinds ecf_subset_iff)
next
  case not_one_of
  then show ?thesis using c p k by (auto simp: passes_not_one_of check_narrower_kinds ecf_subset_iff constraint_entry_ok_def)
next
  case format
  then show ?thesis using c p format_needs_name by (auto simp: passes_format check_narrower_kinds dflt_def split: option.splits)
next
  case pattern
  then have "text_at (constraint_data_of parent) ''pattern'' \<noteq> None" using k by (auto simp: constraint_entry_ok_def)
  then show ?thesis using pattern c p by (auto simp: passes_pattern check_narrower_kinds dflt_def split: option.splits)
next
  case type_pattern
  then have "text_at (constraint_data_of parent) ''pattern'' \<noteq> None" using k by (auto simp: constraint_entry_ok_def)
  then have "text_at (constraint_data_of child) ''pattern'' = text_at (constraint_data_of parent) ''pattern''"
    using type_pattern c p passes_type_pattern_some [of C H "constraint_data_of child" v]
    by (auto simp: check_narrower_kinds dflt_def split: option.splits)
  then show ?thesis using type_pattern p passes_type_pattern_cong by blast
qed

subsection \<open>A step and the walk\<close>

lemma verify_step_sound:
  assumes s: "verify_step C c p = []" and ok: "type_def_ok c" "type_def_ok p" and cf: "conforms C H c es"
  shows "conforms C H p es"
  unfolding conforms_def list_all_iff
proof (clarsimp split: option.splits simp: field_passes_def list_all_iff)
  fix k spec f v pc t pd
  assume m: "(k, spec) \<in> set (fields_map p)" "as_str k = Some f" "find_field_spec es f = Some v"
    and pc: "pc \<in> set (constraints_of spec)" "decode_constraint pc = Some (t, pd)"
  define cs where "cs = (case find_field_spec (fields_map c) f of Some spec \<Rightarrow> constraints_of spec | None \<Rightarrow> [])"
  have "verify_field C (fields_map c) (k, spec) = []"
    using s m(1) by (auto simp: verify_step_def fields_map_def dflt_def split: option.splits)
  then have "verify_constraint C f cs pc = []"
    using m(2) pc(1) by (auto simp: verify_field_def cs_def Let_def split: if_splits)
  then obtain cc where cc: "List.find (\<lambda>c. constraint_type_of c = constraint_type_of pc) cs = Some cc"
      "check_narrower C (constraint_type_of pc) cc pc = Inr ()"
    by (auto simp: verify_constraint_def Let_def split: option.splits sum.splits)
  have pok: "constraint_entry_ok pc" using ok(2) m(1) pc(1) by (auto simp: type_def_ok_def list_all_iff)
  then have t: "constraint_type_of pc = t" "pd = constraint_data_of pc" "t \<noteq> []"
    using pc(2) by (auto simp: constraint_entry_ok_def decode_constraint_ok constraint_type_of_def dflt_def)
  have cmem: "cc \<in> set cs" "constraint_type_of cc = t" using cc(1) t(1) by (auto simp: find_Some_iff)
  obtain cspec where csp: "find_field_spec (fields_map c) f = Some cspec" "cs = constraints_of cspec"
    using cmem(1) by (cases "find_field_spec (fields_map c) f") (auto simp: cs_def)
  then obtain ck where ck: "(ck, cspec) \<in> set (fields_map c)" "as_str ck = Some f"
    by (auto simp: find_field_spec_def find_Some_iff) (metis nth_mem)
  have "constraint_entry_ok cc" using ok(1) ck(1) cmem(1) csp(2) by (auto simp: type_def_ok_def list_all_iff)
  then have "decode_constraint cc = Some (t, constraint_data_of cc)"
    using cmem(2) t(3) by (auto simp: constraint_entry_ok_def decode_constraint_ok constraint_type_of_def dflt_def split: option.splits)
  then have "passes C H t (constraint_data_of cc) v"
    using cf ck m(3) cmem(1) csp(2) by (fastforce simp: conforms_def list_all_iff field_passes_def)
  then show "passes C H t pd v" using check_narrower_sound [of C t cc pc H v] cc(2) t pok by simp
qed

lemma narrowing_walk_parent:
  assumes "narrowing_walk C T vs d = []" "parent_name_of d = Some n" "resolve_type C T n = Some p"
  shows "n \<notin> set vs" "verify_step C d p = []" "narrowing_walk C T (n # vs) p = []"
  using assms by (subst (asm) narrowing_walk.simps; auto split: if_splits)+

lemma narrowing_walk_sound:
  assumes "ancestor C T d a" "narrowing_walk C T vs d = []" "type_def_ok d"
    "\<And>x. ancestor C T d x \<Longrightarrow> type_def_ok x" "conforms C H d es"
  shows "conforms C H a es"
  using assms
proof (induction arbitrary: vs rule: ancestor.induct)
  case (anc_parent d n p)
  then show ?case using narrowing_walk_parent verify_step_sound ancestor.anc_parent by metis
next
  case (anc_step d n p a)
  have p: "type_def_ok p" using anc_step by (auto intro: ancestor.intros)
  then have "conforms C H p es" using anc_step narrowing_walk_parent verify_step_sound by metis
  then show ?case using anc_step p narrowing_walk_parent(3) [OF anc_step.prems(1)] by (auto intro: ancestor.intros)
qed

lemma narrowing_walk_decreases:
  assumes "ancestor C T d a" "narrowing_walk C T vs d = []"
  shows "\<exists>vs'. narrowing_walk C T vs' a = [] \<and> card (fresh_types T vs') < card (fresh_types T vs)"
  using assms
proof (induction arbitrary: vs rule: ancestor.induct)
  case (anc_parent d n p)
  then show ?case using narrowing_walk_parent fresh_types_decrease by metis
next
  case (anc_step d n p a)
  then show ?case using narrowing_walk_parent [OF anc_step.prems] fresh_types_decrease [of n vs C T p]
    by (meson order_less_trans)
qed

lemma narrowing_walk_acyclic: "narrowing_walk C T vs d = [] \<Longrightarrow> \<not> ancestor C T d d"
proof (induction "card (fresh_types T vs)" arbitrary: vs rule: less_induct)
  case less
  then show ?case using narrowing_walk_decreases by blast
qed

section \<open>Properties\<close>

text \<open>C23. Narrowing does what it is for on well-formed definitions: suppose that in a definition and all its ancestors every constraint
  entry names its kind, has no key twice, and carries the pattern or the value list that its kind needs.  When the check of the
  definition then reports nothing, an entity whose fields meet the constraints of the definition, as the standard evaluator judges them, also meets
  the constraints of every ancestor.  Both conditions on the entries are needed, as \<open>duplicate_key_widens\<close> and \<open>missing_pattern_widens\<close>
  below show.\<close>

theorem narrowing_sound:
  assumes "verify_narrowing C T d = []" "ancestor C T d a"
    and "type_def_ok d" "\<And>x. ancestor C T d x \<Longrightarrow> type_def_ok x"
    and "conforms C H d es"
  shows "conforms C H a es"
  using narrowing_walk_sound [OF assms(2) _ assms(3,4,5)] assms(1) by (simp add: verify_narrowing_def)

text \<open>C26. A definition whose inheritance chain runs into a cycle is never accepted: the walk, which always
  ends, reports a violation.\<close>

theorem narrowing_rejects_cycles:
  assumes "a = d \<or> ancestor C T d a" "ancestor C T a a"
  shows "verify_narrowing C T d \<noteq> []"
  using assms narrowing_walk_acyclic narrowing_walk_decreases unfolding verify_narrowing_def by metis

text \<open>C27. Numeric bounds on integers: over the whole range of CBOR integers a value that meets an integer bound passes the
  \<^verbatim>\<open>min\<close> or \<^verbatim>\<open>max\<close> constraint, and up to \<open>2 ^ 53\<close> in magnitude the constraint holds exactly when the bound does, although the
  comparison is made in \<^verbatim>\<open>f64\<close>.\<close>

theorem int_bounds_correct:
  assumes "\<bar>i\<bar> \<le> 2 ^ 64" "\<bar>b\<bar> \<le> 2 ^ 64"
  shows "(b \<le> i \<longrightarrow> passes C H TYPE_CONSTRAINT_MIN (VMap [(VText ''min'', VInteger b)]) (VInteger i)) \<and>
    (i \<le> b \<longrightarrow> passes C H TYPE_CONSTRAINT_MAX (VMap [(VText ''max'', VInteger b)]) (VInteger i)) \<and>
    (\<bar>i\<bar> \<le> 2 ^ 53 \<and> \<bar>b\<bar> \<le> 2 ^ 53 \<longrightarrow>
      (passes C H TYPE_CONSTRAINT_MIN (VMap [(VText ''min'', VInteger b)]) (VInteger i) \<longleftrightarrow> b \<le> i) \<and>
      (passes C H TYPE_CONSTRAINT_MAX (VMap [(VText ''max'', VInteger b)]) (VInteger i) \<longleftrightarrow> i \<le> b))"
  using i128_as_f64_mono [OF assms] i128_as_f64_mono [OF assms(2,1)] i128_as_f64_exact [of i b] i128_as_f64_exact [of b i]
  by (auto simp: passes_min passes_max value_get_def value_as_f64_def)

text \<open>Above that, a \<^verbatim>\<open>min\<close> of \<open>2 ^ 53 + 1\<close> admits \<open>2 ^ 53\<close>.\<close>

lemma min_admits_less:
  "passes C H TYPE_CONSTRAINT_MIN (VMap [(VText ''min'', VInteger (2 ^ 53 + 1))]) (VInteger (2 ^ 53))"
  unfolding passes_min using i128_as_f64_rounds i128_as_f64_mono [of "2 ^ 53" "2 ^ 53"]
  by (auto simp: value_get_def value_as_f64_def)

subsection \<open>An example\<close>

declare some_decoder_def [code del]

definition ex_crates :: crates where
  "ex_crates = \<lparr>regex_new = (\<lambda>_. None), bs58_decodes = (\<lambda>_. False), show_f64 = (\<lambda>_. []), from_reader = some_decoder,
     hashes = \<lparr>sha256 = (\<lambda>_. replicate 32 0), sha384 = (\<lambda>_. replicate 48 0)\<rparr>, home_format = 0\<rparr>"

definition ex_handler :: constraint_handler where
  "ex_handler = \<lparr>sc_content_store = None, sc_location_index = None, sc_local_peer_id = ''me''\<rparr>"

definition max_entry :: "int \<Rightarrow> Value" where
  "max_entry n = VMap [(VText ''data'', VMap [(VText ''max_length'', VInteger n)]), (VText ''type'', VText TYPE_CONSTRAINT_MAX_LENGTH)]"

definition nick_type :: "string \<Rightarrow> string \<Rightarrow> Value \<Rightarrow> Value" where
  "nick_type name parent c =
     VMap [(VText ''name'', VText name),
           (VText ''fields'', VMap [(VText ''nick'', VMap [(VText ''constraints'', VArray [c])])]),
           (VText ''extends'', VText parent)]"

definition ex_tree :: type_tree where
  "ex_tree = \<lparr>tt_peer = ''me'',
     tt_store = [(hash_zero, \<lparr>entity_type = ''system/type'', data = to_ecf (nick_type ''p'' [] (max_entry 5)), content_hash = hash_zero\<rparr>)],
     tt_index = [(''/me/system/type/p'', hash_zero)]\<rparr>"

lemma ex_resolve: "resolve_type ex_crates ex_tree n = (if n = ''p'' then Some (nick_type ''p'' [] (max_entry 5)) else None)"
proof -
  have "some_decoder (to_ecf (nick_type ''p'' [] (max_entry 5))) = Some (canon (nick_type ''p'' [] (max_entry 5)))"
    using some_decoder_ok by (simp add: dec_ok_def nick_type_def max_entry_def kind_defs)
  moreover have "canon (nick_type ''p'' [] (max_entry 5)) = nick_type ''p'' [] (max_entry 5)" by code_simp
  ultimately show ?thesis
    by (simp add: resolve_type_def type_entity_at_def type_path_def ex_tree_def mli_get_def mcs_get_def ex_crates_def)
qed

lemma nick_type_parent [simp]: "parent_name_of (nick_type name parent c) = (if parent = [] then None else Some parent)"
  by (simp add: parent_name_of_def text_at_def value_get_def nick_type_def as_str_def)

lemma nick_type_root: "parent_name_of (nick_type name [] c) = Some n \<Longrightarrow> False"
  by simp

lemma nick_type_name [simp]: "text_at (nick_type name parent c) ''name'' = Some name"
  by (simp add: text_at_def value_get_def nick_type_def as_str_def)

lemma ex_step: "verify_step ex_crates (nick_type ''c'' ''p'' (max_entry 3)) (nick_type ''p'' [] (max_entry 5)) = []"
  by code_simp

lemma ex_accepted: "verify_narrowing ex_crates ex_tree (nick_type ''c'' ''p'' (max_entry 3)) = []"
  by (simp add: verify_narrowing_def narrowing_walk.simps ex_resolve ex_step dflt_def)

lemma ex_ancestor: "ancestor ex_crates ex_tree (nick_type c ''p'' e) x \<longleftrightarrow> x = nick_type ''p'' [] (max_entry 5)"
proof
  have "\<not> ancestor ex_crates ex_tree (nick_type ''p'' [] e) x" for e x by (blast elim: ancestorE dest: nick_type_root)
  then show "x = nick_type ''p'' [] (max_entry 5)" if "ancestor ex_crates ex_tree (nick_type c ''p'' e) x"
    using that by (cases rule: ancestorE) (auto simp: ex_resolve split: if_splits)
qed (auto simp: ex_resolve intro!: anc_parent [of _ "''p''"])

lemma ex_parent_ok: "type_def_ok (nick_type ''p'' [] (max_entry 5))"
  by code_simp

theorem narrowing_sound_witness:
  "conforms ex_crates ex_handler (nick_type ''p'' [] (max_entry 5)) [(VText ''nick'', VText ''ab'')]"
proof (rule narrowing_sound [OF ex_accepted])
  show "type_def_ok (nick_type ''c'' ''p'' (max_entry 3))" by code_simp
  show "conforms ex_crates ex_handler (nick_type ''c'' ''p'' (max_entry 3)) [(VText ''nick'', VText ''ab'')]" by code_simp
qed (auto simp: ex_ancestor ex_parent_ok)

theorem int_bounds_correct_witness:
  "passes ex_crates ex_handler TYPE_CONSTRAINT_MIN (VMap [(VText ''min'', VInteger 18)]) (VInteger 40) \<and>
   \<not> passes ex_crates ex_handler TYPE_CONSTRAINT_MAX (VMap [(VText ''max'', VInteger 18)]) (VInteger 40)"
  using int_bounds_correct [of 40 18 ex_crates ex_handler] by simp

definition loop_tree :: type_tree where
  "loop_tree = \<lparr>tt_peer = ''me'',
     tt_store = [(hash_zero, \<lparr>entity_type = ''system/type'', data = to_ecf (nick_type ''q'' ''q'' (max_entry 1)), content_hash = hash_zero\<rparr>)],
     tt_index = [(''/me/system/type/q'', hash_zero)]\<rparr>"

lemma loop_resolve: "resolve_type ex_crates loop_tree ''q'' = Some (nick_type ''q'' ''q'' (max_entry 1))"
proof -
  have "some_decoder (to_ecf (nick_type ''q'' ''q'' (max_entry 1))) = Some (canon (nick_type ''q'' ''q'' (max_entry 1)))"
    using some_decoder_ok by (simp add: dec_ok_def nick_type_def max_entry_def kind_defs)
  moreover have "canon (nick_type ''q'' ''q'' (max_entry 1)) = nick_type ''q'' ''q'' (max_entry 1)" by code_simp
  ultimately show ?thesis
    by (simp add: resolve_type_def type_entity_at_def type_path_def loop_tree_def mli_get_def mcs_get_def ex_crates_def)
qed

theorem narrowing_rejects_cycles_witness:
  "verify_narrowing ex_crates loop_tree (nick_type ''c'' ''q'' (max_entry 1)) \<noteq> []"
proof (rule narrowing_rejects_cycles)
  have p: "ancestor ex_crates loop_tree (nick_type n ''q'' (max_entry 1)) (nick_type ''q'' ''q'' (max_entry 1))" for n
    by (rule anc_parent [of _ "''q''"]) (simp_all add: loop_resolve)
  show "nick_type ''q'' ''q'' (max_entry 1) = nick_type ''c'' ''q'' (max_entry 1) \<or>
        ancestor ex_crates loop_tree (nick_type ''c'' ''q'' (max_entry 1)) (nick_type ''q'' ''q'' (max_entry 1))"
    by (rule disjI2, rule p)
  show "ancestor ex_crates loop_tree (nick_type ''q'' ''q'' (max_entry 1)) (nick_type ''q'' ''q'' (max_entry 1))" by (rule p)
qed

subsection \<open>Where the two readings of an entry differ\<close>

text \<open>The check of narrowing reads the first entry of a key, validation the last: a constraint entry with two
  \<^verbatim>\<open>data\<close> keys passes the check with one bound and is evaluated with the other, wider than the parent's.\<close>

definition two_faced :: Value where
  "two_faced = VMap [(VText ''data'', VMap [(VText ''max_length'', VInteger 3)]), (VText ''data'', VMap [(VText ''max_length'', VInteger 9)]),
     (VText ''type'', VText TYPE_CONSTRAINT_MAX_LENGTH)]"

lemma duplicate_key_widens:
  "verify_narrowing ex_crates ex_tree (nick_type ''c'' ''p'' two_faced) = []"
  "conforms ex_crates ex_handler (nick_type ''c'' ''p'' two_faced) [(VText ''nick'', VText ''abcdefg'')]"
  "\<not> conforms ex_crates ex_handler (nick_type ''p'' [] (max_entry 5)) [(VText ''nick'', VText ''abcdefg'')]"
proof -
  have "verify_step ex_crates (nick_type ''c'' ''p'' two_faced) (nick_type ''p'' [] (max_entry 5)) = []" by code_simp
  then show "verify_narrowing ex_crates ex_tree (nick_type ''c'' ''p'' two_faced) = []"
    by (simp add: verify_narrowing_def narrowing_walk.simps ex_resolve dflt_def)
qed code_simp+

text \<open>The check compares the patterns of two constraints and reads an absent pattern as the empty one; the evaluator rejects every value when the pattern is
  absent.  A child with the empty pattern therefore passes the check below a parent whose constraint has no pattern, and admits a value that the parent
  rejects.\<close>

definition pattern_entry :: "string option \<Rightarrow> Value" where
  "pattern_entry p = VMap [(VText ''data'', VMap (case p of Some x \<Rightarrow> [(VText ''pattern'', VText x)] | None \<Rightarrow> [])),
     (VText ''type'', VText TYPE_CONSTRAINT_PATTERN)]"

definition any_regex :: crates where "any_regex = ex_crates\<lparr>regex_new := (\<lambda>_. Some (\<lambda>_. True))\<rparr>"

lemma missing_pattern_widens:
  "verify_step any_regex (nick_type ''c'' ''p'' (pattern_entry (Some []))) (nick_type ''p'' [] (pattern_entry None)) = []"
  "conforms any_regex ex_handler (nick_type ''c'' ''p'' (pattern_entry (Some []))) [(VText ''nick'', VText ''ab'')]"
  "\<not> conforms any_regex ex_handler (nick_type ''p'' [] (pattern_entry None)) [(VText ''nick'', VText ''ab'')]"
  by code_simp+

end
