(* ===== verification/Type_Validate.thy ===== *)
theory Type_Validate
  imports Type_Narrowing
begin

text \<open>
  The handlers of the type system: the constraint handler of \<^verbatim>\<open>constraint.rs\<close> and the two-phase validation
  of \<^verbatim>\<open>validate.rs\<close>, with the dispatch of each constraint through \<^verbatim>\<open>ctx.execute_fn\<close>.  The dispatcher is a
  parameter of the context: a function from the handler's path, the operation and the request entity to the
  result, an error of the dispatcher, or a panic.
\<close>

section \<open>Results and errors of handlers\<close>

record handler_result =
  hr_status :: u32
  hr_result :: entity
  hr_included :: "(hash, entity) btree"

definition HandlerResult_ok :: "entity \<Rightarrow> handler_result" where
  "HandlerResult_ok e = \<lparr>hr_status = STATUS_OK, hr_result = e, hr_included = []\<rparr>"

definition HandlerResult_error :: "u32 \<Rightarrow> entity \<Rightarrow> handler_result" where
  "HandlerResult_error s e = \<lparr>hr_status = s, hr_result = e, hr_included = []\<rparr>"

text \<open>\<^verbatim>\<open>.expect(msg)\<close> on a result.\<close>

definition expect :: "string \<Rightarrow> 'e + 'a \<Rightarrow> string + 'a" where
  "expect msg r = map_err (\<lambda>_. msg) r"

definition new_entity :: "crates \<Rightarrow> string \<Rightarrow> Value \<Rightarrow> EntityError + entity" where
  "new_entity C t v = entity_new (hashes C) (home_format C) t (to_ecf v)"

definition error_entity :: "crates \<Rightarrow> string \<Rightarrow> string \<Rightarrow> string + entity" where
  "error_entity C code message =
     expect ''error entity'' (new_entity C TYPE_ERROR
       (VMap [(text_val ''code'', text_val code), (text_val ''message'', text_val message)]))"

definition error_result :: "crates \<Rightarrow> u32 \<Rightarrow> string \<Rightarrow> string \<Rightarrow> string + handler_result" where
  "error_result C s code message = and_then (error_entity C code message) (\<lambda>e. Inr (HandlerResult_error s e))"

text \<open>Each text entry of a key overwrites the variable; other values leave it.\<close>

definition last_text :: "string \<Rightarrow> (Value \<times> Value) list \<Rightarrow> string option" where
  "last_text key m =
     fold (\<lambda>(k, v) acc. if k = VText key then (case v of VText s \<Rightarrow> Some s | _ \<Rightarrow> acc) else acc) m None"

definition decode_error_entity :: "crates \<Rightarrow> entity \<Rightarrow> (string option \<times> string option) option" where
  "decode_error_entity C e =
     (if entity_type e \<noteq> TYPE_ERROR then None
      else case from_reader C (data e) of
             Some (VMap m) \<Rightarrow> Some (last_text ''code'' m, last_text ''message'' m)
           | _ \<Rightarrow> Some (None, None))"

section \<open>The constraint handler\<close>

record handler_context =
  hc_operation :: string
  ctx_params :: entity
  execute_fn :: "(string \<Rightarrow> string \<Rightarrow> entity \<Rightarrow> string + (string + handler_result)) option"

definition constraint_handle :: "crates \<Rightarrow> constraint_handler \<Rightarrow> string \<Rightarrow> entity \<Rightarrow> string + handler_result" where
  "constraint_handle C H operation params =
     (if operation \<noteq> ''validate''
      then error_result C STATUS_NOT_SUPPORTED ''unsupported_operation''
             (''system/type/constraint/* expects validate, got '' @ operation)
      else case constraint_request_from_entity C params of
             Inl e \<Rightarrow> error_result C HANDLER_BAD_REQUEST ''invalid_request'' e
           | Inr req \<Rightarrow>
               and_then (evaluate C H req) (\<lambda>res.
               case constraint_result_to_entity C res of
                 Inl e \<Rightarrow> error_result C STATUS_INTERNAL_ERROR ''internal_error'' []
               | Inr e \<Rightarrow> Inr (HandlerResult_ok e)))"

section \<open>Validation\<close>

record violation =
  vi_field :: string
  vi_kind :: string
  vi_constraint :: "string option"
  vi_reason :: string

record validate_result =
  vr_valid :: bool
  vr_violations :: "violation list"
  vr_unevaluated :: "string list"

datatype DispatchOutcome = DValid | DInvalid string | DispatchFailed string

definition violation_value :: "violation \<Rightarrow> Value" where
  "violation_value v =
     VMap ([(text_val ''field'', text_val (vi_field v)), (text_val ''kind'', text_val (vi_kind v)),
            (text_val ''reason'', text_val (vi_reason v))] @
           (case vi_constraint v of Some c \<Rightarrow> [(text_val ''constraint'', text_val c)] | None \<Rightarrow> []))"

definition violation_to_entity :: "crates \<Rightarrow> violation \<Rightarrow> string + entity" where
  "violation_to_entity C v = expect ''violation entity'' (new_entity C TYPE_VIOLATION (violation_value v))"

definition violation_inline :: "crates \<Rightarrow> violation \<Rightarrow> string + Value list" where
  "violation_inline C v =
     and_then (violation_to_entity C v) (\<lambda>e. Inr [dflt (VMap []) (from_reader C (data e))])"

definition validate_result_value :: "validate_result \<Rightarrow> Value list \<Rightarrow> Value" where
  "validate_result_value r arr =
     VMap ((text_val ''valid'', bool_val (vr_valid r)) #
           (if vr_violations r = [] then [] else [(text_val ''violations'', VArray arr)]) @
           (if vr_unevaluated r = [] then []
            else [(text_val ''unevaluated_fields'', VArray (map text_val (vr_unevaluated r)))]))"

definition validate_result_to_entity :: "crates \<Rightarrow> validate_result \<Rightarrow> string + entity" where
  "validate_result_to_entity C r =
     and_then (collect (violation_inline C) (vr_violations r)) (\<lambda>arr.
     expect ''validate-result entity'' (new_entity C TYPE_VALIDATE_RES (validate_result_value r arr)))"

definition parse_validate_request :: "Value \<Rightarrow> string + (Value \<times> string option)" where
  "parse_validate_request v =
     and_then (ok_or (as_map v) ''validate-request must be a map'') (\<lambda>m.
     and_then (ok_or (last_entry ''entity'' m) ''missing entity'') (\<lambda>e.
     Inr (e, Option.bind (last_entry ''type_path'' m) as_str)))"

definition parse_dispatch_result :: "crates \<Rightarrow> entity \<Rightarrow> DispatchOutcome" where
  "parse_dispatch_result C e =
     (case from_reader C (data e) of
        None \<Rightarrow> DispatchFailed ''decode: ''
      | Some v \<Rightarrow>
          if dflt False (Option.bind (value_get v ''valid'') as_bool_val) then DValid
          else DInvalid (dflt [] (text_at v ''reason'')))"

definition classify_reason :: "string \<Rightarrow> string" where
  "classify_reason reason =
     (if starts_with reason ''unknown constraint type:'' \<or> starts_with reason ''unknown format:''
      then ''unknown_constraint'' else ''constraint'')"

definition dispatch_request :: "Value \<Rightarrow> string \<Rightarrow> Value \<Rightarrow> Value" where
  "dispatch_request v t d =
     VMap [(text_val ''value'', v), (text_val ''constraint_type'', text_val t), (text_val ''constraint_data'', d)]"

definition dispatch_constraint ::
    "crates \<Rightarrow> (string \<Rightarrow> string \<Rightarrow> entity \<Rightarrow> string + (string + handler_result)) option \<Rightarrow>
     Value \<Rightarrow> string \<Rightarrow> Value \<Rightarrow> string + DispatchOutcome" where
  "dispatch_constraint C exec v t d =
     (case exec of
        None \<Rightarrow> Inr (DispatchFailed ''no execute_fn'')
      | Some f \<Rightarrow>
          case new_entity C ''system/type/constraint/validate-request'' (dispatch_request v t d) of
            Inl e \<Rightarrow> Inr (DispatchFailed ''build request: '')
          | Inr req \<Rightarrow>
              and_then (f t ''validate'' req) (\<lambda>outcome.
              case outcome of
                Inl e \<Rightarrow> Inr (DispatchFailed e)
              | Inr res \<Rightarrow>
                  if hr_status res \<noteq> STATUS_OK
                  then Inr (DispatchFailed
                         (case decode_error_entity C (hr_result res) of
                            Some (Some code, _) \<Rightarrow> ''handler status '' @ show_nat (unat (hr_status res)) @ '' '' @ code
                          | _ \<Rightarrow> ''handler status '' @ show_nat (unat (hr_status res))))
                  else Inr (parse_dispatch_result C (hr_result res))))"

text \<open>The violations of one constraint, and of one field of the definition.\<close>

definition constraint_violations ::
    "crates \<Rightarrow> (string \<Rightarrow> string \<Rightarrow> entity \<Rightarrow> string + (string + handler_result)) option \<Rightarrow>
     string \<Rightarrow> Value \<Rightarrow> Value \<Rightarrow> string + violation list" where
  "constraint_violations C exec field_name v constraint =
     (case decode_constraint constraint of
        None \<Rightarrow> Inr []
      | Some (t, d) \<Rightarrow>
          and_then (dispatch_constraint C exec v t d) (\<lambda>outcome.
          Inr (case outcome of
                 DValid \<Rightarrow> []
               | DInvalid reason \<Rightarrow>
                   [\<lparr>vi_field = field_name, vi_kind = classify_reason reason, vi_constraint = Some t, vi_reason = reason\<rparr>]
               | DispatchFailed reason \<Rightarrow>
                   [\<lparr>vi_field = field_name, vi_kind = ''unknown_constraint'', vi_constraint = Some t,
                     vi_reason = ''constraint_dispatch_failed: '' @ reason\<rparr>])))"

definition spec_optional :: "Value \<Rightarrow> bool" where
  "spec_optional spec = dflt False (Option.bind (value_get spec ''optional'') as_bool_val)"

definition field_violations ::
    "crates \<Rightarrow> (string \<Rightarrow> string \<Rightarrow> entity \<Rightarrow> string + (string + handler_result)) option \<Rightarrow>
     (Value \<times> Value) list \<Rightarrow> Value \<times> Value \<Rightarrow> string + violation list" where
  "field_violations C exec entity_fields entry =
     (case as_str (fst entry) of
        None \<Rightarrow> Inr []
      | Some field_name \<Rightarrow>
          case find_field_spec entity_fields field_name of
            None \<Rightarrow>
              Inr (if spec_optional (snd entry) then []
                   else [\<lparr>vi_field = field_name, vi_kind = ''structural'', vi_constraint = None,
                          vi_reason = ''required field missing''\<rparr>])
          | Some v \<Rightarrow> collect (constraint_violations C exec field_name v) (constraints_of (snd entry)))"

definition narrowing_as_violation :: "narrowing_violation \<Rightarrow> violation" where
  "narrowing_as_violation nv =
     \<lparr>vi_field = nv_field nv, vi_kind = ''structural'',
      vi_constraint = (if nv_constraint nv = [] then None else Some (nv_constraint nv)),
      vi_reason = ''narrowing violation: '' @ nv_reason nv\<rparr>"

definition type_violations ::
    "crates \<Rightarrow> type_tree \<Rightarrow> (string \<Rightarrow> string \<Rightarrow> entity \<Rightarrow> string + (string + handler_result)) option \<Rightarrow>
     Value \<Rightarrow> string \<Rightarrow> Value \<Rightarrow> string + violation list" where
  "type_violations C T exec type_def entity_type' entity_data =
     and_then (collect (field_violations C exec (dflt [] (as_map entity_data))) (fields_map type_def)) (\<lambda>vs.
     Inr (vs @ (if entity_type' = ''system/type''
                then map narrowing_as_violation (verify_narrowing C T entity_data) else [])))"

definition validate_request_of :: "crates \<Rightarrow> entity \<Rightarrow> string + (string \<times> Value \<times> string option)" where
  "validate_request_of C params =
     (case from_reader C (data params) of
        None \<Rightarrow> Inl ''decode params: ''
      | Some params_value \<Rightarrow>
          and_then (parse_validate_request params_value) (\<lambda>(entity_value, type_path_override).
          and_then (ok_or (text_at entity_value ''type'') ''entity.type missing'') (\<lambda>t.
          Inr (t, dflt (VMap []) (value_get entity_value ''data''), type_path_override))))"

definition validate_verdict :: "crates \<Rightarrow> type_tree \<Rightarrow> handler_context \<Rightarrow> string \<Rightarrow> Value \<Rightarrow> string \<Rightarrow> string + validate_result" where
  "validate_verdict C T ctx t d type_name =
     (case resolve_type C T type_name of
        None \<Rightarrow>
          Inr \<lparr>vr_valid = False,
               vr_violations = [\<lparr>vi_field = [], vi_kind = ''structural'', vi_constraint = None,
                                 vi_reason = ''type not resolved: '' @ type_name\<rparr>],
               vr_unevaluated = []\<rparr>
      | Some type_def \<Rightarrow>
          and_then (type_violations C T (execute_fn ctx) type_def t d) (\<lambda>vs.
          Inr \<lparr>vr_valid = (vs = []), vr_violations = vs, vr_unevaluated = []\<rparr>))"

definition handle_validate :: "crates \<Rightarrow> type_tree \<Rightarrow> handler_context \<Rightarrow> string + handler_result" where
  "handle_validate C T ctx =
     (case validate_request_of C (ctx_params ctx) of
        Inl e \<Rightarrow> error_result C HANDLER_BAD_REQUEST ''invalid_request'' e
      | Inr (t, d, type_path_override) \<Rightarrow>
          and_then (validate_verdict C T ctx t d (dflt t type_path_override)) (\<lambda>r.
          and_then (validate_result_to_entity C r) (\<lambda>e.
          Inr (HandlerResult_ok e))))"

section \<open>Through the encoding\<close>

text \<open>What the handlers rely on: the decoder inverts the encoder, and the home format is allocated.\<close>

definition crates_ok :: "crates \<Rightarrow> bool" where
  "crates_ok C \<longleftrightarrow> dec_ok (from_reader C) \<and> home_format C \<in> {HASH_ALGORITHM_SHA256, HASH_ALGORITHM_SHA384}"

lemma canon_id: "is_canon v \<Longrightarrow> canon v = v"
proof (induction v rule: canon.induct)
  case (3 m)
  then have "map (\<lambda>e. (canon (fst e), canon (snd e))) m = m" by (intro map_idI) (auto simp: prod_eq_iff)
  then show ?case using 3 by (simp add: sort_key_id_if_sorted)
qed (auto intro: map_idI)

lemma distinct_fst_perm: "mset xs = mset ys \<Longrightarrow> distinct (map fst xs) = distinct (map fst ys)"
  by (rule mset_eq_imp_distinct_iff) simp

lemma map_of_perm: "mset xs = mset ys \<Longrightarrow> distinct (map fst xs) \<Longrightarrow> map_of xs = map_of ys"
  by (rule map_of_inject_set [THEN iffD2]) (blast dest: distinct_fst_perm, blast dest: distinct_fst_perm, rule mset_eq_setD)

lemma canon_text_map:
  assumes "distinct (map fst kvs)"
  obtains m where "canon (VMap (map (\<lambda>(k, v). (VText k, v)) kvs)) = VMap m"
    "\<forall>key. map_get m key = map_option canon (map_of kvs key)"
    "\<forall>key. last_entry key m = map_option canon (map_of kvs key)"
proof -
  let ?es = "map (\<lambda>(k, v). (VText k, canon v)) kvs"
  have d: "distinct (map fst ?es)" using assms by (simp add: distinct_map comp_def case_prod_beta inj_on_def)
  have g: "map_of ?es (VText key) = map_option canon (map_of kvs key)" for key by (induction kvs) auto
  have p: "mset (sort_key key_order ?es) = mset ?es" by simp
  have ds: "distinct (map fst (sort_key key_order ?es))"
    using d distinct_fst_perm [OF p] by blast
  have m: "map_get (sort_key key_order ?es) key = map_option canon (map_of kvs key)" for key
    using map_of_perm [OF p ds] g by (simp add: map_get_alt)
  show ?thesis
  proof (rule that)
    show "canon (VMap (map (\<lambda>(k, v). (VText k, v)) kvs)) = VMap (sort_key key_order ?es)"
      by (simp add: comp_def case_prod_unfold)
  qed (use m last_entry_distinct [OF ds] in simp_all)
qed

lemma new_entity_ok:
  assumes "crates_ok C" "t \<noteq> []" "t \<noteq> TYPE_PEER"
  obtains e where "new_entity C t v = Inr e" "data e = to_ecf v"
proof -
  obtain h where "compute_format (hashes C) t (to_ecf v) (home_format C) = Inr h"
    using assms(1) by (auto simp: crates_ok_def compute_format_def Let_def HASH_ALGORITHM_SHA256_def HASH_ALGORITHM_SHA384_def)
  moreover have "to_ecf v \<noteq> []" using hd_encode_value [of v] by (simp add: to_ecf_def)
  ultimately show ?thesis using assms(2,3) that by (simp add: new_entity_def entity_new_def new_with_format_def)
qed

lemma from_reader_ok: "crates_ok C \<Longrightarrow> ecf_wf v \<Longrightarrow> from_reader C (to_ecf v) = Some (canon v)"
  by (simp add: crates_ok_def dec_ok_def)

lemma request_roundtrip:
  assumes C: "crates_ok C" and w: "ecf_wf v" "length t < 2 ^ 64" "ecf_wf d" and e: "data e = to_ecf (dispatch_request v t d)"
  shows "constraint_request_from_entity C e = Inr \<lparr>rq_value = canon v, constraint_type = t, constraint_data = canon d\<rparr>"
proof -
  let ?kvs = "[(''value'', v), (''constraint_type'', VText t), (''constraint_data'', d)]"
  have r: "dispatch_request v t d = VMap (map (\<lambda>(k, v). (VText k, v)) ?kvs)" by (simp add: dispatch_request_def text_val_def)
  have "distinct (map fst ?kvs)" by simp
  then obtain m where m: "canon (VMap (map (\<lambda>(k, v). (VText k, v)) ?kvs)) = VMap m"
      "\<forall>key. map_get m key = map_option canon (map_of ?kvs key)"
      "\<forall>key. last_entry key m = map_option canon (map_of ?kvs key)" by (rule canon_text_map)
  have "ecf_wf (dispatch_request v t d)" using w by (simp add: dispatch_request_def text_val_def)
  then show ?thesis using from_reader_ok [OF C] e m
    by (simp add: constraint_request_from_entity_def r as_map_def as_str_def dflt_def)
qed

lemma result_roundtrip:
  assumes C: "crates_ok C" and w: "ecf_wf (constraint_result_value r)" and e: "data e = to_ecf (constraint_result_value r)"
  shows "parse_dispatch_result C e = (if cr_valid r then DValid else DInvalid (dflt [] (cr_reason r)))"
proof -
  let ?kvs = "(''valid'', VBool (cr_valid r)) # (case cr_reason r of Some t \<Rightarrow> [(''reason'', VText t)] | None \<Rightarrow> [])"
  have r: "constraint_result_value r = VMap (map (\<lambda>(k, v). (VText k, v)) ?kvs)"
    by (simp add: constraint_result_value_def text_val_def bool_val_def split: option.splits)
  have "distinct (map fst ?kvs)" by (simp split: option.splits)
  then obtain m where m: "canon (VMap (map (\<lambda>(k, v). (VText k, v)) ?kvs)) = VMap m"
      "\<forall>key. map_get m key = map_option canon (map_of ?kvs key)"
      "\<forall>key. last_entry key m = map_option canon (map_of ?kvs key)" by (rule canon_text_map)
  show ?thesis using from_reader_ok [OF C w] e m
    by (simp add: parse_dispatch_result_def r value_get_def text_at_def as_bool_val_def as_str_def dflt_def split: option.splits)
qed

text \<open>The dispatcher sends the paths of the standard constraints to the constraint handler.\<close>

definition standard_kinds :: "string list" where
  "standard_kinds = [TYPE_CONSTRAINT_MIN, TYPE_CONSTRAINT_MAX, TYPE_CONSTRAINT_MIN_LENGTH, TYPE_CONSTRAINT_MAX_LENGTH,
     TYPE_CONSTRAINT_MIN_COUNT, TYPE_CONSTRAINT_MAX_COUNT, TYPE_CONSTRAINT_PATTERN, TYPE_CONSTRAINT_ONE_OF,
     TYPE_CONSTRAINT_NOT_ONE_OF, TYPE_CONSTRAINT_FORMAT, TYPE_CONSTRAINT_TYPE_PATTERN]"

definition routes_constraints ::
    "crates \<Rightarrow> constraint_handler \<Rightarrow> (string \<Rightarrow> string \<Rightarrow> entity \<Rightarrow> string + (string + handler_result)) option \<Rightarrow> bool" where
  "routes_constraints C H exec \<longleftrightarrow>
     (\<exists>f. exec = Some f \<and> (\<forall>t \<in> set standard_kinds. \<forall>req.
        f t ''validate'' req = and_then (constraint_handle C H ''validate'' req) (\<lambda>r. Inr (Inr r))))"

lemma standard_kinds_short: "t \<in> set standard_kinds \<Longrightarrow> length t < 2 ^ 64"
  by (auto simp: standard_kinds_def kind_defs)

lemma dispatch_standard:
  assumes C: "crates_ok C" and r: "routes_constraints C H exec" and t: "t \<in> set standard_kinds"
    and w: "ecf_wf v" "ecf_wf d"
    and ev: "evaluate C H \<lparr>rq_value = canon v, constraint_type = t, constraint_data = canon d\<rparr> = Inr res"
      "ecf_wf (constraint_result_value res)"
  shows "dispatch_constraint C exec v t d = Inr (if cr_valid res then DValid else DInvalid (dflt [] (cr_reason res)))"
proof -
  obtain f where f: "exec = Some f"
      "\<And>req. f t ''validate'' req = and_then (constraint_handle C H ''validate'' req) (\<lambda>r. Inr (Inr r))"
    using r t by (auto simp: routes_constraints_def)
  obtain req where req: "new_entity C ''system/type/constraint/validate-request'' (dispatch_request v t d) = Inr req"
      "data req = to_ecf (dispatch_request v t d)"
    by (rule new_entity_ok [OF C, of "''system/type/constraint/validate-request''" "dispatch_request v t d"]) (auto simp: TYPE_PEER_def)
  obtain e where e: "new_entity C TYPE_CONSTRAINT_VALIDATE_RES (constraint_result_value res) = Inr e"
      "data e = to_ecf (constraint_result_value res)"
    by (rule new_entity_ok [OF C, of TYPE_CONSTRAINT_VALIDATE_RES "constraint_result_value res"])
       (auto simp: TYPE_PEER_def TYPE_CONSTRAINT_VALIDATE_RES_def)
  have "constraint_handle C H ''validate'' req = Inr (HandlerResult_ok e)"
    using request_roundtrip [OF C w(1) standard_kinds_short [OF t] w(2) req(2)] ev(1) e(1)
    by (simp add: constraint_handle_def constraint_result_to_entity_def new_entity_def)
  then show ?thesis using f req(1) result_roundtrip [OF C ev(2) e(2)]
    by (simp add: dispatch_constraint_def HandlerResult_ok_def)
qed

lemma dispatch_panics:
  assumes C: "crates_ok C" and r: "routes_constraints C H exec" and t: "t \<in> set standard_kinds" and w: "ecf_wf v" "ecf_wf d"
    and ev: "evaluate C H \<lparr>rq_value = canon v, constraint_type = t, constraint_data = canon d\<rparr> = Inl msg"
  shows "dispatch_constraint C exec v t d = Inl msg"
proof -
  obtain f where f: "exec = Some f"
      "\<And>req. f t ''validate'' req = and_then (constraint_handle C H ''validate'' req) (\<lambda>r. Inr (Inr r))"
    using r t by (auto simp: routes_constraints_def)
  obtain req where req: "new_entity C ''system/type/constraint/validate-request'' (dispatch_request v t d) = Inr req"
      "data req = to_ecf (dispatch_request v t d)"
    by (rule new_entity_ok [OF C, of "''system/type/constraint/validate-request''" "dispatch_request v t d"]) (auto simp: TYPE_PEER_def)
  have "constraint_handle C H ''validate'' req = Inl msg"
    using request_roundtrip [OF C w(1) standard_kinds_short [OF t] w(2) req(2)] ev by (simp add: constraint_handle_def)
  then show ?thesis using f req(1) by (simp add: dispatch_constraint_def)
qed

text \<open>What becomes of one constraint on one value.  A standard kind is judged by the evaluator, any other kind by whatever handler the
  dispatcher reaches; both may panic.\<close>

definition constraint_panics ::
    "crates \<Rightarrow> constraint_handler \<Rightarrow> (string \<Rightarrow> string \<Rightarrow> entity \<Rightarrow> string + (string + handler_result)) option \<Rightarrow> Value \<Rightarrow> Value \<Rightarrow> bool" where
  "constraint_panics C H exec v c =
     (case decode_constraint c of
        None \<Rightarrow> False
      | Some (t, d) \<Rightarrow>
          if t \<in> set standard_kinds then isl (evaluate C H \<lparr>rq_value = v, constraint_type = t, constraint_data = d\<rparr>)
          else isl (dispatch_constraint C exec v t d))"

definition constraint_met ::
    "crates \<Rightarrow> constraint_handler \<Rightarrow> (string \<Rightarrow> string \<Rightarrow> entity \<Rightarrow> string + (string + handler_result)) option \<Rightarrow> Value \<Rightarrow> Value \<Rightarrow> bool" where
  "constraint_met C H exec v c =
     (case decode_constraint c of
        None \<Rightarrow> True
      | Some (t, d) \<Rightarrow>
          if t \<in> set standard_kinds then passes C H t d v else dispatch_constraint C exec v t d = Inr DValid)"

text \<open>The result of an evaluation fits the encoding: its reason is shorter than \<open>2 ^ 64\<close> bytes.\<close>

definition result_encodes :: "crates \<Rightarrow> constraint_handler \<Rightarrow> Value \<Rightarrow> Value \<Rightarrow> bool" where
  "result_encodes C H v c =
     (case decode_constraint c of
        None \<Rightarrow> True
      | Some (t, d) \<Rightarrow>
          (case evaluate C H \<lparr>rq_value = v, constraint_type = t, constraint_data = d\<rparr> of
             Inl _ \<Rightarrow> True | Inr r \<Rightarrow> ecf_wf (constraint_result_value r)))"

text \<open>The constraints that a definition puts on the fields an entity has.\<close>

definition field_applied :: "(Value \<times> Value) list \<Rightarrow> Value \<times> Value \<Rightarrow> (Value \<times> Value) list" where
  "field_applied es e =
     (case as_str (fst e) of
        None \<Rightarrow> []
      | Some f \<Rightarrow> (case find_field_spec es f of None \<Rightarrow> [] | Some v \<Rightarrow> map (Pair v) (constraints_of (snd e))))"

definition applied :: "Value \<Rightarrow> (Value \<times> Value) list \<Rightarrow> (Value \<times> Value) list" where
  "applied def es = concat (map (field_applied es) (fields_map def))"

definition field_present :: "(Value \<times> Value) list \<Rightarrow> Value \<times> Value \<Rightarrow> bool" where
  "field_present es e =
     (case as_str (fst e) of None \<Rightarrow> True | Some f \<Rightarrow> spec_optional (snd e) \<or> find_field_spec es f \<noteq> None)"

definition required_present :: "Value \<Rightarrow> (Value \<times> Value) list \<Rightarrow> bool" where
  "required_present def es = list_all (field_present es) (fields_map def)"

text \<open>Values as they come out of the decoder of canonical bytes.\<close>

definition wire_value :: "Value \<Rightarrow> bool" where
  "wire_value v \<longleftrightarrow> is_canon v \<and> ecf_wf v"

lemma wire_map: "wire_value (VMap m) \<Longrightarrow> (k, v) \<in> set m \<Longrightarrow> wire_value v"
  by (auto simp: wire_value_def)

lemma wire_get: "wire_value d \<Longrightarrow> value_get d key = Some v \<Longrightarrow> wire_value v"
  by (cases d) (auto simp: value_get_def map_get_alt dest!: map_of_SomeD wire_map)

lemma wire_last: "wire_value (VMap m) \<Longrightarrow> last_entry key m = Some v \<Longrightarrow> wire_value v"
  by (auto simp: last_entry_alt dest!: map_of_SomeD wire_map)

lemma wire_array: "wire_value (VArray xs) \<Longrightarrow> x \<in> set xs \<Longrightarrow> wire_value x"
  by (auto simp: wire_value_def)

lemma wire_null: "wire_value VNull"
  by (simp add: wire_value_def)

lemma fields_map_cases: "(k, spec) \<in> set (fields_map def) \<Longrightarrow> \<exists>m. value_get def ''fields'' = Some (VMap m) \<and> (k, spec) \<in> set m"
  by (cases "value_get def ''fields''") (auto simp: fields_map_def dflt_def as_map_def split: Value.splits)

lemma constraints_of_cases: "c \<in> set (constraints_of spec) \<Longrightarrow> \<exists>a. value_get spec ''constraints'' = Some (VArray a) \<and> c \<in> set a"
  by (cases "value_get spec ''constraints''") (auto simp: constraints_of_def dflt_def as_array_def split: Value.splits)

lemma wire_fields: "wire_value def \<Longrightarrow> (k, spec) \<in> set (fields_map def) \<Longrightarrow> wire_value spec"
  using fields_map_cases wire_get wire_map by metis

lemma wire_constraints: "wire_value spec \<Longrightarrow> c \<in> set (constraints_of spec) \<Longrightarrow> wire_value c"
  using constraints_of_cases wire_get wire_array by metis

lemma wire_constraint_data:
  assumes "wire_value c" "decode_constraint c = Some (t, d)"
  shows "wire_value d"
proof -
  obtain m where m: "c = VMap m" "d = dflt VNull (last_entry ''data'' m)"
    using assms(2) by (cases c) (auto simp: decode_constraint_def as_map_def bind_eq_Some_conv)
  then show ?thesis using assms(1) wire_last wire_null by (cases "last_entry ''data'' m") (auto simp: dflt_def)
qed

lemma wire_field: "wire_value (VMap es) \<Longrightarrow> find_field_spec es f = Some v \<Longrightarrow> wire_value v"
  by (auto simp: find_field_spec_def find_Some_iff) (metis nth_mem wire_map)

lemma constraint_violations_outcome:
  assumes C: "crates_ok C" "routes_constraints C H exec" and w: "wire_value v" "wire_value c" and d: "result_encodes C H v c"
  shows "case constraint_violations C exec f v c of
      Inl _ \<Rightarrow> constraint_panics C H exec v c
    | Inr vs \<Rightarrow> \<not> constraint_panics C H exec v c \<and> (vs = [] \<longleftrightarrow> constraint_met C H exec v c)"
proof (cases "decode_constraint c")
  case None
  then show ?thesis by (simp add: constraint_violations_def constraint_panics_def constraint_met_def)
next
  case (Some td)
  obtain t d where td: "td = (t, d)" by (cases td)
  have wd: "wire_value d" using w(2) Some td wire_constraint_data by blast
  show ?thesis
  proof (cases "t \<in> set standard_kinds")
    case False
    show ?thesis
    proof (cases "dispatch_constraint C exec v t d")
      case (Inr outcome)
      then show ?thesis using False Some td
        by (cases outcome) (simp_all add: constraint_violations_def constraint_panics_def constraint_met_def)
    qed (use False Some td in \<open>simp add: constraint_violations_def constraint_panics_def\<close>)
  next
    case True
    show ?thesis
    proof (cases "evaluate C H \<lparr>rq_value = v, constraint_type = t, constraint_data = d\<rparr>")
      case (Inl msg)
      then have "dispatch_constraint C exec v t d = Inl msg"
        using dispatch_panics [OF C True] w(1) wd by (simp add: wire_value_def canon_id)
      then show ?thesis using Some td True Inl by (simp add: constraint_violations_def constraint_panics_def)
    next
      case (Inr r)
      then have "dispatch_constraint C exec v t d = Inr (if cr_valid r then DValid else DInvalid (dflt [] (cr_reason r)))"
        using dispatch_standard [OF C True] w(1) wd d Some td by (simp add: wire_value_def canon_id result_encodes_def)
      then show ?thesis using Some td True Inr
        by (simp add: constraint_violations_def constraint_panics_def constraint_met_def passes_def)
    qed
  qed
qed

lemma collect_outcome:
  assumes "\<And>x. x \<in> set xs \<Longrightarrow> case f x of Inl _ \<Rightarrow> B x | Inr ys \<Rightarrow> \<not> B x \<and> (ys = [] \<longleftrightarrow> P x)"
  shows "case collect f xs of Inl _ \<Rightarrow> list_ex B xs | Inr ys \<Rightarrow> \<not> list_ex B xs \<and> (ys = [] \<longleftrightarrow> list_all P xs)"
  using assms
proof (induction xs)
  case (Cons x xs)
  have h: "case f x of Inl _ \<Rightarrow> B x | Inr ys \<Rightarrow> \<not> B x \<and> (ys = [] \<longleftrightarrow> P x)" using Cons.prems [of x] by simp
  have t: "case collect f xs of Inl _ \<Rightarrow> list_ex B xs | Inr ys \<Rightarrow> \<not> list_ex B xs \<and> (ys = [] \<longleftrightarrow> list_all P xs)"
    using Cons.IH Cons.prems by simp
  show ?case using h t by (cases "f x"; cases "collect f xs") auto
qed simp

lemma list_ex_map: "list_ex P (map f xs) = list_ex (P \<circ> f) xs"
  by (induction xs) auto

lemma field_violations_outcome:
  assumes C: "crates_ok C" "routes_constraints C H exec" and w: "wire_value def" "wire_value (VMap es)" and e: "e \<in> set (fields_map def)"
    and d: "list_all (\<lambda>(v, c). result_encodes C H v c) (field_applied es e)"
  shows "case field_violations C exec es e of
      Inl _ \<Rightarrow> list_ex (\<lambda>(v, c). constraint_panics C H exec v c) (field_applied es e)
    | Inr vs \<Rightarrow> \<not> list_ex (\<lambda>(v, c). constraint_panics C H exec v c) (field_applied es e) \<and>
        (vs = [] \<longleftrightarrow> field_present es e \<and> list_all (\<lambda>(v, c). constraint_met C H exec v c) (field_applied es e))"
proof -
  obtain k spec where ks: "e = (k, spec)" by (cases e)
  have "case collect (constraint_violations C exec f v) (constraints_of spec) of
      Inl _ \<Rightarrow> list_ex (constraint_panics C H exec v) (constraints_of spec)
    | Inr vs \<Rightarrow> \<not> list_ex (constraint_panics C H exec v) (constraints_of spec) \<and>
        (vs = [] \<longleftrightarrow> list_all (constraint_met C H exec v) (constraints_of spec))"
    if fk: "as_str k = Some f" "find_field_spec es f = Some v" for f v
  proof (rule collect_outcome)
    fix c assume c: "c \<in> set (constraints_of spec)"
    have "result_encodes C H v c" using d c fk by (auto simp: field_applied_def ks list_all_iff)
    moreover have "wire_value c" using wire_constraints [OF wire_fields [OF w(1)]] e ks c by blast
    ultimately show "case constraint_violations C exec f v c of Inl _ \<Rightarrow> constraint_panics C H exec v c
        | Inr vs \<Rightarrow> \<not> constraint_panics C H exec v c \<and> (vs = [] \<longleftrightarrow> constraint_met C H exec v c)"
      by (intro constraint_violations_outcome [OF C wire_field [OF w(2) fk(2)]])
  qed
  note present = this
  show ?thesis
  proof (cases "as_str k")
    case None
    then show ?thesis by (simp add: field_violations_def field_applied_def field_present_def ks)
  next
    case (Some f)
    show ?thesis
    proof (cases "find_field_spec es f")
      case None
      then show ?thesis using Some by (simp add: field_violations_def field_applied_def field_present_def ks)
    next
      case f: (Some v)
      show ?thesis using present [OF Some f] Some f
        by (simp add: field_violations_def field_applied_def field_present_def ks list.pred_map list_ex_map comp_def
            split: sum.splits)
    qed
  qed
qed

lemma list_ex_concat: "list_ex P (concat (map f xs)) \<longleftrightarrow> list_ex (\<lambda>x. list_ex P (f x)) xs"
  "list_all P (concat (map f xs)) \<longleftrightarrow> list_all (\<lambda>x. list_all P (f x)) xs"
  by (auto simp: list_ex_iff list_all_iff)

lemma type_violations_outcome:
  assumes C: "crates_ok C" "routes_constraints C H exec" and w: "wire_value def" "wire_value (VMap es)"
    and d: "list_all (\<lambda>(v, c). result_encodes C H v c) (applied def es)"
  shows "case type_violations C T exec def t (VMap es) of
      Inl _ \<Rightarrow> list_ex (\<lambda>(v, c). constraint_panics C H exec v c) (applied def es)
    | Inr vs \<Rightarrow> \<not> list_ex (\<lambda>(v, c). constraint_panics C H exec v c) (applied def es) \<and>
        (vs = [] \<longleftrightarrow> required_present def es \<and> list_all (\<lambda>(v, c). constraint_met C H exec v c) (applied def es) \<and>
           (t = ''system/type'' \<longrightarrow> verify_narrowing C T (VMap es) = []))"
proof -
  let ?B = "\<lambda>e. list_ex (\<lambda>(v, c). constraint_panics C H exec v c) (field_applied es e)"
  let ?P = "\<lambda>e. field_present es e \<and> list_all (\<lambda>(v, c). constraint_met C H exec v c) (field_applied es e)"
  have "list_all (\<lambda>(v, c). result_encodes C H v c) (field_applied es e)" if "e \<in> set (fields_map def)" for e
    using d that by (auto simp: applied_def list_ex_concat list_all_iff)
  then have "case collect (field_violations C exec es) (fields_map def) of
      Inl _ \<Rightarrow> list_ex ?B (fields_map def)
    | Inr vs \<Rightarrow> \<not> list_ex ?B (fields_map def) \<and> (vs = [] \<longleftrightarrow> list_all ?P (fields_map def))"
    by (intro collect_outcome field_violations_outcome [OF C w])
  moreover have "list_all ?P (fields_map def) \<longleftrightarrow>
      required_present def es \<and> list_all (\<lambda>(v, c). constraint_met C H exec v c) (applied def es)"
    by (auto simp: required_present_def applied_def list_ex_concat list_all_iff)
  ultimately show ?thesis
    by (cases "collect (field_violations C exec es) (fields_map def)")
       (auto simp: type_violations_def as_map_def dflt_def applied_def list_ex_concat)
qed

text \<open>Where all kinds are standard, meeting the constraints is what the evaluator judges.\<close>

definition standard_only :: "Value \<Rightarrow> bool" where
  "standard_only def =
     list_all (\<lambda>(k, spec). list_all (\<lambda>c. case decode_constraint c of None \<Rightarrow> True | Some (t, d) \<Rightarrow> t \<in> set standard_kinds)
       (constraints_of spec)) (fields_map def)"

lemma standard_conforms:
  assumes "standard_only def" "list_all (\<lambda>(v, c). constraint_met C H exec v c) (applied def es)"
  shows "conforms C H def es"
  unfolding conforms_def list_all_iff
proof (clarsimp split: option.splits simp: field_passes_def list_all_iff)
  fix k spec f v c t d
  assume m: "(k, spec) \<in> set (fields_map def)" "as_str k = Some f" "find_field_spec es f = Some v"
    and c: "c \<in> set (constraints_of spec)" "decode_constraint c = Some (t, d)"
  have "(v, c) \<in> set (applied def es)" using m c(1) by (force simp: applied_def field_applied_def)
  then have "constraint_met C H exec v c" using assms(2) by (auto simp: list_all_iff)
  moreover have "t \<in> set standard_kinds" using assms(1) m(1) c by (fastforce simp: standard_only_def list_all_iff)
  ultimately show "passes C H t d v" using c(2) by (simp add: constraint_met_def)
qed

text \<open>A result whose texts fit the encoding.\<close>

definition result_fits :: "validate_result \<Rightarrow> bool" where
  "result_fits r \<longleftrightarrow> list_all (\<lambda>v. ecf_wf (violation_value v)) (vr_violations r) \<and>
     length (vr_violations r) < 2 ^ 64 \<and> vr_unevaluated r = []"

lemma violation_inline_ok:
  assumes "crates_ok C" "ecf_wf (violation_value v)"
  shows "violation_inline C v = Inr [canon (violation_value v)]"
proof -
  obtain e where "new_entity C TYPE_VIOLATION (violation_value v) = Inr e" "data e = to_ecf (violation_value v)"
    by (rule new_entity_ok [OF assms(1), of TYPE_VIOLATION "violation_value v"]) (auto simp: TYPE_VIOLATION_def TYPE_PEER_def)
  then show ?thesis using from_reader_ok [OF assms]
    by (simp add: violation_inline_def violation_to_entity_def expect_def dflt_def)
qed

lemma collect_inline:
  "crates_ok C \<Longrightarrow> list_all (\<lambda>v. ecf_wf (violation_value v)) vs \<Longrightarrow>
   collect (violation_inline C) vs = Inr (map (canon \<circ> violation_value) vs)"
  by (induction vs) (auto simp: violation_inline_ok)

lemma validate_result_entity:
  assumes C: "crates_ok C" and f: "result_fits r"
  obtains e w where "validate_result_to_entity C r = Inr e" "from_reader C (data e) = Some w"
    "value_get w ''valid'' = Some (VBool (vr_valid r))"
proof -
  let ?arr = "map (canon \<circ> violation_value) (vr_violations r)"
  let ?kvs = "(''valid'', VBool (vr_valid r)) # (if vr_violations r = [] then [] else [(''violations'', VArray ?arr)])"
  have v: "validate_result_value r ?arr = VMap (map (\<lambda>(k, v). (VText k, v)) ?kvs)"
    using f by (simp add: validate_result_value_def text_val_def bool_val_def result_fits_def)
  obtain e where e: "new_entity C TYPE_VALIDATE_RES (validate_result_value r ?arr) = Inr e"
      "data e = to_ecf (validate_result_value r ?arr)"
    by (rule new_entity_ok [OF C, of TYPE_VALIDATE_RES "validate_result_value r ?arr"])
       (auto simp: TYPE_VALIDATE_RES_def TYPE_PEER_def)
  have wf: "ecf_wf (validate_result_value r ?arr)"
    using f by (auto simp: v result_fits_def list_all_iff ecf_wf_canon)
  have "distinct (map fst ?kvs)" by simp
  then obtain m where m: "canon (VMap (map (\<lambda>(k, v). (VText k, v)) ?kvs)) = VMap m"
      "\<forall>key. map_get m key = map_option canon (map_of ?kvs key)"
      "\<forall>key. last_entry key m = map_option canon (map_of ?kvs key)" by (rule canon_text_map)
  show ?thesis
  proof (rule that)
    show "validate_result_to_entity C r = Inr e"
      using f collect_inline [OF C] e(1) by (simp add: validate_result_to_entity_def expect_def result_fits_def)
    show "from_reader C (data e) = Some (VMap m)" using from_reader_ok [OF C wf] e(2) v m(1) by simp
    show "value_get (VMap m) ''valid'' = Some (VBool (vr_valid r))" using m(2) by (simp add: value_get_def)
  qed
qed

section \<open>Properties\<close>

text \<open>C24. The outcome of validation: let the type resolve, let definition and entity be values as the decoder yields them, let the dispatcher carry
  the requests for the standard kinds to the constraint handler, and let evaluation results fit the encoding.  Then validation panics exactly
  when one of the constraints that apply to a field of the entity does; otherwise it ends with a verdict, which is \<^verbatim>\<open>valid\<close> exactly when every required field
  is present, every constraint that applies is met (a standard kind by the evaluator, any other kind by an answer \<^verbatim>\<open>valid\<close> of its
  handler), and, for a type definition, narrowing has no violation.\<close>

theorem validate_verdict_iff:
  assumes "crates_ok C" "routes_constraints C H (execute_fn ctx)"
    and "resolve_type C T name = Some def" "wire_value def" "wire_value (VMap es)"
    and "list_all (\<lambda>(v, c). result_encodes C H v c) (applied def es)"
  shows "case validate_verdict C T ctx t (VMap es) name of
      Inl _ \<Rightarrow> list_ex (\<lambda>(v, c). constraint_panics C H (execute_fn ctx) v c) (applied def es)
    | Inr r \<Rightarrow> \<not> list_ex (\<lambda>(v, c). constraint_panics C H (execute_fn ctx) v c) (applied def es) \<and>
        (vr_valid r \<longleftrightarrow> required_present def es \<and>
           list_all (\<lambda>(v, c). constraint_met C H (execute_fn ctx) v c) (applied def es) \<and>
           (t = ''system/type'' \<longrightarrow> verify_narrowing C T (VMap es) = []))"
  using type_violations_outcome [OF assms(1,2,4,5,6), where T = T and t = t] assms(3)
  by (auto simp: validate_verdict_def split: sum.splits)

text \<open>C25. Validation composes with inheritance, on well-formed definitions and against one tree: suppose that the definition of a type and all its ancestors
  have well-formed constraint entries (as for narrowing), that the definition uses standard kinds only, and that the dispatcher carries these to the
  constraint handler.  When validation against the current tree accepts the definition as a \<^verbatim>\<open>system/type\<close> and accepts an entity under it, the entity meets the
  constraints of all ancestors.\<close>

theorem validated_meets_ancestors:
  assumes "crates_ok C" "routes_constraints C H (execute_fn ctx)"
    and "resolve_type C T name = Some (VMap df)" "wire_value (VMap df)" "wire_value (VMap es)"
    and "standard_only (VMap df)" "list_all (\<lambda>(v, c). result_encodes C H v c) (applied (VMap df) es)"
    and "validate_verdict C T ctx t (VMap es) name = Inr r" "vr_valid r"
    and "resolve_type C T ''system/type'' = Some meta" "wire_value meta"
    and "list_all (\<lambda>(v, c). result_encodes C H v c) (applied meta df)"
    and "validate_verdict C T ctx ''system/type'' (VMap df) ''system/type'' = Inr r'" "vr_valid r'"
    and "ancestor C T (VMap df) a" "type_def_ok (VMap df)" "\<And>x. ancestor C T (VMap df) x \<Longrightarrow> type_def_ok x"
  shows "conforms C H a es"
proof -
  have "list_all (\<lambda>(v, c). constraint_met C H (execute_fn ctx) v c) (applied (VMap df) es)"
    using type_violations_outcome [OF assms(1,2,4,5,7), where T = T and t = t] assms(3,8,9)
    by (auto simp: validate_verdict_def split: sum.splits)
  then have "conforms C H (VMap df) es" by (rule standard_conforms [OF assms(6)])
  moreover have "verify_narrowing C T (VMap df) = []"
    using type_violations_outcome [OF assms(1,2,11,4,12), where T = T and t = "''system/type''"] assms(10,13,14)
    by (auto simp: validate_verdict_def split: sum.splits)
  ultimately show ?thesis
    using narrowing_walk_sound [OF assms(15) _ assms(16,17)] by (simp add: verify_narrowing_def)
qed

lemma handle_validate_verdict:
  assumes C: "crates_ok C"
    and q: "validate_request_of C (ctx_params ctx) = Inr (t, d, path)" "validate_verdict C T ctx t d (dflt t path) = Inr r" "result_fits r"
  shows "\<exists>res w. handle_validate C T ctx = Inr res \<and> hr_status res = STATUS_OK \<and> from_reader C (data (hr_result res)) = Some w \<and>
    value_get w ''valid'' = Some (VBool (vr_valid r)) \<and> (resolve_type C T (dflt t path) = None \<longrightarrow> \<not> vr_valid r)"
proof -
  obtain e w where e: "validate_result_to_entity C r = Inr e" "from_reader C (data e) = Some w"
      "value_get w ''valid'' = Some (VBool (vr_valid r))" by (rule validate_result_entity [OF C q(3)])
  moreover have "resolve_type C T (dflt t path) = None \<Longrightarrow> \<not> vr_valid r" using q(2) by (auto simp: validate_verdict_def)
  ultimately show ?thesis using q by (simp add: handle_validate_def HandlerResult_ok_def)
qed

lemma error_result_ok:
  assumes "crates_ok C"
  shows "\<exists>res. error_result C s code msg = Inr res \<and> hr_status res = s"
proof -
  let ?v = "VMap [(text_val ''code'', text_val code), (text_val ''message'', text_val msg)]"
  obtain x where "new_entity C TYPE_ERROR ?v = Inr x"
    by (rule new_entity_ok [OF assms, of TYPE_ERROR ?v]) (auto simp: TYPE_ERROR_def TYPE_PEER_def)
  then show ?thesis by (simp add: error_result_def error_entity_def expect_def HandlerResult_error_def)
qed

text \<open>C28. A typing verdict is a success of the operation: for a well-formed request the handler answers 200 with
  an entity that carries the verdict, and for a type that does not resolve the verdict is that the entity is invalid; only a defect of the
  request is answered 400.\<close>

theorem handle_validate_reports:
  assumes "crates_ok C"
  shows "case validate_request_of C (ctx_params ctx) of
      Inl e \<Rightarrow> (\<exists>res. handle_validate C T ctx = Inr res \<and> hr_status res = HANDLER_BAD_REQUEST)
    | Inr (t, d, path) \<Rightarrow>
        (\<forall>r. validate_verdict C T ctx t d (dflt t path) = Inr r \<and> result_fits r \<longrightarrow>
           (\<exists>res w. handle_validate C T ctx = Inr res \<and> hr_status res = STATUS_OK \<and>
              from_reader C (data (hr_result res)) = Some w \<and> value_get w ''valid'' = Some (VBool (vr_valid r)) \<and>
              (resolve_type C T (dflt t path) = None \<longrightarrow> \<not> vr_valid r)))"
proof (cases "validate_request_of C (ctx_params ctx)")
  case (Inl e)
  then show ?thesis using error_result_ok [OF assms] by (simp add: handle_validate_def)
next
  case (Inr q)
  then show ?thesis using handle_validate_verdict [OF assms] by (cases q) auto
qed

subsection \<open>Examples\<close>

lemma ex_crates_ok: "crates_ok ex_crates"
  by (simp add: crates_ok_def ex_crates_def some_decoder_ok HASH_ALGORITHM_SHA256_def)

definition ex_exec :: "string \<Rightarrow> string \<Rightarrow> entity \<Rightarrow> string + (string + handler_result)" where
  "ex_exec t op req = and_then (constraint_handle ex_crates ex_handler op req) (\<lambda>r. Inr (Inr r))"

definition ex_validate_request :: Value where
  "ex_validate_request = VMap [(VText ''entity'', VMap [(VText ''data'', VMap []), (VText ''type'', VText ''x'')])]"

definition ex_context :: handler_context where
  "ex_context = \<lparr>hc_operation = ''validate'',
     ctx_params = \<lparr>entity_type = ''r'', data = to_ecf ex_validate_request, content_hash = hash_zero\<rparr>, execute_fn = Some ex_exec\<rparr>"

lemma ex_routes: "routes_constraints ex_crates ex_handler (execute_fn ex_context)"
  by (simp add: routes_constraints_def ex_context_def ex_exec_def)

lemma ex_request_of: "validate_request_of ex_crates (ctx_params ex_context) = Inr (''x'', VMap [], None)"
proof -
  have "canon ex_validate_request = ex_validate_request" by code_simp
  then have "from_reader ex_crates (to_ecf ex_validate_request) = Some ex_validate_request"
    using from_reader_ok [OF ex_crates_ok, of ex_validate_request] by (simp add: ex_validate_request_def)
  then show ?thesis
    by (simp add: validate_request_of_def ex_context_def ex_validate_request_def parse_validate_request_def as_map_def last_entry_def
        as_str_def text_at_def value_get_def dflt_def)
qed

theorem handle_validate_reports_witness:
  "\<exists>res w. handle_validate ex_crates ex_tree ex_context = Inr res \<and> hr_status res = STATUS_OK \<and>
     from_reader ex_crates (data (hr_result res)) = Some w \<and> value_get w ''valid'' = Some (VBool False)"
proof -
  have r: "resolve_type ex_crates ex_tree ''x'' = None" by (simp add: ex_resolve)
  then obtain r where "validate_verdict ex_crates ex_tree ex_context ''x'' (VMap []) ''x'' = Inr r" "result_fits r" "\<not> vr_valid r"
    by (simp add: validate_verdict_def result_fits_def violation_value_def text_val_def)
  then show ?thesis using handle_validate_reports [OF ex_crates_ok, where ctx = ex_context and T = ex_tree] ex_request_of
    by (fastforce simp: dflt_def)
qed

definition nick_fields :: "string \<Rightarrow> string \<Rightarrow> int \<Rightarrow> (Value \<times> Value) list" where
  "nick_fields name parent n =
     [(VText ''name'', VText name),
      (VText ''fields'', VMap [(VText ''nick'', VMap [(VText ''constraints'', VArray [max_entry n])])]),
      (VText ''extends'', VText parent)]"

definition type_entity :: "Value \<Rightarrow> entity" where
  "type_entity v = \<lparr>entity_type = ''system/type'', data = to_ecf v, content_hash = hash_zero\<rparr>"

definition fam_tree :: type_tree where
  "fam_tree = \<lparr>tt_peer = ''me'',
     tt_store = [(Hash 0 [1], type_entity (VMap (nick_fields ''c'' ''p'' 3))), (Hash 0 [2], type_entity (VMap (nick_fields ''p'' [] 5))),
                 (Hash 0 [3], type_entity (VMap []))],
     tt_index = [(''/me/system/type/c'', Hash 0 [1]), (''/me/system/type/p'', Hash 0 [2]), (''/me/system/type/system/type'', Hash 0 [3])]\<rparr>"

lemma nick_fields_type: "VMap (nick_fields name parent n) = nick_type name parent (max_entry n)"
  by (simp add: nick_fields_def nick_type_def)

lemma fam_canon: "is_canon (VMap (nick_fields ''c'' ''p'' 3))" "is_canon (VMap (nick_fields ''p'' [] 5))" "is_canon (VMap [])"
  by code_simp+

lemma fam_wire: "wire_value (VMap (nick_fields ''c'' ''p'' 3))" "wire_value (VMap (nick_fields ''p'' [] 5))" "wire_value (VMap [])"
  using fam_canon by (auto simp: wire_value_def nick_fields_def max_entry_def kind_defs)

lemma fam_read: "wire_value v \<Longrightarrow> from_reader ex_crates (data (type_entity v)) = Some v"
  using from_reader_ok [OF ex_crates_ok, of v] by (simp add: type_entity_def wire_value_def canon_id)

lemma fam_resolve:
  "resolve_type ex_crates fam_tree ''c'' = Some (VMap (nick_fields ''c'' ''p'' 3))"
  "resolve_type ex_crates fam_tree ''p'' = Some (VMap (nick_fields ''p'' [] 5))"
  "resolve_type ex_crates fam_tree ''system/type'' = Some (VMap [])"
  by (simp_all add: resolve_type_def type_entity_at_def type_path_def fam_tree_def mli_get_def mcs_get_def
      fam_read [OF fam_wire(1)] fam_read [OF fam_wire(2)] fam_read [OF fam_wire(3)])
     (simp_all add: type_entity_def)

lemma fam_ancestor:
  "ancestor ex_crates fam_tree (VMap (nick_fields ''c'' ''p'' 3)) x \<longleftrightarrow> x = VMap (nick_fields ''p'' [] 5)"
proof
  have "\<not> ancestor ex_crates fam_tree (VMap (nick_fields ''p'' [] 5)) x" for x
    by (auto simp: nick_fields_type elim: ancestorE)
  then show "x = VMap (nick_fields ''p'' [] 5)" if "ancestor ex_crates fam_tree (VMap (nick_fields ''c'' ''p'' 3)) x"
    using that by (cases rule: ancestorE) (auto simp: nick_fields_type fam_resolve)
qed (auto simp: nick_fields_type fam_resolve intro!: anc_parent [of _ "''p''"])

lemma nick_types_ok: "type_def_ok (VMap (nick_fields ''c'' ''p'' 3))" "type_def_ok (VMap (nick_fields ''p'' [] 5))"
  by code_simp+

abbreviation nick_data :: "(Value \<times> Value) list" where
  "nick_data \<equiv> [(VText ''nick'', VText ''ab'')]"

lemma nick_wire: "wire_value (VMap nick_data)"
proof -
  have "is_canon (VMap nick_data)" by code_simp
  then show ?thesis by (simp add: wire_value_def)
qed

lemma nick_evaluate:
  "evaluate ex_crates ex_handler \<lparr>rq_value = VText ''ab'', constraint_type = TYPE_CONSTRAINT_MAX_LENGTH,
     constraint_data = VMap [(VText ''max_length'', VInteger 3)]\<rparr> = Inr valid_result"
  by code_simp

lemma nick_entry: "decode_constraint (max_entry 3) = Some (TYPE_CONSTRAINT_MAX_LENGTH, VMap [(VText ''max_length'', VInteger 3)])"
  by code_simp

lemma nick_applied: "applied (VMap (nick_fields ''c'' ''p'' 3)) nick_data = [(VText ''ab'', max_entry 3)]"
  by (simp add: applied_def field_applied_def nick_fields_def fields_map_def value_get_def as_map_def dflt_def constraints_of_def
      as_array_def as_str_def find_field_spec_def)

lemma max_length_standard: "TYPE_CONSTRAINT_MAX_LENGTH \<in> set standard_kinds"
  by (simp add: standard_kinds_def)

lemma nick_met:
  "result_encodes ex_crates ex_handler (VText ''ab'') (max_entry 3)"
  "constraint_met ex_crates ex_handler exec (VText ''ab'') (max_entry 3)"
  "\<not> constraint_panics ex_crates ex_handler exec (VText ''ab'') (max_entry 3)"
  by (simp_all add: result_encodes_def constraint_met_def constraint_panics_def passes_def nick_entry nick_evaluate max_length_standard
      constraint_result_value_def valid_result_def text_val_def bool_val_def)

lemma nick_required: "required_present (VMap (nick_fields ''c'' ''p'' 3)) nick_data"
  by code_simp

lemma nick_standard: "standard_only (VMap (nick_fields ''c'' ''p'' 3))"
  by (simp add: standard_only_def nick_fields_def fields_map_def value_get_def as_map_def dflt_def constraints_of_def
      as_array_def nick_entry max_length_standard)

theorem validate_verdict_iff_witness:
  "\<exists>r. validate_verdict ex_crates fam_tree ex_context ''c'' (VMap nick_data) ''c'' = Inr r \<and> vr_valid r"
  using validate_verdict_iff [OF ex_crates_ok ex_routes fam_resolve(1) fam_wire(1) nick_wire, where t = "''c''"] nick_required
  by (auto simp: nick_applied nick_met split: sum.splits)

lemma fam_accepted: "verify_narrowing ex_crates fam_tree (VMap (nick_fields ''c'' ''p'' 3)) = []"
  by (simp add: verify_narrowing_def narrowing_walk.simps nick_fields_type fam_resolve ex_step dflt_def)

lemma fam_no_fields: "fields_map (VMap []) = []"
  by (simp add: fields_map_def value_get_def dflt_def)

theorem validated_meets_ancestors_witness:
  "conforms ex_crates ex_handler (VMap (nick_fields ''p'' [] 5)) nick_data"
proof -
  have n: "applied (VMap []) es = []" "required_present (VMap []) es" for es
    by (simp_all add: applied_def required_present_def fam_no_fields)
  have e: "list_all (\<lambda>(v, c). result_encodes ex_crates ex_handler v c) (applied (VMap (nick_fields ''c'' ''p'' 3)) nick_data)"
    by (simp add: nick_applied nick_met)
  obtain r where r: "validate_verdict ex_crates fam_tree ex_context ''c'' (VMap nick_data) ''c'' = Inr r" "vr_valid r"
    using type_violations_outcome [OF ex_crates_ok ex_routes fam_wire(1) nick_wire e, where T = fam_tree and t = "''c''"] nick_required
    by (auto simp: validate_verdict_def fam_resolve nick_applied nick_met split: sum.splits)
  have m: "list_all (\<lambda>(v, c). result_encodes ex_crates ex_handler v c) (applied (VMap []) es)" for es by (simp add: n)
  obtain r' where r': "validate_verdict ex_crates fam_tree ex_context ''system/type'' (VMap (nick_fields ''c'' ''p'' 3)) ''system/type'' = Inr r'" "vr_valid r'"
    using type_violations_outcome [OF ex_crates_ok ex_routes fam_wire(3,1) m, where T = fam_tree and t = "''system/type''"] fam_accepted
    by (auto simp: validate_verdict_def fam_resolve n split: sum.splits)
  show ?thesis
    using validated_meets_ancestors [OF ex_crates_ok ex_routes fam_resolve(1) fam_wire(1) nick_wire nick_standard e r
        fam_resolve(3) fam_wire(3) m r', of "VMap (nick_fields ''p'' [] 5)"] nick_types_ok
    by (simp add: fam_ancestor)
qed

end
