(* ===== verification/Type_Compare.thy ===== *)
theory Type_Compare
  imports Type_Validate
begin

text \<open>
  The structural comparison of two type definitions and the directional compatibility report
  (\<^verbatim>\<open>extensions/type-system/src/compare.rs\<close>), with their handlers and the dispatch of the operations of \<^verbatim>\<open>system/type\<close>.
\<close>

section \<open>Operations\<close>

datatype CompareError = TypeNotFound string | Encode string

definition cmp_resolve :: "crates \<Rightarrow> type_tree \<Rightarrow> string \<Rightarrow> Value option" where
  "cmp_resolve C T path = type_entity_at C T (qualify_for_peer (tt_peer T) path)"

definition fields_of :: "Value \<Rightarrow> (string \<times> Value) list" where
  "fields_of def = List.map_filter (\<lambda>(k, v). map_option (\<lambda>s. (s, v)) (as_str k)) (fields_map def)"

definition type_ref :: "Value \<Rightarrow> string" where
  "type_ref spec = dflt [] (text_at spec ''type_ref'')"

definition spec_constraints :: "Value \<Rightarrow> Value" where
  "spec_constraints spec = dflt (VArray []) (value_get spec ''constraints'')"

definition field_comparison :: "bool \<Rightarrow> bool \<Rightarrow> bool \<Rightarrow> bool \<Rightarrow> Value" where
  "field_comparison type_match constraint_match a_optional b_optional =
     VMap [(text_val ''type_match'', bool_val type_match), (text_val ''constraint_match'', bool_val constraint_match),
           (text_val ''a_optional'', bool_val a_optional), (text_val ''b_optional'', bool_val b_optional)]"

definition field_incompatibility :: "string \<Rightarrow> string \<Rightarrow> string \<Rightarrow> Value" where
  "field_incompatibility field_name a_type b_type =
     VMap [(text_val ''field_name'', text_val field_name), (text_val ''a_type'', text_val a_type),
           (text_val ''b_type'', text_val b_type), (text_val ''reason'', text_val ''different type_ref between A and B'')]"

text \<open>The lists the loops over the fields of A and of B fill.\<close>

definition shared_names :: "(string \<times> Value) list \<Rightarrow> (string \<times> Value) list \<Rightarrow> (string \<times> Value \<times> Value) list" where
  "shared_names fa fb =
     List.map_filter (\<lambda>(n, a). case map_of fb n of
        Some b \<Rightarrow> if type_ref a = type_ref b then Some (n, a, b) else None | None \<Rightarrow> None) fa"

definition incompatible_names :: "(string \<times> Value) list \<Rightarrow> (string \<times> Value) list \<Rightarrow> (string \<times> Value \<times> Value) list" where
  "incompatible_names fa fb =
     List.map_filter (\<lambda>(n, a). case map_of fb n of
        Some b \<Rightarrow> if type_ref a = type_ref b then None else Some (n, a, b) | None \<Rightarrow> None) fa"

definition only_in :: "(string \<times> Value) list \<Rightarrow> (string \<times> Value) list \<Rightarrow> (string \<times> Value) list" where
  "only_in fa fb = filter (\<lambda>(n, a). \<not> list_ex (\<lambda>(m, b). m = n) fb) fa"

definition required_only_in :: "(string \<times> Value) list \<Rightarrow> (string \<times> Value) list \<Rightarrow> string list" where
  "required_only_in fa fb = map fst (filter (\<lambda>(n, a). \<not> spec_optional a) (only_in fa fb))"

definition incompatibility_values :: "(string \<times> Value) list \<Rightarrow> (string \<times> Value) list \<Rightarrow> Value list" where
  "incompatibility_values fa fb =
     map (\<lambda>(n, a, b). field_incompatibility n (type_ref a) (type_ref b)) (incompatible_names fa fb)"

definition resolve_both :: "crates \<Rightarrow> type_tree \<Rightarrow> string \<Rightarrow> string \<Rightarrow> CompareError + (Value \<times> Value)" where
  "resolve_both C T pa pb =
     and_then (ok_or (cmp_resolve C T pa) (TypeNotFound (''type_a not resolved: '' @ pa))) (\<lambda>a.
     and_then (ok_or (cmp_resolve C T pb) (TypeNotFound (''type_b not resolved: '' @ pb))) (\<lambda>b.
     Inr (a, b)))"

definition compare_value :: "string \<Rightarrow> string \<Rightarrow> (string \<times> Value) list \<Rightarrow> (string \<times> Value) list \<Rightarrow> Value" where
  "compare_value pa pb fa fb =
     VMap ([(text_val ''type_a_path'', text_val pa), (text_val ''type_b_path'', text_val pb),
            (text_val ''shared'', VMap (map (\<lambda>(n, a, b). (text_val n,
               field_comparison True (to_ecf (spec_constraints a) = to_ecf (spec_constraints b))
                 (spec_optional a) (spec_optional b))) (shared_names fa fb))),
            (text_val ''only_a'', VArray (map (text_val \<circ> fst) (only_in fa fb))),
            (text_val ''only_b'', VArray (map (text_val \<circ> fst) (only_in fb fa)))] @
           (if incompatible_names fa fb = [] then []
            else [(text_val ''incompatible'', VArray (incompatibility_values fa fb))]))"

definition compare :: "crates \<Rightarrow> type_tree \<Rightarrow> string \<Rightarrow> string \<Rightarrow> CompareError + entity" where
  "compare C T pa pb =
     and_then (resolve_both C T pa pb) (\<lambda>(a, b).
     map_err (\<lambda>_. Encode []) (new_entity C TYPE_COMPARE_RES (compare_value pa pb (fields_of a) (fields_of b))))"

definition compat_level :: "(string \<times> Value) list \<Rightarrow> (string \<times> Value) list \<Rightarrow> string" where
  "compat_level fa fb =
     (let forward_ok = required_only_in fb fa = [] \<and> incompatible_names fa fb = [];
          backward_ok = required_only_in fa fb = [] \<and> incompatible_names fa fb = []
      in if forward_ok \<and> backward_ok then ''fully_compatible''
         else if forward_ok then ''forward_only''
         else if backward_ok then ''backward_only''
         else if shared_names fa fb \<noteq> [] \<and> incompatible_names fa fb = [] then ''partially_compatible''
         else ''incompatible'')"

definition compatible_value ::
    "string \<Rightarrow> string \<Rightarrow> string \<Rightarrow> (string \<times> Value) list \<Rightarrow> (string \<times> Value) list \<Rightarrow> Value" where
  "compatible_value pa pb direction fa fb =
     VMap ([(text_val ''type_a_path'', text_val pa), (text_val ''type_b_path'', text_val pb),
            (text_val ''direction'', text_val (if direction = [] then ''bidirectional'' else direction)),
            (text_val ''level'', text_val (compat_level fa fb)),
            (text_val ''shared_fields'', VArray (map (text_val \<circ> fst) (shared_names fa fb)))] @
           (if incompatible_names fa fb = [] then []
            else [(text_val ''incompatible_fields'', VArray (incompatibility_values fa fb))]) @
           (if required_only_in fb fa = [] then []
            else [(text_val ''missing_required_a'', VArray (map text_val (required_only_in fb fa)))]) @
           (if required_only_in fa fb = [] then []
            else [(text_val ''missing_required_b'', VArray (map text_val (required_only_in fa fb)))]))"

definition compatible :: "crates \<Rightarrow> type_tree \<Rightarrow> string \<Rightarrow> string \<Rightarrow> string \<Rightarrow> CompareError + entity" where
  "compatible C T pa pb direction =
     and_then (resolve_both C T pa pb) (\<lambda>(a, b).
     map_err (\<lambda>_. Encode [])
       (new_entity C TYPE_COMPATIBILITY_REPORT (compatible_value pa pb direction (fields_of a) (fields_of b))))"

definition compare_error_result :: "crates \<Rightarrow> CompareError \<Rightarrow> string + handler_result" where
  "compare_error_result C e =
     (case e of
        TypeNotFound msg \<Rightarrow> error_result C STATUS_NOT_FOUND ''type_not_found'' msg
      | Encode msg \<Rightarrow> error_result C STATUS_INTERNAL_ERROR ''internal_error'' msg)"

definition report_result :: "crates \<Rightarrow> CompareError + entity \<Rightarrow> string + handler_result" where
  "report_result C r = (case r of Inr e \<Rightarrow> Inr (HandlerResult_ok e) | Inl e \<Rightarrow> compare_error_result C e)"

definition handle_compare :: "crates \<Rightarrow> type_tree \<Rightarrow> handler_context \<Rightarrow> string + handler_result" where
  "handle_compare C T ctx =
     (case from_reader C (data (ctx_params ctx)) of
        None \<Rightarrow> error_result C HANDLER_BAD_REQUEST ''invalid_request'' ''decode: ''
      | Some v \<Rightarrow>
          let type_a = dflt [] (text_at v ''type_a''); type_b = dflt [] (text_at v ''type_b'')
          in if type_a = [] \<or> type_b = []
             then error_result C HANDLER_BAD_REQUEST ''invalid_request'' ''type_a and type_b required''
             else report_result C (compare C T type_a type_b))"

definition handle_compatible :: "crates \<Rightarrow> type_tree \<Rightarrow> handler_context \<Rightarrow> string + handler_result" where
  "handle_compatible C T ctx =
     (case from_reader C (data (ctx_params ctx)) of
        None \<Rightarrow> error_result C HANDLER_BAD_REQUEST ''invalid_request'' ''decode: ''
      | Some v \<Rightarrow>
          let type_a = dflt [] (text_at v ''type_a''); type_b = dflt [] (text_at v ''type_b'');
              direction = dflt ''bidirectional'' (text_at v ''direction'')
          in if type_a = [] \<or> type_b = []
             then error_result C HANDLER_BAD_REQUEST ''invalid_request'' ''type_a and type_b required''
             else report_result C (compatible C T type_a type_b direction))"

definition type_handle :: "crates \<Rightarrow> type_tree \<Rightarrow> handler_context \<Rightarrow> string + handler_result" where
  "type_handle C T ctx =
     (if hc_operation ctx = ''validate'' then handle_validate C T ctx
      else if hc_operation ctx = ''compare'' then handle_compare C T ctx
      else if hc_operation ctx = ''compatible'' then handle_compatible C T ctx
      else error_result C STATUS_NOT_SUPPORTED ''unsupported_operation''
             (''system/type does not support '' @ hc_operation ctx))"

section \<open>The levels of the report\<close>

lemma map_filter_empty: "List.map_filter f xs = [] \<longleftrightarrow> (\<forall>x \<in> set xs. f x = None)"
  by (auto simp: List.map_filter_def filter_empty_conv)

lemma only_in_mem: "(n, a) \<in> set (only_in fa fb) \<longleftrightarrow> (n, a) \<in> set fa \<and> n \<notin> fst ` set fb"
  by (force simp: only_in_def list_ex_iff)

lemma required_only_in_empty:
  "required_only_in fa fb = [] \<longleftrightarrow> (\<forall>(n, a) \<in> set fa. spec_optional a \<or> n \<in> fst ` set fb)"
  by (force simp: required_only_in_def filter_empty_conv only_in_mem)

text \<open>The fields in conflict are the same from both sides, when no name is declared twice.\<close>

lemma incompatible_names_empty:
  assumes "distinct (map fst fb)"
  shows "incompatible_names fa fb = [] \<longleftrightarrow> (\<forall>n a b. (n, a) \<in> set fa \<longrightarrow> (n, b) \<in> set fb \<longrightarrow> type_ref a = type_ref b)"
  unfolding incompatible_names_def map_filter_empty
  using assms by (fastforce split: option.splits if_splits dest: map_of_SomeD intro: map_of_is_SomeI)

lemma shared_names_empty:
  assumes "distinct (map fst fb)"
  shows "shared_names fa fb = [] \<longleftrightarrow> (\<forall>n a b. (n, a) \<in> set fa \<longrightarrow> (n, b) \<in> set fb \<longrightarrow> type_ref a \<noteq> type_ref b)"
  unfolding shared_names_def map_filter_empty
  using assms by (fastforce split: option.splits if_splits dest: map_of_SomeD intro: map_of_is_SomeI)

lemma names_empty_swap:
  assumes "distinct (map fst fa)" "distinct (map fst fb)"
  shows "incompatible_names fa fb = [] \<longleftrightarrow> incompatible_names fb fa = []"
    and "shared_names fa fb = [] \<longleftrightarrow> shared_names fb fa = []"
  unfolding incompatible_names_empty [OF assms(1)] incompatible_names_empty [OF assms(2)]
    shared_names_empty [OF assms(1)] shared_names_empty [OF assms(2)] by metis+

definition swap_level :: "string \<Rightarrow> string" where
  "swap_level l = (if l = ''forward_only'' then ''backward_only'' else if l = ''backward_only'' then ''forward_only'' else l)"

text \<open>\<open>satisfies fa fb\<close>: a definition with the fields \<open>fa\<close> declares every field \<open>fb\<close> requires, and no field of
  both has two types.\<close>

definition satisfies :: "(string \<times> Value) list \<Rightarrow> (string \<times> Value) list \<Rightarrow> bool" where
  "satisfies fa fb \<longleftrightarrow>
     (\<forall>(n, b) \<in> set fb. spec_optional b \<or> n \<in> fst ` set fa) \<and>
     (\<forall>(n, a) \<in> set fa. \<forall>(m, b) \<in> set fb. m = n \<longrightarrow> type_ref a = type_ref b)"

section \<open>Properties\<close>

text \<open>The compatibility level says what it names: with no field declared twice, \<^verbatim>\<open>fully_compatible\<close> is that each
  definition declares the fields the other requires with agreeing types, \<^verbatim>\<open>forward_only\<close> and \<^verbatim>\<open>backward_only\<close> that only one does, and the
  report of the swapped pair is the report with the directions swapped.\<close>

theorem compat_level_correct:
  assumes "distinct (map fst fa)" "distinct (map fst fb)"
  shows "compat_level fa fb =
      (if satisfies fa fb \<and> satisfies fb fa then ''fully_compatible''
       else if satisfies fa fb then ''forward_only''
       else if satisfies fb fa then ''backward_only''
       else if shared_names fa fb \<noteq> [] \<and> incompatible_names fa fb = [] then ''partially_compatible''
       else ''incompatible'')
    \<and> compat_level fb fa = swap_level (compat_level fa fb)"
proof -
  have "satisfies fa fb \<longleftrightarrow> required_only_in fb fa = [] \<and> incompatible_names fa fb = []"
    unfolding satisfies_def required_only_in_empty incompatible_names_empty [OF assms(2)] by fastforce
  moreover have "satisfies fb fa \<longleftrightarrow> required_only_in fa fb = [] \<and> incompatible_names fa fb = []"
    unfolding satisfies_def required_only_in_empty names_empty_swap(1) [OF assms] incompatible_names_empty [OF assms(1)] by fastforce
  ultimately show ?thesis
    using names_empty_swap [OF assms] by (auto simp: compat_level_def swap_level_def Let_def)
qed

theorem compat_level_correct_witness:
  "compat_level [(''a'', VMap [])] [(''a'', VMap []), (''b'', VMap [])] = ''backward_only''"
proof -
  have "compat_level [(''a'', VMap []), (''b'', VMap [])] [(''a'', VMap [])] = ''forward_only''" by code_simp
  then show ?thesis
    using compat_level_correct [of "[(''a'', VMap []), (''b'', VMap [])]" "[(''a'', VMap [])]"] by (simp add: swap_level_def)
qed

text \<open>An unresolved type is a lookup miss: 404, whatever the other type.\<close>

lemma unresolved_is_404:
  assumes "crates_ok C" "from_reader C (data (ctx_params ctx)) = Some v" "text_at v ''type_a'' = Some a" "text_at v ''type_b'' = Some b"
    and "a \<noteq> []" "b \<noteq> []" "cmp_resolve C T a = None \<or> cmp_resolve C T b = None"
  shows "\<exists>res. handle_compare C T ctx = Inr res \<and> hr_status res = STATUS_NOT_FOUND"
    and "\<exists>res. handle_compatible C T ctx = Inr res \<and> hr_status res = STATUS_NOT_FOUND"
  using assms(2-) error_result_ok [OF assms(1)]
  by (auto simp: handle_compare_def handle_compatible_def compare_def compatible_def resolve_both_def report_result_def
      compare_error_result_def dflt_def ok_or_def and_then_def split: option.splits sum.splits)

subsection \<open>What the levels leave out\<close>

text \<open>A field optional in A and required in B does not lower the level: the pair is \<^verbatim>\<open>fully_compatible\<close>, and an entity valid
  for A is missing a required field of B.\<close>

definition one_field :: "bool \<Rightarrow> Value" where
  "one_field optional = VMap [(VText ''fields'', VMap [(VText ''x'', VMap [(VText ''optional'', VBool optional)])])]"

lemma compatible_ignores_optional:
  "compat_level (fields_of (one_field True)) (fields_of (one_field False)) = ''fully_compatible''"
  "required_present (one_field True) []" "\<not> required_present (one_field False) []"
  by code_simp+

end
