(* ===== verification/Handler_Dispatch.thy ===== *)
theory Handler_Dispatch
  imports Type_Validate Cap_Grant
begin

text \<open>
  The handler layer (\<^verbatim>\<open>core/handler/src/lib.rs\<close>): the bounds that travel with an operation, the selection of the one
  path an operation acts on from the resource of a request, the registry of handlers, and the resolution of a handler by the longest prefix of a
  path.  A refusal is a response: the inner sum of a result carries it on the left.
\<close>

section \<open>Bounds and dispatch targets\<close>

record bounds =
  b_ttl :: "u64 option"
  b_budget :: "u64 option"
  b_cascade_depth :: "u64 option"
  b_chain_depth :: "u64 option"
  b_chain_id :: "string option"
  b_parent_chain_id :: "string option"
  b_visited :: "string list"

definition bounds_decrement :: "bounds \<Rightarrow> string + bounds" where
  "bounds_decrement self =
     (case b_ttl self of
        None \<Rightarrow> Inr self
      | Some ttl \<Rightarrow> if ttl = 0 then Inl ''ttl_exhausted'' else Inr (self\<lparr>b_ttl := Some (ttl - 1)\<rparr>))"

definition aimed_qualify :: "string \<Rightarrow> string \<Rightarrow> string" where
  "aimed_qualify source_peer_id handler =
     (if starts_with handler ''entity://'' then handler
      else ''entity://'' @ source_peer_id @ ''/'' @ dropWhile (\<lambda>c. c = CHR ''/'') handler)"

section \<open>The subject of a request\<close>

datatype ResourceSubject = Absent | SelfExcluded | One string

definition refuse :: "crates \<Rightarrow> string \<Rightarrow> string \<Rightarrow> string + (handler_result + 'a)" where
  "refuse C code msg = and_then (error_result C HANDLER_BAD_REQUEST code msg) (\<lambda>r. Inr (Inl r))"

definition and_unless_refused ::
    "'e + ('r + 'a) \<Rightarrow> ('a \<Rightarrow> 'e + ('r + 'b)) \<Rightarrow> 'e + ('r + 'b)" where
  "and_unless_refused x k = and_then x (\<lambda>r. case r of Inl e \<Rightarrow> Inr (Inl e) | Inr a \<Rightarrow> k a)"

definition single_effective_target ::
    "crates \<Rightarrow> resource_target option \<Rightarrow> string \<Rightarrow> string \<Rightarrow> string + (handler_result + ResourceSubject)" where
  "single_effective_target C rt local_peer_id what =
     (let named_a_target = (case rt of Some r \<Rightarrow> targets r \<noteq> [] | None \<Rightarrow> False);
          effective = effective_targets rt local_peer_id
      in case effective of
           [] \<Rightarrow> Inr (Inr (if named_a_target then SelfExcluded else Absent))
         | [t] \<Rightarrow> Inr (Inr (One (canonicalize t local_peer_id)))
         | _ \<Rightarrow> refuse C ''ambiguous_resource''
                 (what @ '' requires exactly one resource target, got '' @ show_nat (length effective)))"

definition self_excluded_refusal :: "crates \<Rightarrow> string \<Rightarrow> string + (handler_result + 'a)" where
  "self_excluded_refusal C what =
     refuse C ''path_required''
       (what @ '': every resource target this request named is covered by its own exclude - the effective set is empty'')"

definition optional_single_resource_path ::
    "crates \<Rightarrow> resource_target option \<Rightarrow> string \<Rightarrow> string \<Rightarrow> string + (handler_result + string option)" where
  "optional_single_resource_path C rt local_peer_id what =
     and_unless_refused (single_effective_target C rt local_peer_id what) (\<lambda>subject.
     case subject of
       Absent \<Rightarrow> Inr (Inr None)
     | SelfExcluded \<Rightarrow> self_excluded_refusal C what
     | One path \<Rightarrow>
         if CHR ''*'' \<in> set path
         then refuse C ''malformed_resource'' (what @ '' requires a concrete resource path, not the pattern '' @ path)
         else Inr (Inr (Some path)))"

definition require_single_resource_path ::
    "crates \<Rightarrow> resource_target option \<Rightarrow> string \<Rightarrow> string \<Rightarrow> string + (handler_result + string)" where
  "require_single_resource_path C rt local_peer_id what =
     and_unless_refused (optional_single_resource_path C rt local_peer_id what) (\<lambda>subject.
     case subject of
       Some path \<Rightarrow> Inr (Inr path)
     | None \<Rightarrow> refuse C ''path_required'' (what @ '' requires a resource target''))"

section \<open>Registry and resolution\<close>

definition TYPE_HANDLER :: string where "TYPE_HANDLER = ''system/handler''"

type_synonym 'h registry = "(string, 'h) btree"

definition reg_new :: "'h registry" where "reg_new = []"

definition reg_register :: "string \<Rightarrow> 'h \<Rightarrow> 'h registry \<Rightarrow> 'h registry" where
  "reg_register pattern handler r = bt_insert pattern handler r"

definition reg_unregister :: "string \<Rightarrow> 'h registry \<Rightarrow> bool \<times> 'h registry" where
  "reg_unregister pattern r = (map_of r pattern \<noteq> None, bt_remove pattern r)"

definition reg_get :: "string \<Rightarrow> 'h registry \<Rightarrow> 'h option" where
  "reg_get pattern r = map_of r pattern"

definition reg_patterns :: "'h registry \<Rightarrow> string list" where
  "reg_patterns r = map fst r"

record 'h resolved_handler =
  rh_handler :: "'h option"
  rh_manifest :: "entity option"
  rh_pattern :: string
  rh_suffix :: string

fun join_slash :: "string list \<Rightarrow> string" where
  "join_slash [] = []"
| "join_slash [x] = x"
| "join_slash (x # y # rest) = x @ CHR ''/'' # join_slash (y # rest)"

definition manifest_at :: "content_store \<Rightarrow> loc_index \<Rightarrow> string \<Rightarrow> entity option" where
  "manifest_at store index pre =
     (case Option.bind (mli_get pre index) (\<lambda>h. mcs_get h store) of
        Some e \<Rightarrow> if entity_type e = TYPE_HANDLER then Some e else None | None \<Rightarrow> None)"

text \<open>The loop \<^verbatim>\<open>for i in (1..=segments.len()).rev()\<close>.\<close>

fun resolve_loop ::
    "content_store \<Rightarrow> loc_index \<Rightarrow> 'h registry \<Rightarrow> string \<Rightarrow> string list \<Rightarrow> nat \<Rightarrow> 'h resolved_handler option" where
  "resolve_loop store index r path segs 0 = None"
| "resolve_loop store index r path segs (Suc i) =
     (let pre = join_slash (take (Suc i) segs);
          suf = (if length pre < length path then drop (length pre) path else [])
      in case (reg_get pre r, manifest_at store index pre) of
           (Some h, manifest) \<Rightarrow> Some \<lparr>rh_handler = Some h, rh_manifest = manifest, rh_pattern = pre, rh_suffix = suf\<rparr>
         | (None, Some m) \<Rightarrow> Some \<lparr>rh_handler = None, rh_manifest = Some m, rh_pattern = pre, rh_suffix = suf\<rparr>
         | (None, None) \<Rightarrow> resolve_loop store index r path segs i)"

definition resolve_handler ::
    "string \<Rightarrow> content_store \<Rightarrow> loc_index \<Rightarrow> 'h registry \<Rightarrow> 'h resolved_handler option" where
  "resolve_handler path store index r =
     (let segs = str_split (CHR ''/'') path in resolve_loop store index r path segs (length segs))"

text \<open>The registry is an ordered map.\<close>

interpretation reg: ordered_map reg_new reg_register "\<lambda>p r. snd (reg_unregister p r)" "\<lambda>r p. reg_get p r" bt_wf
  by unfold_locales (auto simp: reg_new_def reg_register_def reg_unregister_def reg_get_def bt_simps intro: bt_ext)

section \<open>Prefixes by segments\<close>

text \<open>The prefixes of a path that end where a segment ends, shortest first.\<close>

fun seg_prefixes :: "string \<Rightarrow> string list" where
  "seg_prefixes [] = [[]]"
| "seg_prefixes (c # rest) =
     (if c = CHR ''/'' then [] # map ((#) c) (seg_prefixes rest) else map ((#) c) (seg_prefixes rest))"

definition seg_prefix :: "string \<Rightarrow> string \<Rightarrow> bool" where
  "seg_prefix p path \<longleftrightarrow> p = path \<or> (\<exists>s. path = p @ CHR ''/'' # s)"

lemma str_split_ne: "str_split c s \<noteq> []"
  by (induction s) (auto split: list.splits)

lemma join_slash_Cons: "xs \<noteq> [] \<Longrightarrow> join_slash (x # xs) = x @ CHR ''/'' # join_slash xs"
  by (cases xs) simp_all

lemma join_slash_push: "join_slash ((c # y) # ys) = c # join_slash (y # ys)"
  by (cases ys) simp_all

lemma joined_prefixes:
  "map (\<lambda>i. join_slash (take (Suc i) (str_split (CHR ''/'') path))) [0..<length (str_split (CHR ''/'') path)] = seg_prefixes path"
proof (induction path)
  case (Cons c rest)
  let ?S = "str_split (CHR ''/'') rest"
  show ?case
  proof (cases "c = CHR ''/''")
    case True
    have "map (\<lambda>i. join_slash (take (Suc i) ([] # ?S))) [0..<Suc (length ?S)] =
        [] # map (\<lambda>i. join_slash (take (Suc (Suc i)) ([] # ?S))) [0..<length ?S]"
      by (simp add: upt_conv_Cons comp_def del: upt_Suc flip: map_Suc_upt)
    also have "\<dots> = [] # map ((#) c) (map (\<lambda>i. join_slash (take (Suc i) ?S)) [0..<length ?S])"
      using True str_split_ne [of _ rest] by (auto simp: join_slash_Cons)
    finally show ?thesis using Cons.IH True by simp
  next
    case False
    obtain y ys where s: "?S = y # ys" using str_split_ne [of "CHR ''/''" rest] by (cases ?S) auto
    have "map (\<lambda>i. join_slash (take (Suc i) ((c # y) # ys))) [0..<length ?S] =
        map ((#) c) (map (\<lambda>i. join_slash (take (Suc i) ?S)) [0..<length ?S])"
      by (simp add: s join_slash_push)
    then have "map (\<lambda>i. join_slash (take (Suc i) ((c # y) # ys))) [0..<length ?S] = map ((#) c) (seg_prefixes rest)"
      by (simp only: Cons.IH)
    then show ?thesis using False s by (simp del: upt_Suc)
  qed
qed simp

lemma set_seg_prefixes: "set (seg_prefixes path) = {p. seg_prefix p path}"
proof (induction path)
  case Nil
  show ?case by (auto simp: seg_prefix_def)
next
  case (Cons c rest)
  have "seg_prefix p (c # rest) \<longleftrightarrow> p = [] \<and> c = CHR ''/'' \<or> (\<exists>q. p = c # q \<and> seg_prefix q rest)" for p
    by (cases p) (auto simp: seg_prefix_def)
  then show ?case using Cons by auto
qed

lemma sorted_seg_prefixes: "sorted_wrt (\<lambda>p q. length p < length q) (seg_prefixes path)"
  by (induction path) (auto simp: sorted_wrt_map)

definition bound_at :: "content_store \<Rightarrow> loc_index \<Rightarrow> 'h registry \<Rightarrow> string \<Rightarrow> bool" where
  "bound_at store index r p \<longleftrightarrow> reg_get p r \<noteq> None \<or> manifest_at store index p \<noteq> None"

definition resolved_at :: "content_store \<Rightarrow> loc_index \<Rightarrow> 'h registry \<Rightarrow> string \<Rightarrow> string \<Rightarrow> 'h resolved_handler" where
  "resolved_at store index r path p =
     \<lparr>rh_handler = reg_get p r, rh_manifest = manifest_at store index p, rh_pattern = p, rh_suffix = drop (length p) path\<rparr>"

lemma resolve_loop_find:
  "n \<le> length segs \<Longrightarrow>
   resolve_loop store index r path segs n =
   map_option (resolved_at store index r path)
     (List.find (bound_at store index r) (rev (map (\<lambda>i. join_slash (take (Suc i) segs)) [0..<n])))"
  by (induction n) (auto simp: Let_def bound_at_def resolved_at_def split: option.splits)

lemma find_last:
  assumes "sorted_wrt (\<lambda>x y. f x < (f y :: nat)) xs"
  shows "List.find P (rev xs) = Some x \<longleftrightarrow> x \<in> set xs \<and> P x \<and> (\<forall>y \<in> set xs. P y \<longrightarrow> f y \<le> f x)"
  using assms
proof (induction xs rule: rev_induct)
  case (snoc z zs)
  then have z: "\<And>y. y \<in> set zs \<Longrightarrow> f y < f z" "sorted_wrt (\<lambda>x y. f x < f y) zs" by (auto simp: sorted_wrt_append)
  show ?case
  proof (cases "P z")
    case True
    then show ?thesis using z(1) by (auto simp: less_imp_le) (meson leD)+
  next
    case False
    then show ?thesis using snoc.IH [OF z(2)] by auto
  qed
qed simp

lemma resolve_handler_find:
  "resolve_handler path store index r =
   map_option (resolved_at store index r path) (List.find (bound_at store index r) (rev (seg_prefixes path)))"
  by (simp add: resolve_handler_def Let_def resolve_loop_find joined_prefixes)

section \<open>Properties\<close>

text \<open>C21. Resolution is by the longest prefix of whole segments: it returns the handler of the longest such prefix that the
  registry or the tree binds, with the rest of the path as suffix, and nothing exactly when no prefix is bound.\<close>

theorem resolve_handler_longest:
  "(resolve_handler path store index r = Some h \<longleftrightarrow>
      (\<exists>p. seg_prefix p path \<and> bound_at store index r p \<and> h = resolved_at store index r path p \<and>
         (\<forall>q. seg_prefix q path \<and> bound_at store index r q \<longrightarrow> length q \<le> length p))) \<and>
   (resolve_handler path store index r = None \<longleftrightarrow> (\<nexists>p. seg_prefix p path \<and> bound_at store index r p))"
proof -
  have "List.find (bound_at store index r) (rev (seg_prefixes path)) = Some p \<longleftrightarrow>
      seg_prefix p path \<and> bound_at store index r p \<and>
      (\<forall>q. seg_prefix q path \<and> bound_at store index r q \<longrightarrow> length q \<le> length p)" for p
    using find_last [OF sorted_seg_prefixes, of "bound_at store index r" path p] by (auto simp: set_seg_prefixes)
  moreover have "List.find (bound_at store index r) (rev (seg_prefixes path)) = None \<longleftrightarrow> (\<nexists>p. seg_prefix p path \<and> bound_at store index r p)"
    by (auto simp: find_None_iff set_seg_prefixes)
  ultimately show ?thesis by (auto simp: resolve_handler_find)
qed

lemma require_path_Inr:
  assumes "require_single_resource_path C rt l what = Inr (Inr path)"
  obtains t where "effective_targets rt l = [t]" "path = canonicalize t l" "\<not> is_pattern path"
  using assms
  by (auto simp: require_single_resource_path_def optional_single_resource_path_def and_unless_refused_def
      single_effective_target_def refuse_def self_excluded_refusal_def is_pattern_def and_then_def Let_def
      split: sum.splits option.splits list.splits ResourceSubject.splits if_splits)

text \<open>C20. A handler acts on what was authorized: when a grant admitted the request, the one path that the selection returns is a
  concrete path that the request named and did not exclude, inside the includes and outside the excludes of the resources of that grant, however
  the targets and exclusions of the request were combined.\<close>

theorem subject_authorized:
  assumes "check_permission_with_grant operation handler_pattern target_peer (Some rt) cap l granter_peer = Some g"
    and "require_single_resource_path C (Some rt) l what = Inr (Inr path)"
  shows "g \<in> set (grants cap) \<and> path \<in> (\<lambda>t. canonicalize t l) ` set (targets rt) \<and> \<not> is_pattern path \<and>
    \<not> is_covered_by path (exclude rt) l \<and> is_covered_by path (path_include (resources g)) granter_peer \<and>
    survives_excludes path (path_exclude (resources g)) granter_peer"
proof -
  obtain t where t: "effective_targets (Some rt) l = [t]" "path = canonicalize t l" "\<not> is_pattern path"
    by (rule require_path_Inr [OF assms(2)])
  have g: "g \<in> set (grants cap)" "grant_admits operation handler_pattern target_peer (Some rt) l granter_peer False g"
    using assms(1) by (auto simp: check_permission_with_grant_def find_Some_iff)
  then have "target_in_scope t (exclude rt) (resources g) l granter_peer"
    using t(1) by (auto simp: grant_admits_def check_resource_scope_def split: if_splits)
  moreover have "t \<in> set (targets rt)" "\<not> is_covered_by (canonicalize t l) (exclude rt) l"
    using t(1) by (auto simp: effective_targets_def filter_eq_Cons_iff)
  ultimately show ?thesis using g(1) t by (simp add: target_in_scope_concrete)
qed

definition names_target :: "resource_target option \<Rightarrow> bool" where
  "names_target rt = (case rt of None \<Rightarrow> False | Some r \<Rightarrow> targets r \<noteq> [])"

lemma optional_path_cases:
  "effective_targets rt l = [] \<Longrightarrow> optional_single_resource_path C rt l what =
     (if names_target rt then self_excluded_refusal C what else Inr (Inr None))"
  "effective_targets rt l = [t] \<Longrightarrow> optional_single_resource_path C rt l what =
     (if is_pattern (canonicalize t l)
      then refuse C ''malformed_resource'' (what @ '' requires a concrete resource path, not the pattern '' @ canonicalize t l)
      else Inr (Inr (Some (canonicalize t l))))"
  "effective_targets rt l = t # u # us \<Longrightarrow> optional_single_resource_path C rt l what =
     and_unless_refused (refuse C ''ambiguous_resource''
       (what @ '' requires exactly one resource target, got '' @ show_nat (length (t # u # us)))) (\<lambda>_ :: unit. Inr (Inr None))"
  by (simp_all add: optional_single_resource_path_def single_effective_target_def and_unless_refused_def names_target_def
      is_pattern_def refuse_def and_then_def split: option.splits sum.splits)

text \<open>C22. The two empty requests are told apart: the behaviour for an absent resource is taken exactly when the request named no
  target at all; a request that excludes every target it named is refused, and so is one with several targets left or with a pattern.\<close>

theorem absent_case_exact:
  assumes "crates_ok C"
  shows "(optional_single_resource_path C rt l what = Inr (Inr None) \<longleftrightarrow> \<not> names_target rt) \<and>
    ((\<exists>path. optional_single_resource_path C rt l what = Inr (Inr (Some path))) \<longleftrightarrow>
       (\<exists>t. effective_targets rt l = [t] \<and> \<not> is_pattern (canonicalize t l))) \<and>
    (\<exists>x. optional_single_resource_path C rt l what = Inr x \<and> (\<forall>e. x = Inl e \<longrightarrow> hr_status e = HANDLER_BAD_REQUEST))"
proof -
  have r: "\<exists>e. refuse C code msg = Inr (Inl e) \<and> hr_status e = HANDLER_BAD_REQUEST" for code msg
    using error_result_ok [OF assms, of HANDLER_BAD_REQUEST code msg] by (auto simp: refuse_def)
  consider (none) "effective_targets rt l = []" | (one) t where "effective_targets rt l = [t]"
    | (more) t u us where "effective_targets rt l = t # u # us" by (metis neq_Nil_conv)
  then show ?thesis
  proof cases
    case none
    obtain e where "(self_excluded_refusal C what :: string + (handler_result + string option)) = Inr (Inl e) \<and> hr_status e = HANDLER_BAD_REQUEST"
      using r unfolding self_excluded_refusal_def by blast
    then show ?thesis using none by (simp add: optional_path_cases(1))
  next
    case (one t)
    then have "names_target rt" by (auto simp: names_target_def effective_targets_def split: option.splits)
    obtain e where "(refuse C ''malformed_resource'' (what @ '' requires a concrete resource path, not the pattern '' @ canonicalize t l)
        :: string + (handler_result + string option)) = Inr (Inl e) \<and> hr_status e = HANDLER_BAD_REQUEST" using r by blast
    with \<open>names_target rt\<close> one show ?thesis by (auto simp: optional_path_cases(2) simp del: append.simps)
  next
    case (more t u us)
    then have "names_target rt" by (auto simp: names_target_def effective_targets_def split: option.splits)
    obtain e where "(refuse C ''ambiguous_resource'' (what @ '' requires exactly one resource target, got '' @ show_nat (length (t # u # us)))
        :: string + (handler_result + unit)) = Inr (Inl e) \<and> hr_status e = HANDLER_BAD_REQUEST" using r by blast
    with \<open>names_target rt\<close> more show ?thesis by (simp add: optional_path_cases(3) and_unless_refused_def)
  qed
qed

text \<open>Every hop takes one unit: after \<open>n\<close> hops the limit has gone down by \<open>n\<close>, the other bounds are untouched, and a
  limit of \<open>n\<close> admits exactly \<open>n\<close> hops.\<close>

fun hops :: "nat \<Rightarrow> bounds \<Rightarrow> string + bounds" where
  "hops 0 b = Inr b"
| "hops (Suc n) b = and_then (bounds_decrement b) (hops n)"

lemma hops_bounded:
  assumes "b_ttl b = Some t"
  shows "hops n b = (if n \<le> unat t then Inr (b\<lparr>b_ttl := Some (t - word_of_nat n)\<rparr>) else Inl ''ttl_exhausted'')"
  using assms
proof (induction n arbitrary: b t)
  case (Suc n)
  show ?case
  proof (cases "t = 0")
    case False
    then have u: "unat (t - 1) = unat t - 1" "0 < unat t" by (simp_all add: unat_minus_one unat_gt_0)
    have "hops (Suc n) b = hops n (b\<lparr>b_ttl := Some (t - 1)\<rparr>)" using Suc.prems False by (simp add: bounds_decrement_def)
    also have "\<dots> = (if n \<le> unat (t - 1) then Inr (b\<lparr>b_ttl := Some (t - 1 - word_of_nat n)\<rparr>) else Inl ''ttl_exhausted'')"
      using Suc.IH [of "b\<lparr>b_ttl := Some (t - 1)\<rparr>" "t - 1"] by simp
    finally show ?thesis using u by (auto simp: algebra_simps)
  qed (use Suc.prems in \<open>simp add: bounds_decrement_def\<close>)
qed simp

lemma aimed_qualify_idem: "aimed_qualify p (aimed_qualify q h) = aimed_qualify q h"
  by (auto simp: aimed_qualify_def starts_with_def)

text \<open>A handler answers for its own pattern from its registration on.\<close>

lemma registered_resolves:
  assumes "bt_wf r"
  shows "\<exists>x. resolve_handler pattern store index (reg_register pattern h r) = Some x \<and> rh_handler x = Some h \<and> rh_suffix x = []"
proof -
  let ?r = "reg_register pattern h r"
  have g: "reg_get pattern ?r = Some h" using fun_cong [OF reg.get_insert [OF assms, of pattern h], of pattern] by simp
  then have b: "bound_at store index ?r pattern" by (simp add: bound_at_def)
  have "length q \<le> length pattern" if "seg_prefix q pattern" for q using that by (auto simp: seg_prefix_def)
  then have "List.find (bound_at store index ?r) (rev (seg_prefixes pattern)) = Some pattern"
    using b find_last [OF sorted_seg_prefixes, of "bound_at store index ?r" pattern pattern]
    by (auto simp: set_seg_prefixes seg_prefix_def)
  then show ?thesis using g by (simp add: resolve_handler_find resolved_at_def)
qed

text \<open>The constraint handler is bound at \<^verbatim>\<open>system/type/constraint\<close>: a path of a standard constraint resolves to it as long as
  nothing is bound at the path itself.\<close>

lemma constraint_path_resolves:
  assumes "reg_get base r = Some h" "base = ''/'' @ peer @ ''/system/type/constraint''"
    and "\<not> bound_at store index r (base @ ''/'' @ kind)" "CHR ''/'' \<notin> set kind"
  shows "\<exists>x. resolve_handler (base @ ''/'' @ kind) store index r = Some x \<and> rh_handler x = Some h \<and>
    rh_pattern x = base \<and> rh_suffix x = ''/'' @ kind"
proof -
  have "length q \<le> length base" if q: "seg_prefix q (base @ ''/'' @ kind)" "bound_at store index r q" for q
  proof (rule ccontr)
    assume long: "\<not> length q \<le> length base"
    have "q \<noteq> base @ ''/'' @ kind" using q(2) assms(3) by auto
    then obtain s where s: "base @ ''/'' @ kind = q @ CHR ''/'' # s" using q(1) by (auto simp: seg_prefix_def)
    then obtain u where "q = base @ ''/'' @ u" using long by (auto simp: append_eq_append_conv2 Cons_eq_append_conv)
    then have "CHR ''/'' \<in> set kind" using s by auto
    then show False using assms(4) by blast
  qed
  moreover have "seg_prefix base (base @ ''/'' @ kind)" "bound_at store index r base"
    using assms(1) by (auto simp: seg_prefix_def bound_at_def)
  ultimately have "List.find (bound_at store index r) (rev (seg_prefixes (base @ ''/'' @ kind))) = Some base"
    using find_last [OF sorted_seg_prefixes, of "bound_at store index r" "base @ ''/'' @ kind" base] by (auto simp: set_seg_prefixes)
  then show ?thesis using assms(1) by (simp add: resolve_handler_find resolved_at_def)
qed

subsection \<open>Examples\<close>

theorem resolve_handler_longest_witness:
  "\<exists>p. seg_prefix p ''a/b/c'' \<and> bound_at [] [] [(''a'', 1 :: nat), (''a/b'', 2)] p \<and> length p \<ge> 3"
proof -
  have "resolve_handler ''a/b/c'' [] [] [(''a'', 1 :: nat), (''a/b'', 2)] =
      Some \<lparr>rh_handler = Some 2, rh_manifest = None, rh_pattern = ''a/b'', rh_suffix = ''/c''\<rparr>" by code_simp
  moreover have "seg_prefix ''a/b'' ''a/b/c''" "bound_at [] [] [(''a'', 1 :: nat), (''a/b'', 2)] ''a/b''"
    by (auto simp: seg_prefix_def bound_at_def reg_get_def)
  ultimately show ?thesis using resolve_handler_longest [of "''a/b/c''" "[]" "[]" "[(''a'', 1 :: nat), (''a/b'', 2)]"]
    by (metis length_Cons list.size(3) numeral_3_eq_3 order_refl)
qed

definition ex_target :: resource_target where
  "ex_target = \<lparr>targets = [''a'', ''b''], exclude = [''a'']\<rparr>"

definition ex_cap :: capability_token where
  "ex_cap = \<lparr>grants = wildcard_handler_grant, granter = Single hash_zero, grantee = hash_zero, parent = None, created_at = 0,
     expires_at = None, not_before = None, delegation_caveats = None\<rparr>"

definition ex_me :: string where "ex_me = replicate 46 (CHR ''1'')"

theorem subject_authorized_witness:
  "\<exists>g. g \<in> set (grants ex_cap) \<and> is_covered_by (''/'' @ ex_me @ ''/b'') (path_include (resources g)) ex_me \<and> \<not> is_covered_by (''/'' @ ex_me @ ''/b'') (exclude ex_target) ex_me"
proof -
  have "list_ex (grant_admits ''get'' ''system/tree'' ex_me (Some ex_target) ex_me ex_me False) (grants ex_cap)" by code_simp
  then obtain g where g: "check_permission_with_grant ''get'' ''system/tree'' ex_me (Some ex_target) ex_cap ex_me ex_me = Some g"
    by (cases "check_permission_with_grant ''get'' ''system/tree'' ex_me (Some ex_target) ex_cap ex_me ex_me")
       (auto simp: check_permission_with_grant_def find_None_iff list_ex_iff)
  have "effective_targets (Some ex_target) ex_me = [''b'']" "canonicalize ''b'' ex_me = (''/'' @ ex_me @ ''/b'')" "\<not> is_pattern (''/'' @ ex_me @ ''/b'')" by code_simp+
  then have "require_single_resource_path ex_crates (Some ex_target) ex_me ''get'' = Inr (Inr (''/'' @ ex_me @ ''/b''))"
    by (simp add: require_single_resource_path_def optional_path_cases(2) and_unless_refused_def)
  from subject_authorized [OF g this] show ?thesis by blast
qed

theorem absent_case_exact_witness:
  "optional_single_resource_path ex_crates (Some \<lparr>targets = [''a''], exclude = [''a'']\<rparr>) ''L'' ''get'' \<noteq> Inr (Inr None)"
  using absent_case_exact [OF ex_crates_ok, of "Some \<lparr>targets = [''a''], exclude = [''a'']\<rparr>" "''L''" "''get''"]
  by (simp add: names_target_def)

end
