(* ===== verification/Spec2Isabelle.thy ===== *)
theory Spec2Isabelle
  imports Prelude Ecf Content_Hash Entity_Uri Entity_Model Cap_Pattern Cap_Grant Cap_Token Store_Model Emit_Pathway Revision_Dag Revision_Merge Trie_Main Trie_Walk Chain_Main Wire_Main Connect_Main Cap_Mint Type_Compare Handler_Dispatch
begin

text \<open>
  \<^bold>\<open>Entity Core, verified.\<close>  The program is a peer-to-peer node: everything it stores or
  sends is an \<^emph>\<open>entity\<close> (a type, a CBOR payload and the hash of both); entities live in a
  content store and are named by paths in a location index; authority is a chain of signed capability tokens; a
  peer talks to another over framed envelopes after a handshake; extensions keep versioned
  snapshots of the tree.  This development follows the crates of the repository from the bottom up.

  \<^bold>\<open>Parts and theories\<close>

  \<^item> \<open>Prelude\<close>: machine integers, Rust strings as byte strings, results with early return
    (\<open>and_then\<close>, \<open>ensure\<close>, \<open>ok_or\<close>), \<^verbatim>\<open>BTreeMap\<close> as a sorted association list with the locale of ordered maps that
    clients rely on.
  \<^item> \<open>Ecf\<close> (\<^verbatim>\<open>core/ecf\<close>): the canonical encoder down to the bits of floats.  Encodings are
    self-delimiting, and equal exactly for values with the same canonical form.
  \<^item> \<open>Content_Hash\<close> (\<^verbatim>\<open>core/hash\<close>): hash formats, the struct and its logical value, wire, CBOR and text
    forms and their round trips.
  \<^item> \<open>Entity_Uri\<close>, \<open>Entity_Model\<close> (\<^verbatim>\<open>core/entity\<close>): paths, URIs, entities and envelopes; validated envelopes are
    content addressed.
  \<^item> \<open>Cap_Pattern\<close>, \<open>Cap_Grant\<close>, \<open>Cap_Token\<close> (\<^verbatim>\<open>core/capability/src/lib.rs\<close>): patterns and scopes, permission checks,
    attenuation, caveats, and the wire form of tokens.  The main results: the comparison of patterns is
    sound for inclusion of what they match, and an attenuated token authorizes nothing its parent does
    not.
  \<^item> \<open>Peer_Identity\<close> (\<^verbatim>\<open>core/crypto\<close>, part of \<^verbatim>\<open>core/types\<close>): key types, peer identifiers, identity and signature
    entities; an identifier determines its key up to a collision of the digest.
  \<^item> \<open>Chain_Verify\<close>, \<open>Chain_Authority\<close>, \<open>Chain_Main\<close> (\<^verbatim>\<open>core/protocol/src/verify.rs\<close>): the walk over a capability chain,
    verification of chains and requests, revocation, chain bundles.  An accepted chain is signed link by link,
    at most 65 links long, and ends in a root granted by the local peer that
    authorizes whatever the leaf authorizes.
  \<^item> \<open>Wire\<close>, \<open>Wire_Codec\<close>, \<open>Wire_Main\<close> (\<^verbatim>\<open>core/wire\<close>): frames, the walker over CBOR items, the entity and
    envelope codecs.  The walker accepts exactly a grammar that is given by the rules of RFC 8949 for heads and items; envelopes
    round-trip byte for byte; frames do not depend on how a stream is cut.
  \<^item> \<open>Connect\<close>, \<open>Connect_Main\<close> (\<^verbatim>\<open>core/protocol/src/connect.rs\<close>): hello and authenticate, negotiation, and the connection
    as a state machine with an invariant over all sequences of received messages.
  \<^item> \<open>Store_Model\<close>, \<open>Emit_Pathway\<close> (\<^verbatim>\<open>core/store/src/lib.rs\<close>): the in-memory stores, and the notifying index whose
    hooks may write to it while they run.
  \<^item> \<open>Trie_Node\<close>, \<open>Trie_Ops\<close>, \<open>Trie_Canon\<close>, \<open>Trie_Put\<close>, \<open>Trie_Remove\<close>, \<open>Trie_Main\<close>, \<open>Trie_Walk\<close> (\<^verbatim>\<open>core/tree/src/trie.rs\<close>): the hash trie
    of a snapshot over a content store; it implements a map, and its root depends on the bindings only.
  \<^item> \<open>Revision_Dag\<close>, \<open>Revision_Merge\<close> (\<^verbatim>\<open>extensions/revision\<close>): ancestry searches and the three-way merge
    with its strategies, the alternates of keep-both included.
  \<^item> \<open>Cap_Mint\<close> (\<^verbatim>\<open>core/capability/src/mint.rs\<close>): re-attenuation; a minted leaf is the token asked for,
    and the target's check of its link then depends on attenuation and caveats only.
  \<^item> \<open>F64_Order\<close>, \<open>Type_System\<close>, \<open>Type_Narrowing\<close>, \<open>Type_Validate\<close>, \<open>Type_Compare\<close> (\<^verbatim>\<open>extensions/type-system\<close>, results and
    errors of \<^verbatim>\<open>core/handler\<close>): constraints and their evaluation, narrowing along \<^verbatim>\<open>extends\<close>, two-phase validation
    with the dispatch of constraints, comparison of definitions.  The outcome of validation, panics included, is characterised, and
    what is accepted under an accepted definition meets the constraints of its ancestors, where the constraint entries of
    all these definitions are well formed.
  \<^item> \<open>Handler_Dispatch\<close> (\<^verbatim>\<open>core/handler/src/lib.rs\<close>): bounds, the selection of the one path an operation acts on, the registry
    and the resolution of handlers.  The selected path is one the capability authorized; resolution is by the
    longest bound prefix.

  \<^bold>\<open>Correspondence.\<close>  A struct is a record, an enum a datatype, a \<^verbatim>\<open>Result\<close> a sum with the error on the left,
  a \<^verbatim>\<open>&mut self\<close> operation returns the new state beside its result, and a panic is a value of the error type.  A
  loop over the entries of a decoded map is \<open>run_fields\<close> with one step per field.  Error texts keep
  their constant part; formatted values in them are left out.

  \<^bold>\<open>Parameters.\<close>  Code that is not in the repository is an argument: the digests (\<open>digests\<close>, law \<open>digests_ok\<close>:
  output lengths), the curves and Base58 (\<open>crypto\<close>, law \<open>base58_ok\<close>), the CBOR reader and writer of
  \<^verbatim>\<open>ciborium\<close> (\<open>dec\<close>, law \<open>dec_ok\<close>: reads back what the encoder wrote; \<open>ser\<close>), the clock, the nonce and the
  process-wide home format; for the type system the same with the \<^verbatim>\<open>regex\<close> crate as the record \<open>crates\<close> (law
  \<open>crates_ok\<close>), and the dispatcher of its context (law \<open>routes_constraints\<close>,
  which stands for the dispatch of \<^verbatim>\<open>core/peer\<close> and constrains the standard constraint kinds only).  \<^verbatim>\<open>ciborium\<close> limits the nesting of what it reads and
  wants text in UTF-8; \<open>dec_ok\<close> is used at the shallow values that the code itself encodes, whose text comes from Rust strings.  A request is verified at one
  instant, where the code reads the clock once for the request and once for the chain.  Each law is met by a concrete instance that the witnesses use.

  \<^bold>\<open>Bounds and fuel.\<close>  Searches and walkers are total functions with termination proofs.  Fuel appears in two places.
  A write through the notifying index has 33 units, one more than the depth limit of the code, and
  \<open>emit_returns\<close> shows that they suffice.  The trie operations have one unit per level of the 256-bit key,
  52 levels of 5 bits, and the operations on stored tries are shown to return.  The chain walk is bounded by
  the limit of 64 delegations in the code itself.  Lengths are natural numbers, and the theorems on the wire codec
  assume what an address space guarantees, that a byte string is shorter than \<open>2 ^ 64\<close>.

  \<^bold>\<open>Findings.\<close>  Where the code does not do what its documentation says, the theorem that shows it stands beside the
  definition, outside the list of properties: among them \<open>signature_replay_accepted\<close> (the hash of inline
  authenticate parameters is never recomputed), \<open>declared_count_panics\<close> and \<open>nesting_unbounded\<close> (resource use
  chosen by the sender), \<open>pattern_target_escapes_exclude\<close>, \<open>admit_handler_uri_foreign\<close>,
  \<open>chain_rejection_commits\<close>, \<open>mli_create_skips_boundary\<close>, \<open>closure_misses_shared_node\<close>, \<open>caveat_limit_lost\<close>,
  \<open>varint_overflow_accepted\<close>, \<open>peer_id_alias\<close>, \<open>datetime_panics\<close>, \<open>duplicate_key_widens\<close>, \<open>missing_pattern_widens\<close>,
  \<open>min_admits_less\<close>, \<open>compatible_ignores_optional\<close>, \<open>dropped_write_committed\<close>, \<open>keep_both_overwrites\<close> and
  \<open>common_ancestor_order_dependent\<close>.

  \<^bold>\<open>Not modelled.\<close>  The asynchronous runtime around these parts (\<^verbatim>\<open>core/peer\<close>: sockets, timers, task scheduling), the persistent
  back ends behind the store traits (SQLite, browser storage, files), the
  remaining extensions, which are handlers over the modelled core, and the bindings, commands and examples.  Key
  generation and key files are random numbers and I/O.  The stack depth of a recursion is not part of the model.
\<close>

end
